(* ===== verification/Prelude.thy ===== *)
theory Prelude
  imports Main "HOL-Library.AList" "HOL-Library.Word"
begin

text \<open>
  Shared vocabulary of the development.

  \<^item> \<open>('e, 'a) res\<close> is Rust's \<open>Result<T, E>\<close> with one more constructor for a panic
    (\<open>assert!\<close>, \<open>expect\<close>, \<open>panic!\<close>), so that every early return and every abort of the source
    is a value; \<open>sbind\<close> sequences operations that pass a state along.
  \<^item> \<open>('k, 'v) amap\<close> is a map with an iteration order: the source's \<open>HashMap\<close> and \<open>SlotMap\<close>
    arenas. The list order stands for the (unspecified) iteration order of the container.
  \<^item> \<open>transition_system\<close> is the interface of every step relation of the development: an initial
    condition and a step relation give the reachable states and the invariant rule.
\<close>

section \<open>Named collections\<close>

named_theorems amap_simps \<open>lookups in maps after an update\<close>
named_theorems res_simps \<open>inversion of results and sequencing\<close>

section \<open>Machine integers\<close>

type_synonym u8 = "8 word"
type_synonym u16 = "16 word"
type_synonym u32 = "32 word"
type_synonym u64 = "64 word"
type_synonym usize = "64 word"

lemma unat_add_one: "(w :: 'a :: len word) \<noteq> - 1 \<Longrightarrow> unat (w + 1) = Suc (unat w)"
  by (metis add.commute add_eq_0_iff unatSuc)

section \<open>Results\<close>

datatype ('e, 'a) res = Panicked string | Err 'e | Ok 'a

definition is_ok :: "('e, 'a) res \<Rightarrow> bool" where
  "is_ok r = (case r of Ok _ \<Rightarrow> True | _ \<Rightarrow> False)"

fun rbind :: "('e, 'a) res \<Rightarrow> ('a \<Rightarrow> ('e, 'b) res) \<Rightarrow> ('e, 'b) res" where
  "rbind (Panicked p) f = Panicked p"
| "rbind (Err e) f = Err e"
| "rbind (Ok a) f = f a"

fun ok_or :: "'e \<Rightarrow> 'a option \<Rightarrow> ('e, 'a) res" where
  "ok_or e None = Err e"
| "ok_or e (Some a) = Ok a"

lemma is_ok_simps [simp, res_simps]:
  "is_ok (Ok a)" "\<not> is_ok (Err e)" "\<not> is_ok (Panicked p)"
  by (simp_all add: is_ok_def)

lemma is_ok_iff [res_simps]: "is_ok r \<longleftrightarrow> (\<exists>a. r = Ok a)"
  by (cases r) (simp_all add: is_ok_def)

lemma rbind_Ok_iff [res_simps]: "rbind r f = Ok b \<longleftrightarrow> (\<exists>a. r = Ok a \<and> f a = Ok b)"
  by (cases r) simp_all

lemma rbind_Err_iff [res_simps]:
  "rbind r f = Err e \<longleftrightarrow> r = Err e \<or> (\<exists>a. r = Ok a \<and> f a = Err e)"
  by (cases r) simp_all

lemma rbind_assoc [simp]: "rbind (rbind r f) g = rbind r (\<lambda>a. rbind (f a) g)"
  by (cases r) simp_all

lemma ok_or_Ok_iff [simp, res_simps]: "ok_or e x = Ok a \<longleftrightarrow> x = Some a"
  by (cases x) simp_all

lemma ok_or_Err_iff [simp, res_simps]: "ok_or e x = Err e' \<longleftrightarrow> x = None \<and> e' = e"
  by (cases x) auto

lemma ok_or_not_panicked [simp]: "ok_or e x \<noteq> Panicked p"
  by (cases x) simp_all

type_synonym ('s, 'e, 'a) sres = "'s \<Rightarrow> ('e, 'a) res \<times> 's"

definition sbind :: "('s, 'e, 'a) sres \<Rightarrow> ('a \<Rightarrow> ('s, 'e, 'b) sres) \<Rightarrow> ('s, 'e, 'b) sres" where
  "sbind m f s = (case m s of
      (Panicked p, s') \<Rightarrow> (Panicked p, s')
    | (Err e, s') \<Rightarrow> (Err e, s')
    | (Ok a, s') \<Rightarrow> f a s')"

lemma sbind_Ok_iff [res_simps]:
  "sbind m f s = (Ok b, s'') \<longleftrightarrow> (\<exists>a s'. m s = (Ok a, s') \<and> f a s' = (Ok b, s''))"
  by (auto simp: sbind_def split: prod.splits res.splits)

lemma sbind_simps [simp]:
  "m s = (Ok a, s') \<Longrightarrow> sbind m f s = f a s'"
  "m s = (Err e, s') \<Longrightarrow> sbind m f s = (Err e, s')"
  "m s = (Panicked p, s') \<Longrightarrow> sbind m f s = (Panicked p, s')"
  by (simp_all add: sbind_def)

section \<open>Maps with an iteration order\<close>

type_synonym ('k, 'v) amap = "('k \<times> 'v) list"

abbreviation aget :: "('k, 'v) amap \<Rightarrow> 'k \<Rightarrow> 'v option" where
  "aget m k \<equiv> map_of m k"

abbreviation aput :: "'k \<Rightarrow> 'v \<Rightarrow> ('k, 'v) amap \<Rightarrow> ('k, 'v) amap" where
  "aput k v m \<equiv> AList.update k v m"

abbreviation adel :: "'k \<Rightarrow> ('k, 'v) amap \<Rightarrow> ('k, 'v) amap" where
  "adel k m \<equiv> AList.delete k m"

abbreviation amod :: "'k \<Rightarrow> ('v \<Rightarrow> 'v) \<Rightarrow> ('k, 'v) amap \<Rightarrow> ('k, 'v) amap" where
  "amod k f m \<equiv> AList.map_entry k f m"

abbreviation akeys :: "('k, 'v) amap \<Rightarrow> 'k list" where
  "akeys m \<equiv> map fst m"

abbreviation avals :: "('k, 'v) amap \<Rightarrow> 'v list" where
  "avals m \<equiv> map snd m"

lemma aget_aput [simp, amap_simps]: "aget (aput k v m) k' = (if k' = k then Some v else aget m k')"
  by (simp add: update_conv')

lemma aget_adel [simp, amap_simps]: "aget (adel k m) k' = (if k' = k then None else aget m k')"
  by (simp add: delete_conv')

lemma aget_amod [simp, amap_simps]:
  "aget (amod k f m) k' = (if k' = k then map_option f (aget m k') else aget m k')"
  by (induction m) (auto split: prod.splits)

lemma akeys_amod [simp]: "akeys (amod k f m) = akeys m"
  by (induction m) (auto split: prod.splits)

lemma length_amod [simp]: "length (amod k f m) = length m"
  by (induction m) (auto split: prod.splits)

lemma aget_None_iff [amap_simps]: "aget m k = None \<longleftrightarrow> k \<notin> set (akeys m)"
  by (simp add: map_of_eq_None_iff)

lemma aget_Some_key: "aget m k = Some v \<Longrightarrow> k \<in> set (akeys m)"
  by (metis aget_None_iff option.distinct(1))

lemma aput_fresh: "k \<notin> set (akeys m) \<Longrightarrow> aput k v m = m @ [(k, v)]"
  by (induction m) auto

lemma distinct_aput [simp]: "distinct (akeys m) \<Longrightarrow> distinct (akeys (aput k v m))"
  by (rule distinct_update)

lemma set_akeys_aput [simp]: "set (akeys (aput k v m)) = insert k (set (akeys m))"
  by (simp add: dom_update[symmetric] dom_map_of_conv_image_fst[symmetric] update_conv' insert_commute)

lemma set_akeys_adel [simp]: "set (akeys (adel k m)) = set (akeys m) - {k}"
  by (simp add: delete_keys [symmetric] AList.delete_eq) auto

lemma distinct_adel [simp]: "distinct (akeys m) \<Longrightarrow> distinct (akeys (adel k m))"
  by (simp add: distinct_delete)

lemma length_adel: "distinct (akeys m) \<Longrightarrow> aget m k = Some v \<Longrightarrow> length (adel k m) = length m - 1"
proof (induction m)
  case Nil
  then show ?case by simp
next
  case (Cons p m)
  show ?case
  proof (cases "fst p = k")
    case True
    with Cons.prems have "k \<notin> set (akeys m)" by auto
    then have "adel k m = m" by (simp add: delete_id)
    with True show ?thesis by (cases p) simp
  next
    case False
    with Cons have "length (adel k m) = length m - 1" "m \<noteq> []" by (cases p; auto)+
    with False show ?thesis by (cases p) (simp add: Suc_leI)
  qed
qed

lemma length_aput:
  "length (aput k v m) = (if k \<in> set (akeys m) then length m else Suc (length m))"
  by (induction m) auto

section \<open>Step relations\<close>

locale transition_system =
  fixes init :: "'s \<Rightarrow> bool"
    and step :: "'s \<Rightarrow> 's \<Rightarrow> bool"
begin

inductive reachable :: "'s \<Rightarrow> bool" where
  start: "init s \<Longrightarrow> reachable s"
| step: "reachable s \<Longrightarrow> step s t \<Longrightarrow> reachable t"

text \<open>An inductive invariant holds in every reachable state.\<close>

lemma invariant:
  assumes "reachable s" and "\<And>s. init s \<Longrightarrow> I s" and "\<And>s t. I s \<Longrightarrow> step s t \<Longrightarrow> I t"
  shows "I s"
  using assms(1) by induction (auto intro: assms)

text \<open>A step may use an invariant that was established before.\<close>

lemma invariant_with:
  assumes "reachable s" and "\<And>s. reachable s \<Longrightarrow> J s" and "\<And>s. init s \<Longrightarrow> I s"
    and "\<And>s t. J s \<Longrightarrow> I s \<Longrightarrow> step s t \<Longrightarrow> I t"
  shows "I s"
  using assms(1) by induction (auto intro: assms)

text \<open>A predicate that no step falsifies stays true along every run.\<close>

lemma stable_rtranclp:
  assumes "step\<^sup>*\<^sup>* s t" and "P s" and "\<And>s t. P s \<Longrightarrow> step s t \<Longrightarrow> P t"
  shows "P t"
  using assms(1,2) by induction (auto intro: assms(3))

lemma reachable_rtranclp: "reachable s \<Longrightarrow> step\<^sup>*\<^sup>* s t \<Longrightarrow> reachable t"
  by (rotate_tac 1, induction rule: rtranclp_induct) (auto intro: reachable.step)

end

end
