(* ===== verification/Core_Types.thy ===== *)
theory Core_Types
  imports Prelude "HOL-Library.Char_ord" "HOL-Library.List_Lexorder"
begin

text \<open>
  The contracts of \<^verbatim>\<open>cordis-core\<close>: identities, the Fiber state machine
  (\<^verbatim>\<open>lifecycle.rs\<close>), service and invocation keys (\<^verbatim>\<open>service.rs\<close>, \<^verbatim>\<open>invocation.rs\<close>), plugin
  descriptors (\<^verbatim>\<open>plugin.rs\<close>), effects (\<^verbatim>\<open>effect.rs\<close>) and the error taxonomy (\<^verbatim>\<open>error.rs\<close>).

  Generational arena handles are natural numbers: an arena hands out a handle it has not handed
  out before. A Rust string slice is a \<open>string\<close>, whose characters are the bytes of its UTF-8 form.
\<close>

section \<open>Handles\<close>

type_synonym scope_id = nat
type_synonym fiber_id = nat
type_synonym plugin_id = nat
type_synonym handler_id = nat
type_synonym invocation_handler_id = nat
type_synonym invocation_middleware_id = nat
type_synonym effect_id = nat
type_synonym task_id = nat
type_synonym invocation_id = u64

section \<open>Fiber lifecycle\<close>

datatype fiber_state =
    Created | WaitingDependencies | Starting | Active | Reloading | Disposing | Disposed | Failed

definition can_transition_to :: "fiber_state \<Rightarrow> fiber_state \<Rightarrow> bool" where
  "can_transition_to self next = (case self of
      Created \<Rightarrow> next \<in> {WaitingDependencies, Starting, Disposing}
    | WaitingDependencies \<Rightarrow> next \<in> {Starting, Disposing}
    | Starting \<Rightarrow> next \<in> {Active, Failed, Disposing}
    | Reloading \<Rightarrow> next \<in> {Active, Failed, Disposing}
    | Active \<Rightarrow> next \<in> {Reloading, Disposing, Failed}
    | Failed \<Rightarrow> next \<in> {Disposing}
    | Disposing \<Rightarrow> next \<in> {Disposed, WaitingDependencies}
    | Disposed \<Rightarrow> False)"

lemma disposed_terminal [simp]: "\<not> can_transition_to Disposed s"
  by (simp add: can_transition_to_def)

lemma can_transition_irrefl [simp]: "\<not> can_transition_to s s"
  by (cases s) (simp_all add: can_transition_to_def)

lemma into_disposed_iff: "can_transition_to s Disposed \<longleftrightarrow> s = Disposing"
  by (cases s) (simp_all add: can_transition_to_def)

lemma into_disposing_iff: "can_transition_to s Disposing \<longleftrightarrow> s \<notin> {Disposing, Disposed}"
  by (cases s) (simp_all add: can_transition_to_def)

lemma into_active_iff: "can_transition_to s Active \<longleftrightarrow> s \<in> {Starting, Reloading}"
  by (cases s) (simp_all add: can_transition_to_def)

section \<open>Service and invocation identities\<close>

datatype service_symbol = ServiceSymbol (symbol_index: u32)

definition from_index :: "u32 \<Rightarrow> service_symbol" where
  "from_index i = ServiceSymbol i"

datatype service_key =
  ServiceKey (sk_namespace: string) (sk_name: string) (sk_version: u32)

datatype invocation_key =
  InvocationKey (ik_namespace: string) (ik_name: string) (ik_version: u32)

text \<open>The derived \<open>Ord\<close> compares the fields in declaration order.\<close>

instantiation service_key :: linorder
begin

definition less_eq_service_key :: "service_key \<Rightarrow> service_key \<Rightarrow> bool" where
  "less_eq_service_key a b \<longleftrightarrow>
     sk_namespace a < sk_namespace b \<or>
     sk_namespace a = sk_namespace b \<and>
       (sk_name a < sk_name b \<or> sk_name a = sk_name b \<and> sk_version a \<le> sk_version b)"

definition less_service_key :: "service_key \<Rightarrow> service_key \<Rightarrow> bool" where
  "less_service_key a b \<longleftrightarrow> a \<le> b \<and> \<not> b \<le> a"

instance
proof
  fix x y z :: service_key
  show "x < y \<longleftrightarrow> x \<le> y \<and> \<not> y \<le> x" by (simp add: less_service_key_def)
  show "x \<le> x" by (simp add: less_eq_service_key_def)
  show "x \<le> y \<Longrightarrow> y \<le> z \<Longrightarrow> x \<le> z" by (auto simp: less_eq_service_key_def)
  show "x \<le> y \<Longrightarrow> y \<le> x \<Longrightarrow> x = y"
    by (auto simp: less_eq_service_key_def intro: service_key.expand)
  show "x \<le> y \<or> y \<le> x" by (auto simp: less_eq_service_key_def)
qed

end

instantiation invocation_key :: linorder
begin

definition less_eq_invocation_key :: "invocation_key \<Rightarrow> invocation_key \<Rightarrow> bool" where
  "less_eq_invocation_key a b \<longleftrightarrow>
     ik_namespace a < ik_namespace b \<or>
     ik_namespace a = ik_namespace b \<and>
       (ik_name a < ik_name b \<or> ik_name a = ik_name b \<and> ik_version a \<le> ik_version b)"

definition less_invocation_key :: "invocation_key \<Rightarrow> invocation_key \<Rightarrow> bool" where
  "less_invocation_key a b \<longleftrightarrow> a \<le> b \<and> \<not> b \<le> a"

instance
proof
  fix x y z :: invocation_key
  show "x < y \<longleftrightarrow> x \<le> y \<and> \<not> y \<le> x" by (simp add: less_invocation_key_def)
  show "x \<le> x" by (simp add: less_eq_invocation_key_def)
  show "x \<le> y \<Longrightarrow> y \<le> z \<Longrightarrow> x \<le> z" by (auto simp: less_eq_invocation_key_def)
  show "x \<le> y \<Longrightarrow> y \<le> x \<Longrightarrow> x = y"
    by (auto simp: less_eq_invocation_key_def intro: invocation_key.expand)
  show "x \<le> y \<or> y \<le> x" by (auto simp: less_eq_invocation_key_def)
qed

end

text \<open>
  A dynamically typed value (\<open>Arc<dyn Any>\<close>) is its type identity and its content; a downcast
  compares type identities.
\<close>

datatype native_value = NativeValue (nv_type: nat) (nv_content: nat)

datatype service_value = ServiceNative native_value | ServiceExternal string

datatype invocation_value =
    InvocationNative native_value
  | InvocationExternal (iv_format: string) (iv_bytes: "u8 list")

definition downcast_native :: "nat \<Rightarrow> invocation_value \<Rightarrow> (invocation_value, native_value) res" where
  "downcast_native ty v = (case v of
      InvocationNative value \<Rightarrow> if nv_type value = ty then Ok value else Err (InvocationNative value)
    | InvocationExternal f b \<Rightarrow> Err (InvocationExternal f b))"

record invocation_metadata =
  im_id :: invocation_id
  im_key :: invocation_key
  im_scope :: scope_id
  im_caller :: fiber_id

definition invocation_metadata_new ::
  "invocation_id \<Rightarrow> invocation_key \<Rightarrow> scope_id \<Rightarrow> fiber_id \<Rightarrow> invocation_metadata" where
  "invocation_metadata_new iid key scope caller =
     \<lparr>im_id = iid, im_key = key, im_scope = scope, im_caller = caller\<rparr>"

section \<open>Plugin metadata\<close>

datatype dependency_policy = Restart | Dispose

record plugin_descriptor =
  pd_name :: string
  pd_dependencies :: "service_key list"
  pd_provisions :: "service_key list"
  pd_dependency_policy :: dependency_policy
  pd_revision :: u64

datatype dispatch_mode = Emit | Bail | Serial | Parallel | Waterfall

section \<open>Errors\<close>

datatype host_failure_kind =
    HandshakeIncompatible | ProtocolViolation | TransportClosed | ProcessExited | ProcessKilled
  | MessageTooLarge | UnsupportedFormat | UnsupportedCapability | Overloaded | Unavailable

datatype host_error = HostError (he_kind: host_failure_kind) (he_message: string)

datatype remote_domain_error =
  RemoteDomainError (rd_code: string) (rd_message: string) (rd_details: "(string \<times> u8 list) option")

definition remote_domain_error_new :: "string \<Rightarrow> string \<Rightarrow> remote_domain_error" where
  "remote_domain_error_new code message = RemoteDomainError code message None"

definition with_details :: "string \<Rightarrow> u8 list \<Rightarrow> remote_domain_error \<Rightarrow> remote_domain_error" where
  "with_details format bytes e = RemoteDomainError (rd_code e) (rd_message e) (Some (format, bytes))"

datatype resource_kind =
    Scopes | Fibers | TasksPerFiber | HandlersPerFiber | EffectsPerFiber | ChildScopesPerFiber
  | ScopeDepth | ServiceSymbols

datatype cleanup_phase =
    TaskDrain | ProviderDrain | ChildScopeCleanup | EventCleanup | ServiceCleanup | EffectCleanup
  | DependencyCleanup | ScopeDetach | FiberDetach | StagingRollback | Worker

text \<open>
  Formatted diagnostics keep the values they were formatted from instead of the rendered text:
  \<open>Lit\<close> is literal text, \<open>ErrText e\<close> is \<open>e.to_string()\<close>, \<open>Cat\<close> concatenates, and \<open>Dbg\<close> is the
  debug rendering of a list of handles. \<open>Display\<close> itself (the \<open>thiserror\<close> templates) is not modelled.
\<close>

datatype 'e error_text =
    Lit string
  | ErrText 'e
  | PhaseText cleanup_phase
  | StateText fiber_state
  | KeyText service_key
  | KeysText "service_key list"
  | NumText usize
  | Dbg "nat list"
  | Cat "'e error_text list"

datatype (plugins only: size code) cordis_error =
    InvalidRuntimeConfig "cordis_error error_text"
  | Host host_error
  | RemoteDomain remote_domain_error
  | ResourceLimitExceeded resource_kind usize
  | InvalidFiberState fiber_id fiber_state fiber_state
  | FiberNotFound
  | FiberInactive fiber_id
  | FiberLifecycleOwned fiber_id
  | StaleContextGeneration fiber_id u64 u64
  | ActivationSealed fiber_id
  | CapabilityPublicationFailed fiber_id
  | ScopeNotFound
  | ScopeDisposed scope_id
  | ServiceNotFound service_key
  | ServiceGenerationDraining fiber_id
  | TypeMismatch service_key
  | DuplicateService service_key
  | DependencyMissing service_key
  | DependencyCycle "cordis_error error_text"
  | PluginStartFailed "cordis_error error_text"
  | ActivationFailed cordis_error "cordis_error list"
  | ReloadFailed cordis_error "cordis_error list"
  | ReloadCommitted fiber_id cordis_error
  | PluginDisposeFailed "cordis_error error_text"
  | DisposalWorkerPanicked "cordis_error error_text"
  | DisposalWorkerCancelled
  | DisposalWorkerTerminated "cordis_error error_text"
  | ScopeDisposalPanicked "cordis_error error_text"
  | ScopeDisposalCancelled
  | ScopeDisposalTerminated "cordis_error error_text"
  | ShutdownWorkerPanicked "cordis_error error_text"
  | ShutdownWorkerCancelled
  | ShutdownTimedOut
  | CleanupFailed "cordis_error error_text"
  | RuntimeShuttingDown
  | EventTypeMismatch
  | EventHandlerPanicked "cordis_error error_text"
  | InvocationHandlerNotFound invocation_key
  | InvocationGenerationChanged
  | InvocationTypeMismatch invocation_key
  | DuplicateInvocationHandler invocation_key
  | InvocationCancelled
  | InvocationHandlerPanicked "cordis_error error_text"
  | InvocationMiddlewarePanicked "cordis_error error_text"
  | InvocationFailed "cordis_error error_text"
  | InvocationTimedOut
  | TaskCancelled
  | TaskPanicked "cordis_error error_text"
  | Timeout
  | PluginPanicked "cordis_error error_text"
  | RevisionValidationFailed "cordis_error error_text"
  | Invariant "cordis_error error_text"
type_synonym message = "cordis_error error_text"
type_synonym 'a cres = "(cordis_error, 'a) res"

text \<open>Terminal cleanup errors (\<^verbatim>\<open>runtime/mod.rs\<close>): the worker stopped before convergence.\<close>

definition is_terminal_cleanup_error :: "cordis_error \<Rightarrow> bool" where
  "is_terminal_cleanup_error e = (case e of
      DisposalWorkerPanicked _ \<Rightarrow> True
    | DisposalWorkerCancelled \<Rightarrow> True
    | DisposalWorkerTerminated _ \<Rightarrow> True
    | ScopeDisposalPanicked _ \<Rightarrow> True
    | ScopeDisposalCancelled \<Rightarrow> True
    | ScopeDisposalTerminated _ \<Rightarrow> True
    | _ \<Rightarrow> False)"

section \<open>Effects\<close>

text \<open>
  \<open>FnEffect\<close> holds its cleanup closure in an \<open>Option\<close> that \<open>dispose\<close> takes. The closure is
  identified by a number; \<open>run\<close> is what the closure returns.
\<close>

datatype fn_effect = FnEffect "nat option"

definition effect_fn :: "nat \<Rightarrow> fn_effect" where
  "effect_fn dispose = FnEffect (Some dispose)"

definition fn_effect_dispose :: "(nat \<Rightarrow> unit cres) \<Rightarrow> fn_effect \<Rightarrow> unit cres \<times> fn_effect" where
  "fn_effect_dispose run e = (case e of
      FnEffect (Some dispose) \<Rightarrow> (run dispose, FnEffect None)
    | FnEffect None \<Rightarrow> (Err (Invariant (Lit ''effect disposed twice'')), FnEffect None))"

end
