(* ===== verification/Interfaces.thy ===== *)
theory Interfaces
  imports Core_Types
begin

text \<open>
  The contracts components rely on, as locales; each is interpreted on the model's own
  definitions in the theory of the component that provides it.

  \<^item> \<open>lease_provider\<close>: admission to a generation. The clients are the dispatchers of events and
    invocations, Context admission and service handles; the provider is the capability gate.
  \<^item> \<open>one_shot\<close>: a slot that is published at most once and observed for ever after. The providers
    are the disposal and the shutdown completions.
\<close>

section \<open>Leases\<close>

text \<open>Acquire in order and stop at the first refusal; the result lists the leases taken.\<close>

fun acquire_all ::
  "('g \<Rightarrow> 's \<Rightarrow> bool cres \<times> 's) \<Rightarrow> 'g list \<Rightarrow> 's \<Rightarrow> (bool \<times> 'g list) cres \<times> 's" where
  "acquire_all acq [] s = (Ok (True, []), s)"
| "acquire_all acq (g # gs) s = sbind (acq g) (\<lambda>granted s1.
     if granted then sbind (acquire_all acq gs) (\<lambda>(b, ls) s2. (Ok (b, g # ls), s2)) s1
     else (Ok (False, []), s1)) s"

fun release_all :: "('g \<Rightarrow> 's \<Rightarrow> unit cres \<times> 's) \<Rightarrow> 'g list \<Rightarrow> 's \<Rightarrow> unit cres \<times> 's" where
  "release_all rel [] s = (Ok (), s)"
| "release_all rel (g # gs) s = sbind (rel g) (\<lambda>_. release_all rel gs) s"

locale lease_provider =
  fixes acquire :: "'g \<Rightarrow> 's \<Rightarrow> bool cres \<times> 's"
    and release :: "'g \<Rightarrow> 's \<Rightarrow> unit cres \<times> 's"
    and held :: "'s \<Rightarrow> 'g \<Rightarrow> nat"
    and free :: "'s \<Rightarrow> 'g \<Rightarrow> nat"
    and accepting :: "'s \<Rightarrow> 'g \<Rightarrow> bool"
    and wf :: "'s \<Rightarrow> bool"
    and view :: "'s \<Rightarrow> 'v"
  assumes acquire_ok: "wf s \<Longrightarrow> accepting s g \<Longrightarrow> free s g \<noteq> 0 \<Longrightarrow>
      \<exists>s'. acquire g s = (Ok True, s') \<and> wf s' \<and> accepting s' = accepting s \<and> view s' = view s \<and>
        held s' = (held s)(g := Suc (held s g)) \<and> free s' = (free s)(g := free s g - 1)"
    and acquire_refused: "wf s \<Longrightarrow> \<not> accepting s g \<Longrightarrow> acquire g s = (Ok False, s)"
    and release_ok: "wf s \<Longrightarrow> held s g \<noteq> 0 \<Longrightarrow>
      \<exists>s'. release g s = (Ok (), s') \<and> wf s' \<and> accepting s' = accepting s \<and> view s' = view s \<and>
        held s' = (held s)(g := held s g - 1) \<and> free s' = (free s)(g := Suc (free s g))"
begin

lemma acquire_all_spec:
  assumes "wf s" and "\<And>g. count_list gs g \<le> free s g"
  shows "\<exists>b ls s'. acquire_all acquire gs s = (Ok (b, ls), s') \<and> wf s' \<and>
    accepting s' = accepting s \<and> view s' = view s \<and>
    held s' = (\<lambda>g. held s g + count_list ls g) \<and> free s' = (\<lambda>g. free s g - count_list ls g) \<and>
    ls = takeWhile (accepting s) gs \<and> (b \<longleftrightarrow> (\<forall>g \<in> set gs. accepting s g))"
  using assms
proof (induction gs arbitrary: s)
  case Nil
  then show ?case by auto
next
  case (Cons g gs)
  show ?case
  proof (cases "accepting s g")
    case False
    with acquire_refused Cons.prems(1) show ?thesis by auto
  next
    case True
    have "free s g \<noteq> 0" using Cons.prems(2) [of g] by simp
    then obtain s1 where s1: "acquire g s = (Ok True, s1)" "wf s1" "accepting s1 = accepting s"
        "view s1 = view s" "held s1 = (held s)(g := Suc (held s g))"
        "free s1 = (free s)(g := free s g - 1)"
      using acquire_ok Cons.prems(1) True by blast
    have "count_list gs h \<le> free s1 h" for h
      using Cons.prems(2) [of h] s1(6) by (auto split: if_splits)
    from Cons.IH [OF s1(2) this]
    obtain b ls s' where s': "acquire_all acquire gs s1 = (Ok (b, ls), s')" "wf s'"
        "accepting s' = accepting s1" "view s' = view s1"
        "held s' = (\<lambda>g. held s1 g + count_list ls g)" "free s' = (\<lambda>g. free s1 g - count_list ls g)"
        "ls = takeWhile (accepting s1) gs" "b \<longleftrightarrow> (\<forall>g \<in> set gs. accepting s1 g)" by blast
    have "acquire_all acquire (g # gs) s = (Ok (b, g # ls), s')"
      using s1(1) s'(1) by simp
    moreover have "held s' = (\<lambda>h. held s h + count_list (g # ls) h)"
      "free s' = (\<lambda>h. free s h - count_list (g # ls) h)"
      using s1(5,6) s'(5,6) by (auto simp: fun_eq_iff)
    ultimately show ?thesis using s' s1 True by auto
  qed
qed

lemma release_all_spec:
  assumes "wf s" and "\<And>g. count_list ls g \<le> held s g"
  shows "\<exists>s'. release_all release ls s = (Ok (), s') \<and> wf s' \<and>
    accepting s' = accepting s \<and> view s' = view s \<and>
    held s' = (\<lambda>g. held s g - count_list ls g) \<and> free s' = (\<lambda>g. free s g + count_list ls g)"
  using assms
proof (induction ls arbitrary: s)
  case Nil
  then show ?case by auto
next
  case (Cons g gs)
  have "held s g \<noteq> 0" using Cons.prems(2) [of g] by simp
  then obtain s1 where s1: "release g s = (Ok (), s1)" "wf s1" "accepting s1 = accepting s"
      "view s1 = view s" "held s1 = (held s)(g := held s g - 1)"
      "free s1 = (free s)(g := Suc (free s g))"
    using release_ok Cons.prems(1) by blast
  have "count_list gs h \<le> held s1 h" for h
    using Cons.prems(2) [of h] s1(5) by (auto split: if_splits)
  from Cons.IH [OF s1(2) this]
  obtain s' where s': "release_all release gs s1 = (Ok (), s')" "wf s'"
      "accepting s' = accepting s1" "view s' = view s1"
      "held s' = (\<lambda>g. held s1 g - count_list gs g)" "free s' = (\<lambda>g. free s1 g + count_list gs g)"
    by blast
  have "release_all release (g # gs) s = (Ok (), s')" using s1(1) s'(1) by simp
  moreover have "held s' = (\<lambda>h. held s h - count_list (g # gs) h)"
      "free s' = (\<lambda>h. free s h + count_list (g # gs) h)"
    using s1(5,6) s'(5,6) by (auto simp: fun_eq_iff)
  ultimately show ?case using s' s1 by auto
qed

text \<open>Giving every lease back restores the counters, whether admission succeeded or not.\<close>

lemma acquire_release:
  assumes "wf s" and "\<And>g. count_list gs g \<le> free s g"
    and "acquire_all acquire gs s = (Ok (b, ls), s1)"
  shows "\<exists>s2. release_all release ls s1 = (Ok (), s2) \<and> wf s2 \<and> accepting s2 = accepting s \<and>
    view s2 = view s \<and> held s2 = held s \<and> free s2 = free s"
proof -
  from acquire_all_spec [OF assms(1,2)] assms(3)
  have s1: "wf s1" "accepting s1 = accepting s" "view s1 = view s"
      "held s1 = (\<lambda>g. held s g + count_list ls g)" "free s1 = (\<lambda>g. free s g - count_list ls g)"
      "ls = takeWhile (accepting s) gs"
    by auto
  have "count_list (takeWhile P gs) g \<le> count_list gs g" for P g
    by (induction gs) auto
  then have "count_list ls g \<le> free s g" for g
    using assms(2) [of g] s1(6) by (meson le_trans)
  moreover have "count_list ls g \<le> held s1 g" for g using s1(4) by simp
  ultimately show ?thesis
    using release_all_spec [OF s1(1), of ls] s1 by (auto simp: fun_eq_iff)
qed

text \<open>One admitted use: acquire, then give back.\<close>

lemma acquire_then_release:
  assumes "wf s" and "accepting s g" and "free s g \<noteq> 0"
  shows "\<exists>s1 s2. acquire g s = (Ok True, s1) \<and> wf s1 \<and> view s1 = view s \<and> release g s1 = (Ok (), s2) \<and>
    wf s2 \<and> accepting s2 = accepting s \<and> held s2 = held s \<and> free s2 = free s \<and> view s2 = view s"
proof -
  obtain s1 where s1: "acquire g s = (Ok True, s1)" "wf s1" "accepting s1 = accepting s"
      "view s1 = view s" "held s1 = (held s)(g := Suc (held s g))"
      "free s1 = (free s)(g := free s g - 1)"
    using acquire_ok assms by blast
  have "held s1 g \<noteq> 0" using s1(5) by simp
  then obtain s2 where s2: "release g s1 = (Ok (), s2)" "wf s2" "accepting s2 = accepting s1"
      "view s2 = view s1" "held s2 = (held s1)(g := held s1 g - 1)"
      "free s2 = (free s1)(g := Suc (free s1 g))"
    using release_ok s1(2) by blast
  have "held s2 = held s" "free s2 = free s"
    using s1(5,6) s2(5,6) assms(3) by (auto simp: fun_eq_iff)
  with s1 s2 show ?thesis by auto
qed

end

section \<open>One-shot publication\<close>

locale one_shot =
  fixes publish :: "'o \<Rightarrow> 'c \<Rightarrow> bool \<times> 'c"
    and observe :: "'c \<Rightarrow> 'o option"
  assumes publish_empty: "observe c = None \<Longrightarrow> fst (publish v c) \<and> observe (snd (publish v c)) = Some v"
    and publish_full: "observe c = Some w \<Longrightarrow> \<not> fst (publish v c) \<and> observe (snd (publish v c)) = Some w"
begin

fun publish_all :: "'o list \<Rightarrow> 'c \<Rightarrow> 'c" where
  "publish_all [] c = c"
| "publish_all (v # vs) c = publish_all vs (snd (publish v c))"

lemma observation_stable: "observe c = Some w \<Longrightarrow> observe (publish_all vs c) = Some w"
  by (induction vs arbitrary: c) (auto simp: publish_full)

text \<open>Whatever is published later, an observer sees the first publication.\<close>

lemma first_publication_wins:
  "observe c = None \<Longrightarrow> observe (publish_all vs c) = (case vs of [] \<Rightarrow> None | v # _ \<Rightarrow> Some v)"
  by (cases vs) (auto simp: publish_empty observation_stable)

lemma published_once: "fst (publish v c) \<Longrightarrow> \<not> fst (publish w (publish_all vs (snd (publish v c))))"
proof -
  assume "fst (publish v c)"
  then have "observe c = None" using publish_full by (cases "observe c") auto
  then have "observe (snd (publish v c)) = Some v" using publish_empty by blast
  then have "observe (publish_all vs (snd (publish v c))) = Some v" by (rule observation_stable)
  then show ?thesis using publish_full by blast
qed

end

end
