(* ===== verification/Gate.thy ===== *)
theory Gate
  imports Interfaces
begin

unbundle bit_operations_syntax

text \<open>
  Admission and capability gates (\<^verbatim>\<open>gate.rs\<close>).

  \<^item> \<open>AdmissionGate\<close>: the shutdown fence, with its outstanding read guards.
  \<^item> \<open>GenerationExecution\<close>: state (2 bits) and in-flight count (62 bits) packed in one atomic
    word. Each operation is a load followed by a compare-and-swap loop; \<open>acquire_body\<close>,
    \<open>drain_body\<close> and \<open>drop_body\<close> are the bodies of the loops, and the atomic operations run one
    uncontended iteration. The theory \<open>Gate_Concurrency\<close> interleaves the loops of many threads.
  \<^item> \<open>CapabilityGate\<close>: gates live in a store because selectors and gates are shared through
    \<open>Arc\<close>; a gate is a reference, and pointer equality is equality of references.
\<close>

section \<open>Generation identities\<close>

type_synonym generation_id = u64

definition GEN_NONE :: generation_id where
  "GEN_NONE = 0"

section \<open>Admission gate\<close>

definition RUNNING :: u8 where "RUNNING = 0"
definition SHUTTING_DOWN :: u8 where "SHUTTING_DOWN = 1"
definition SHUTDOWN :: u8 where "SHUTDOWN = 2"

record admission_gate =
  ag_state :: u8
  ag_readers :: nat  \<comment> \<open>read guards of \<open>linearization\<close> that are still alive\<close>

definition admission_default :: admission_gate where
  "admission_default = \<lparr>ag_state = RUNNING, ag_readers = 0\<rparr>"

definition admission_enter :: "admission_gate \<Rightarrow> unit cres \<times> admission_gate" where
  "admission_enter g =
     (if ag_state g = RUNNING then (Ok (), g\<lparr>ag_readers := Suc (ag_readers g)\<rparr>)
      else (Err RuntimeShuttingDown, g))"

definition admission_leave :: "admission_gate \<Rightarrow> admission_gate" where
  "admission_leave g = g\<lparr>ag_readers := ag_readers g - 1\<rparr>"

text \<open>\<open>None\<close>: the caller blocks on the write lock because a read guard is alive.\<close>

definition begin_shutdown :: "admission_gate \<Rightarrow> (bool \<times> admission_gate) option" where
  "begin_shutdown g =
     (if ag_readers g \<noteq> 0 then None
      else if ag_state g = RUNNING then Some (True, g\<lparr>ag_state := SHUTTING_DOWN\<rparr>)
      else Some (False, g))"

definition complete_shutdown :: "admission_gate \<Rightarrow> admission_gate" where
  "complete_shutdown g = g\<lparr>ag_state := SHUTDOWN\<rparr>"

section \<open>Generation execution word\<close>

datatype generation_execution_state = Accepting | Draining | Drained

definition EXECUTION_STATE_BITS :: nat where
  "EXECUTION_STATE_BITS = 2"
definition EXECUTION_STATE_MASK :: usize where
  "EXECUTION_STATE_MASK = push_bit EXECUTION_STATE_BITS 1 - 1"
definition EXECUTION_INFLIGHT_ONE :: usize where
  "EXECUTION_INFLIGHT_ONE = push_bit EXECUTION_STATE_BITS 1"
definition EXECUTION_MAX_INFLIGHT :: usize where
  "EXECUTION_MAX_INFLIGHT = drop_bit EXECUTION_STATE_BITS (- 1)"
definition EXECUTION_ACCEPTING :: usize where "EXECUTION_ACCEPTING = 0"
definition EXECUTION_DRAINING :: usize where "EXECUTION_DRAINING = 1"
definition EXECUTION_DRAINED :: usize where "EXECUTION_DRAINED = 2"

lemmas execution_consts =
  EXECUTION_STATE_BITS_def EXECUTION_STATE_MASK_def EXECUTION_INFLIGHT_ONE_def
  EXECUTION_MAX_INFLIGHT_def EXECUTION_ACCEPTING_def EXECUTION_DRAINING_def EXECUTION_DRAINED_def

text \<open>\<open>None\<close> is the panic on the reserved fourth state.\<close>

definition execution_state :: "usize \<Rightarrow> generation_execution_state option" where
  "execution_state word =
     (let s = word AND EXECUTION_STATE_MASK in
      if s = EXECUTION_ACCEPTING then Some Accepting
      else if s = EXECUTION_DRAINING then Some Draining
      else if s = EXECUTION_DRAINED then Some Drained
      else None)"

definition execution_inflight :: "usize \<Rightarrow> usize" where
  "execution_inflight word = drop_bit EXECUTION_STATE_BITS word"

definition execution_word :: "usize \<Rightarrow> usize \<Rightarrow> usize" where
  "execution_word state inflight = push_bit EXECUTION_STATE_BITS inflight OR state"

subsection \<open>Arithmetic of the packed word\<close>

lemma mask_eq: "EXECUTION_STATE_MASK = mask 2"
  by (simp add: execution_consts mask_eq_exp_minus_1)

lemma one_eq: "EXECUTION_INFLIGHT_ONE = 4"
  by (simp add: execution_consts)

lemma max_inflight: "unat EXECUTION_MAX_INFLIGHT = 2 ^ 62 - 1"
proof -
  have eq: "EXECUTION_MAX_INFLIGHT = 4611686018427387903"
    by (simp add: execution_consts mask_eq_exp_minus_1)
  show ?thesis unfolding eq by simp
qed

lemma unat_state_bits: "unat (w AND EXECUTION_STATE_MASK) = unat w mod 4"
  unfolding mask_eq take_bit_eq_mask [symmetric] unsigned_take_bit_eq by (simp add: take_bit_eq_mod)

lemma unat_inflight: "unat (execution_inflight w) = unat w div 4"
  unfolding execution_inflight_def EXECUTION_STATE_BITS_def unat_drop_bit_eq
  by (simp add: drop_bit_eq_div)

lemma execution_state_unat:
  "execution_state w = (if unat w mod 4 = 0 then Some Accepting
     else if unat w mod 4 = 1 then Some Draining
     else if unat w mod 4 = 2 then Some Drained else None)"
  by (simp add: execution_state_def Let_def EXECUTION_ACCEPTING_def EXECUTION_DRAINING_def
      EXECUTION_DRAINED_def word_unat_eq_iff unat_state_bits)

lemma inflight_le_max: "unat (execution_inflight w) \<le> unat EXECUTION_MAX_INFLIGHT"
proof -
  have "unat w < 2 ^ 64" using unsigned_less [of w, where 'a = nat] by simp
  then show ?thesis unfolding unat_inflight max_inflight by simp
qed

lemma unat_execution_word:
  assumes "unat n \<le> unat EXECUTION_MAX_INFLIGHT" and "unat s < 4"
  shows "unat (execution_word s n) = 4 * unat n + unat s"
proof -
  have n: "unat n < 2 ^ 62" using assms(1) by (simp add: max_inflight)
  have s: "take_bit 2 s = s"
    using assms(2) unfolding word_unat_eq_iff unsigned_take_bit_eq by (simp add: take_bit_eq_mod)
  have z: "push_bit 2 n AND s = 0"
    by (subst s [symmetric]) (rule bit_word_eqI, auto simp: bit_simps)
  have "push_bit 2 n OR s = push_bit 2 n + s"
    using z by (simp add: disjunctive_add_eq_or)
  moreover have "unat (push_bit 2 n) = 4 * unat n"
    using n by (simp add: push_bit_eq_mult unat_word_ariths)
  ultimately show ?thesis
    using n assms(2) by (simp add: execution_word_def EXECUTION_STATE_BITS_def unat_word_ariths)
qed

lemma unat_add_one_inflight:
  assumes "unat (execution_inflight w) < unat EXECUTION_MAX_INFLIGHT"
  shows "unat (w + EXECUTION_INFLIGHT_ONE) = unat w + 4"
  using assms unfolding one_eq by (simp add: unat_inflight max_inflight unat_word_ariths)

section \<open>Generation execution\<close>

record generation_execution =
  ge_word :: usize
  ge_service_handles :: usize

definition generation_execution_default :: generation_execution where
  "generation_execution_default = \<lparr>ge_word = EXECUTION_ACCEPTING, ge_service_handles = 0\<rparr>"

text \<open>
  One iteration of a compare-and-swap loop: leave the loop without a write, try to write a new
  word, or panic.
\<close>

datatype cas_decision = CasReturn | CasTo usize | CasPanic string

definition acquire_body :: "usize \<Rightarrow> cas_decision" where
  "acquire_body current = (case execution_state current of
      None \<Rightarrow> CasPanic ''reserved generation execution state''
    | Some st \<Rightarrow>
        if st \<noteq> Accepting then CasReturn
        else if execution_inflight current < EXECUTION_MAX_INFLIGHT
        then CasTo (current + EXECUTION_INFLIGHT_ONE)
        else CasPanic ''generation inflight counter overflow'')"

definition drain_body :: "usize \<Rightarrow> cas_decision" where
  "drain_body current = (case execution_state current of
      None \<Rightarrow> CasPanic ''reserved generation execution state''
    | Some st \<Rightarrow>
        if st \<noteq> Accepting then CasReturn
        else let inflight = execution_inflight current in
          CasTo (if inflight = 0 then execution_word EXECUTION_DRAINED 0
                 else execution_word EXECUTION_DRAINING inflight))"

definition drop_body :: "usize \<Rightarrow> cas_decision" where
  "drop_body current = (case execution_state current of
      None \<Rightarrow> CasPanic ''reserved generation execution state''
    | Some state \<Rightarrow>
        let inflight = execution_inflight current in
        if inflight = 0 then CasPanic ''generation lease underflow''
        else if state = Drained then CasPanic ''debug_assert: state != Drained''
        else let remaining = inflight - 1;
                 next_state = (if state = Draining \<and> remaining = 0 then EXECUTION_DRAINED
                               else current AND EXECUTION_STATE_MASK)
             in CasTo (execution_word next_state remaining))"

definition try_acquire_kind :: "bool \<Rightarrow> generation_execution \<Rightarrow> bool cres \<times> generation_execution" where
  "try_acquire_kind service_handle e = (case acquire_body (ge_word e) of
      CasReturn \<Rightarrow> (Ok False, e)
    | CasPanic p \<Rightarrow> (Panicked p, e)
    | CasTo w \<Rightarrow>
        let e' = e\<lparr>ge_word := w\<rparr> in
        if service_handle then
          (if ge_service_handles e' = - 1 then (Panicked ''service handle counter overflow'', e')
           else (Ok True, e'\<lparr>ge_service_handles := ge_service_handles e' + 1\<rparr>))
        else (Ok True, e'))"

definition begin_draining :: "generation_execution \<Rightarrow> unit cres \<times> generation_execution" where
  "begin_draining e = (case drain_body (ge_word e) of
      CasTo w \<Rightarrow> (Ok (), e\<lparr>ge_word := w\<rparr>)
    | CasReturn \<Rightarrow> (Ok (), e)
    | CasPanic p \<Rightarrow> (Panicked p, e))"

definition drop_inflight :: "generation_execution \<Rightarrow> unit cres \<times> generation_execution" where
  "drop_inflight e = (case drop_body (ge_word e) of
      CasTo w \<Rightarrow> (Ok (), e\<lparr>ge_word := w\<rparr>)
    | CasReturn \<Rightarrow> (Ok (), e)
    | CasPanic p \<Rightarrow> (Panicked p, e))"

text \<open>\<open>Drop for GenerationLease\<close>.\<close>

definition drop_lease :: "bool \<Rightarrow> generation_execution \<Rightarrow> unit cres \<times> generation_execution" where
  "drop_lease service_handle e =
     (if service_handle then
        let previous = ge_service_handles e; e' = e\<lparr>ge_service_handles := previous - 1\<rparr> in
        if previous = 0 then (Panicked ''service handle lease underflow'', e')
        else drop_inflight e'
      else drop_inflight e)"

definition execution_snapshot :: "generation_execution \<Rightarrow> generation_execution_state option \<times> usize" where
  "execution_snapshot e = (execution_state (ge_word e), execution_inflight (ge_word e))"

datatype drain_outcome = DrainedOutcome | TimedOut usize

text \<open>
  \<open>drain_until\<close>: after \<open>begin_draining\<close>, the loop loads the word once per wake-up; the argument
  is the word observed by each iteration, and the deadline elapses after the last one.
\<close>

fun drain_loop :: "usize \<Rightarrow> usize list \<Rightarrow> drain_outcome" where
  "drain_loop word later =
     (let remaining = execution_inflight word in
      if remaining = 0 then DrainedOutcome
      else case later of [] \<Rightarrow> TimedOut remaining | w # ws \<Rightarrow> drain_loop w ws)"

section \<open>Capability gates\<close>

type_synonym selector_ref = nat
type_synonym gate_ref = nat

record capability_gate =
  cg_selector :: selector_ref
  cg_generation :: generation_id
  cg_retired :: bool
  cg_execution :: generation_execution

record gate_store =
  gs_selector :: "selector_ref \<Rightarrow> generation_id"
  gs_gate :: "gate_ref \<Rightarrow> capability_gate"

definition selector_active :: "gate_store \<Rightarrow> selector_ref \<Rightarrow> generation_id" where
  "selector_active s sel = gs_selector s sel"

definition selector_switch ::
  "selector_ref \<Rightarrow> generation_id \<Rightarrow> generation_id \<Rightarrow> gate_store \<Rightarrow> bool \<times> gate_store" where
  "selector_switch sel expected next s =
     (if gs_selector s sel = expected
      then (True, s\<lparr>gs_selector := (gs_selector s)(sel := next)\<rparr>)
      else (False, s))"

definition gate_update :: "gate_ref \<Rightarrow> (capability_gate \<Rightarrow> capability_gate) \<Rightarrow> gate_store \<Rightarrow> gate_store" where
  "gate_update g f s = s\<lparr>gs_gate := (gs_gate s)(g := f (gs_gate s g))\<rparr>"

definition staged :: "selector_ref \<Rightarrow> generation_id \<Rightarrow> capability_gate" where
  "staged sel generation =
     \<lparr>cg_selector = sel, cg_generation = generation, cg_retired = False,
      cg_execution = generation_execution_default\<rparr>"

definition publish :: "gate_ref \<Rightarrow> gate_store \<Rightarrow> bool \<times> gate_store" where
  "publish g s =
     (if cg_retired (gs_gate s g) then (False, s)
      else selector_switch (cg_selector (gs_gate s g)) GEN_NONE (cg_generation (gs_gate s g)) s)"

text \<open>Gates with a selector of their own, at a fresh selector and gate reference.\<close>

definition standalone_staged :: "selector_ref \<Rightarrow> gate_ref \<Rightarrow> gate_store \<Rightarrow> gate_store" where
  "standalone_staged sel g s = s\<lparr>gs_selector := (gs_selector s)(sel := GEN_NONE), gs_gate := (gs_gate s)(g := staged sel 1)\<rparr>"

definition standalone_published :: "selector_ref \<Rightarrow> gate_ref \<Rightarrow> gate_store \<Rightarrow> unit cres \<times> gate_store" where
  "standalone_published sel g s =
     (case selector_switch sel GEN_NONE 1 (s\<lparr>gs_selector := (gs_selector s)(sel := GEN_NONE)\<rparr>) of
        (True, s1) \<Rightarrow> (Ok (), s1\<lparr>gs_gate := (gs_gate s1)(g := staged sel 1)\<rparr>)
      | (False, s1) \<Rightarrow> (Panicked ''assertion failed: selector.switch(GenerationId::NONE, generation)'', s1))"

definition is_staged :: "gate_store \<Rightarrow> gate_ref \<Rightarrow> bool" where
  "is_staged s g \<longleftrightarrow>
     \<not> cg_retired (gs_gate s g) \<and>
     selector_active s (cg_selector (gs_gate s g)) \<noteq> cg_generation (gs_gate s g)"

definition is_visible :: "gate_store \<Rightarrow> gate_ref \<Rightarrow> bool" where
  "is_visible s g \<longleftrightarrow>
     selector_active s (cg_selector (gs_gate s g)) = cg_generation (gs_gate s g)"

lemma standalone_visible:
  "\<exists>t. standalone_published sel g s = (Ok (), t) \<and> is_visible t g" "\<not> is_visible (standalone_staged sel g s) g"
  by (simp_all add: standalone_published_def standalone_staged_def selector_switch_def is_visible_def selector_active_def staged_def GEN_NONE_def)

definition gate_begin_draining :: "gate_ref \<Rightarrow> gate_store \<Rightarrow> unit cres \<times> gate_store" where
  "gate_begin_draining g s =
     (case begin_draining (cg_execution (gs_gate s g)) of
        (r, e) \<Rightarrow> (r, gate_update g (\<lambda>c. c\<lparr>cg_execution := e\<rparr>) s))"

definition gate_close :: "gate_ref \<Rightarrow> gate_store \<Rightarrow> unit cres \<times> gate_store" where
  "gate_close g s =
     (let s1 = gate_update g (\<lambda>c. c\<lparr>cg_retired := True\<rparr>) s;
          c = gs_gate s1 g;
          s2 = snd (selector_switch (cg_selector c) (cg_generation c) GEN_NONE s1)
      in gate_begin_draining g s2)"

text \<open>\<open>new.cutover_from(old)\<close>; the first test of the code compares the selector pointers.\<close>

definition cutover_from :: "gate_ref \<Rightarrow> gate_ref \<Rightarrow> gate_store \<Rightarrow> bool cres \<times> gate_store" where
  "cutover_from new old s =
     (if cg_retired (gs_gate s new) \<or> cg_selector (gs_gate s new) \<noteq> cg_selector (gs_gate s old)
      then (Ok False, s)
      else case selector_switch (cg_selector (gs_gate s new)) (cg_generation (gs_gate s old))
                  (cg_generation (gs_gate s new)) s of
          (False, s1) \<Rightarrow> (Ok False, s1)
        | (True, s1) \<Rightarrow>
            sbind (gate_begin_draining old) (\<lambda>_ s2. (Ok True, s2))
              (gate_update old (\<lambda>c. c\<lparr>cg_retired := True\<rparr>) s1))"

definition gate_try_acquire_kind :: "bool \<Rightarrow> gate_ref \<Rightarrow> gate_store \<Rightarrow> bool cres \<times> gate_store" where
  "gate_try_acquire_kind svc g s =
     (case try_acquire_kind svc (cg_execution (gs_gate s g)) of
        (r, e) \<Rightarrow> (r, gate_update g (\<lambda>c. c\<lparr>cg_execution := e\<rparr>) s))"

abbreviation gate_try_acquire :: "gate_ref \<Rightarrow> gate_store \<Rightarrow> bool cres \<times> gate_store" where
  "gate_try_acquire \<equiv> gate_try_acquire_kind False"

abbreviation gate_try_acquire_service :: "gate_ref \<Rightarrow> gate_store \<Rightarrow> bool cres \<times> gate_store" where
  "gate_try_acquire_service \<equiv> gate_try_acquire_kind True"

datatype generation_lease = GenerationLease (lease_gate: gate_ref) (lease_service: bool)

definition gate_drop_lease :: "generation_lease \<Rightarrow> gate_store \<Rightarrow> unit cres \<times> gate_store" where
  "gate_drop_lease l s =
     (case drop_lease (lease_service l) (cg_execution (gs_gate s (lease_gate l))) of
        (r, e) \<Rightarrow> (r, gate_update (lease_gate l) (\<lambda>c. c\<lparr>cg_execution := e\<rparr>) s))"

text \<open>
  \<open>VisibilityCache\<close>: the generation of a selector is read once per dispatch, so that one
  dispatch never mixes two generations of a plugin.
\<close>

type_synonym visibility_cache = "(selector_ref, generation_id) amap"

definition cache_visible :: "gate_store \<Rightarrow> gate_ref \<Rightarrow> visibility_cache \<Rightarrow> bool \<times> visibility_cache" where
  "cache_visible s g cache =
     (let key = cg_selector (gs_gate s g) in
      case aget cache key of
        Some active \<Rightarrow> (active = cg_generation (gs_gate s g), cache)
      | None \<Rightarrow>
          (selector_active s key = cg_generation (gs_gate s g),
           aput key (selector_active s key) cache))"

section \<open>Execution admission as a counter\<close>

text \<open>
  The abstract view of an execution: its state, the number of leases and the number of service
  handles. \<open>wf_execution\<close> is what every operation keeps.
\<close>

definition exec_inflight :: "generation_execution \<Rightarrow> nat" where
  "exec_inflight e = unat (execution_inflight (ge_word e))"

definition exec_accepting :: "generation_execution \<Rightarrow> bool" where
  "exec_accepting e \<longleftrightarrow> execution_state (ge_word e) = Some Accepting"

definition wf_execution :: "generation_execution \<Rightarrow> bool" where
  "wf_execution e \<longleftrightarrow> (case execution_state (ge_word e) of
       None \<Rightarrow> False
     | Some Accepting \<Rightarrow> True
     | Some Draining \<Rightarrow> exec_inflight e \<noteq> 0
     | Some Drained \<Rightarrow> exec_inflight e = 0)
   \<and> unat (ge_service_handles e) \<le> exec_inflight e"

definition exec_room :: "generation_execution \<Rightarrow> bool" where
  "exec_room e \<longleftrightarrow> exec_inflight e < unat EXECUTION_MAX_INFLIGHT"

lemma wf_execution_default [simp]: "wf_execution generation_execution_default"
  by (simp add: wf_execution_def generation_execution_default_def execution_state_unat
      EXECUTION_ACCEPTING_def)

lemma exec_inflight_le: "exec_inflight e \<le> unat EXECUTION_MAX_INFLIGHT"
  by (simp add: exec_inflight_def inflight_le_max)

lemma unat_states [simp]:
  "unat EXECUTION_ACCEPTING = 0" "unat EXECUTION_DRAINING = 1" "unat EXECUTION_DRAINED = 2"
  by (simp_all add: EXECUTION_ACCEPTING_def EXECUTION_DRAINING_def EXECUTION_DRAINED_def)

lemma mod4_simps [simp]:
  "Suc (4 * n) mod 4 = Suc 0" "Suc (Suc (4 * n)) mod 4 = 2"
  by presburger+

lemma execution_state_word:
  assumes "unat n \<le> unat EXECUTION_MAX_INFLIGHT"
  shows "execution_state (execution_word EXECUTION_ACCEPTING n) = Some Accepting"
    and "execution_state (execution_word EXECUTION_DRAINING n) = Some Draining"
    and "execution_state (execution_word EXECUTION_DRAINED n) = Some Drained"
  using assms
  by (simp_all add: execution_state_unat unat_execution_word)

lemma execution_inflight_word:
  assumes "unat n \<le> unat EXECUTION_MAX_INFLIGHT" and "unat s < 4"
  shows "execution_inflight (execution_word s n) = n"
  using assms by (simp add: word_unat_eq_iff unat_inflight unat_execution_word)

lemma acquire_body_accepting:
  assumes "execution_state w = Some Accepting"
    and "unat (execution_inflight w) < unat EXECUTION_MAX_INFLIGHT"
  shows "acquire_body w = CasTo (w + EXECUTION_INFLIGHT_ONE)"
    and "execution_state (w + EXECUTION_INFLIGHT_ONE) = Some Accepting"
    and "unat (execution_inflight (w + EXECUTION_INFLIGHT_ONE)) = Suc (unat (execution_inflight w))"
proof -
  show "acquire_body w = CasTo (w + EXECUTION_INFLIGHT_ONE)"
    using assms by (simp add: acquire_body_def word_less_nat_alt)
  have u: "unat (w + EXECUTION_INFLIGHT_ONE) = unat w + 4"
    using assms(2) by (rule unat_add_one_inflight)
  show "execution_state (w + EXECUTION_INFLIGHT_ONE) = Some Accepting"
    using assms(1) by (simp add: execution_state_unat u split: if_splits)
  show "unat (execution_inflight (w + EXECUTION_INFLIGHT_ONE)) = Suc (unat (execution_inflight w))"
    by (simp add: unat_inflight u)
qed

lemma acquire_body_closed:
  "execution_state w = Some st \<Longrightarrow> st \<noteq> Accepting \<Longrightarrow> acquire_body w = CasReturn"
  by (simp add: acquire_body_def)

lemma drain_body_accepting:
  assumes "execution_state w = Some Accepting"
  shows "\<exists>w'. drain_body w = CasTo w' \<and> execution_inflight w' = execution_inflight w \<and>
    execution_state w' = Some (if execution_inflight w = 0 then Drained else Draining)"
proof -
  have "unat (execution_inflight w) \<le> unat EXECUTION_MAX_INFLIGHT" by (rule inflight_le_max)
  then show ?thesis using assms
    by (auto simp: drain_body_def Let_def execution_state_word execution_inflight_word)
qed

lemma drain_body_closed:
  "execution_state w = Some st \<Longrightarrow> st \<noteq> Accepting \<Longrightarrow> drain_body w = CasReturn"
  by (simp add: drain_body_def)


lemma drop_body_live:
  assumes st: "execution_state w = Some st" and st': "st \<noteq> Drained"
    and pos: "execution_inflight w \<noteq> 0"
  shows "\<exists>w'. drop_body w = CasTo w' \<and>
    unat (execution_inflight w') = unat (execution_inflight w) - 1 \<and>
    execution_state w' =
      Some (if st = Draining \<and> unat (execution_inflight w) = 1 then Drained else st)"
proof -
  let ?n = "execution_inflight w" and ?m = "w AND EXECUTION_STATE_MASK"
  have n0: "unat ?n \<noteq> 0" using pos by (simp add: unat_eq_0)
  have le: "unat ?n \<le> unat EXECUTION_MAX_INFLIGHT" by (rule inflight_le_max)
  have rem: "unat (?n - 1) = unat ?n - 1" using n0 by (simp add: unat_minus_one pos)
  have rem_le: "unat (?n - 1) \<le> unat EXECUTION_MAX_INFLIGHT" using le rem by simp
  have m: "unat ?m < 4" "unat ?m = unat w mod 4" by (simp_all add: unat_state_bits)
  have rem0: "?n - 1 = 0 \<longleftrightarrow> unat ?n = 1" using rem n0 by (auto simp: unat_eq_0 [symmetric])
  have keep: "execution_state (execution_word ?m (?n - 1)) = execution_state w"
    using m by (simp add: execution_state_unat unat_execution_word [OF rem_le])
  show ?thesis
  proof (cases "st = Draining \<and> ?n - 1 = 0")
    case True
    with st pos have "drop_body w = CasTo (execution_word EXECUTION_DRAINED 0)"
      by (simp add: drop_body_def Let_def)
    moreover have z: "unat (0 :: usize) \<le> unat EXECUTION_MAX_INFLIGHT" by simp
    moreover have "unat ?n = 1" using True rem0 by simp
    ultimately show ?thesis
      using True execution_state_word(3) [OF z] execution_inflight_word [OF z, of EXECUTION_DRAINED]
      by simp
  next
    case False
    with st st' pos have "drop_body w = CasTo (execution_word ?m (?n - 1))"
      by (auto simp: drop_body_def Let_def)
    with False rem0 rem keep st m(1) show ?thesis
      by (simp add: execution_inflight_word [OF rem_le])
  qed
qed

subsection \<open>The atomic operations on the counter\<close>

lemma try_acquire_accepting:
  assumes "wf_execution e" and "exec_accepting e" and "exec_room e"
  shows "\<exists>e'. try_acquire_kind svc e = (Ok True, e') \<and> wf_execution e' \<and> exec_accepting e' \<and>
    exec_inflight e' = Suc (exec_inflight e) \<and>
    unat (ge_service_handles e') = unat (ge_service_handles e) + (if svc then 1 else 0)"
proof -
  have st: "execution_state (ge_word e) = Some Accepting"
    and room: "unat (execution_inflight (ge_word e)) < unat EXECUTION_MAX_INFLIGHT"
    and h: "unat (ge_service_handles e) \<le> exec_inflight e"
    using assms by (simp_all add: exec_accepting_def exec_room_def exec_inflight_def wf_execution_def)
  note acq = acquire_body_accepting [OF st room]
  have hmax: "unat (ge_service_handles e) < 2 ^ 62"
    using h exec_inflight_le [of e] by (simp add: max_inflight)
  moreover have "unat (- 1 :: usize) = 2 ^ 64 - 1"
    by (simp add: unsigned_minus_1_eq_mask mask_eq_exp_minus_1)
  ultimately have h1: "ge_service_handles e \<noteq> - 1"
    by auto
  have h2: "unat (ge_service_handles e + 1) = Suc (unat (ge_service_handles e))"
    using hmax by (simp add: unat_word_ariths)
  show ?thesis
    using acq h h1 h2
    by (auto simp: try_acquire_kind_def Let_def wf_execution_def exec_accepting_def exec_inflight_def)
qed

lemma try_acquire_refused:
  assumes "wf_execution e" and "\<not> exec_accepting e"
  shows "try_acquire_kind svc e = (Ok False, e)"
  using assms
  by (auto simp: try_acquire_kind_def acquire_body_def wf_execution_def exec_accepting_def
      split: option.splits)

lemma begin_draining_spec:
  assumes "wf_execution e"
  shows "\<exists>e'. begin_draining e = (Ok (), e') \<and> wf_execution e' \<and> \<not> exec_accepting e' \<and>
    exec_inflight e' = exec_inflight e \<and> ge_service_handles e' = ge_service_handles e"
proof (cases "exec_accepting e")
  case True
  then have st: "execution_state (ge_word e) = Some Accepting" by (simp add: exec_accepting_def)
  from drain_body_accepting [OF st] assms show ?thesis
    by (auto simp: begin_draining_def wf_execution_def exec_accepting_def exec_inflight_def unat_eq_0)
next
  case False
  with assms show ?thesis
    by (auto simp: begin_draining_def wf_execution_def exec_accepting_def drain_body_def
        split: option.splits)
qed

lemma begin_draining_idem:
  assumes "wf_execution e" and "\<not> exec_accepting e"
  shows "begin_draining e = (Ok (), e)"
  using assms
  by (auto simp: begin_draining_def wf_execution_def exec_accepting_def drain_body_def
      split: option.splits)

lemma drop_lease_spec:
  assumes "wf_execution e" and "exec_inflight e \<noteq> 0"
    and "svc \<Longrightarrow> ge_service_handles e \<noteq> 0"
    and "\<not> svc \<Longrightarrow> unat (ge_service_handles e) < exec_inflight e"
  shows "\<exists>e'. drop_lease svc e = (Ok (), e') \<and> wf_execution e' \<and>
    exec_accepting e' = exec_accepting e \<and>
    exec_inflight e' = exec_inflight e - 1 \<and>
    unat (ge_service_handles e') = unat (ge_service_handles e) - (if svc then 1 else 0)"
proof -
  obtain st where st: "execution_state (ge_word e) = Some st" "st \<noteq> Drained"
    using assms(1,2) by (auto simp: wf_execution_def split: option.splits generation_execution_state.splits)
  have pos: "execution_inflight (ge_word e) \<noteq> 0"
    using assms(2) by (auto simp: exec_inflight_def)
  obtain w' where w': "drop_body (ge_word e) = CasTo w'"
      "unat (execution_inflight w') = exec_inflight e - 1"
      "execution_state w' = Some (if st = Draining \<and> exec_inflight e = 1 then Drained else st)"
    using drop_body_live [OF st pos] by (auto simp: exec_inflight_def)
  define e' where "e' = e\<lparr>ge_service_handles := ge_service_handles e - (if svc then 1 else 0),
                          ge_word := w'\<rparr>"
  have h: "unat (ge_service_handles e') = unat (ge_service_handles e) - (if svc then 1 else 0)"
    using assms(3) by (simp add: e'_def unat_minus_one)
  have drop: "drop_lease svc e = (Ok (), e')"
    using assms(3) w' by (simp add: drop_lease_def drop_inflight_def Let_def e'_def)
  have "wf_execution e'"
    using assms st w' h
    by (auto simp: wf_execution_def e'_def exec_inflight_def split: generation_execution_state.splits)
  moreover have "exec_accepting e' = exec_accepting e" "exec_inflight e' = exec_inflight e - 1"
    using st w' by (auto simp: exec_accepting_def e'_def exec_inflight_def)
  ultimately show ?thesis using drop h by blast
qed

section \<open>Leases of a store of gates\<close>

definition gate_inflight :: "gate_store \<Rightarrow> gate_ref \<Rightarrow> nat" where
  "gate_inflight s g = exec_inflight (cg_execution (gs_gate s g))"

definition gate_accepting :: "gate_store \<Rightarrow> gate_ref \<Rightarrow> bool" where
  "gate_accepting s g \<longleftrightarrow> exec_accepting (cg_execution (gs_gate s g))"

definition gate_room :: "gate_store \<Rightarrow> gate_ref \<Rightarrow> bool" where
  "gate_room s g \<longleftrightarrow> exec_room (cg_execution (gs_gate s g))"

definition gate_handles :: "gate_store \<Rightarrow> gate_ref \<Rightarrow> nat" where
  "gate_handles s g = unat (ge_service_handles (cg_execution (gs_gate s g)))"

definition wf_gates :: "gate_store \<Rightarrow> bool" where
  "wf_gates s \<longleftrightarrow> (\<forall>g. wf_execution (cg_execution (gs_gate s g)))"

lemma gate_update_sel [simp]:
  "gs_selector (gate_update g f s) = gs_selector s"
  "gs_gate (gate_update g f s) g' = (if g' = g then f (gs_gate s g) else gs_gate s g')"
  by (simp_all add: gate_update_def)

lemma wf_gates_execution [intro]: "wf_gates s \<Longrightarrow> wf_execution (cg_execution (gs_gate s g))"
  by (simp add: wf_gates_def)

lemma gate_try_acquire_accepting:
  assumes "wf_gates s" and "gate_accepting s g" and "gate_room s g"
  shows "\<exists>s'. gate_try_acquire_kind svc g s = (Ok True, s') \<and> wf_gates s' \<and>
    gate_accepting s' = gate_accepting s \<and>
    gate_inflight s' = (gate_inflight s)(g := Suc (gate_inflight s g)) \<and>
    gate_handles s' = (gate_handles s)(g := gate_handles s g + (if svc then 1 else 0)) \<and>
    is_visible s' = is_visible s \<and> is_staged s' = is_staged s \<and> gs_selector s' = gs_selector s"
proof -
  let ?e = "cg_execution (gs_gate s g)"
  obtain e' where e': "try_acquire_kind svc ?e = (Ok True, e')" "wf_execution e'" "exec_accepting e'"
      "exec_inflight e' = Suc (exec_inflight ?e)"
      "unat (ge_service_handles e') = unat (ge_service_handles ?e) + (if svc then 1 else 0)"
    using try_acquire_accepting [of ?e svc] assms
    by (auto simp: gate_accepting_def gate_room_def)
  then show ?thesis
    using assms
    by (auto simp: gate_try_acquire_kind_def wf_gates_def gate_accepting_def gate_inflight_def
        gate_handles_def is_visible_def is_staged_def selector_active_def fun_eq_iff)
qed

lemma gate_update_same: "f (gs_gate s g) = gs_gate s g \<Longrightarrow> gate_update g f s = s"
  by (cases s) (auto simp: gate_update_def)

lemma gate_try_acquire_refused:
  assumes "wf_gates s" and "\<not> gate_accepting s g"
  shows "gate_try_acquire_kind svc g s = (Ok False, s)"
  using try_acquire_refused [OF wf_gates_execution [OF assms(1)], of g svc] assms(2)
  by (simp add: gate_try_acquire_kind_def gate_accepting_def gate_update_same)

lemma gate_drop_lease_spec:
  assumes "wf_gates s" and "gate_inflight s g \<noteq> 0"
    and "svc \<Longrightarrow> gate_handles s g \<noteq> 0"
    and "\<not> svc \<Longrightarrow> gate_handles s g < gate_inflight s g"
  shows "\<exists>s'. gate_drop_lease (GenerationLease g svc) s = (Ok (), s') \<and> wf_gates s' \<and>
    gate_accepting s' = gate_accepting s \<and>
    gate_inflight s' = (gate_inflight s)(g := gate_inflight s g - 1) \<and>
    gate_handles s' = (gate_handles s)(g := gate_handles s g - (if svc then 1 else 0)) \<and>
    is_visible s' = is_visible s \<and> is_staged s' = is_staged s \<and> gs_selector s' = gs_selector s"
proof -
  let ?e = "cg_execution (gs_gate s g)"
  obtain e' where e': "drop_lease svc ?e = (Ok (), e')" "wf_execution e'"
      "exec_accepting e' = exec_accepting ?e" "exec_inflight e' = exec_inflight ?e - 1"
      "unat (ge_service_handles e') = unat (ge_service_handles ?e) - (if svc then 1 else 0)"
    using drop_lease_spec [of ?e svc] assms
    by (auto simp: gate_inflight_def gate_handles_def unat_eq_0)
  then show ?thesis
    using assms
    by (auto simp: gate_drop_lease_def wf_gates_def gate_accepting_def gate_inflight_def
        gate_handles_def is_visible_def is_staged_def selector_active_def fun_eq_iff)
qed

lemma gate_begin_draining_spec:
  assumes "wf_gates s"
  shows "\<exists>s'. gate_begin_draining g s = (Ok (), s') \<and> wf_gates s' \<and>
    gate_accepting s' = (gate_accepting s)(g := False) \<and> gate_inflight s' = gate_inflight s \<and>
    gate_handles s' = gate_handles s \<and>
    gs_selector s' = gs_selector s \<and>
    (\<forall>h. cg_selector (gs_gate s' h) = cg_selector (gs_gate s h) \<and>
         cg_generation (gs_gate s' h) = cg_generation (gs_gate s h) \<and>
         cg_retired (gs_gate s' h) = cg_retired (gs_gate s h))"
proof -
  let ?e = "cg_execution (gs_gate s g)"
  obtain e' where "begin_draining ?e = (Ok (), e')" "wf_execution e'" "\<not> exec_accepting e'"
      "exec_inflight e' = exec_inflight ?e" "ge_service_handles e' = ge_service_handles ?e"
    using begin_draining_spec [of ?e] assms by auto
  then show ?thesis
    using assms
    by (auto simp: gate_begin_draining_def wf_gates_def gate_accepting_def gate_inflight_def
        gate_handles_def fun_eq_iff)
qed

section \<open>Visibility: the generation selector\<close>

lemma visible_unique:
  "is_visible s g \<Longrightarrow> is_visible s h \<Longrightarrow> cg_selector (gs_gate s g) = cg_selector (gs_gate s h) \<Longrightarrow>
   cg_generation (gs_gate s g) = cg_generation (gs_gate s h)"
  by (simp add: is_visible_def)

lemma publish_True:
  assumes "publish g s = (True, s')"
  shows "is_visible s' g" and "gs_gate s' = gs_gate s" and "\<not> cg_retired (gs_gate s g)"
    and "gs_selector s (cg_selector (gs_gate s g)) = GEN_NONE"
    and "gs_selector s' = (gs_selector s)(cg_selector (gs_gate s g) := cg_generation (gs_gate s g))"
  using assms
  by (auto simp: publish_def selector_switch_def is_visible_def selector_active_def split: if_splits)

lemma publish_False: "publish g s = (False, s') \<Longrightarrow> s' = s"
  by (auto simp: publish_def selector_switch_def split: if_splits)

lemma publish_retired: "cg_retired (gs_gate s g) \<Longrightarrow> publish g s = (False, s)"
  by (simp add: publish_def)

lemma gate_close_spec:
  assumes "wf_gates s"
  shows "\<exists>s'. gate_close g s = (Ok (), s') \<and> wf_gates s' \<and>
    cg_retired (gs_gate s' g) \<and>
    gate_accepting s' = (gate_accepting s)(g := False) \<and>
    gate_inflight s' = gate_inflight s \<and> gate_handles s' = gate_handles s \<and>
    gs_selector s' = (if is_visible s g
       then (gs_selector s)(cg_selector (gs_gate s g) := GEN_NONE) else gs_selector s) \<and>
    (\<forall>h. cg_selector (gs_gate s' h) = cg_selector (gs_gate s h) \<and>
         cg_generation (gs_gate s' h) = cg_generation (gs_gate s h) \<and>
         (h \<noteq> g \<longrightarrow> cg_retired (gs_gate s' h) = cg_retired (gs_gate s h)))"
proof -
  define s1 where "s1 = gate_update g (\<lambda>c. c\<lparr>cg_retired := True\<rparr>) s"
  define s2 where "s2 = snd (selector_switch (cg_selector (gs_gate s1 g))
    (cg_generation (gs_gate s1 g)) GEN_NONE s1)"
  have g2: "gs_gate s2 = gs_gate s1"
    by (simp add: s2_def selector_switch_def)
  have sel2: "gs_selector s2 = (if is_visible s g
       then (gs_selector s)(cg_selector (gs_gate s g) := GEN_NONE) else gs_selector s)"
    by (simp add: s2_def s1_def selector_switch_def is_visible_def selector_active_def)
  have "wf_gates s2" using assms by (simp add: wf_gates_def g2 s1_def)
  from gate_begin_draining_spec [OF this, of g]
  obtain s' where s': "gate_begin_draining g s2 = (Ok (), s')" "wf_gates s'"
      "gate_accepting s' = (gate_accepting s2)(g := False)" "gate_inflight s' = gate_inflight s2"
      "gate_handles s' = gate_handles s2" "gs_selector s' = gs_selector s2"
      "\<forall>h. cg_selector (gs_gate s' h) = cg_selector (gs_gate s2 h) \<and>
         cg_generation (gs_gate s' h) = cg_generation (gs_gate s2 h) \<and>
         cg_retired (gs_gate s' h) = cg_retired (gs_gate s2 h)" by blast
  have "gate_close g s = (Ok (), s')"
    using s'(1) by (simp add: gate_close_def Let_def s2_def s1_def)
  moreover have "gate_accepting s2 = gate_accepting s" "gate_inflight s2 = gate_inflight s"
      "gate_handles s2 = gate_handles s"
    by (auto simp: gate_accepting_def gate_inflight_def gate_handles_def g2 s1_def fun_eq_iff)
  moreover have "\<And>h. cg_selector (gs_gate s2 h) = cg_selector (gs_gate s h) \<and>
         cg_generation (gs_gate s2 h) = cg_generation (gs_gate s h) \<and>
         cg_retired (gs_gate s2 h) = (h = g \<or> cg_retired (gs_gate s h))"
    by (auto simp: g2 s1_def)
  ultimately show ?thesis using s' sel2 by auto
qed

lemma gate_close_invisible:
  assumes "wf_gates s" and "gate_close g s = (r, s')" and "cg_generation (gs_gate s g) \<noteq> GEN_NONE"
  shows "\<not> is_visible s' g" and "cg_retired (gs_gate s' g)" and "\<not> gate_accepting s' g"
    and "publish g s' = (False, s')"
proof -
  from gate_close_spec [OF assms(1), of g] assms(2)
  have r: "cg_retired (gs_gate s' g)" and a: "gate_accepting s' = (gate_accepting s)(g := False)"
    and sel: "gs_selector s' = (if is_visible s g
       then (gs_selector s)(cg_selector (gs_gate s g) := GEN_NONE) else gs_selector s)"
    and same: "cg_selector (gs_gate s' g) = cg_selector (gs_gate s g)"
      "cg_generation (gs_gate s' g) = cg_generation (gs_gate s g)"
    by auto
  show "\<not> is_visible s' g"
    using sel same assms(3) by (auto simp: is_visible_def selector_active_def split: if_splits)
  show "cg_retired (gs_gate s' g)" by (rule r)
  show "\<not> gate_accepting s' g" by (simp add: a)
  show "publish g s' = (False, s')" by (simp add: publish_retired r)
qed

lemma cutover_True:
  assumes "wf_gates s" and "cutover_from new old s = (Ok True, s')"
    and "cg_generation (gs_gate s new) \<noteq> cg_generation (gs_gate s old)"
  shows "is_visible s old" and "is_visible s' new" and "\<not> is_visible s' old"
    and "cg_retired (gs_gate s' old)" and "\<not> gate_accepting s' old" and "wf_gates s'"
    and "gate_inflight s' = gate_inflight s"
    and "gs_selector s' = (gs_selector s)(cg_selector (gs_gate s old) := cg_generation (gs_gate s new))"
    and "\<forall>h. cg_selector (gs_gate s' h) = cg_selector (gs_gate s h) \<and>
           cg_generation (gs_gate s' h) = cg_generation (gs_gate s h)"
proof -
  have pre: "\<not> cg_retired (gs_gate s new)" "cg_selector (gs_gate s new) = cg_selector (gs_gate s old)"
      "gs_selector s (cg_selector (gs_gate s new)) = cg_generation (gs_gate s old)"
    using assms(2) by (auto simp: cutover_from_def selector_switch_def split: if_splits)
  define s1 where "s1 = s\<lparr>gs_selector := (gs_selector s)
    (cg_selector (gs_gate s new) := cg_generation (gs_gate s new))\<rparr>"
  define s2 where "s2 = gate_update old (\<lambda>c. c\<lparr>cg_retired := True\<rparr>) s1"
  have wf2: "wf_gates s2" using assms(1) by (simp add: wf_gates_def s2_def s1_def)
  obtain s3 where s3: "gate_begin_draining old s2 = (Ok (), s3)" "wf_gates s3"
      "gate_accepting s3 = (gate_accepting s2)(old := False)" "gate_inflight s3 = gate_inflight s2"
      "gs_selector s3 = gs_selector s2"
      "\<forall>h. cg_selector (gs_gate s3 h) = cg_selector (gs_gate s2 h) \<and>
         cg_generation (gs_gate s3 h) = cg_generation (gs_gate s2 h) \<and>
         cg_retired (gs_gate s3 h) = cg_retired (gs_gate s2 h)"
    using gate_begin_draining_spec [OF wf2, of old] by blast
  have "s' = s3"
    using assms(2) pre s3(1) [unfolded s2_def s1_def]
    by (simp add: cutover_from_def selector_switch_def)
  note s' = s3 [folded \<open>s' = s3\<close>]
  have infl: "gate_inflight s2 = gate_inflight s"
    by (auto simp: s2_def s1_def gate_inflight_def fun_eq_iff)
  have sel: "cg_selector (gs_gate s' h) = cg_selector (gs_gate s h)"
      "cg_generation (gs_gate s' h) = cg_generation (gs_gate s h)"
      "cg_retired (gs_gate s' h) = (h = old \<or> cg_retired (gs_gate s h))" for h
    using s'(6) by (auto simp: s2_def s1_def)
  show "is_visible s old" using pre by (simp add: is_visible_def selector_active_def)
  show "is_visible s' new" "\<not> is_visible s' old"
    using s'(5) sel pre assms(3) by (auto simp: is_visible_def selector_active_def s2_def s1_def)
  show "cg_retired (gs_gate s' old)" using sel by simp
  show "\<not> gate_accepting s' old" using s'(3) by simp
  show "wf_gates s'" by (rule s'(2))
  show "gate_inflight s' = gate_inflight s" using s'(4) infl by simp
  show "gs_selector s' = (gs_selector s)(cg_selector (gs_gate s old) := cg_generation (gs_gate s new))"
    using s'(5) pre by (simp add: s2_def s1_def)
  show "\<forall>h. cg_selector (gs_gate s' h) = cg_selector (gs_gate s h) \<and>
           cg_generation (gs_gate s' h) = cg_generation (gs_gate s h)" using sel by simp
qed

lemma cutover_False: "wf_gates s \<Longrightarrow> cutover_from new old s = (Ok False, s') \<Longrightarrow> s' = s"
  by (auto simp: cutover_from_def selector_switch_def sbind_def split: if_splits prod.splits res.splits)

lemma cutover_no_panic:
  assumes "wf_gates s"
  shows "\<exists>b s'. cutover_from new old s = (Ok b, s')"
proof -
  let ?t = "\<lambda>f. gate_update old (\<lambda>c. c\<lparr>cg_retired := True\<rparr>) (s\<lparr>gs_selector := f\<rparr>)"
  have "wf_gates (?t f)" for f
    using assms by (simp add: wf_gates_def)
  then have "\<exists>s'. gate_begin_draining old (?t f) = (Ok (), s')" for f
    using gate_begin_draining_spec [of "?t f" old] by blast
  then obtain s' where "gate_begin_draining old (?t ((gs_selector s)
      (cg_selector (gs_gate s new) := cg_generation (gs_gate s new)))) = (Ok (), s')" by blast
  then show ?thesis
    by (cases "cg_retired (gs_gate s new)";
        cases "cg_selector (gs_gate s new) = cg_selector (gs_gate s old)")
      (auto simp: cutover_from_def selector_switch_def)
qed

section \<open>The gate store provides leases\<close>

text \<open>
  What a dispatcher can see of a gate: identities, visibility and retirement. Taking and dropping
  leases changes none of it.
\<close>

definition gate_view ::
  "gate_store \<Rightarrow> (selector_ref \<Rightarrow> generation_id) \<times> (gate_ref \<Rightarrow> selector_ref \<times> generation_id \<times> bool)" where
  "gate_view s = (gs_selector s,
     \<lambda>g. (cg_selector (gs_gate s g), cg_generation (gs_gate s g), cg_retired (gs_gate s g)))"

definition gate_plain :: "gate_store \<Rightarrow> gate_ref \<Rightarrow> nat" where
  "gate_plain s g = gate_inflight s g - gate_handles s g"

definition gate_free :: "gate_store \<Rightarrow> gate_ref \<Rightarrow> nat" where
  "gate_free s g = unat EXECUTION_MAX_INFLIGHT - gate_inflight s g"

lemma gate_view_visible: "gate_view s' = gate_view s \<Longrightarrow> is_visible s' = is_visible s"
  by (auto simp: gate_view_def is_visible_def selector_active_def fun_eq_iff)

lemma gate_view_staged: "gate_view s' = gate_view s \<Longrightarrow> is_staged s' = is_staged s"
  by (auto simp: gate_view_def is_staged_def selector_active_def fun_eq_iff)

lemma cache_visible_view:
  "gate_view s' = gate_view s \<Longrightarrow> cache_visible s' g c = cache_visible s g c"
  by (auto simp: gate_view_def cache_visible_def selector_active_def fun_eq_iff Let_def split: option.splits)

lemma gate_try_acquire_view:
  "gate_try_acquire_kind svc g s = (r, s') \<Longrightarrow> gate_view s' = gate_view s"
  by (auto simp: gate_try_acquire_kind_def gate_view_def fun_eq_iff split: prod.splits if_splits)

lemma gate_drop_lease_view: "gate_drop_lease l s = (r, s') \<Longrightarrow> gate_view s' = gate_view s"
  by (auto simp: gate_drop_lease_def gate_view_def fun_eq_iff split: prod.splits if_splits)

lemma handles_le_inflight: "wf_gates s \<Longrightarrow> gate_handles s g \<le> gate_inflight s g"
  by (simp add: wf_gates_def wf_execution_def gate_handles_def gate_inflight_def)

lemma gate_inflight_max: "gate_inflight s g \<le> unat EXECUTION_MAX_INFLIGHT"
  by (simp add: gate_inflight_def exec_inflight_le)

lemma gate_room_free: "gate_free s g \<noteq> 0 \<longleftrightarrow> gate_room s g"
  using gate_inflight_max [of s g]
  by (auto simp: gate_free_def gate_room_def exec_room_def gate_inflight_def)

interpretation plain: lease_provider
  "gate_try_acquire_kind False" "\<lambda>g. gate_drop_lease (GenerationLease g False)"
  gate_plain gate_free gate_accepting wf_gates gate_view
proof unfold_locales
  fix s g
  assume a: "wf_gates s" "gate_accepting s g" "gate_free s g \<noteq> 0"
  have room: "gate_room s g" using a(3) gate_room_free [of s g] by simp
  obtain s' where s': "gate_try_acquire_kind False g s = (Ok True, s')" "wf_gates s'"
      "gate_accepting s' = gate_accepting s"
      "gate_inflight s' = (gate_inflight s)(g := Suc (gate_inflight s g))"
      "gate_handles s' = (gate_handles s)(g := gate_handles s g + 0)"
    using gate_try_acquire_accepting [OF a(1,2) room, of False] by auto
  moreover have "gate_plain s' = (gate_plain s)(g := Suc (gate_plain s g))"
    using s'(4,5) handles_le_inflight [OF a(1), of g] by (auto simp: gate_plain_def fun_eq_iff)
  moreover have "gate_free s' = (gate_free s)(g := gate_free s g - 1)"
    using s'(4) by (auto simp: gate_free_def fun_eq_iff)
  ultimately show "\<exists>s'. gate_try_acquire_kind False g s = (Ok True, s') \<and> wf_gates s' \<and>
    gate_accepting s' = gate_accepting s \<and> gate_view s' = gate_view s \<and>
    gate_plain s' = (gate_plain s)(g := Suc (gate_plain s g)) \<and>
    gate_free s' = (gate_free s)(g := gate_free s g - 1)"
    using gate_try_acquire_view by blast
next
  fix s g
  assume "wf_gates s" "\<not> gate_accepting s g"
  then show "gate_try_acquire_kind False g s = (Ok False, s)" by (rule gate_try_acquire_refused)
next
  fix s g
  assume a: "wf_gates s" "gate_plain s g \<noteq> 0"
  then have pos: "gate_handles s g < gate_inflight s g" "gate_inflight s g \<noteq> 0"
    by (auto simp: gate_plain_def)
  obtain s' where s': "gate_drop_lease (GenerationLease g False) s = (Ok (), s')" "wf_gates s'"
      "gate_accepting s' = gate_accepting s"
      "gate_inflight s' = (gate_inflight s)(g := gate_inflight s g - 1)"
      "gate_handles s' = (gate_handles s)(g := gate_handles s g - 0)"
    using gate_drop_lease_spec [OF a(1) pos(2), of False] pos(1) by auto
  moreover have "gate_plain s' = (gate_plain s)(g := gate_plain s g - 1)"
    using s'(4,5) by (auto simp: gate_plain_def fun_eq_iff)
  moreover have "gate_free s' = (gate_free s)(g := Suc (gate_free s g))"
    using s'(4) pos(2) gate_inflight_max [of s g] by (auto simp: gate_free_def fun_eq_iff)
  ultimately show "\<exists>s'. gate_drop_lease (GenerationLease g False) s = (Ok (), s') \<and> wf_gates s' \<and>
    gate_accepting s' = gate_accepting s \<and> gate_view s' = gate_view s \<and>
    gate_plain s' = (gate_plain s)(g := gate_plain s g - 1) \<and>
    gate_free s' = (gate_free s)(g := Suc (gate_free s g))"
    using gate_drop_lease_view by blast
qed

interpretation service: lease_provider
  "gate_try_acquire_kind True" "\<lambda>g. gate_drop_lease (GenerationLease g True)"
  gate_handles gate_free gate_accepting wf_gates gate_view
proof unfold_locales
  fix s g
  assume a: "wf_gates s" "gate_accepting s g" "gate_free s g \<noteq> 0"
  have room: "gate_room s g" using a(3) gate_room_free [of s g] by simp
  obtain s' where s': "gate_try_acquire_kind True g s = (Ok True, s')" "wf_gates s'"
      "gate_accepting s' = gate_accepting s"
      "gate_inflight s' = (gate_inflight s)(g := Suc (gate_inflight s g))"
      "gate_handles s' = (gate_handles s)(g := gate_handles s g + 1)"
    using gate_try_acquire_accepting [OF a(1,2) room, of True] by auto
  moreover have "gate_free s' = (gate_free s)(g := gate_free s g - 1)"
    using s'(4) by (auto simp: gate_free_def fun_eq_iff)
  ultimately show "\<exists>s'. gate_try_acquire_kind True g s = (Ok True, s') \<and> wf_gates s' \<and>
    gate_accepting s' = gate_accepting s \<and> gate_view s' = gate_view s \<and>
    gate_handles s' = (gate_handles s)(g := Suc (gate_handles s g)) \<and>
    gate_free s' = (gate_free s)(g := gate_free s g - 1)"
    using gate_try_acquire_view by force
next
  fix s g
  assume "wf_gates s" "\<not> gate_accepting s g"
  then show "gate_try_acquire_kind True g s = (Ok False, s)" by (rule gate_try_acquire_refused)
next
  fix s g
  assume a: "wf_gates s" "gate_handles s g \<noteq> 0"
  then have pos: "gate_inflight s g \<noteq> 0" using handles_le_inflight [of s g] by simp
  obtain s' where s': "gate_drop_lease (GenerationLease g True) s = (Ok (), s')" "wf_gates s'"
      "gate_accepting s' = gate_accepting s"
      "gate_inflight s' = (gate_inflight s)(g := gate_inflight s g - 1)"
      "gate_handles s' = (gate_handles s)(g := gate_handles s g - 1)"
    using gate_drop_lease_spec [OF a(1) pos, of True] a(2) by auto
  moreover have "gate_free s' = (gate_free s)(g := Suc (gate_free s g))"
    using s'(4) pos gate_inflight_max [of s g] by (auto simp: gate_free_def fun_eq_iff)
  ultimately show "\<exists>s'. gate_drop_lease (GenerationLease g True) s = (Ok (), s') \<and> wf_gates s' \<and>
    gate_accepting s' = gate_accepting s \<and> gate_view s' = gate_view s \<and>
    gate_handles s' = (gate_handles s)(g := gate_handles s g - 1) \<and>
    gate_free s' = (gate_free s)(g := Suc (gate_free s g))"
    using gate_drop_lease_view by blast
qed

section \<open>Properties\<close>

text \<open>
  C1. Generation cutover is all or nothing and never panics: when it succeeds the new generation
  is the visible one, the old one is invisible, retired and admits no new work while the leases
  taken on it stay counted; when it fails nothing has changed.
\<close>

theorem cutover_atomic:
  assumes "wf_gates s" and "cg_generation (gs_gate s new) \<noteq> cg_generation (gs_gate s old)"
  shows "\<exists>b s'. cutover_from new old s = (Ok b, s') \<and> (\<not> b \<longrightarrow> s' = s) \<and>
    (b \<longrightarrow> is_visible s old \<and> is_visible s' new \<and> \<not> is_visible s' old \<and>
       cg_retired (gs_gate s' old) \<and> \<not> gate_accepting s' old \<and>
       gate_inflight s' = gate_inflight s \<and> wf_gates s')"
proof -
  obtain b s' where b: "cutover_from new old s = (Ok b, s')"
    using cutover_no_panic [OF assms(1)] by blast
  show ?thesis
  proof (cases b)
    case True
    with b have "cutover_from new old s = (Ok True, s')" by simp
    from cutover_True [OF assms(1) this assms(2)] b True show ?thesis
      by (intro exI [of _ True] exI [of _ s']) simp
  next
    case False
    with b cutover_False [OF assms(1)] show ?thesis
      by (intro exI [of _ False] exI [of _ s']) simp
  qed
qed

definition example_gates :: gate_store where
  "example_gates = \<lparr>gs_selector = \<lambda>_. 1, gs_gate = \<lambda>g. staged 0 (of_nat (Suc g))\<rparr>"

lemma example_gates_wf: "wf_gates example_gates"
  by (simp add: example_gates_def wf_gates_def staged_def)

theorem cutover_atomic_witness:
  "fst (cutover_from 1 0 example_gates) = Ok True \<and> is_visible (snd (cutover_from 1 0 example_gates)) 1"
proof -
  have "cg_generation (gs_gate example_gates 1) \<noteq> cg_generation (gs_gate example_gates 0)"
    by (simp add: example_gates_def staged_def)
  from cutover_atomic [OF example_gates_wf this]
  obtain b s' where b: "cutover_from 1 0 example_gates = (Ok b, s')" "\<not> b \<longrightarrow> s' = example_gates"
      "b \<longrightarrow> is_visible s' 1" by blast
  have b
  proof (rule ccontr)
    assume "\<not> b"
    moreover have "gs_selector (snd (cutover_from 1 0 example_gates)) 0 \<noteq> gs_selector example_gates 0"
      by (simp add: cutover_from_def selector_switch_def example_gates_def staged_def sbind_def
          gate_begin_draining_def begin_draining_def split: prod.splits cas_decision.splits)
    ultimately show False using b by simp
  qed
  with b show ?thesis by simp
qed

text \<open>
  Closing a gate is final: the closed generation is invisible, refuses every lease of either
  kind and can never be published again.
\<close>

theorem closed_gate_final:
  assumes "wf_gates s" and "cg_generation (gs_gate s g) \<noteq> GEN_NONE"
  shows "\<exists>s'. gate_close g s = (Ok (), s') \<and> \<not> is_visible s' g \<and> publish g s' = (False, s') \<and>
    gate_try_acquire_kind svc g s' = (Ok False, s') \<and> gate_inflight s' = gate_inflight s"
proof -
  obtain s' where s': "gate_close g s = (Ok (), s')" "wf_gates s'" "gate_inflight s' = gate_inflight s"
    using gate_close_spec [OF assms(1), of g] by blast
  with gate_close_invisible [OF assms(1) s'(1) assms(2)] gate_try_acquire_refused [OF s'(2)]
  show ?thesis by blast
qed

theorem closed_gate_final_witness:
  "\<exists>s'. gate_close 0 example_gates = (Ok (), s') \<and> gate_try_acquire_service 0 s' = (Ok False, s')"
proof -
  have "cg_generation (gs_gate example_gates 0) \<noteq> GEN_NONE"
    by (simp add: example_gates_def staged_def GEN_NONE_def)
  from closed_gate_final [OF example_gates_wf this, of True] show ?thesis by blast
qed

end
