(* ===== verification/Gate_Concurrency.thy ===== *)
theory Gate_Concurrency
  imports Gate
begin

text \<open>
  Interleavings. \<open>exec_step\<close> interleaves the compare-and-swap loops of any number of threads on
  one \<open>GenerationExecution\<close>: a thread acquires a lease and later drops it, or closes the
  admission. Each atomic load, each compare-and-swap (with its spurious failures) and each update
  of the service-handle counter is a step of its own. \<open>admission_step\<close> interleaves
  \<open>AdmissionGate\<close> operations. The loops refine the atomic operations of \<open>Gate\<close>.
\<close>

section \<open>Threads on one generation execution\<close>

type_synonym thread = nat

datatype exec_pc =
    Fresh
  | AcqLoop usize bool      \<comment> \<open>word loaded by \<open>try_acquire_kind\<close>, service flag\<close>
  | AcqCount                \<comment> \<open>word written, service handle not yet counted\<close>
  | Holding bool            \<comment> \<open>owns a lease\<close>
  | Refused                 \<comment> \<open>\<open>try_acquire_kind\<close> returned \<open>None\<close>\<close>
  | DrainLoop usize         \<comment> \<open>word loaded by \<open>begin_draining\<close>\<close>
  | DrainDone
  | DropLoad                \<comment> \<open>service handle given back, word not yet loaded\<close>
  | DropLoop usize          \<comment> \<open>word loaded by \<open>drop_inflight\<close>\<close>
  | Dropped
  | Crashed string

record exec_sys =
  xs_word :: usize
  xs_handles :: usize
  xs_pc :: "thread \<Rightarrow> exec_pc"

definition set_pc :: "thread \<Rightarrow> exec_pc \<Rightarrow> exec_sys \<Rightarrow> exec_sys" where
  "set_pc t p s = s\<lparr>xs_pc := (xs_pc s)(t := p)\<rparr>"

definition exec_init :: "exec_sys \<Rightarrow> bool" where
  "exec_init s \<longleftrightarrow> xs_word s = EXECUTION_ACCEPTING \<and> xs_handles s = 0 \<and> (\<forall>t. xs_pc s t = Fresh)"

inductive exec_step :: "exec_sys \<Rightarrow> exec_sys \<Rightarrow> bool" where
  acq_load: "xs_pc s t = Fresh \<Longrightarrow> exec_step s (set_pc t (AcqLoop (xs_word s) svc) s)"
| acq_refuse: "xs_pc s t = AcqLoop cur svc \<Longrightarrow> acquire_body cur = CasReturn \<Longrightarrow>
    exec_step s (set_pc t Refused s)"
| acq_panic: "xs_pc s t = AcqLoop cur svc \<Longrightarrow> acquire_body cur = CasPanic p \<Longrightarrow>
    exec_step s (set_pc t (Crashed p) s)"
| acq_cas: "xs_pc s t = AcqLoop cur svc \<Longrightarrow> acquire_body cur = CasTo next \<Longrightarrow> xs_word s = cur \<Longrightarrow>
    exec_step s (set_pc t (if svc then AcqCount else Holding False) (s\<lparr>xs_word := next\<rparr>))"
| acq_retry: "xs_pc s t = AcqLoop cur svc \<Longrightarrow> acquire_body cur = CasTo next \<Longrightarrow>
    exec_step s (set_pc t (AcqLoop (xs_word s) svc) s)"
| acq_count: "xs_pc s t = AcqCount \<Longrightarrow> xs_handles s \<noteq> - 1 \<Longrightarrow>
    exec_step s (set_pc t (Holding True) (s\<lparr>xs_handles := xs_handles s + 1\<rparr>))"
| acq_count_panic: "xs_pc s t = AcqCount \<Longrightarrow> xs_handles s = - 1 \<Longrightarrow>
    exec_step s (set_pc t (Crashed ''service handle counter overflow'') s)"
| drain_load: "xs_pc s t = Fresh \<Longrightarrow> exec_step s (set_pc t (DrainLoop (xs_word s)) s)"
| drain_return: "xs_pc s t = DrainLoop cur \<Longrightarrow> drain_body cur = CasReturn \<Longrightarrow>
    exec_step s (set_pc t DrainDone s)"
| drain_panic: "xs_pc s t = DrainLoop cur \<Longrightarrow> drain_body cur = CasPanic p \<Longrightarrow>
    exec_step s (set_pc t (Crashed p) s)"
| drain_cas: "xs_pc s t = DrainLoop cur \<Longrightarrow> drain_body cur = CasTo next \<Longrightarrow> xs_word s = cur \<Longrightarrow>
    exec_step s (set_pc t DrainDone (s\<lparr>xs_word := next\<rparr>))"
| drain_retry: "xs_pc s t = DrainLoop cur \<Longrightarrow> drain_body cur = CasTo next \<Longrightarrow>
    exec_step s (set_pc t (DrainLoop (xs_word s)) s)"
| drop_handle: "xs_pc s t = Holding True \<Longrightarrow> xs_handles s \<noteq> 0 \<Longrightarrow>
    exec_step s (set_pc t DropLoad (s\<lparr>xs_handles := xs_handles s - 1\<rparr>))"
| drop_handle_panic: "xs_pc s t = Holding True \<Longrightarrow> xs_handles s = 0 \<Longrightarrow>
    exec_step s (set_pc t (Crashed ''service handle lease underflow'')
      (s\<lparr>xs_handles := xs_handles s - 1\<rparr>))"
| drop_load: "xs_pc s t = DropLoad \<or> xs_pc s t = Holding False \<Longrightarrow>
    exec_step s (set_pc t (DropLoop (xs_word s)) s)"
| drop_panic: "xs_pc s t = DropLoop cur \<Longrightarrow> drop_body cur = CasPanic p \<Longrightarrow>
    exec_step s (set_pc t (Crashed p) s)"
| drop_cas: "xs_pc s t = DropLoop cur \<Longrightarrow> drop_body cur = CasTo next \<Longrightarrow> xs_word s = cur \<Longrightarrow>
    exec_step s (set_pc t Dropped (s\<lparr>xs_word := next\<rparr>))"
| drop_retry: "xs_pc s t = DropLoop cur \<Longrightarrow> drop_body cur = CasTo next \<Longrightarrow>
    exec_step s (set_pc t (DropLoop (xs_word s)) s)"

interpretation exec: transition_system exec_init exec_step .

text \<open>Threads that own a lease, and threads whose service handle is counted.\<close>

fun owns_lease :: "exec_pc \<Rightarrow> bool" where
  "owns_lease AcqCount = True"
| "owns_lease (Holding _) = True"
| "owns_lease DropLoad = True"
| "owns_lease (DropLoop _) = True"
| "owns_lease _ = False"

definition lease_owners :: "exec_sys \<Rightarrow> thread set" where
  "lease_owners s = {t. owns_lease (xs_pc s t)}"

definition handle_owners :: "exec_sys \<Rightarrow> thread set" where
  "handle_owners s = {t. xs_pc s t = Holding True}"

text \<open>
  A loaded word was the word of a reachable state, so it is well formed; a dropping thread owns a
  lease since before its load, so the word it loaded counts at least one lease.
\<close>

definition wf_word :: "usize \<Rightarrow> bool" where
  "wf_word w \<longleftrightarrow> (case execution_state w of
       None \<Rightarrow> False
     | Some Accepting \<Rightarrow> True
     | Some Draining \<Rightarrow> execution_inflight w \<noteq> 0
     | Some Drained \<Rightarrow> execution_inflight w = 0)"

fun wf_pc :: "exec_pc \<Rightarrow> bool" where
  "wf_pc (AcqLoop w _) = wf_word w"
| "wf_pc (DrainLoop w) = wf_word w"
| "wf_pc (DropLoop w) = (wf_word w \<and> execution_inflight w \<noteq> 0)"
| "wf_pc (Crashed p) = (p = ''generation inflight counter overflow'')"
| "wf_pc _ = True"

definition exec_inv :: "exec_sys \<Rightarrow> bool" where
  "exec_inv s \<longleftrightarrow> wf_word (xs_word s) \<and> finite {t. xs_pc s t \<noteq> Fresh} \<and>
     unat (execution_inflight (xs_word s)) = card (lease_owners s) \<and>
     unat (xs_handles s) = card (handle_owners s) \<and>
     (\<forall>t. wf_pc (xs_pc s t))"

subsection \<open>The loop bodies on well-formed words\<close>

lemma wf_word_acquire:
  assumes "wf_word w" and "acquire_body w = CasTo w'"
  shows "wf_word w'" and "unat (execution_inflight w') = Suc (unat (execution_inflight w))"
    and "execution_state w = Some Accepting" and "execution_state w' = Some Accepting"
proof -
  have st: "execution_state w = Some Accepting"
    and room: "unat (execution_inflight w) < unat EXECUTION_MAX_INFLIGHT"
    using assms(2) by (auto simp: acquire_body_def word_less_nat_alt split: option.splits if_splits)
  note acq = acquire_body_accepting [OF st room]
  have "w' = w + EXECUTION_INFLIGHT_ONE" using acq(1) assms(2) by simp
  with acq st show "wf_word w'" "unat (execution_inflight w') = Suc (unat (execution_inflight w))"
    "execution_state w = Some Accepting" "execution_state w' = Some Accepting"
    by (simp_all add: wf_word_def)
qed

lemma wf_word_acquire_panic:
  "wf_word w \<Longrightarrow> acquire_body w = CasPanic p \<Longrightarrow> p = ''generation inflight counter overflow''"
  by (auto simp: wf_word_def acquire_body_def split: option.splits if_splits)

lemma wf_word_drain:
  assumes "wf_word w" and "drain_body w = CasTo w'"
  shows "wf_word w'" and "execution_inflight w' = execution_inflight w"
    and "execution_state w = Some Accepting"
    and "execution_state w' = Some (if execution_inflight w = 0 then Drained else Draining)"
proof -
  show st: "execution_state w = Some Accepting"
    using assms(2) by (auto simp: drain_body_def split: option.splits if_splits)
  from drain_body_accepting [OF this] assms(2)
  show "wf_word w'" "execution_inflight w' = execution_inflight w"
    "execution_state w' = Some (if execution_inflight w = 0 then Drained else Draining)"
    by (auto simp: wf_word_def)
qed

lemma wf_word_drain_panic: "wf_word w \<Longrightarrow> drain_body w \<noteq> CasPanic p"
  by (auto simp: wf_word_def drain_body_def Let_def split: option.splits)

lemma wf_word_drop:
  assumes "wf_word w" and "execution_inflight w \<noteq> 0"
  shows "\<exists>w' st. drop_body w = CasTo w' \<and> wf_word w' \<and> execution_state w = Some st \<and> st \<noteq> Drained \<and>
    unat (execution_inflight w') = unat (execution_inflight w) - 1 \<and>
    execution_state w' = Some (if st = Draining \<and> unat (execution_inflight w) = 1 then Drained else st)"
proof -
  obtain st where st: "execution_state w = Some st" "st \<noteq> Drained"
    using assms by (auto simp: wf_word_def split: option.splits generation_execution_state.splits)
  have n: "unat (execution_inflight w) \<noteq> 0" using assms(2) by (simp add: unat_eq_0)
  obtain w' where w': "drop_body w = CasTo w'"
      "unat (execution_inflight w') = unat (execution_inflight w) - 1"
      "execution_state w' = Some (if st = Draining \<and> unat (execution_inflight w) = 1 then Drained else st)"
    using drop_body_live [OF st assms(2)] by blast
  have "wf_word w'"
  proof (cases st)
    case Draining
    have "execution_inflight w' = 0 \<longleftrightarrow> unat (execution_inflight w) = 1"
      using w'(2) n by (auto simp: unat_eq_0 [symmetric])
    with w'(3) Draining show ?thesis by (simp add: wf_word_def)
  qed (use w'(3) st(2) in \<open>simp_all add: wf_word_def\<close>)
  with w' st show ?thesis by blast
qed

subsection \<open>The counters count the owners\<close>

lemma set_pc_simps [simp]:
  "xs_word (set_pc t p s) = xs_word s" "xs_handles (set_pc t p s) = xs_handles s"
  "xs_pc (set_pc t p s) = (xs_pc s)(t := p)"
  by (simp_all add: set_pc_def)

lemma lease_owners_subset: "lease_owners s \<subseteq> {t. xs_pc s t \<noteq> Fresh}"
  by (auto simp: lease_owners_def)

lemma handle_owners_subset: "handle_owners s \<subseteq> lease_owners s"
  by (auto simp: lease_owners_def handle_owners_def)

lemma card_owner_update:
  assumes "finite {t. P (f t)}"
  shows "card {u. P ((f(t := p)) u)} + of_bool (P (f t)) = card {u. P (f u)} + of_bool (P p)"
proof -
  define A where "A = {u. P (f u)} - {t}"
  have card: "card (if b then insert t A else A) = card A + of_bool b" for b
  proof -
    have "finite A" "t \<notin> A" using assms by (simp_all add: A_def)
    then show ?thesis by simp
  qed
  have "{u. P ((f(t := p)) u)} = (if P p then insert t A else A)" by (auto simp: A_def)
  moreover have "{u. P (f u)} = (if P (f t) then insert t A else A)" by (auto simp: A_def)
  ultimately show ?thesis by (simp only: card)
qed

lemma exec_inv_update:
  assumes inv: "exec_inv s" and w: "wf_word w" and p: "wf_pc p"
    and infl: "unat (execution_inflight w) + of_bool (owns_lease (xs_pc s t))
       = unat (execution_inflight (xs_word s)) + of_bool (owns_lease p)"
    and hnd: "unat h + of_bool (xs_pc s t = Holding True)
       = unat (xs_handles s) + of_bool (p = Holding True)"
  shows "exec_inv (set_pc t p (s\<lparr>xs_word := w, xs_handles := h\<rparr>))"
proof -
  let ?s = "set_pc t p (s\<lparr>xs_word := w, xs_handles := h\<rparr>)"
  have fin: "finite {u. xs_pc s u \<noteq> Fresh}" using inv by (simp add: exec_inv_def)
  have finl: "finite {u. owns_lease (xs_pc s u)}" "finite {u. xs_pc s u = Holding True}"
    using fin by (auto elim!: finite_subset [rotated])
  have "{u. xs_pc ?s u \<noteq> Fresh} \<subseteq> insert t {u. xs_pc s u \<noteq> Fresh}" by auto
  then have "finite {u. xs_pc ?s u \<noteq> Fresh}" using fin finite_subset by blast
  moreover have "unat (execution_inflight (xs_word ?s)) = card (lease_owners ?s)"
    using card_owner_update [of owns_lease "xs_pc s" t p, OF finl(1)] infl inv
    by (simp add: exec_inv_def lease_owners_def)
  moreover have "unat (xs_handles ?s) = card (handle_owners ?s)"
    using card_owner_update [of "\<lambda>q. q = Holding True" "xs_pc s" t p, OF finl(2)] hnd inv
    by (simp add: exec_inv_def handle_owners_def)
  moreover have "\<forall>u. wf_pc (xs_pc ?s u)" using inv p by (simp add: exec_inv_def)
  ultimately show ?thesis using w by (simp add: exec_inv_def)
qed

text \<open>An owner is counted, so a loaded word shows at least one lease and no counter underflows.\<close>

lemma exec_inv_owner:
  assumes "exec_inv s" and "owns_lease (xs_pc s t)"
  shows "execution_inflight (xs_word s) \<noteq> 0"
proof -
  have "t \<in> lease_owners s" using assms(2) by (simp add: lease_owners_def)
  moreover have "finite (lease_owners s)"
    using assms(1) lease_owners_subset finite_subset unfolding exec_inv_def by blast
  ultimately have "card (lease_owners s) \<noteq> 0" by auto
  with assms(1) show ?thesis by (auto simp: exec_inv_def)
qed

lemma exec_inv_handle:
  assumes "exec_inv s" and "xs_pc s t = Holding True"
  shows "xs_handles s \<noteq> 0"
proof -
  have "t \<in> handle_owners s" using assms(2) by (simp add: handle_owners_def)
  moreover have "finite (handle_owners s)"
    using assms(1) lease_owners_subset handle_owners_subset finite_subset
    unfolding exec_inv_def by (metis (no_types, lifting))
  ultimately have "card (handle_owners s) \<noteq> 0" by auto
  with assms(1) show ?thesis by (auto simp: exec_inv_def)
qed

lemma exec_inv_handles_bound:
  assumes "exec_inv s"
  shows "unat (xs_handles s) < 2 ^ 62"
proof -
  have "finite (lease_owners s)"
    using assms lease_owners_subset finite_subset unfolding exec_inv_def by blast
  then have "card (handle_owners s) \<le> card (lease_owners s)"
    by (rule card_mono [OF _ handle_owners_subset])
  moreover have "unat (execution_inflight (xs_word s)) \<le> 2 ^ 62 - 1"
    using inflight_le_max [of "xs_word s"] by (simp add: max_inflight)
  ultimately show ?thesis using assms by (simp add: exec_inv_def)
qed

lemma exec_inv_init: "exec_init s \<Longrightarrow> exec_inv s"
  by (simp add: exec_init_def exec_inv_def wf_word_def lease_owners_def handle_owners_def
      execution_state_unat unat_eq_0 [symmetric] unat_inflight EXECUTION_ACCEPTING_def)

lemma exec_inv_pc:
  assumes "exec_inv s" and "wf_pc p" and "owns_lease p = owns_lease (xs_pc s t)"
    and "(p = Holding True) = (xs_pc s t = Holding True)"
  shows "exec_inv (set_pc t p s)"
  using exec_inv_update [OF assms(1) _ assms(2), of "xs_word s" t "xs_handles s"] assms
  by (simp add: exec_inv_def)

lemma exec_inv_word:
  assumes "exec_inv s" and "wf_word w" and "wf_pc p"
    and "unat (execution_inflight w) + of_bool (owns_lease (xs_pc s t))
       = unat (execution_inflight (xs_word s)) + of_bool (owns_lease p)"
    and "(p = Holding True) = (xs_pc s t = Holding True)"
  shows "exec_inv (set_pc t p (s\<lparr>xs_word := w\<rparr>))"
  using exec_inv_update [OF assms(1-4), of "xs_handles s"] assms(5) by simp

lemma exec_inv_count:
  assumes "exec_inv s" and "wf_pc p" and "owns_lease p = owns_lease (xs_pc s t)"
    and "unat h + of_bool (xs_pc s t = Holding True) = unat (xs_handles s) + of_bool (p = Holding True)"
  shows "exec_inv (set_pc t p (s\<lparr>xs_handles := h\<rparr>))"
  using exec_inv_update [OF assms(1) _ assms(2), of "xs_word s" t h] assms
  by (simp add: exec_inv_def)

lemma exec_inv_parts:
  "exec_inv s \<Longrightarrow> wf_word (xs_word s)" "exec_inv s \<Longrightarrow> xs_pc s t = p \<Longrightarrow> wf_pc p"
  by (auto simp: exec_inv_def)

lemma exec_inv_step:
  assumes "exec_inv s" and "exec_step s s'"
  shows "exec_inv s'"
  using assms(2,1)
proof (induction rule: exec_step.induct)
  case (acq_load s t svc)
  then show ?case by (intro exec_inv_pc) (auto dest: exec_inv_parts)
next
  case (acq_refuse s t cur svc)
  then show ?case by (intro exec_inv_pc) auto
next
  case (acq_panic s t cur svc p)
  then have "p = ''generation inflight counter overflow''"
    using exec_inv_parts(2) wf_word_acquire_panic by fastforce
  with acq_panic show ?case by (intro exec_inv_pc) auto
next
  case (acq_cas s t cur svc "next")
  note w = wf_word_acquire [OF exec_inv_parts(1) [OF acq_cas(4)], unfolded acq_cas(3), OF acq_cas(2)]
  from acq_cas w show ?case by (intro exec_inv_word) auto
next
  case (acq_retry s t cur svc "next")
  then show ?case by (intro exec_inv_pc) (auto dest: exec_inv_parts)
next
  case (acq_count s t)
  then have "unat (xs_handles s + 1) = Suc (unat (xs_handles s))"
    using exec_inv_handles_bound [of s] by (simp add: unat_word_ariths)
  with acq_count show ?case by (intro exec_inv_count) auto
next
  case (acq_count_panic s t)
  moreover have "unat (- 1 :: usize) = 2 ^ 64 - 1" by (simp add: unsigned_minus_1_eq_mask mask_eq_exp_minus_1)
  ultimately show ?case using exec_inv_handles_bound [of s] by simp
next
  case (drain_load s t)
  then show ?case by (intro exec_inv_pc) (auto dest: exec_inv_parts)
next
  case (drain_return s t cur)
  then show ?case by (intro exec_inv_pc) auto
next
  case (drain_panic s t cur p)
  then show ?case using exec_inv_parts(2) wf_word_drain_panic by fastforce
next
  case (drain_cas s t cur "next")
  note w = wf_word_drain [OF exec_inv_parts(1) [OF drain_cas(4)], unfolded drain_cas(3), OF drain_cas(2)]
  from drain_cas w show ?case by (intro exec_inv_word) auto
next
  case (drain_retry s t cur "next")
  then show ?case by (intro exec_inv_pc) (auto dest: exec_inv_parts)
next
  case (drop_handle s t)
  then have "unat (xs_handles s - 1) + 1 = unat (xs_handles s)"
    by (metis Suc_eq_plus1 Suc_pred' unat_minus_one unat_gt_0)
  with drop_handle show ?case by (intro exec_inv_count) auto
next
  case (drop_handle_panic s t)
  then show ?case using exec_inv_handle by blast
next
  case (drop_load s t)
  then have "owns_lease (xs_pc s t)" by auto
  with drop_load have "execution_inflight (xs_word s) \<noteq> 0" using exec_inv_owner by blast
  with drop_load show ?case by (intro exec_inv_pc) (auto dest: exec_inv_parts)
next
  case (drop_panic s t cur p)
  then have "wf_word cur" "execution_inflight cur \<noteq> 0"
    using exec_inv_parts(2) by fastforce+
  with drop_panic wf_word_drop show ?case by fastforce
next
  case (drop_cas s t cur "next")
  have "execution_inflight cur \<noteq> 0"
    using drop_cas exec_inv_owner [of s t] by simp
  moreover have "wf_word cur" using drop_cas exec_inv_parts(1) by blast
  ultimately have "wf_word next" "unat (execution_inflight next) + 1 = unat (execution_inflight cur)"
    using wf_word_drop [of cur] drop_cas(2) by (auto simp: unat_eq_0 [symmetric])
  with drop_cas show ?case by (intro exec_inv_word) auto
next
  case (drop_retry s t cur "next")
  then have "execution_inflight (xs_word s) \<noteq> 0" using exec_inv_owner [of s t] by simp
  with drop_retry show ?case by (intro exec_inv_pc) (auto dest: exec_inv_parts)
qed

lemma exec_inv_reachable: "exec.reachable s \<Longrightarrow> exec_inv s"
  by (rule exec.invariant [of s exec_inv]) (auto intro: exec_inv_init exec_inv_step)

section \<open>Refinement of a lease counter\<close>

text \<open>
  The specification: an admission state and the number of leases. \<open>acquire\<close> needs an accepting
  counter, \<open>shut\<close> closes it for ever, and the last \<open>release\<close> of a draining counter drains it.
\<close>

inductive counter_step ::
  "generation_execution_state \<times> nat \<Rightarrow> generation_execution_state \<times> nat \<Rightarrow> bool" where
  acquire: "counter_step (Accepting, n) (Accepting, Suc n)"
| shut: "counter_step (Accepting, n) (if n = 0 then Drained else Draining, n)"
| release: "st \<noteq> Drained \<Longrightarrow>
    counter_step (st, Suc n) (if st = Draining \<and> n = 0 then Drained else st, n)"

inductive_cases counter_stepE: "counter_step (st, n) c"

definition exec_abs :: "exec_sys \<Rightarrow> generation_execution_state \<times> nat" where
  "exec_abs s = (the (execution_state (xs_word s)), unat (execution_inflight (xs_word s)))"

lemma exec_abs_set_pc [simp]:
  "exec_abs (set_pc t p s) = exec_abs s" "exec_abs (s\<lparr>xs_handles := h\<rparr>) = exec_abs s"
  by (simp_all add: exec_abs_def)

lemma exec_step_refines:
  assumes "exec_inv s" and "exec_step s s'"
  shows "exec_abs s' = exec_abs s \<or> counter_step (exec_abs s) (exec_abs s')"
  using assms(2,1)
proof (induction rule: exec_step.induct)
  case (acq_cas s t cur svc "next")
  note w = wf_word_acquire [OF exec_inv_parts(1) [OF acq_cas(4)], unfolded acq_cas(3), OF acq_cas(2)]
  have "exec_abs s = (Accepting, unat (execution_inflight cur))"
    "exec_abs (s\<lparr>xs_word := next\<rparr>) = (Accepting, Suc (unat (execution_inflight cur)))"
    using w acq_cas(3) by (simp_all add: exec_abs_def)
  then show ?case by (simp add: counter_step.acquire)
next
  case (drain_cas s t cur "next")
  note w = wf_word_drain [OF exec_inv_parts(1) [OF drain_cas(4)], unfolded drain_cas(3), OF drain_cas(2)]
  have "exec_abs s = (Accepting, unat (execution_inflight cur))"
    "exec_abs (s\<lparr>xs_word := next\<rparr>) = (if unat (execution_inflight cur) = 0 then Drained else Draining,
       unat (execution_inflight cur))"
    using w drain_cas(3) by (simp_all add: exec_abs_def unat_eq_0)
  then show ?case using counter_step.shut by simp
next
  case (drop_cas s t cur "next")
  have n: "execution_inflight cur \<noteq> 0" using drop_cas exec_inv_owner [of s t] by simp
  moreover have "wf_word cur" using drop_cas exec_inv_parts(1) by blast
  ultimately obtain st where st: "execution_state cur = Some st" "st \<noteq> Drained"
      "unat (execution_inflight next) = unat (execution_inflight cur) - 1"
      "execution_state next = Some (if st = Draining \<and> unat (execution_inflight cur) = 1 then Drained else st)"
    using wf_word_drop [of cur] drop_cas(2) by auto
  obtain m where m: "unat (execution_inflight cur) = Suc m"
    using n by (metis not0_implies_Suc unat_eq_0)
  have "exec_abs s = (st, Suc m)"
    "exec_abs (s\<lparr>xs_word := next\<rparr>) = (if st = Draining \<and> m = 0 then Drained else st, m)"
    using st m drop_cas(3) by (simp_all add: exec_abs_def)
  then show ?case using counter_step.release [OF st(2), of m] by simp
qed simp_all

text \<open>A drained counter has no step, so a drained generation has no owner now or later.\<close>

lemma drained_stuck: "\<not> counter_step (Drained, 0) c"
  by (auto elim: counter_stepE)

definition exec_drained :: "exec_sys \<Rightarrow> bool" where
  "exec_drained s \<longleftrightarrow> exec_inv s \<and> execution_state (xs_word s) = Some Drained"

lemma exec_drained_inflight: "exec_drained s \<Longrightarrow> execution_inflight (xs_word s) = 0"
  by (auto simp: exec_drained_def exec_inv_def wf_word_def)

lemma exec_drained_abs: "exec_drained s \<Longrightarrow> exec_abs s = (Drained, 0)"
  using exec_drained_inflight [of s] by (simp add: exec_drained_def exec_abs_def)

lemma exec_drained_step: "exec_drained s \<Longrightarrow> exec_step s s' \<Longrightarrow> exec_drained s'"
proof -
  assume a: "exec_drained s" "exec_step s s'"
  then have inv: "exec_inv s'" using exec_inv_step by (auto simp: exec_drained_def)
  have "exec_abs s' = (Drained, 0)"
    using exec_step_refines [OF _ a(2)] a(1) exec_drained_abs [OF a(1)] drained_stuck
    by (auto simp: exec_drained_def)
  with inv show ?thesis
    by (auto simp: exec_drained_def exec_abs_def exec_inv_def wf_word_def split: option.splits)
qed

lemma exec_drained_no_owner:
  assumes "exec_drained s"
  shows "lease_owners s = {}"
proof -
  have "finite (lease_owners s)"
    using assms lease_owners_subset finite_subset unfolding exec_drained_def exec_inv_def by blast
  moreover have "card (lease_owners s) = 0"
    using exec_drained_inflight [OF assms] assms by (simp add: exec_drained_def exec_inv_def)
  ultimately show ?thesis by simp
qed

section \<open>Uncontended runs\<close>

text \<open>The atomic operations of \<open>Gate\<close> are what a thread does when no other thread interferes.\<close>

definition exec_now :: "exec_sys \<Rightarrow> generation_execution" where
  "exec_now s = \<lparr>ge_word = xs_word s, ge_service_handles = xs_handles s\<rparr>"

lemma try_acquire_solo:
  assumes "xs_pc s t = Fresh" and "try_acquire_kind svc (exec_now s) = (Ok b, e')"
  shows "\<exists>s'. exec_step\<^sup>*\<^sup>* s s' \<and> exec_now s' = e' \<and> xs_pc s' = (xs_pc s)(t := if b then Holding svc else Refused)"
proof -
  let ?s1 = "set_pc t (AcqLoop (xs_word s) svc) s"
  have s1: "exec_step s ?s1" using assms(1) by (rule exec_step.acq_load)
  show ?thesis
  proof (cases "acquire_body (xs_word s)")
    case CasReturn
    then have "exec_step ?s1 (set_pc t Refused ?s1)" by (auto intro: exec_step.acq_refuse)
    with s1 assms(2) CasReturn show ?thesis
      by (intro exI [of _ "set_pc t Refused ?s1"])
        (auto simp: try_acquire_kind_def exec_now_def)
  next
    case (CasTo w)
    let ?s2 = "set_pc t (if svc then AcqCount else Holding False) (?s1\<lparr>xs_word := w\<rparr>)"
    have s2: "exec_step ?s1 ?s2" using CasTo by (intro exec_step.acq_cas) auto
    show ?thesis
    proof (cases svc)
      case False
      with s1 s2 assms(2) CasTo show ?thesis
        by (intro exI [of _ ?s2]) (auto simp: try_acquire_kind_def exec_now_def)
    next
      case True
      then have h: "xs_handles s \<noteq> - 1"
        using assms(2) CasTo by (auto simp: try_acquire_kind_def exec_now_def)
      let ?s3 = "set_pc t (Holding True) (?s2\<lparr>xs_handles := xs_handles s + 1\<rparr>)"
      have "exec_step ?s2 ?s3"
        using exec_step.acq_count [of ?s2 t] True h by simp
      with s1 s2 have "exec_step\<^sup>*\<^sup>* s ?s3" by auto
      with True h assms(2) CasTo show ?thesis
        by (intro exI [of _ ?s3]) (auto simp: try_acquire_kind_def exec_now_def)
    qed
  next
    case (CasPanic p)
    with assms(2) show ?thesis by (simp add: try_acquire_kind_def exec_now_def)
  qed
qed

section \<open>Threads on the admission gate\<close>

text \<open>
  A mutation enters through \<open>AdmissionGate::enter\<close> and keeps its read guard until it returns;
  shutdown takes the write lock for its compare-and-swap. \<open>as_inside\<close> are the threads that hold a
  guard.
\<close>

record admission_sys =
  as_gate :: admission_gate
  as_inside :: "thread set"

definition admission_init :: "admission_sys \<Rightarrow> bool" where
  "admission_init s \<longleftrightarrow> as_gate s = admission_default \<and> as_inside s = {}"

inductive admission_step :: "admission_sys \<Rightarrow> admission_sys \<Rightarrow> bool" where
  enter: "t \<notin> as_inside s \<Longrightarrow> admission_enter (as_gate s) = (Ok (), g) \<Longrightarrow>
    admission_step s (s\<lparr>as_gate := g, as_inside := insert t (as_inside s)\<rparr>)"
| refused: "admission_enter (as_gate s) = (Err e, g) \<Longrightarrow> admission_step s (s\<lparr>as_gate := g\<rparr>)"
| leave: "t \<in> as_inside s \<Longrightarrow>
    admission_step s (s\<lparr>as_gate := admission_leave (as_gate s), as_inside := as_inside s - {t}\<rparr>)"
| begin_shut: "begin_shutdown (as_gate s) = Some (b, g) \<Longrightarrow> admission_step s (s\<lparr>as_gate := g\<rparr>)"
| complete: "ag_state (as_gate s) = SHUTTING_DOWN \<Longrightarrow>
    admission_step s (s\<lparr>as_gate := complete_shutdown (as_gate s)\<rparr>)"

interpretation admission: transition_system admission_init admission_step .

lemma admission_states [simp]:
  "SHUTTING_DOWN \<noteq> RUNNING" "SHUTDOWN \<noteq> RUNNING" "RUNNING \<noteq> SHUTTING_DOWN" "RUNNING \<noteq> SHUTDOWN"
  by (simp_all add: RUNNING_def SHUTTING_DOWN_def SHUTDOWN_def)

definition admission_inv :: "admission_sys \<Rightarrow> bool" where
  "admission_inv s \<longleftrightarrow> finite (as_inside s) \<and> ag_readers (as_gate s) = card (as_inside s) \<and>
     (ag_state (as_gate s) \<noteq> RUNNING \<longrightarrow> as_inside s = {})"

lemma admission_inv_step: "admission_inv s \<Longrightarrow> admission_step s s' \<Longrightarrow> admission_inv s'"
  by (erule admission_step.cases)
    (auto simp: admission_inv_def admission_enter_def admission_leave_def begin_shutdown_def
      complete_shutdown_def split: if_splits)

lemma admission_inv_init: "admission_init s \<Longrightarrow> admission_inv s"
  by (simp add: admission_init_def admission_default_def admission_inv_def)

lemma admission_inv_reachable: "admission.reachable s \<Longrightarrow> admission_inv s"
  by (rule admission.invariant [of s admission_inv])
    (auto intro: admission_inv_init admission_inv_step)

lemma admission_closed_step:
  "ag_state (as_gate s) \<noteq> RUNNING \<Longrightarrow> admission_step s s' \<Longrightarrow> ag_state (as_gate s') \<noteq> RUNNING"
  by (erule admission_step.cases)
    (auto simp: admission_enter_def admission_leave_def begin_shutdown_def complete_shutdown_def
      split: if_splits)

section \<open>Properties\<close>

text \<open>
  C2. In every interleaving of acquiring, dropping and draining threads, the in-flight count of a
  generation is the number of threads that own a lease, the service-handle count is the number of
  threads that hold a service lease, and the only panic is the in-flight overflow: no lease is
  lost, counted twice or underflows.
\<close>

theorem generation_counts_exact:
  assumes "exec.reachable s"
  shows "unat (execution_inflight (xs_word s)) = card (lease_owners s) \<and>
    unat (xs_handles s) = card (handle_owners s) \<and>
    (xs_pc s t = Crashed p \<longrightarrow> p = ''generation inflight counter overflow'')"
proof -
  have inv: "exec_inv s" by (rule exec_inv_reachable [OF assms])
  then show ?thesis using exec_inv_parts(2) [OF inv, of t "Crashed p"] by (simp add: exec_inv_def)
qed

definition solo_run :: "exec_sys list" where
  "solo_run = (let s0 = \<lparr>xs_word = 0, xs_handles = 0, xs_pc = \<lambda>_. Fresh\<rparr>;
                  s1 = set_pc 0 (AcqLoop 0 True) s0;
                  s2 = set_pc 0 AcqCount (s1\<lparr>xs_word := 4\<rparr>);
                  s3 = set_pc 0 (Holding True) (s2\<lparr>xs_handles := 1\<rparr>)
              in [s0, s1, s2, s3])"

lemma solo_init: "exec_init (solo_run ! 0)"
  by (simp add: solo_run_def Let_def exec_init_def EXECUTION_ACCEPTING_def)

lemma solo_steps:
  "exec_step (solo_run ! 0) (solo_run ! 1)" "exec_step (solo_run ! 1) (solo_run ! 2)"
  "exec_step (solo_run ! 2) (solo_run ! 3)"
proof -
  show "exec_step (solo_run ! 0) (solo_run ! 1)"
    using exec_step.acq_load [of "solo_run ! 0" 0 True] by (simp add: solo_run_def Let_def)
  have "acquire_body 0 = CasTo 4" by code_simp
  then show "exec_step (solo_run ! 1) (solo_run ! 2)"
    using exec_step.acq_cas [of "solo_run ! 1" 0 0 True 4]
    by (simp add: solo_run_def Let_def numeral_2_eq_2)
  show "exec_step (solo_run ! 2) (solo_run ! 3)"
    using exec_step.acq_count [of "solo_run ! 2" 0]
    by (simp add: solo_run_def Let_def numeral_2_eq_2 numeral_3_eq_3)
qed

lemma solo_reachable: "exec.reachable (solo_run ! 2)" "exec.reachable (solo_run ! 3)"
  using exec.reachable.start [OF solo_init] solo_steps exec.reachable.step by blast+

theorem generation_counts_exact_witness:
  "unat (xs_handles (solo_run ! 3)) = card (handle_owners (solo_run ! 3)) \<and> xs_handles (solo_run ! 3) = 1"
  using generation_counts_exact [OF solo_reachable(2), of 0 "[]"]
  by (simp add: solo_run_def Let_def numeral_3_eq_3)

text \<open>
  Once a generation has drained, no thread owns a lease of it, and along every continuation no
  thread ever does again: cleanup that waits for \<open>Drained\<close> never races with admitted work.
\<close>

theorem drained_generation_is_quiet:
  assumes "exec.reachable s" and "execution_state (xs_word s) = Some Drained"
    and "exec_step\<^sup>*\<^sup>* s s'"
  shows "lease_owners s = {} \<and> lease_owners s' = {} \<and> execution_state (xs_word s') = Some Drained"
proof -
  have d: "exec_drained s"
    using assms(1,2) exec_inv_reachable by (simp add: exec_drained_def)
  have "exec_drained s'"
    by (rule exec.stable_rtranclp [where P = exec_drained, OF assms(3) d exec_drained_step])
  with d show ?thesis using exec_drained_no_owner by (simp add: exec_drained_def)
qed

definition drain_run :: "exec_sys list" where
  "drain_run = (let s0 = \<lparr>xs_word = 0, xs_handles = 0, xs_pc = \<lambda>_. Fresh\<rparr>;
                   s1 = set_pc 0 (DrainLoop 0) s0;
                   s2 = set_pc 0 DrainDone (s1\<lparr>xs_word := 2\<rparr>);
                   s3 = set_pc 1 (AcqLoop 2 False) s2
               in [s0, s1, s2, s3])"

lemma drain_steps:
  "exec_init (drain_run ! 0)" "exec_step (drain_run ! 0) (drain_run ! 1)"
  "exec_step (drain_run ! 1) (drain_run ! 2)" "exec_step (drain_run ! 2) (drain_run ! 3)"
proof -
  show "exec_init (drain_run ! 0)"
    by (simp add: drain_run_def Let_def exec_init_def EXECUTION_ACCEPTING_def)
  show "exec_step (drain_run ! 0) (drain_run ! 1)"
    using exec_step.drain_load [of "drain_run ! 0" 0] by (simp add: drain_run_def Let_def)
  have "drain_body 0 = CasTo 2" by code_simp
  then show "exec_step (drain_run ! 1) (drain_run ! 2)"
    using exec_step.drain_cas [of "drain_run ! 1" 0 0 2]
    by (simp add: drain_run_def Let_def numeral_2_eq_2)
  show "exec_step (drain_run ! 2) (drain_run ! 3)"
    using exec_step.acq_load [of "drain_run ! 2" 1 False]
    by (simp add: drain_run_def Let_def numeral_2_eq_2 numeral_3_eq_3)
qed

lemma drain_reachable: "exec.reachable (drain_run ! 1)" "exec.reachable (drain_run ! 2)"
  using exec.reachable.start [OF drain_steps(1)] drain_steps(2,3) exec.reachable.step by blast+

theorem drained_generation_is_quiet_witness: "lease_owners (drain_run ! 3) = {}"
proof -
  have "execution_state 2 = Some Drained" by code_simp
  then have "execution_state (xs_word (drain_run ! 2)) = Some Drained"
    by (simp add: drain_run_def Let_def numeral_2_eq_2)
  from drained_generation_is_quiet [OF drain_reachable(2) this r_into_rtranclp [of exec_step, OF drain_steps(4)]]
  show ?thesis by blast
qed

text \<open>
  C3. The packed word implements an admission counter: every step of every thread is a step of
  the counter specification or leaves its value unchanged.
\<close>

theorem generation_refines_counter:
  assumes "exec.reachable s" and "exec_step s s'"
  shows "exec_abs s' = exec_abs s \<or> counter_step (exec_abs s) (exec_abs s')"
  by (rule exec_step_refines [OF exec_inv_reachable [OF assms(1)] assms(2)])

theorem generation_refines_counter_witness:
  "counter_step (exec_abs (drain_run ! 1)) (exec_abs (drain_run ! 2)) \<and>
   exec_abs (drain_run ! 2) = (Drained, 0)"
proof -
  have "execution_state 2 = Some Drained" "execution_inflight 2 = 0" "execution_state 0 = Some Accepting"
    by code_simp+
  then have "exec_abs (drain_run ! 2) = (Drained, 0)" "fst (exec_abs (drain_run ! 1)) = Accepting"
    by (simp_all add: drain_run_def Let_def numeral_2_eq_2 exec_abs_def)
  then have "exec_abs (drain_run ! 2) \<noteq> exec_abs (drain_run ! 1)" by (metis fst_conv generation_execution_state.distinct(3))
  with \<open>exec_abs (drain_run ! 2) = (Drained, 0)\<close>
    generation_refines_counter [OF drain_reachable(1) drain_steps(3)] show ?thesis by metis
qed

text \<open>
  C4. Shutdown is fenced: once the admission state has left running, no admitted mutation is in
  progress, none is ever admitted again, and every attempt to enter fails.
\<close>

theorem shutdown_fences_admission:
  assumes "admission.reachable s" and "ag_state (as_gate s) \<noteq> RUNNING" and "admission_step\<^sup>*\<^sup>* s s'"
  shows "as_inside s' = {} \<and> admission_enter (as_gate s') = (Err RuntimeShuttingDown, as_gate s')"
proof -
  have "ag_state (as_gate s') \<noteq> RUNNING"
    by (rule admission.stable_rtranclp [OF assms(3), of "\<lambda>s. ag_state (as_gate s) \<noteq> RUNNING"])
      (use assms(2) admission_closed_step in auto)
  moreover have "admission_inv s'"
    by (rule admission_inv_reachable [OF admission.reachable_rtranclp [OF assms(1,3)]])
  ultimately show ?thesis by (simp add: admission_inv_def admission_enter_def)
qed

theorem shutdown_fences_admission_witness:
  "admission_enter \<lparr>ag_state = SHUTTING_DOWN, ag_readers = 0\<rparr>
     = (Err RuntimeShuttingDown, \<lparr>ag_state = SHUTTING_DOWN, ag_readers = 0\<rparr>)"
proof -
  let ?s = "\<lparr>as_gate = admission_default, as_inside = {}\<rparr>"
  let ?t = "?s\<lparr>as_gate := \<lparr>ag_state = SHUTTING_DOWN, ag_readers = 0\<rparr>\<rparr>"
  have "admission.reachable ?s" by (rule admission.reachable.start) (simp add: admission_init_def)
  moreover have "admission_step ?s ?t"
    by (rule admission_step.begin_shut [of _ True]) (simp add: begin_shutdown_def admission_default_def)
  ultimately have "admission.reachable ?t" by (rule admission.reachable.step)
  from shutdown_fences_admission [OF this _ rtranclp.rtrancl_refl] show ?thesis by simp
qed

end
