(* ===== verification/Runtime_Config.thy ===== *)
theory Runtime_Config
  imports Core_Types
begin

text \<open>
  Resource limits and deadlines (\<^verbatim>\<open>config.rs\<close>): the record of limits, its defaults and its
  validation. A \<open>Duration\<close> is a number of nanoseconds.
\<close>

type_synonym duration = nat

definition from_secs :: "nat \<Rightarrow> duration" where
  "from_secs n = n * 1000000000"

record runtime_config =
  task_grace :: duration
  shutdown_grace :: duration
  default_invocation_timeout :: duration
  max_concurrent_invocations :: usize
  max_scopes :: usize
  max_fibers :: usize
  max_tasks_per_fiber :: usize
  max_handlers_per_fiber :: usize
  max_effects_per_fiber :: usize
  max_child_scopes_per_fiber :: usize
  max_scope_depth :: usize
  max_interned_symbols :: usize
  max_resolution_cache_entries :: usize

definition config_default :: runtime_config where
  "config_default = \<lparr>
     task_grace = from_secs 2,
     shutdown_grace = from_secs 10,
     default_invocation_timeout = from_secs 60,
     max_concurrent_invocations = 64,
     max_scopes = 4096,
     max_fibers = 8192,
     max_tasks_per_fiber = 128,
     max_handlers_per_fiber = 256,
     max_effects_per_fiber = 256,
     max_child_scopes_per_fiber = 128,
     max_scope_depth = 32,
     max_interned_symbols = 16384,
     max_resolution_cache_entries = 4096\<rparr>"

definition U32_MAX :: usize where
  "U32_MAX = 4294967295"

definition config_validate :: "runtime_config \<Rightarrow> unit cres" where
  "config_validate c =
     (if task_grace c = 0 \<or> shutdown_grace c = 0 \<or> default_invocation_timeout c = 0
      then Err (InvalidRuntimeConfig (Lit ''grace periods and invocation timeout must be non-zero''))
      else if 0 \<in> set [max_concurrent_invocations c, max_scopes c, max_fibers c,
          max_tasks_per_fiber c, max_handlers_per_fiber c, max_effects_per_fiber c,
          max_child_scopes_per_fiber c, max_scope_depth c, max_interned_symbols c]
      then Err (InvalidRuntimeConfig (Lit ''resource limits must be non-zero''))
      else if max_interned_symbols c > U32_MAX
      then Err (InvalidRuntimeConfig (Lit ''max_interned_symbols exceeds the ServiceSymbol ID space''))
      else Ok ())"

lemma config_default_valid: "config_validate config_default = Ok ()"
  by (simp add: config_validate_def config_default_def from_secs_def U32_MAX_def)

text \<open>What a validated configuration guarantees to the components.\<close>

lemma config_validate_Ok_iff:
  "config_validate c = Ok () \<longleftrightarrow>
     0 < task_grace c \<and> 0 < shutdown_grace c \<and> 0 < default_invocation_timeout c \<and>
     (\<forall>limit \<in> {max_concurrent_invocations c, max_scopes c, max_fibers c,
        max_tasks_per_fiber c, max_handlers_per_fiber c, max_effects_per_fiber c,
        max_child_scopes_per_fiber c, max_scope_depth c, max_interned_symbols c}. limit \<noteq> 0) \<and>
     unat (max_interned_symbols c) < 2 ^ 32"
proof -
  have "unat (max_interned_symbols c) < 2 ^ 32 \<longleftrightarrow> \<not> U32_MAX < max_interned_symbols c"
    by (simp add: U32_MAX_def word_less_nat_alt) linarith
  then show ?thesis by (auto simp: config_validate_def)
qed

end
