(* ===== verification/Plugin_Registry.thy ===== *)
theory Plugin_Registry
  imports Gate
begin

text \<open>
  Logical plugins (\<^verbatim>\<open>plugin_registry.rs\<close>). A slot owns the generation selector its generations
  share, the next generation number and the number of attached Fibers. \<open>create\<close> receives the
  handle its arena allocates and the address of the selector it allocates.
\<close>

record plugin_slot =
  ps_selector :: selector_ref
  ps_next_generation :: u64
  ps_fiber_count :: usize

type_synonym plugin_registry = "(plugin_id, plugin_slot) amap"

definition plugin_create ::
  "plugin_id \<Rightarrow> selector_ref \<Rightarrow> plugin_registry \<times> gate_store \<Rightarrow> plugin_id \<times> plugin_registry \<times> gate_store" where
  "plugin_create p sel st = (case st of (r, g) \<Rightarrow>
     (p, aput p \<lparr>ps_selector = sel, ps_next_generation = 1, ps_fiber_count = 0\<rparr> r,
      g\<lparr>gs_selector := (gs_selector g)(sel := GEN_NONE)\<rparr>))"

definition allocate_generation ::
  "plugin_id \<Rightarrow> plugin_registry \<Rightarrow> (generation_id \<times> selector_ref) cres \<times> plugin_registry" where
  "allocate_generation p r = (case aget r p of
      None \<Rightarrow> (Err (Invariant (Lit ''logical plugin slot disappeared'')), r)
    | Some slot \<Rightarrow>
        let generation = ps_next_generation slot in
        if generation = - 1
        then (Err (Invariant (Lit ''plugin generation space exhausted'')), r)
        else (Ok (generation, ps_selector slot),
              aput p (slot\<lparr>ps_next_generation := generation + 1\<rparr>) r))"

definition attach_fiber :: "plugin_id \<Rightarrow> plugin_registry \<Rightarrow> unit cres \<times> plugin_registry" where
  "attach_fiber p r = (case aget r p of
      None \<Rightarrow> (Err (Invariant (Lit ''logical plugin slot disappeared'')), r)
    | Some slot \<Rightarrow>
        if ps_fiber_count slot = - 1
        then (Err (Invariant (Lit ''plugin fiber count overflow'')), r)
        else (Ok (), aput p (slot\<lparr>ps_fiber_count := ps_fiber_count slot + 1\<rparr>) r))"

definition detach_fiber :: "plugin_id \<Rightarrow> plugin_registry \<Rightarrow> unit cres \<times> plugin_registry" where
  "detach_fiber p r = (case aget r p of
      None \<Rightarrow> (Err (Invariant (Lit ''logical plugin slot disappeared during fiber detach'')), r)
    | Some slot \<Rightarrow>
        if ps_fiber_count slot = 0
        then (Err (Invariant (Lit ''plugin fiber count underflow'')), r)
        else (Ok (), aput p (slot\<lparr>ps_fiber_count := ps_fiber_count slot - 1\<rparr>) r))"

definition reclaim_if_dead :: "gate_store \<Rightarrow> plugin_id \<Rightarrow> plugin_registry \<Rightarrow> bool \<times> plugin_registry" where
  "reclaim_if_dead g p r = (case aget r p of
      None \<Rightarrow> (False, r)
    | Some slot \<Rightarrow>
        if ps_fiber_count slot = 0 \<and> selector_active g (ps_selector slot) = GEN_NONE
        then (True, adel p r) else (False, r))"

section \<open>Generations of a plugin\<close>

text \<open>The generations handed out by \<open>n\<close> successive allocations, oldest first.\<close>

fun allocate_many :: "nat \<Rightarrow> plugin_id \<Rightarrow> plugin_registry \<Rightarrow> (generation_id list) cres \<times> plugin_registry" where
  "allocate_many 0 p r = (Ok [], r)"
| "allocate_many (Suc n) p r = sbind (allocate_generation p) (\<lambda>(g, _) r1.
     sbind (allocate_many n p) (\<lambda>gs r2. (Ok (g # gs), r2)) r1) r"

lemma allocate_generation_Ok:
  assumes "allocate_generation p r = (Ok (g, sel), r')"
  shows "\<exists>slot. aget r p = Some slot \<and> g = ps_next_generation slot \<and> sel = ps_selector slot \<and>
    g \<noteq> - 1 \<and> r' = aput p (slot\<lparr>ps_next_generation := g + 1\<rparr>) r"
  using assms by (auto simp: allocate_generation_def Let_def split: option.splits if_splits)

lemma allocate_many_Ok:
  assumes "allocate_many n p r = (Ok gs, r')" and "aget r p = Some slot"
  shows "map unat gs = [unat (ps_next_generation slot) ..< unat (ps_next_generation slot) + n] \<and>
    length gs = n"
  using assms
proof (induction n arbitrary: r slot gs)
  case 0
  then show ?case by simp
next
  case (Suc n)
  from Suc.prems(1) obtain g sel r1 gs' where a: "allocate_generation p r = (Ok (g, sel), r1)"
      "allocate_many n p r1 = (Ok gs', r')" "gs = g # gs'"
    by (auto simp: sbind_Ok_iff split: prod.splits)
  from allocate_generation_Ok [OF a(1)] Suc.prems(2)
  have g: "g = ps_next_generation slot" "g \<noteq> - 1"
      "aget r1 p = Some (slot\<lparr>ps_next_generation := g + 1\<rparr>)" by auto
  have "unat (g + 1) = Suc (unat g)"
    using g(2) by (rule unat_add_one)
  with Suc.IH [OF a(2) g(3)] a(3) g(1) show ?case by (simp add: upt_conv_Cons)
qed

lemma detach_attach:
  assumes "attach_fiber p r = (Ok (), r1)"
  shows "\<exists>r2. detach_fiber p r1 = (Ok (), r2) \<and> aget r2 = aget r"
proof -
  obtain slot where s: "aget r p = Some slot" "ps_fiber_count slot \<noteq> - 1"
      "r1 = aput p (slot\<lparr>ps_fiber_count := ps_fiber_count slot + 1\<rparr>) r"
    using assms by (auto simp: attach_fiber_def split: option.splits if_splits)
  have "ps_fiber_count slot + 1 \<noteq> 0"
    using s(2) by (metis add_eq_0_iff2 minus_equation_iff)
  then show ?thesis
    using s by (auto simp: detach_fiber_def fun_eq_iff)
qed

lemma reclaim_only_dead:
  assumes "reclaim_if_dead g p r = (True, r')"
  shows "\<exists>slot. aget r p = Some slot \<and> ps_fiber_count slot = 0 \<and>
    selector_active g (ps_selector slot) = GEN_NONE \<and> aget r' = (aget r)(p := None)"
  using assms by (auto simp: reclaim_if_dead_def fun_eq_iff split: option.splits if_splits)

lemma live_plugin_kept:
  assumes "aget r p = Some slot" and "ps_fiber_count slot \<noteq> 0"
  shows "reclaim_if_dead g p r = (False, r)"
  using assms by (simp add: reclaim_if_dead_def)

text \<open>
  A logical plugin never reuses a generation number: successive allocations hand out
  consecutive, hence distinct, numbers, and once the number space is exhausted allocation fails
  instead of wrapping around.
\<close>

theorem generations_never_reused:
  assumes "allocate_many n p r = (Ok gs, r')" and "aget r p = Some slot" and "ps_next_generation slot \<noteq> 0"
  shows "distinct gs \<and> GEN_NONE \<notin> set gs \<and> length gs = n"
proof -
  note a = allocate_many_Ok [OF assms(1,2)]
  then have "distinct (map unat gs)" by simp
  moreover have "GEN_NONE \<notin> set gs"
  proof
    assume "GEN_NONE \<in> set gs"
    then have "0 \<in> set (map unat gs)" by (force simp: GEN_NONE_def)
    then have "0 \<in> set [unat (ps_next_generation slot) ..< unat (ps_next_generation slot) + n]"
      using a by metis
    with assms(3) show False by (simp add: unat_eq_0)
  qed
  ultimately show ?thesis using a distinct_map [of unat gs] by blast
qed

definition example_plugins :: plugin_registry where
  "example_plugins = [(7, \<lparr>ps_selector = 0, ps_next_generation = 1, ps_fiber_count = 0\<rparr>)]"

theorem generations_never_reused_witness:
  "distinct [1 :: generation_id, 2, 3] \<and> fst (allocate_many 3 7 example_plugins) = Ok [1, 2, 3]"
proof -
  have run: "allocate_many 3 7 example_plugins = (Ok [1, 2, 3],
      [(7, \<lparr>ps_selector = 0, ps_next_generation = 4, ps_fiber_count = 0\<rparr>)])"
    by (simp add: numeral_3_eq_3 example_plugins_def sbind_def allocate_generation_def)
  then show ?thesis
    using generations_never_reused [OF run, of "\<lparr>ps_selector = 0, ps_next_generation = 1, ps_fiber_count = 0\<rparr>"]
    by (simp add: example_plugins_def)
qed

end
