(* ===== verification/Service_Registry.thy ===== *)
theory Service_Registry
  imports Gate
begin

text \<open>
  Services (\<^verbatim>\<open>service_registry.rs\<close>): interned keys, the entries of each scope, and the bounded
  resolution cache with its epoch. Every operation runs under the registry lock, so it is one
  function on the state; the eviction loop of \<open>resolve\<close> is a partial function whose value \<open>None\<close>
  means that it does not return.

  The lemmas: interning is injective, the cache stays well formed (so eviction ends), a coherent
  cache never changes an answer, and a revision commit is all or nothing.
\<close>

section \<open>State\<close>

record service_entry =
  se_owner :: fiber_id
  se_scope :: scope_id
  se_value :: service_value
  se_gate :: gate_ref

record cache_entry =
  ce_epoch :: u64
  ce_location :: "(scope_id \<times> fiber_id) option"

datatype cache_lookup = Miss | Hit "service_entry option"

type_synonym slot_key = "scope_id \<times> service_symbol"

record service_registry =
  sr_by_key :: "(service_key, service_symbol) amap"
  sr_keys :: "service_key list"
  sr_entries :: "(slot_key, service_entry) amap"
  sr_epoch :: u64
  sr_cache :: "(slot_key, cache_entry) amap"
  sr_cache_order :: "slot_key list"
  sr_max_symbols :: usize
  sr_max_cache_entries :: usize

definition service_registry_new :: "usize \<Rightarrow> usize \<Rightarrow> service_registry" where
  "service_registry_new max_symbols max_cache = \<lparr>sr_by_key = [], sr_keys = [], sr_entries = [],
     sr_epoch = 0, sr_cache = [], sr_cache_order = [], sr_max_symbols = max_symbols,
     sr_max_cache_entries = max_cache\<rparr>"

record prepared_service_revision =
  pv_from :: scope_id
  pv_to :: scope_id
  pv_symbols :: "service_symbol list"
  pv_old_owner :: fiber_id
  pv_staged_owner :: fiber_id

section \<open>Operations\<close>

definition service_lookup :: "service_key \<Rightarrow> service_registry \<Rightarrow> service_symbol option" where
  "service_lookup key s = aget (sr_by_key s) key"

definition try_intern :: "service_key \<Rightarrow> service_registry \<Rightarrow> service_symbol cres \<times> service_registry" where
  "try_intern key s = (case aget (sr_by_key s) key of
      Some v \<Rightarrow> (Ok v, s)
    | None \<Rightarrow>
        if length (sr_keys s) \<ge> unat (sr_max_symbols s)
        then (Err (ResourceLimitExceeded ServiceSymbols (sr_max_symbols s)), s)
        else if length (sr_keys s) \<ge> 2 ^ 32
        then (Err (InvalidRuntimeConfig
                (Lit ''max_interned_symbols exceeds the ServiceSymbol ID space'')), s)
        else let v = from_index (of_nat (length (sr_keys s))) in
          (Ok v, s\<lparr>sr_keys := sr_keys s @ [key], sr_by_key := aput key v (sr_by_key s)\<rparr>))"

definition intern :: "service_key \<Rightarrow> service_registry \<Rightarrow> service_symbol cres" where
  "intern key s = (case service_lookup key s of
      Some v \<Rightarrow> Ok v
    | None \<Rightarrow> Panicked ''service key was admitted before use'')"

definition service_contains :: "scope_id \<Rightarrow> service_symbol \<Rightarrow> service_registry \<Rightarrow> bool" where
  "service_contains scope symbol s \<longleftrightarrow> aget (sr_entries s) (scope, symbol) \<noteq> None"

definition service_get :: "scope_id \<Rightarrow> service_symbol \<Rightarrow> service_registry \<Rightarrow> service_entry option" where
  "service_get scope symbol s = aget (sr_entries s) (scope, symbol)"

definition bump :: "service_registry \<Rightarrow> service_registry" where
  "bump s = s\<lparr>sr_epoch := sr_epoch s + 1, sr_cache := [], sr_cache_order := []\<rparr>"

definition bump_epoch :: "service_registry \<Rightarrow> service_registry" where
  "bump_epoch = bump"

definition service_insert ::
  "scope_id \<Rightarrow> service_symbol \<Rightarrow> service_entry \<Rightarrow> service_registry \<Rightarrow> service_registry" where
  "service_insert scope symbol entry s =
     bump (s\<lparr>sr_entries := aput (scope, symbol) (entry\<lparr>se_scope := scope\<rparr>) (sr_entries s)\<rparr>)"

definition service_remove ::
  "scope_id \<Rightarrow> service_symbol \<Rightarrow> service_registry \<Rightarrow> service_entry option \<times> service_registry" where
  "service_remove scope symbol s =
     (let v = aget (sr_entries s) (scope, symbol);
          s1 = s\<lparr>sr_entries := adel (scope, symbol) (sr_entries s)\<rparr>
      in (v, if v \<noteq> None then bump s1 else s1))"

text \<open>The per-symbol test shared by the validation of a revision and by its commit.\<close>

definition staged_missing :: "prepared_service_revision \<Rightarrow> (slot_key, service_entry) amap \<Rightarrow> service_symbol \<Rightarrow> bool" where
  "staged_missing p entries symbol \<longleftrightarrow>
     (case aget entries (pv_from p, symbol) of
        None \<Rightarrow> True | Some entry \<Rightarrow> se_owner entry \<noteq> pv_staged_owner p)"

definition target_changed :: "prepared_service_revision \<Rightarrow> (slot_key, service_entry) amap \<Rightarrow> service_symbol \<Rightarrow> bool" where
  "target_changed p entries symbol \<longleftrightarrow>
     (case aget entries (pv_to p, symbol) of
        None \<Rightarrow> False | Some entry \<Rightarrow> se_owner entry \<noteq> pv_old_owner p)"

fun check_revision :: "prepared_service_revision \<Rightarrow> (slot_key, service_entry) amap \<Rightarrow> service_symbol list \<Rightarrow> unit cres" where
  "check_revision p entries [] = Ok ()"
| "check_revision p entries (symbol # symbols) =
     (if staged_missing p entries symbol
      then Err (RevisionValidationFailed (Lit ''staged service disappeared or changed owner''))
      else if target_changed p entries symbol
      then Err (RevisionValidationFailed (Lit ''service replacement target changed owner''))
      else check_revision p entries symbols)"

definition prepare_revision ::
  "scope_id \<Rightarrow> scope_id \<Rightarrow> service_symbol list \<Rightarrow> fiber_id \<Rightarrow> fiber_id \<Rightarrow> service_registry
    \<Rightarrow> prepared_service_revision cres" where
  "prepare_revision from to symbols old_owner staged_owner s =
     (let p = \<lparr>pv_from = from, pv_to = to, pv_symbols = symbols, pv_old_owner = old_owner,
               pv_staged_owner = staged_owner\<rparr>
      in rbind (check_revision p (sr_entries s) symbols) (\<lambda>_. Ok p))"

text \<open>The \<open>map\<close> that removes the staged entries, with its \<open>expect\<close>.\<close>

fun take_staged ::
  "scope_id \<Rightarrow> service_symbol list \<Rightarrow> (slot_key, service_entry) amap
    \<Rightarrow> (service_symbol \<times> service_entry) list cres \<times> (slot_key, service_entry) amap" where
  "take_staged from [] entries = (Ok [], entries)"
| "take_staged from (symbol # symbols) entries = (case aget entries (from, symbol) of
      None \<Rightarrow> (Panicked ''validated staged service'', entries)
    | Some entry \<Rightarrow>
        sbind (take_staged from symbols) (\<lambda>rest entries'. (Ok ((symbol, entry) # rest), entries'))
          (adel (from, symbol) entries))"

fun put_staged ::
  "scope_id \<Rightarrow> (service_symbol \<times> service_entry) list \<Rightarrow> (slot_key, service_entry) amap
    \<Rightarrow> (slot_key, service_entry) amap" where
  "put_staged to [] entries = entries"
| "put_staged to ((symbol, entry) # taken) entries =
     put_staged to taken (aput (to, symbol) (entry\<lparr>se_scope := to\<rparr>) entries)"

definition commit_revision_and_publish ::
  "prepared_service_revision \<Rightarrow> gate_ref \<Rightarrow> gate_ref \<Rightarrow> service_registry \<times> gate_store
    \<Rightarrow> unit cres \<times> service_registry \<times> gate_store" where
  "commit_revision_and_publish p staged_gate old_gate st = (case st of (s, g) \<Rightarrow>
     if list_ex (\<lambda>symbol. staged_missing p (sr_entries s) symbol \<or> target_changed p (sr_entries s) symbol)
          (pv_symbols p)
     then (Err (RevisionValidationFailed (Lit ''prepared service revision changed before commit'')), s, g)
     else case cutover_from staged_gate old_gate g of
         (Panicked m, g1) \<Rightarrow> (Panicked m, s, g1)
       | (Err e, g1) \<Rightarrow> (Err e, s, g1)
       | (Ok False, g1) \<Rightarrow> (Err (CapabilityPublicationFailed (pv_staged_owner p)), s, g1)
       | (Ok True, g1) \<Rightarrow> (case take_staged (pv_from p) (pv_symbols p) (sr_entries s) of
            (Ok taken, entries) \<Rightarrow>
              (Ok (), bump (s\<lparr>sr_entries := put_staged (pv_to p) taken entries\<rparr>), g1)
          | (Err e, entries) \<Rightarrow> (Err e, s\<lparr>sr_entries := entries\<rparr>, g1)
          | (Panicked m, entries) \<Rightarrow> (Panicked m, s\<lparr>sr_entries := entries\<rparr>, g1)))"

subsection \<open>Resolution\<close>

definition visible_entry :: "gate_store \<Rightarrow> (slot_key, service_entry) amap \<Rightarrow> service_symbol \<Rightarrow> scope_id \<Rightarrow> service_entry option" where
  "visible_entry g entries symbol scope = (case aget entries (scope, symbol) of
      Some e \<Rightarrow> if is_visible g (se_gate e) then Some e else None
    | None \<Rightarrow> None)"

fun find_location ::
  "gate_store \<Rightarrow> (slot_key, service_entry) amap \<Rightarrow> service_symbol \<Rightarrow> scope_id list \<Rightarrow> (scope_id \<times> fiber_id) option" where
  "find_location g entries symbol [] = None"
| "find_location g entries symbol (scope # ancestry) =
     (case visible_entry g entries symbol scope of
        Some e \<Rightarrow> Some (scope, se_owner e)
      | None \<Rightarrow> find_location g entries symbol ancestry)"

definition entry_at ::
  "gate_store \<Rightarrow> (slot_key, service_entry) amap \<Rightarrow> service_symbol \<Rightarrow> (scope_id \<times> fiber_id) \<Rightarrow> service_entry option" where
  "entry_at g entries symbol loc = (case visible_entry g entries symbol (fst loc) of
      Some e \<Rightarrow> if se_owner e = snd loc then Some e else None
    | None \<Rightarrow> None)"

definition cached_resolution :: "gate_store \<Rightarrow> service_registry \<Rightarrow> scope_id \<Rightarrow> service_symbol \<Rightarrow> cache_lookup" where
  "cached_resolution g s requested symbol = (case aget (sr_cache s) (requested, symbol) of
      None \<Rightarrow> Miss
    | Some cached \<Rightarrow>
        if ce_epoch cached \<noteq> sr_epoch s then Miss
        else case ce_location cached of
            None \<Rightarrow> Hit None
          | Some loc \<Rightarrow> (case entry_at g (sr_entries s) symbol loc of
                Some entry \<Rightarrow> Hit (Some entry)
              | None \<Rightarrow> Miss))"

text \<open>\<open>while cache.len() >= max { if let Some(oldest) = cache_order.pop_front() { .. } }\<close>.\<close>

partial_function (option) evict_loop :: "nat \<Rightarrow> service_registry \<Rightarrow> service_registry option" where
  "evict_loop limit s =
     (if length (sr_cache s) < limit then Some s
      else case sr_cache_order s of
          [] \<Rightarrow> evict_loop limit s
        | oldest # order \<Rightarrow>
            evict_loop limit (s\<lparr>sr_cache_order := order, sr_cache := adel oldest (sr_cache s)\<rparr>))"

text \<open>The part of \<open>resolve\<close> that runs under the write lock.\<close>

definition resolve_write ::
  "gate_store \<Rightarrow> scope_id \<Rightarrow> scope_id list \<Rightarrow> service_symbol \<Rightarrow> service_registry
    \<Rightarrow> (service_entry option \<times> service_registry) option" where
  "resolve_write g requested ancestry symbol s =
     (if sr_max_cache_entries s \<noteq> 0 \<and> cached_resolution g s requested symbol \<noteq> Miss
      then (case cached_resolution g s requested symbol of
              Hit entry \<Rightarrow> Some (entry, s) | Miss \<Rightarrow> None)
      else
        let loc = find_location g (sr_entries s) symbol ancestry;
            found = (case loc of None \<Rightarrow> None | Some l \<Rightarrow> entry_at g (sr_entries s) symbol l);
            key = (requested, symbol);
            entry = \<lparr>ce_epoch = sr_epoch s, ce_location = loc\<rparr>
        in if sr_max_cache_entries s = 0 then Some (found, s)
           else if aget (sr_cache s) key \<noteq> None
           then Some (found, s\<lparr>sr_cache := aput key entry (sr_cache s)\<rparr>)
           else (case evict_loop (unat (sr_max_cache_entries s)) s of
                None \<Rightarrow> None
              | Some s1 \<Rightarrow> Some (found, s1\<lparr>sr_cache_order := sr_cache_order s1 @ [key],
                                            sr_cache := aput key entry (sr_cache s1)\<rparr>)))"

definition resolve ::
  "gate_store \<Rightarrow> scope_id \<Rightarrow> scope_id list \<Rightarrow> service_symbol \<Rightarrow> service_registry
    \<Rightarrow> (service_entry option \<times> service_registry) option" where
  "resolve g requested ancestry symbol s =
     (case (if sr_max_cache_entries s \<noteq> 0 then cached_resolution g s requested symbol else Miss) of
        Hit entry \<Rightarrow> Some (entry, s)
      | Miss \<Rightarrow> resolve_write g requested ancestry symbol s)"

fun resolve_owned ::
  "gate_store \<Rightarrow> scope_id list \<Rightarrow> service_symbol \<Rightarrow> fiber_id \<Rightarrow> service_registry \<Rightarrow> service_entry option" where
  "resolve_owned g [] symbol owner s = None"
| "resolve_owned g (scope # ancestry) symbol owner s =
     (case aget (sr_entries s) (scope, symbol) of
        Some e \<Rightarrow> if se_owner e = owner \<and> \<not> is_visible g (se_gate e) then Some e
                  else resolve_owned g ancestry symbol owner s
      | None \<Rightarrow> resolve_owned g ancestry symbol owner s)"

definition service_count :: "service_registry \<Rightarrow> nat" where
  "service_count s = length (sr_entries s)"

definition service_snapshots :: "service_registry \<Rightarrow> (scope_id \<times> service_symbol \<times> fiber_id) list" where
  "service_snapshots s = map (\<lambda>((scope, symbol), entry). (scope, symbol, se_owner entry)) (sr_entries s)"

section \<open>Interning\<close>

definition wf_symbols :: "service_registry \<Rightarrow> bool" where
  "wf_symbols s \<longleftrightarrow> distinct (sr_keys s) \<and> length (sr_keys s) \<le> unat (sr_max_symbols s) \<and>
     length (sr_keys s) \<le> 2 ^ 32 \<and>
     (\<forall>key v. aget (sr_by_key s) key = Some v \<longleftrightarrow>
        (\<exists>i < length (sr_keys s). sr_keys s ! i = key \<and> v = from_index (of_nat i)))"

lemma wf_symbols_new: "wf_symbols (service_registry_new max_symbols max_cache)"
  by (simp add: wf_symbols_def service_registry_new_def)

lemma from_index_inj:
  "i < 2 ^ 32 \<Longrightarrow> j < 2 ^ 32 \<Longrightarrow> from_index (of_nat i) = from_index (of_nat j) \<longleftrightarrow> i = j"
  by (simp add: from_index_def word_of_nat_eq_iff take_bit_nat_eq_self)

lemma wf_symbols_inj:
  assumes "wf_symbols s" and "aget (sr_by_key s) k = Some v" and "aget (sr_by_key s) k' = Some v"
  shows "k = k'"
proof -
  obtain i j where "i < length (sr_keys s)" "sr_keys s ! i = k" "v = from_index (of_nat i)"
      "j < length (sr_keys s)" "sr_keys s ! j = k'" "v = from_index (of_nat j)"
    using assms unfolding wf_symbols_def by metis
  moreover from this have "i < 2 ^ 32" "j < 2 ^ 32" using assms(1) by (auto simp: wf_symbols_def)
  ultimately show ?thesis using from_index_inj by metis
qed

lemma try_intern_wf:
  assumes "wf_symbols s" and "try_intern key s = (r, s')"
  shows "wf_symbols s'"
proof (cases "s' = s")
  case True
  with assms(1) show ?thesis by simp
next
  case False
  define n where "n = length (sr_keys s)"
  from False assms(2) have new: "aget (sr_by_key s) key = None" "n < unat (sr_max_symbols s)" "n < 2 ^ 32"
      "s' = s\<lparr>sr_keys := sr_keys s @ [key], sr_by_key := aput key (from_index (of_nat n)) (sr_by_key s)\<rparr>"
    by (auto simp: try_intern_def n_def Let_def split: option.splits if_splits)
  have absent: "key \<notin> set (sr_keys s)"
  proof
    assume "key \<in> set (sr_keys s)"
    then obtain i where "i < length (sr_keys s)" "sr_keys s ! i = key" by (auto simp: in_set_conv_nth)
    then have "aget (sr_by_key s) key = Some (from_index (of_nat i))"
      using assms(1) unfolding wf_symbols_def by blast
    with new(1) show False by simp
  qed
  have "aget (sr_by_key s') k = Some v \<longleftrightarrow>
      (\<exists>i < length (sr_keys s'). sr_keys s' ! i = k \<and> v = from_index (of_nat i))" for k v
  proof (cases "k = key")
    case True
    have "(\<exists>i < Suc n. (sr_keys s @ [key]) ! i = key \<and> v = from_index (of_nat i)) \<longleftrightarrow>
        v = from_index (of_nat n)"
    proof
      assume "\<exists>i < Suc n. (sr_keys s @ [key]) ! i = key \<and> v = from_index (of_nat i)"
      then obtain i where i: "i < Suc n" "(sr_keys s @ [key]) ! i = key" "v = from_index (of_nat i)"
        by blast
      have "i = n"
      proof (rule ccontr)
        assume "i \<noteq> n"
        with i(1,2) have "i < n" "sr_keys s ! i = key" by (simp_all add: nth_append n_def)
        with absent show False by (auto simp: n_def in_set_conv_nth)
      qed
      with i(3) show "v = from_index (of_nat n)" by simp
    next
      assume "v = from_index (of_nat n)"
      then show "\<exists>i < Suc n. (sr_keys s @ [key]) ! i = key \<and> v = from_index (of_nat i)"
        by (intro exI [of _ n]) (simp add: n_def)
    qed
    moreover have "sr_keys s' = sr_keys s @ [key]" "length (sr_keys s') = Suc n"
        "aget (sr_by_key s') key = Some (from_index (of_nat n))"
      using new(4) by (simp_all add: n_def)
    ultimately show ?thesis using True by auto
  next
    case False
    have "aget (sr_by_key s') k = Some v \<longleftrightarrow> aget (sr_by_key s) k = Some v"
      using False new(4) by simp
    also have "\<dots> \<longleftrightarrow> (\<exists>i < length (sr_keys s). sr_keys s ! i = k \<and> v = from_index (of_nat i))"
      using assms(1) unfolding wf_symbols_def by blast
    also have "\<dots> \<longleftrightarrow> (\<exists>i < length (sr_keys s'). sr_keys s' ! i = k \<and> v = from_index (of_nat i))"
      using False new(4) by (auto simp: nth_append less_Suc_eq)
    finally show ?thesis .
  qed
  moreover have "distinct (sr_keys s')" "length (sr_keys s') \<le> unat (sr_max_symbols s')"
      "length (sr_keys s') \<le> 2 ^ 32"
    using assms(1) new(2-4) absent unfolding wf_symbols_def n_def by auto
  ultimately show ?thesis unfolding wf_symbols_def by blast
qed

lemma try_intern_result:
  assumes "try_intern key s = (Ok v, s')"
  shows "service_lookup key s' = Some v" and "sr_max_symbols s' = sr_max_symbols s"
    and "sr_entries s' = sr_entries s" and "sr_cache s' = sr_cache s"
  using assms by (auto simp: try_intern_def service_lookup_def Let_def split: option.splits if_splits)

lemma try_intern_keeps:
  "service_lookup k s = Some v \<Longrightarrow> try_intern key s = (r, s') \<Longrightarrow> service_lookup k s' = Some v"
  by (auto simp: try_intern_def service_lookup_def Let_def split: option.splits if_splits)

section \<open>The resolution cache\<close>

definition wf_cache :: "service_registry \<Rightarrow> bool" where
  "wf_cache s \<longleftrightarrow> distinct (akeys (sr_cache s)) \<and> distinct (sr_cache_order s) \<and>
     set (sr_cache_order s) = set (akeys (sr_cache s)) \<and>
     length (sr_cache s) \<le> unat (sr_max_cache_entries s)"

lemma wf_cache_bump [simp]: "wf_cache (bump s)"
  by (simp add: wf_cache_def bump_def)

lemma bump_sel [simp]:
  "sr_entries (bump s) = sr_entries s" "sr_cache (bump s) = []"
  "sr_max_cache_entries (bump s) = sr_max_cache_entries s"
  by (simp_all add: bump_def)

lemma wf_cache_length: "wf_cache s \<Longrightarrow> length (sr_cache s) = length (sr_cache_order s)"
  unfolding wf_cache_def by (metis distinct_card length_map)

lemma evict_loop_ends:
  assumes "distinct (akeys (sr_cache s))" and "distinct (sr_cache_order s)"
    and "set (sr_cache_order s) = set (akeys (sr_cache s))" and "0 < limit"
  shows "\<exists>n. evict_loop limit s = Some (s\<lparr>sr_cache_order := drop n (sr_cache_order s),
             sr_cache := filter (\<lambda>p. fst p \<notin> set (take n (sr_cache_order s))) (sr_cache s)\<rparr>) \<and>
           length (filter (\<lambda>p. fst p \<notin> set (take n (sr_cache_order s))) (sr_cache s)) < limit"
  using assms
proof (induction "sr_cache_order s" arbitrary: s)
  case Nil
  then have "sr_cache s = []" by simp
  with Nil.prems(4) Nil.hyps show ?case by (subst evict_loop.simps) (auto intro: exI [of _ 0])
next
  case (Cons oldest order)
  show ?case
  proof (cases "length (sr_cache s) < limit")
    case True
    then show ?thesis by (subst evict_loop.simps) (auto intro: exI [of _ 0])
  next
    case False
    define s1 where "s1 = s\<lparr>sr_cache_order := order, sr_cache := adel oldest (sr_cache s)\<rparr>"
    have step: "evict_loop limit s = evict_loop limit s1"
      using False Cons.hyps(2) [symmetric] by (subst evict_loop.simps) (simp add: s1_def)
    have "distinct (akeys (sr_cache s1))" "distinct (sr_cache_order s1)"
      "set (sr_cache_order s1) = set (akeys (sr_cache s1))"
      using Cons.prems Cons.hyps(2) [symmetric] insert_Diff1
      by (auto simp add: s1_def set_akeys_adel simp del: set_map)
    from Cons.hyps(1) [OF _ this Cons.prems(4)] obtain n where n:
      "evict_loop limit s1 = Some (s1\<lparr>sr_cache_order := drop n (sr_cache_order s1),
         sr_cache := filter (\<lambda>p. fst p \<notin> set (take n (sr_cache_order s1))) (sr_cache s1)\<rparr>)"
      "length (filter (\<lambda>p. fst p \<notin> set (take n (sr_cache_order s1))) (sr_cache s1)) < limit"
      by (auto simp: s1_def)
    have f: "filter (\<lambda>p. fst p \<notin> set (take n order)) (adel oldest (sr_cache s))
        = filter (\<lambda>p. fst p \<notin> set (take (Suc n) (sr_cache_order s))) (sr_cache s)"
      using Cons.hyps(2) [symmetric]
      by (auto simp: AList.delete_eq intro!: filter_cong)
    show ?thesis
      using n f step Cons.hyps(2) [symmetric]
      by (intro exI [of _ "Suc n"]) (simp add: s1_def)
  qed
qed

text \<open>What a resolution promises: the entry of the nearest scope with a visible entry.\<close>

definition nearest_visible ::
  "gate_store \<Rightarrow> (slot_key, service_entry) amap \<Rightarrow> service_symbol \<Rightarrow> scope_id list \<Rightarrow> service_entry option" where
  "nearest_visible g entries symbol ancestry =
     (case dropWhile (\<lambda>scope. visible_entry g entries symbol scope = None) ancestry of
        [] \<Rightarrow> None | scope # _ \<Rightarrow> visible_entry g entries symbol scope)"

lemma find_location_nearest:
  "(case find_location g entries symbol ancestry of
      None \<Rightarrow> None | Some l \<Rightarrow> entry_at g entries symbol l) = nearest_visible g entries symbol ancestry"
  by (induction ancestry) (auto simp: nearest_visible_def entry_at_def split: option.splits)

lemma find_location_None: "find_location g entries symbol ancestry = None \<Longrightarrow>
    nearest_visible g entries symbol ancestry = None"
  using find_location_nearest [of g entries symbol ancestry] by simp

definition cache_coherent :: "gate_store \<Rightarrow> (scope_id \<Rightarrow> scope_id list) \<Rightarrow> service_registry \<Rightarrow> bool" where
  "cache_coherent g anc s \<longleftrightarrow> (\<forall>requested symbol c. aget (sr_cache s) (requested, symbol) = Some c \<longrightarrow> ce_epoch c = sr_epoch s \<longrightarrow>
     ce_location c = find_location g (sr_entries s) symbol (anc requested))"

lemma cache_coherent_bump [simp]: "cache_coherent g anc (bump s)"
  by (simp add: cache_coherent_def)

lemma cached_resolution_coherent:
  assumes "cache_coherent g anc s" and "cached_resolution g s requested symbol = Hit e"
  shows "e = nearest_visible g (sr_entries s) symbol (anc requested)"
proof -
  obtain c where c: "aget (sr_cache s) (requested, symbol) = Some c"
    using assms(2) by (auto simp: cached_resolution_def split: option.splits)
  moreover from this have "ce_epoch c = sr_epoch s"
    using assms(2) by (auto simp: cached_resolution_def split: option.splits if_splits)
  ultimately have loc: "ce_location c = find_location g (sr_entries s) symbol (anc requested)"
    using assms(1) by (simp add: cache_coherent_def)
  show ?thesis
    using assms(2) c loc find_location_nearest [of g "sr_entries s" symbol "anc requested"]
    by (auto simp: cached_resolution_def split: option.splits if_splits)
qed

text \<open>Eviction drops the oldest keys, leaves room for one entry and keeps everything else.\<close>

lemma evict_loop_wf:
  assumes "wf_cache s" and "sr_max_cache_entries s \<noteq> 0"
  shows "\<exists>s1. evict_loop (unat (sr_max_cache_entries s)) s = Some s1 \<and> wf_cache s1 \<and>
    length (sr_cache s1) < unat (sr_max_cache_entries s) \<and>
    sr_entries s1 = sr_entries s \<and> sr_epoch s1 = sr_epoch s \<and>
    sr_max_cache_entries s1 = sr_max_cache_entries s \<and>
    (\<forall>k c. aget (sr_cache s1) k = Some c \<longrightarrow> aget (sr_cache s) k = Some c)"
proof -
  let ?c = "sr_cache s" and ?o = "sr_cache_order s"
  have wf: "distinct (akeys ?c)" "distinct ?o" "set ?o = set (akeys ?c)"
    using assms(1) by (simp_all add: wf_cache_def)
  have "0 < unat (sr_max_cache_entries s)" using assms(2) by (simp add: unat_gt_0)
  from evict_loop_ends [OF wf this] obtain n where n:
    "evict_loop (unat (sr_max_cache_entries s)) s = Some (s\<lparr>sr_cache_order := drop n ?o,
       sr_cache := filter (\<lambda>p. fst p \<notin> set (take n ?o)) ?c\<rparr>)"
    "length (filter (\<lambda>p. fst p \<notin> set (take n ?o)) ?c) < unat (sr_max_cache_entries s)" by blast
  let ?c1 = "filter (\<lambda>p. fst p \<notin> set (take n ?o)) ?c"
  have keys: "akeys ?c1 = filter (\<lambda>k. k \<notin> set (take n ?o)) (akeys ?c)"
    by (simp add: filter_map comp_def)
  have "set (take n ?o) \<inter> set (drop n ?o) = {}" "set ?o = set (take n ?o) \<union> set (drop n ?o)"
    using wf(2) by (metis append_take_drop_id distinct_append, metis append_take_drop_id set_append)
  then have "set (drop n ?o) = set (akeys ?c1)" unfolding keys using wf(3) by auto
  moreover have "distinct (akeys ?c1)" unfolding keys using wf(1) by simp
  moreover have "aget ?c k = Some c" if "aget ?c1 k = Some c" for k c
    using that wf(1) by (metis filter_is_subset map_of_SomeD map_of_is_SomeI subsetD)
  ultimately show ?thesis
    using n wf(2) by (intro exI [of _ "s\<lparr>sr_cache_order := drop n ?o, sr_cache := ?c1\<rparr>"])
      (simp del: set_map add: wf_cache_def)
qed

lemma resolve_write_ends:
  assumes "wf_cache s"
  shows "\<exists>r s'. resolve_write g requested ancestry symbol s = Some (r, s')"
proof (cases "sr_max_cache_entries s = 0")
  case True
  then show ?thesis by (simp add: resolve_write_def)
next
  case False
  with evict_loop_wf [OF assms False] show ?thesis
    by (auto simp: resolve_write_def Let_def split: cache_lookup.splits)
qed

lemma wf_cache_put:
  assumes "wf_cache s1" and "length (sr_cache s1) < unat (sr_max_cache_entries s1)"
    and "aget (sr_cache s1) key = None"
  shows "wf_cache (s1\<lparr>sr_cache_order := sr_cache_order s1 @ [key], sr_cache := aput key c (sr_cache s1)\<rparr>)"
proof -
  have "key \<notin> set (akeys (sr_cache s1))" using assms(3) unfolding aget_None_iff .
  then show ?thesis
    using assms(1,2) unfolding wf_cache_def by (simp del: set_map add: length_aput)
qed

lemma resolve_write_correct:
  assumes wf: "wf_cache s" and coh: "cache_coherent g anc s"
  shows "\<exists>s'. resolve_write g requested (anc requested) symbol s
      = Some (nearest_visible g (sr_entries s) symbol (anc requested), s') \<and>
    wf_cache s' \<and> cache_coherent g anc s' \<and> sr_entries s' = sr_entries s"
proof -
  let ?n = "nearest_visible g (sr_entries s) symbol (anc requested)"
  let ?loc = "find_location g (sr_entries s) symbol (anc requested)"
  let ?key = "(requested, symbol)"
  define c where "c = \<lparr>ce_epoch = sr_epoch s, ce_location = ?loc\<rparr>"
  have found: "(case ?loc of None \<Rightarrow> None | Some l \<Rightarrow> entry_at g (sr_entries s) symbol l) = ?n"
    by (rule find_location_nearest)
  show ?thesis
  proof (cases "sr_max_cache_entries s \<noteq> 0 \<and> cached_resolution g s requested symbol \<noteq> Miss")
    case True
    then obtain e where e: "cached_resolution g s requested symbol = Hit e"
      by (cases "cached_resolution g s requested symbol") auto
    with True cached_resolution_coherent [OF coh e] assms show ?thesis
      by (simp add: resolve_write_def)
  next
    case miss: False
    consider "sr_max_cache_entries s = 0"
      | "sr_max_cache_entries s \<noteq> 0" "aget (sr_cache s) ?key \<noteq> None"
      | "sr_max_cache_entries s \<noteq> 0" "aget (sr_cache s) ?key = None" by blast
    then show ?thesis
    proof cases
      case 1
      with assms found show ?thesis by (simp add: resolve_write_def)
    next
      case 2
      have "resolve_write g requested (anc requested) symbol s
          = Some (?n, s\<lparr>sr_cache := aput ?key c (sr_cache s)\<rparr>)"
        using miss 2 found by (auto simp: resolve_write_def Let_def c_def)
      moreover have "?key \<in> set (akeys (sr_cache s))" using 2(2) aget_None_iff by metis
      then have "wf_cache (s\<lparr>sr_cache := aput ?key c (sr_cache s)\<rparr>)"
        using wf by (simp del: set_map add: wf_cache_def length_aput insert_absorb)
      moreover have "cache_coherent g anc (s\<lparr>sr_cache := aput ?key c (sr_cache s)\<rparr>)"
        using coh by (auto simp: cache_coherent_def c_def)
      ultimately show ?thesis by auto
    next
      case 3
      obtain s1 where s1: "evict_loop (unat (sr_max_cache_entries s)) s = Some s1" "wf_cache s1"
          "length (sr_cache s1) < unat (sr_max_cache_entries s)" "sr_entries s1 = sr_entries s"
          "sr_max_cache_entries s1 = sr_max_cache_entries s"
          "\<forall>k c. aget (sr_cache s1) k = Some c \<longrightarrow> aget (sr_cache s) k = Some c" "sr_epoch s1 = sr_epoch s"
        using evict_loop_wf [OF wf 3(1)] by blast
      let ?s' = "s1\<lparr>sr_cache_order := sr_cache_order s1 @ [?key], sr_cache := aput ?key c (sr_cache s1)\<rparr>"
      have "resolve_write g requested (anc requested) symbol s = Some (?n, ?s')"
        using miss 3 found s1(1) by (auto simp: resolve_write_def Let_def c_def)
      moreover have "aget (sr_cache s1) ?key = None" using s1(6) 3(2)
        by (cases "aget (sr_cache s1) ?key") auto
      then have "wf_cache ?s'" using wf_cache_put s1(2,3,5) by metis
      moreover have "cache_coherent g anc ?s'"
        using coh s1(4,6,7) by (auto simp: cache_coherent_def c_def)
      ultimately show ?thesis using s1(4) by auto
    qed
  qed
qed

lemma resolve_correct:
  assumes "wf_cache s" and "cache_coherent g anc s"
  shows "\<exists>s'. resolve g requested (anc requested) symbol s
      = Some (nearest_visible g (sr_entries s) symbol (anc requested), s') \<and>
    wf_cache s' \<and> cache_coherent g anc s' \<and> sr_entries s' = sr_entries s"
proof (cases "if sr_max_cache_entries s \<noteq> 0 then cached_resolution g s requested symbol else Miss")
  case Miss
  then show ?thesis using resolve_write_correct [OF assms] by (simp add: resolve_def)
next
  case (Hit e)
  then have "cached_resolution g s requested symbol = Hit e" by (simp split: if_splits)
  with cached_resolution_coherent [OF assms(2)] Hit assms show ?thesis by (simp add: resolve_def)
qed

text \<open>Every operation that changes the entries empties the cache, so the cache is coherent again.\<close>

lemma service_insert_coherent [simp]:
  "wf_cache (service_insert scope symbol e s)" "cache_coherent g anc (service_insert scope symbol e s)"
  "sr_entries (service_insert scope symbol e s) = aput (scope, symbol) (e\<lparr>se_scope := scope\<rparr>) (sr_entries s)"
  by (simp_all add: service_insert_def)

lemma service_remove_coherent:
  assumes "wf_cache s" and "cache_coherent g anc s" and "service_remove scope symbol s = (v, s')"
  shows "wf_cache s' \<and> cache_coherent g anc s' \<and> v = aget (sr_entries s) (scope, symbol) \<and>
    aget (sr_entries s') = (aget (sr_entries s))((scope, symbol) := None)"
proof (cases "aget (sr_entries s) (scope, symbol)")
  case None
  then have "adel (scope, symbol) (sr_entries s) = sr_entries s"
    by (simp add: delete_id aget_None_iff)
  with None assms show ?thesis by (auto simp: service_remove_def Let_def fun_eq_iff)
next
  case (Some e)
  with assms(3) show ?thesis by (auto simp: service_remove_def Let_def fun_eq_iff)
qed

section \<open>Revisions\<close>

lemma take_staged_Ok:
  assumes "distinct symbols" and "\<forall>symbol \<in> set symbols. aget entries (from, symbol) \<noteq> None"
  shows "\<exists>entries'. take_staged from symbols entries
      = (Ok (map (\<lambda>symbol. (symbol, the (aget entries (from, symbol)))) symbols), entries') \<and>
    aget entries' = (\<lambda>(scope, symbol). if scope = from \<and> symbol \<in> set symbols then None
                                    else aget entries (scope, symbol))"
  using assms
proof (induction symbols arbitrary: entries)
  case Nil
  then show ?case by auto
next
  case (Cons symbol symbols)
  then obtain e where e: "aget entries (from, symbol) = Some e" by auto
  have "\<forall>x \<in> set symbols. aget (adel (from, symbol) entries) (from, x) \<noteq> None"
    using Cons.prems by auto
  moreover have "distinct symbols" using Cons.prems(1) by simp
  ultimately obtain entries' where ih: "take_staged from symbols (adel (from, symbol) entries)
      = (Ok (map (\<lambda>x. (x, the (aget (adel (from, symbol) entries) (from, x)))) symbols), entries')"
     "aget entries' = (\<lambda>(scope, x). if scope = from \<and> x \<in> set symbols then None
                                    else aget (adel (from, symbol) entries) (scope, x))"
    using Cons.IH [of "adel (from, symbol) entries"] by blast
  have "map (\<lambda>x. (x, the (aget (adel (from, symbol) entries) (from, x)))) symbols
      = map (\<lambda>x. (x, the (aget entries (from, x)))) symbols"
    using Cons.prems(1) by auto
  with e ih show ?case by (auto simp: fun_eq_iff)
qed

lemma put_staged_get:
  assumes "distinct (map fst taken)"
  shows "aget (put_staged to taken entries) (scope, symbol) =
    (if scope = to \<and> symbol \<in> set (map fst taken)
     then map_option (\<lambda>e. e\<lparr>se_scope := to\<rparr>) (map_of taken symbol)
     else aget entries (scope, symbol))"
  using assms
proof (induction taken arbitrary: entries)
  case Nil
  then show ?case by simp
next
  case (Cons p taken)
  obtain x e where p: "p = (x, e)" by (cases p)
  have "map_of taken x = None" using Cons.prems p by (simp add: map_of_eq_None_iff)
  then show ?case using Cons p by auto
qed

text \<open>What a committed revision leaves at a slot.\<close>

definition revised_entry ::
  "prepared_service_revision \<Rightarrow> (slot_key, service_entry) amap \<Rightarrow> scope_id \<Rightarrow> service_symbol \<Rightarrow> service_entry option" where
  "revised_entry p entries scope symbol =
     (if symbol \<in> set (pv_symbols p) \<and> scope = pv_to p
      then map_option (\<lambda>e. e\<lparr>se_scope := pv_to p\<rparr>) (aget entries (pv_from p, symbol))
      else if symbol \<in> set (pv_symbols p) \<and> scope = pv_from p then None
      else aget entries (scope, symbol))"

lemma map_of_map_self:
  "map_of (map (\<lambda>x. (x, f x)) xs) y = (if y \<in> set xs then Some (f y) else None)"
  by (induction xs) auto

lemma commit_entries:
  assumes "distinct (pv_symbols p)" and "\<not> list_ex (staged_missing p entries) (pv_symbols p)"
  shows "\<exists>taken entries'. take_staged (pv_from p) (pv_symbols p) entries = (Ok taken, entries') \<and>
    (\<forall>scope symbol. aget (put_staged (pv_to p) taken entries') (scope, symbol)
       = revised_entry p entries scope symbol)"
proof -
  let ?taken = "map (\<lambda>symbol. (symbol, the (aget entries (pv_from p, symbol)))) (pv_symbols p)"
  have some: "\<forall>symbol \<in> set (pv_symbols p). aget entries (pv_from p, symbol) \<noteq> None"
    using assms(2) by (auto simp: list_ex_iff staged_missing_def split: option.splits)
  from take_staged_Ok [OF assms(1) some] obtain entries' where t:
    "take_staged (pv_from p) (pv_symbols p) entries = (Ok ?taken, entries')"
    "aget entries' = (\<lambda>(scope, symbol). if scope = pv_from p \<and> symbol \<in> set (pv_symbols p) then None
                                    else aget entries (scope, symbol))" by blast
  have "map fst ?taken = pv_symbols p" by (simp add: comp_def)
  then have get: "aget (put_staged (pv_to p) ?taken entries') (scope, symbol) =
    (if scope = pv_to p \<and> symbol \<in> set (pv_symbols p)
     then map_option (\<lambda>e. e\<lparr>se_scope := pv_to p\<rparr>) (map_of ?taken symbol)
     else aget entries' (scope, symbol))" for scope symbol
    using put_staged_get [of ?taken "pv_to p" entries' scope symbol] assms(1) by simp
  have "aget (put_staged (pv_to p) ?taken entries') (scope, symbol)
      = revised_entry p entries scope symbol" for scope symbol
    using some unfolding get by (auto simp: revised_entry_def map_of_map_self t(2))
  with t(1) show ?thesis by blast
qed

lemma check_revision_Ok_iff:
  "check_revision p entries symbols = Ok () \<longleftrightarrow>
     \<not> list_ex (\<lambda>symbol. staged_missing p entries symbol \<or> target_changed p entries symbol) symbols"
  by (induction symbols) auto

text \<open>
  Interning is stable and injective: it returns a symbol that later lookups return, different
  keys never share a symbol, and the symbols already handed out keep their meaning.
\<close>

theorem intern_injective:
  assumes "wf_symbols s" and "try_intern key s = (Ok v, s')"
  shows "wf_symbols s' \<and> intern key s' = Ok v \<and>
    (\<forall>k w. service_lookup k s = Some w \<longrightarrow> service_lookup k s' = Some w) \<and>
    (\<forall>k. service_lookup k s' = Some v \<longrightarrow> k = key)"
proof -
  have wf: "wf_symbols s'" by (rule try_intern_wf [OF assms])
  have v: "service_lookup key s' = Some v" by (rule try_intern_result(1) [OF assms(2)])
  then have "\<forall>k. service_lookup k s' = Some v \<longrightarrow> k = key"
    using wf_symbols_inj [OF wf] unfolding service_lookup_def by blast
  moreover have "\<forall>k w. service_lookup k s = Some w \<longrightarrow> service_lookup k s' = Some w"
    using try_intern_keeps [OF _ assms(2)] by blast
  moreover have "intern key s' = Ok v" using v by (simp add: intern_def)
  ultimately show ?thesis using wf by blast
qed

definition example_key :: "string \<Rightarrow> service_key" where
  "example_key name = ServiceKey ''demo'' name 1"

theorem intern_injective_witness:
  "\<exists>s'. try_intern (example_key ''b'') (snd (try_intern (example_key ''a'') (service_registry_new 4 4)))
      = (Ok (from_index 1), s') \<and> (\<forall>k. service_lookup k s' = Some (from_index 1) \<longrightarrow> k = example_key ''b'')"
proof -
  let ?s = "snd (try_intern (example_key ''a'') (service_registry_new 4 4))"
  have "wf_symbols ?s" using try_intern_wf [OF wf_symbols_new] by (metis prod.collapse)
  moreover obtain s' where "try_intern (example_key ''b'') ?s = (Ok (from_index 1), s')"
    by (simp add: try_intern_def service_registry_new_def example_key_def from_index_def Let_def)
  ultimately show ?thesis using intern_injective by blast
qed


definition example_services :: service_registry where
  "example_services = service_insert 0 (from_index 0)
     \<lparr>se_owner = 5, se_scope = 9, se_value = ServiceExternal ''v'', se_gate = 0\<rparr> (service_registry_new 4 1)"


lemma commit_revision_spec:
  assumes "wf_gates g" and "distinct (pv_symbols p)"
    and "cg_generation (gs_gate g new) \<noteq> cg_generation (gs_gate g old)"
  shows "\<exists>r s' g'. commit_revision_and_publish p new old (s, g) = (r, s', g') \<and>
    ((\<exists>e. r = Err e) \<and> s' = s \<and> g' = g \<or>
     r = Ok () \<and> is_visible g' new \<and> \<not> is_visible g' old \<and> gate_inflight g' = gate_inflight g \<and>
     sr_cache s' = [] \<and>
     (\<forall>scope symbol. aget (sr_entries s') (scope, symbol) = revised_entry p (sr_entries s) scope symbol))"
proof (cases "list_ex (\<lambda>symbol. staged_missing p (sr_entries s) symbol \<or>
    target_changed p (sr_entries s) symbol) (pv_symbols p)")
  case True
  then show ?thesis by (simp add: commit_revision_and_publish_def)
next
  case valid: False
  then have "\<not> list_ex (staged_missing p (sr_entries s)) (pv_symbols p)"
    by (auto simp: list_ex_iff)
  from commit_entries [OF assms(2) this] obtain taken entries' where t:
    "take_staged (pv_from p) (pv_symbols p) (sr_entries s) = (Ok taken, entries')"
    "\<forall>scope symbol. aget (put_staged (pv_to p) taken entries') (scope, symbol)
       = revised_entry p (sr_entries s) scope symbol" by blast
  obtain b g' where c: "cutover_from new old g = (Ok b, g')"
    using cutover_no_panic [OF assms(1)] by blast
  show ?thesis
  proof (cases b)
    case False
    with c have "cutover_from new old g = (Ok False, g')" by simp
    then have "g' = g" by (rule cutover_False [OF assms(1)])
    with c False valid show ?thesis by (simp add: commit_revision_and_publish_def)
  next
    case True
    with c have "cutover_from new old g = (Ok True, g')" by simp
    note new = cutover_True(2,3,7) [OF assms(1) this assms(3)]
    with c True valid t show ?thesis by (simp add: commit_revision_and_publish_def)
  qed
qed

text \<open>
  A service revision commits together with the generation cutover or not at all: on failure
  neither the registry nor any gate has changed; on success the new generation is visible, the old
  one is not, exactly the prepared slots moved to the stable scope, and no stale resolution is left
  in the cache. With distinct symbols the \<open>expect\<close> in the commit never fires.
\<close>

theorem revision_commit_atomic:
  assumes "wf_gates g" and "distinct (pv_symbols p)"
    and "cg_generation (gs_gate g new) \<noteq> cg_generation (gs_gate g old)"
  shows "\<exists>r s' g'. commit_revision_and_publish p new old (s, g) = (r, s', g') \<and>
    ((\<exists>e. r = Err e) \<and> s' = s \<and> g' = g \<or>
     r = Ok () \<and> is_visible g' new \<and> \<not> is_visible g' old \<and> gate_inflight g' = gate_inflight g \<and>
     sr_cache s' = [] \<and>
     (\<forall>scope symbol. aget (sr_entries s') (scope, symbol) = revised_entry p (sr_entries s) scope symbol))"
  using assms by (rule commit_revision_spec)

definition example_revision :: prepared_service_revision where
  "example_revision = \<lparr>pv_from = 0, pv_to = 1, pv_symbols = [from_index 0], pv_old_owner = 4,
     pv_staged_owner = 5\<rparr>"

theorem revision_commit_atomic_witness:
  "aget (sr_entries (fst (snd (commit_revision_and_publish example_revision 1 0
     (example_services, example_gates))))) (1, from_index 0) \<noteq> None"
proof -
  have d: "distinct (pv_symbols example_revision)"
    "cg_generation (gs_gate example_gates 1) \<noteq> cg_generation (gs_gate example_gates 0)"
    by (simp_all add: example_revision_def example_gates_def staged_def)
  from revision_commit_atomic [OF example_gates_wf d, of example_services] obtain r s' g' where c:
    "commit_revision_and_publish example_revision 1 0 (example_services, example_gates) = (r, s', g')"
    "(\<exists>e. r = Err e) \<or> (\<forall>scope symbol. aget (sr_entries s') (scope, symbol)
       = revised_entry example_revision (sr_entries example_services) scope symbol)" by blast
  have "fst (cutover_from 1 0 example_gates) = Ok True"
    by (simp add: cutover_from_def selector_switch_def example_gates_def staged_def sbind_def
        gate_begin_draining_def begin_draining_def drain_body_def generation_execution_default_def
        execution_state_unat EXECUTION_ACCEPTING_def Let_def)
  then have "r = Ok ()"
    using c(1) by (cases "cutover_from 1 0 example_gates")
      (auto simp: commit_revision_and_publish_def example_revision_def example_services_def
        service_registry_new_def staged_missing_def target_changed_def split: prod.splits)
  with c show ?thesis
    by (simp add: revised_entry_def example_revision_def example_services_def service_registry_new_def)
qed

end
