(* ===== verification/Dependency_Graph.thy ===== *)
theory Dependency_Graph
  imports Core_Types "HOL-Library.Multiset"
begin

text \<open>
  Provider and dependent topology (\<^verbatim>\<open>dependency_graph.rs\<close>): which Fibers depend on a symbol,
  which Fibers provide a symbol in a scope, the move of a provider that a reload revision makes,
  and the depth-first search that rejects cyclic dependencies.

  \<open>visit\<close> recurses once per edge of the current path; its fuel is the remaining recursion depth,
  and \<open>validate_cycles\<close> starts with one more than the number of nodes, which the lemmas show to be
  enough. The order of the roots is the order of the map.
\<close>

record graph_state =
  gr_dependents :: "(service_symbol, fiber_id list) amap"
  gr_declared :: "(scope_id \<times> service_symbol, fiber_id list) amap"

definition graph_default :: graph_state where
  "graph_default = \<lparr>gr_dependents = [], gr_declared = []\<rparr>"

text \<open>\<open>map.entry(k).or_default().push(f)\<close>, and the contents of a slot.\<close>

definition fibers_at :: "('k, fiber_id list) amap \<Rightarrow> 'k \<Rightarrow> fiber_id list" where
  "fibers_at m k = (case aget m k of None \<Rightarrow> [] | Some v \<Rightarrow> v)"

definition push_at :: "'k \<Rightarrow> fiber_id \<Rightarrow> ('k, fiber_id list) amap \<Rightarrow> ('k, fiber_id list) amap" where
  "push_at k f m = aput k (fibers_at m k @ [f]) m"

definition add_dependency :: "service_symbol \<Rightarrow> fiber_id \<Rightarrow> graph_state \<Rightarrow> graph_state" where
  "add_dependency s f g = g\<lparr>gr_dependents := push_at s f (gr_dependents g)\<rparr>"

definition add_provider :: "scope_id \<Rightarrow> service_symbol \<Rightarrow> fiber_id \<Rightarrow> graph_state \<Rightarrow> graph_state" where
  "add_provider sc s f g = g\<lparr>gr_declared := push_at (sc, s) f (gr_declared g)\<rparr>"

definition remove_dependency :: "service_symbol \<Rightarrow> fiber_id \<Rightarrow> graph_state \<Rightarrow> graph_state" where
  "remove_dependency s f g =
     g\<lparr>gr_dependents := amod s (filter (\<lambda>x. x \<noteq> f)) (gr_dependents g)\<rparr>"

definition remove_provider :: "scope_id \<Rightarrow> service_symbol \<Rightarrow> fiber_id \<Rightarrow> graph_state \<Rightarrow> graph_state" where
  "remove_provider sc s f g =
     g\<lparr>gr_declared := amod (sc, s) (filter (\<lambda>x. x \<noteq> f)) (gr_declared g)\<rparr>"

definition move_rejected :: "scope_id \<Rightarrow> scope_id \<Rightarrow> fiber_id \<Rightarrow> graph_state \<Rightarrow> service_symbol \<Rightarrow> bool" where
  "move_rejected from to fiber g symbol \<longleftrightarrow>
     (let source_count = (case aget (gr_declared g) (from, symbol) of
            None \<Rightarrow> 0 | Some providers \<Rightarrow> length (filter (\<lambda>x. x = fiber) providers));
          target_contains = (case aget (gr_declared g) (to, symbol) of
            None \<Rightarrow> False | Some providers \<Rightarrow> fiber \<in> set providers);
          attached_elsewhere = list_ex (\<lambda>((scope, candidate), providers).
            candidate = symbol \<and> scope \<noteq> from \<and> fiber \<in> set providers) (gr_declared g)
      in source_count \<noteq> 1 \<or> target_contains \<or> attached_elsewhere)"

fun move_all ::
  "scope_id \<Rightarrow> scope_id \<Rightarrow> fiber_id \<Rightarrow> service_symbol list \<Rightarrow> graph_state \<Rightarrow> graph_state" where
  "move_all from to fiber [] g = g"
| "move_all from to fiber (symbol # symbols) g =
     move_all from to fiber symbols
       (add_provider to symbol fiber (remove_provider from symbol fiber g))"

definition move_providers ::
  "scope_id \<Rightarrow> scope_id \<Rightarrow> service_symbol list \<Rightarrow> fiber_id \<Rightarrow> graph_state \<Rightarrow> unit cres \<times> graph_state" where
  "move_providers from to symbols fiber g =
     (if card (set symbols) \<noteq> length symbols
      then (Err (RevisionValidationFailed
              (Lit ''dependency provider revision contains duplicate symbols'')), g)
      else if list_ex (move_rejected from to fiber g) symbols
      then (Err (RevisionValidationFailed
              (Lit ''dependency provider topology changed before reload revision'')), g)
      else (Ok (), move_all from to fiber symbols g))"

definition dependents :: "service_symbol \<Rightarrow> graph_state \<Rightarrow> fiber_id list" where
  "dependents s g = fibers_at (gr_dependents g) s"

definition providers :: "scope_id \<Rightarrow> service_symbol \<Rightarrow> graph_state \<Rightarrow> fiber_id list" where
  "providers sc s g = fibers_at (gr_declared g) (sc, s)"

definition retain_fibers :: "(fiber_id \<Rightarrow> bool) \<Rightarrow> graph_state \<Rightarrow> graph_state" where
  "retain_fibers keep g =
     \<lparr>gr_dependents = map (map_prod (\<lambda>x. x) (filter keep)) (gr_dependents g),
      gr_declared = map (map_prod (\<lambda>x. x) (filter keep)) (gr_declared g)\<rparr>"

section \<open>Cycle detection\<close>

type_synonym edges = "(fiber_id, fiber_id list) amap"

record dfs_state =
  df_visiting :: "fiber_id set"
  df_visited :: "fiber_id set"
  df_path :: "fiber_id list"

fun visit :: "nat \<Rightarrow> edges \<Rightarrow> fiber_id \<Rightarrow> dfs_state \<Rightarrow> dfs_state cres option"
  and visit_targets :: "nat \<Rightarrow> edges \<Rightarrow> fiber_id list \<Rightarrow> dfs_state \<Rightarrow> dfs_state cres option" where
  "visit 0 edges node d = None"
| "visit (Suc n) edges node d =
     (if node \<in> df_visiting d
      then Some (Err (DependencyCycle (Dbg (df_path d @ [node]))))
      else if node \<in> df_visited d then Some (Ok d)
      else
        let d1 = d\<lparr>df_visited := insert node (df_visited d),
                   df_visiting := insert node (df_visiting d), df_path := df_path d @ [node]\<rparr>
        in case visit_targets n edges (case aget edges node of None \<Rightarrow> [] | Some next \<Rightarrow> next) d1 of
             None \<Rightarrow> None
           | Some (Ok d2) \<Rightarrow>
               Some (Ok (d2\<lparr>df_path := butlast (df_path d2), df_visiting := df_visiting d2 - {node}\<rparr>))
           | Some (Err e) \<Rightarrow> Some (Err e)
           | Some (Panicked p) \<Rightarrow> Some (Panicked p))"
| "visit_targets n edges [] d = Some (Ok d)"
| "visit_targets n edges (target # targets) d =
     (case visit n edges target d of
        None \<Rightarrow> None
      | Some (Ok d1) \<Rightarrow> visit_targets n edges targets d1
      | Some (Err e) \<Rightarrow> Some (Err e)
      | Some (Panicked p) \<Rightarrow> Some (Panicked p))"

fun visit_roots :: "nat \<Rightarrow> edges \<Rightarrow> fiber_id list \<Rightarrow> fiber_id set \<Rightarrow> fiber_id set \<Rightarrow> unit cres option" where
  "visit_roots n edges [] visiting visited = Some (Ok ())"
| "visit_roots n edges (node # nodes) visiting visited =
     (case visit n edges node \<lparr>df_visiting = visiting, df_visited = visited, df_path = []\<rparr> of
        None \<Rightarrow> None
      | Some (Ok d) \<Rightarrow> visit_roots n edges nodes (df_visiting d) (df_visited d)
      | Some (Err e) \<Rightarrow> Some (Err e)
      | Some (Panicked p) \<Rightarrow> Some (Panicked p))"

definition graph_nodes :: "edges \<Rightarrow> fiber_id list" where
  "graph_nodes edges = akeys edges @ concat (avals edges)"

definition validate_cycles :: "edges \<Rightarrow> unit cres option" where
  "validate_cycles edges =
     visit_roots (Suc (length (graph_nodes edges))) edges (akeys edges) {} {}"

section \<open>Providers move together or not at all\<close>

lemma fibers_at_push [simp]:
  "fibers_at (push_at k f m) k' = (if k' = k then fibers_at m k @ [f] else fibers_at m k')"
  by (simp add: fibers_at_def push_at_def)

lemma fibers_at_amod [simp]:
  "fibers_at (amod k (filter P) m) k' = (if k' = k then filter P (fibers_at m k) else fibers_at m k')"
  by (auto simp: fibers_at_def split: option.splits)

lemma providers_add [simp]:
  "providers sc s (add_provider sc' s' f g) = (if (sc, s) = (sc', s') then providers sc s g @ [f] else providers sc s g)"
  by (simp add: providers_def add_provider_def)

lemma providers_remove [simp]:
  "providers sc s (remove_provider sc' s' f g)
    = (if (sc, s) = (sc', s') then filter (\<lambda>x. x \<noteq> f) (providers sc s g) else providers sc s g)"
  by (simp add: providers_def remove_provider_def)

lemma move_all_providers:
  assumes "distinct symbols" and "from \<noteq> to"
  shows "providers sc s (move_all from to fiber symbols g) =
    (if s \<in> set symbols \<and> sc = from then filter (\<lambda>x. x \<noteq> fiber) (providers sc s g)
     else if s \<in> set symbols \<and> sc = to then providers sc s g @ [fiber]
     else providers sc s g)"
  using assms
proof (induction symbols arbitrary: g)
  case Nil
  then show ?case by simp
next
  case (Cons symbol symbols)
  then show ?case by auto
qed

lemma move_rejected_iff:
  assumes "distinct (akeys (gr_declared g))"
  shows "move_rejected from to fiber g symbol \<longleftrightarrow>
    count (mset (providers from symbol g)) fiber \<noteq> 1 \<or> fiber \<in> set (providers to symbol g) \<or>
    (\<exists>scope. scope \<noteq> from \<and> fiber \<in> set (providers scope symbol g))"
proof -
  have len: "length (filter (\<lambda>x. x = fiber) xs) = count (mset xs) fiber" for xs
    by (induction xs) auto
  have ex: "(\<exists>scope. scope \<noteq> from \<and> fiber \<in> set (providers scope symbol g)) \<longleftrightarrow>
      list_ex (\<lambda>((scope, candidate), ps). candidate = symbol \<and> scope \<noteq> from \<and> fiber \<in> set ps) (gr_declared g)"
  proof
    assume "\<exists>scope. scope \<noteq> from \<and> fiber \<in> set (providers scope symbol g)"
    then obtain scope where sc: "scope \<noteq> from" "fiber \<in> set (providers scope symbol g)" by blast
    then obtain ps where "aget (gr_declared g) (scope, symbol) = Some ps" "fiber \<in> set ps"
      by (cases "aget (gr_declared g) (scope, symbol)") (auto simp: providers_def fibers_at_def)
    with sc(1) show "list_ex (\<lambda>((scope, candidate), ps). candidate = symbol \<and> scope \<noteq> from \<and> fiber \<in> set ps) (gr_declared g)"
      by (force simp: list_ex_iff dest: map_of_SomeD)
  next
    assume "list_ex (\<lambda>((scope, candidate), ps). candidate = symbol \<and> scope \<noteq> from \<and> fiber \<in> set ps) (gr_declared g)"
    then obtain scope ps where "((scope, symbol), ps) \<in> set (gr_declared g)" "scope \<noteq> from" "fiber \<in> set ps"
      by (auto simp: list_ex_iff)
    with assms show "\<exists>scope. scope \<noteq> from \<and> fiber \<in> set (providers scope symbol g)"
      by (intro exI [of _ scope]) (simp add: providers_def fibers_at_def)
  qed
  show ?thesis
    unfolding move_rejected_def Let_def ex [symmetric]
    by (auto simp: providers_def fibers_at_def len split: option.splits)
qed

lemma wf_move_all: "distinct (akeys (gr_declared g)) \<Longrightarrow>
    distinct (akeys (gr_declared (move_all from to fiber symbols g)))"
  by (induction symbols arbitrary: g) (simp_all add: add_provider_def remove_provider_def push_at_def)

lemma move_providers_cases:
  "move_providers from to symbols fiber g = (r, g') \<Longrightarrow>
     (\<exists>e. r = Err e) \<and> g' = g \<or>
     r = Ok () \<and> distinct symbols \<and> (\<forall>s \<in> set symbols. \<not> move_rejected from to fiber g s) \<and>
     g' = move_all from to fiber symbols g"
  by (auto simp: move_providers_def list_ex_iff card_distinct distinct_card split: if_splits)

lemma filter_other_mset:
  "count (mset xs) f = 1 \<Longrightarrow> mset (filter (\<lambda>x. x \<noteq> f) xs @ [f]) = mset xs"
  by (rule multiset_eqI) (auto simp: not_in_iff [symmetric])

lemma filter_absent_mset: "f \<notin> set xs \<Longrightarrow> {#x \<in># mset xs. x \<noteq> f#} = mset xs"
  by (induction xs) auto

section \<open>The search accepts exactly the acyclic graphs\<close>

definition edge_rel :: "edges \<Rightarrow> (fiber_id \<times> fiber_id) set" where
  "edge_rel edges = {(a, b). b \<in> set (fibers_at edges a)}"

definition is_walk :: "edges \<Rightarrow> fiber_id list \<Rightarrow> bool" where
  "is_walk edges p \<longleftrightarrow> successively (\<lambda>a b. b \<in> set (fibers_at edges a)) p"

text \<open>A walk that comes back to a node.\<close>

definition is_cycle_report :: "edges \<Rightarrow> fiber_id list \<Rightarrow> bool" where
  "is_cycle_report edges p \<longleftrightarrow> is_walk edges p \<and> p \<noteq> [] \<and> last p \<in> set (butlast p)"

lemma is_walk_snoc2: "is_walk edges (p @ [a, b]) \<longleftrightarrow> is_walk edges (p @ [a]) \<and> b \<in> set (fibers_at edges a)"
  by (auto simp: is_walk_def successively_append_iff)

lemma walk_trancl:
  "is_walk edges (a # p @ [b]) \<Longrightarrow> (a, b) \<in> (edge_rel edges)\<^sup>+"
proof (induction p arbitrary: a)
  case Nil
  then show ?case by (auto simp: is_walk_def edge_rel_def)
next
  case (Cons c p)
  then have "(a, c) \<in> edge_rel edges" "(c, b) \<in> (edge_rel edges)\<^sup>+"
    by (auto simp: is_walk_def edge_rel_def)
  then show ?case by (rule trancl_into_trancl2)
qed

lemma cycle_report_cyclic:
  assumes "is_cycle_report edges p"
  shows "\<not> acyclic (edge_rel edges)"
proof -
  obtain x q where p: "p = q @ [x]" "x \<in> set q"
    using assms by (cases p rule: rev_cases) (auto simp: is_cycle_report_def)
  then obtain q1 q2 where "q = q1 @ x # q2" by (auto simp: in_set_conv_decomp)
  with p(1) assms have "is_walk edges (x # q2 @ [x])"
    by (simp add: is_cycle_report_def is_walk_def successively_append_iff)
  from walk_trancl [OF this] show ?thesis by (auto simp: acyclic_def)
qed

definition dfs_inv :: "edges \<Rightarrow> dfs_state \<Rightarrow> bool" where
  "dfs_inv edges d \<longleftrightarrow> df_visiting d \<subseteq> df_visited d \<and>
     edge_rel edges `` (df_visited d - df_visiting d) \<subseteq> df_visited d - df_visiting d \<and>
     acyclic (Restr (edge_rel edges) (df_visited d - df_visiting d))"

definition path_inv :: "edges \<Rightarrow> dfs_state \<Rightarrow> bool" where
  "path_inv edges d \<longleftrightarrow> df_visiting d = set (df_path d)"

lemma trancl_closed_restr:
  assumes "(x, y) \<in> (Restr E (insert n B))\<^sup>+" and "E `` B \<subseteq> B" and "x \<in> B"
  shows "y \<in> B \<and> (x, y) \<in> (Restr E B)\<^sup>+"
  using assms(1)
proof induction
  case (base y)
  with assms(2,3) show ?case by blast
next
  case (step y z)
  then have "z \<in> B" "(y, z) \<in> Restr E B" using assms(2) by blast+
  with step.IH show ?case using trancl_into_trancl by metis
qed

lemma acyclic_add_source:
  assumes "acyclic (Restr E B)" and "E `` B \<subseteq> B" and "E `` {n} \<subseteq> B" and "n \<notin> B"
  shows "acyclic (Restr E (insert n B))"
proof (rule acyclicI, rule allI, rule notI)
  fix x
  assume c: "(x, x) \<in> (Restr E (insert n B))\<^sup>+"
  then obtain y where "(y, x) \<in> Restr E (insert n B)" by (meson tranclE)
  then have "x \<in> B" using assms(2,3) by blast
  with trancl_closed_restr [OF c assms(2)] assms(1) show False by (auto simp: acyclic_def)
qed

abbreviation enter_node :: "fiber_id \<Rightarrow> dfs_state \<Rightarrow> dfs_state" where
  "enter_node node d \<equiv> d\<lparr>df_visited := insert node (df_visited d),
     df_visiting := insert node (df_visiting d), df_path := df_path d @ [node]\<rparr>"

lemma visit_Ok:
  "visit n edges node d = Some (Ok d') \<Longrightarrow> dfs_inv edges d \<Longrightarrow>
     df_visiting d' = df_visiting d \<and> df_path d' = df_path d \<and> df_visited d \<subseteq> df_visited d' \<and>
     node \<in> df_visited d' - df_visiting d' \<and> dfs_inv edges d'"
  "visit_targets n edges targets d = Some (Ok d') \<Longrightarrow> dfs_inv edges d \<Longrightarrow>
     df_visiting d' = df_visiting d \<and> df_path d' = df_path d \<and> df_visited d \<subseteq> df_visited d' \<and>
     set targets \<subseteq> df_visited d' - df_visiting d' \<and> dfs_inv edges d'"
proof (induction n edges node d and n edges targets d arbitrary: d' and d'
    rule: visit_visit_targets.induct)
  case (1 edges node d)
  then show ?case by simp
next
  case (2 n edges node d)
  show ?case
  proof (cases "node \<in> df_visited d")
    case True
    with 2 show ?thesis by (auto split: if_splits)
  next
    case False
    let ?d1 = "enter_node node d"
    have fresh: "node \<notin> df_visiting d" using 2(2) by (auto split: if_splits)
    obtain d2 where d2: "visit_targets n edges (fibers_at edges node) ?d1 = Some (Ok d2)"
        "d' = d2\<lparr>df_path := butlast (df_path d2), df_visiting := df_visiting d2 - {node}\<rparr>"
      using 2(2) False fresh
      by (auto simp: Let_def fibers_at_def [symmetric] split: option.splits res.splits)
    have same: "df_visited ?d1 - df_visiting ?d1 = df_visited d - df_visiting d"
      using False by auto
    have "dfs_inv edges ?d1"
      using 2(3) same unfolding dfs_inv_def by auto
    from 2(1) [OF fresh False refl, unfolded fibers_at_def [symmetric], OF d2(1) this]
    have t: "df_visiting d2 = insert node (df_visiting d)" "df_path d2 = df_path d @ [node]"
        "insert node (df_visited d) \<subseteq> df_visited d2"
        "set (fibers_at edges node) \<subseteq> df_visited d2 - df_visiting d2" "dfs_inv edges d2"
      by auto
    let ?B = "df_visited d2 - df_visiting d2"
    have B': "df_visited d' - df_visiting d' = insert node ?B"
      using d2(2) t(1,3) fresh by auto
    have "edge_rel edges `` {node} \<subseteq> ?B" using t(4) by (auto simp: edge_rel_def)
    moreover have "edge_rel edges `` ?B \<subseteq> ?B" "acyclic (Restr (edge_rel edges) ?B)"
      using t(5) by (simp_all add: dfs_inv_def)
    ultimately have "acyclic (Restr (edge_rel edges) (insert node ?B))"
        "edge_rel edges `` insert node ?B \<subseteq> insert node ?B"
      using acyclic_add_source [of "edge_rel edges" ?B node] t(1) by auto
    moreover have "df_visiting d' \<subseteq> df_visited d'"
      using d2(2) t(5) by (auto simp: dfs_inv_def)
    ultimately have "dfs_inv edges d'" unfolding dfs_inv_def B' by blast
    with d2(2) t fresh show ?thesis by auto
  qed
next
  case (3 n edges d)
  then show ?case by simp
next
  case (4 n edges target targets d)
  obtain d1 where d1: "visit n edges target d = Some (Ok d1)"
      "visit_targets n edges targets d1 = Some (Ok d')"
    using 4(3) by (auto split: option.splits res.splits)
  from 4(1) [OF d1(1) 4(4)] 4(2) [OF d1(1) refl d1(2)]
  show ?case by auto
qed

lemma visit_path:
  "visit n edges node d = Some (Ok d') \<Longrightarrow> df_path d' = df_path d \<and> df_visiting d' = df_visiting d"
  "visit_targets n edges targets d = Some (Ok d') \<Longrightarrow>
     df_path d' = df_path d \<and> df_visiting d' = df_visiting d"
proof (induction n edges node d and n edges targets d arbitrary: d' and d'
    rule: visit_visit_targets.induct)
  case (2 n edges node d)
  show ?case
  proof (cases "node \<in> df_visiting d \<or> node \<in> df_visited d")
    case True
    with 2(2) show ?thesis by (auto split: if_splits)
  next
    case False
    then have new: "node \<notin> df_visiting d" "node \<notin> df_visited d" by auto
    obtain d2 where d2: "visit_targets n edges (fibers_at edges node) (enter_node node d) = Some (Ok d2)"
        "d' = d2\<lparr>df_path := butlast (df_path d2), df_visiting := df_visiting d2 - {node}\<rparr>"
      using 2(2) new by (auto simp: Let_def fibers_at_def [symmetric] split: option.splits res.splits)
    from 2(1) [OF new refl, unfolded fibers_at_def [symmetric], OF d2(1)] d2(2) new(1)
    show ?thesis by simp
  qed
next
  case (4 n edges target targets d)
  obtain d1 where d1: "visit n edges target d = Some (Ok d1)"
      "visit_targets n edges targets d1 = Some (Ok d')"
    using 4(3) by (auto split: option.splits res.splits)
  from 4(1) [OF d1(1)] 4(2) [OF d1(1) refl d1(2)] show ?case by simp
qed simp_all

lemma visit_Err:
  "visit n edges node d = Some (Err e) \<Longrightarrow> path_inv edges d \<Longrightarrow> is_walk edges (df_path d @ [node]) \<Longrightarrow>
     \<exists>p. e = DependencyCycle (Dbg p) \<and> is_cycle_report edges p"
  "visit_targets n edges targets d = Some (Err e) \<Longrightarrow> path_inv edges d \<Longrightarrow>
     \<forall>t \<in> set targets. is_walk edges (df_path d @ [t]) \<Longrightarrow>
     \<exists>p. e = DependencyCycle (Dbg p) \<and> is_cycle_report edges p"
proof (induction n edges node d and n edges targets d arbitrary: e and e
    rule: visit_visit_targets.induct)
  case (1 edges node d)
  then show ?case by simp
next
  case (2 n edges node d)
  show ?case
  proof (cases "node \<in> df_visiting d")
    case True
    with 2(2-4) show ?thesis by (auto simp: is_cycle_report_def path_inv_def)
  next
    case fresh: False
    then have new: "node \<notin> df_visited d" using 2(2) by (auto split: if_splits)
    have err: "visit_targets n edges (fibers_at edges node) (enter_node node d) = Some (Err e)"
      using 2(2) fresh new by (auto simp: Let_def fibers_at_def [symmetric] split: option.splits res.splits)
    have "path_inv edges (enter_node node d)" using 2(3) by (simp add: path_inv_def)
    moreover have "\<forall>t \<in> set (fibers_at edges node). is_walk edges (df_path (enter_node node d) @ [t])"
      using 2(4) by (simp add: is_walk_snoc2)
    ultimately show ?thesis
      using 2(1) [OF fresh new refl, unfolded fibers_at_def [symmetric], OF err] by blast
  qed
next
  case (3 n edges d)
  then show ?case by simp
next
  case (4 n edges target targets d)
  then consider "visit n edges target d = Some (Err e)"
    | d1 where "visit n edges target d = Some (Ok d1)" "visit_targets n edges targets d1 = Some (Err e)"
    by (auto split: option.splits res.splits)
  then show ?case
  proof cases
    case 1
    with 4(1) 4(4,5) show ?thesis by simp
  next
    case 2
    with visit_path(1) [OF 2(1)] 4(2) [OF 2(1) refl 2(2)] 4(4,5) show ?thesis
      by (simp add: path_inv_def)
  qed
qed

lemma visit_not_panicked:
  "visit n edges node d \<noteq> Some (Panicked p)"
  "visit_targets n edges targets d \<noteq> Some (Panicked p)"
  by (induction n edges node d and n edges targets d rule: visit_visit_targets.induct)
    (auto simp: Let_def split: option.splits res.splits)

text \<open>The fuel bounds the recursion depth: every level adds a node to the current path.\<close>

lemma visit_total:
  "finite U \<Longrightarrow> card (U - df_visiting d) < n \<Longrightarrow> node \<in> U \<Longrightarrow> edge_rel edges `` U \<subseteq> U \<Longrightarrow>
     visit n edges node d \<noteq> None"
  "finite U \<Longrightarrow> card (U - df_visiting d) < n \<Longrightarrow> set targets \<subseteq> U \<Longrightarrow> edge_rel edges `` U \<subseteq> U \<Longrightarrow>
     visit_targets n edges targets d \<noteq> None"
proof (induction n edges node d and n edges targets d rule: visit_visit_targets.induct)
  case (1 edges node d)
  then show ?case by simp
next
  case (2 n edges node d)
  show ?case
  proof (cases "node \<in> df_visiting d \<or> node \<in> df_visited d")
    case True
    then show ?thesis by auto
  next
    case False
    then have new: "node \<notin> df_visiting d" "node \<notin> df_visited d" by auto
    have "U - df_visiting (enter_node node d) = U - df_visiting d - {node}" by auto
    then have "card (U - df_visiting (enter_node node d)) < n"
      using 2(2,3,4) new(1) card_Diff1_less [of "U - df_visiting d" node] by simp
    moreover have "set (fibers_at edges node) \<subseteq> U"
      using 2(4,5) by (auto simp: edge_rel_def)
    ultimately have "visit_targets n edges (fibers_at edges node) (enter_node node d) \<noteq> None"
      using 2(1) [OF new refl, unfolded fibers_at_def [symmetric], OF 2(2) _ _ 2(5)] by blast
    then show ?thesis
      using new by (auto simp: Let_def fibers_at_def [symmetric] split: res.splits)
  qed
next
  case (3 n edges d)
  then show ?case by simp
next
  case (4 n edges target targets d)
  then have "visit n edges target d \<noteq> None" by simp
  then consider d1 where "visit n edges target d = Some (Ok d1)"
    | "\<forall>d1. visit n edges target d \<noteq> Some (Ok d1)" by blast
  then show ?case
  proof cases
    case 1
    have "card (U - df_visiting d1) < n" using visit_path(1) [OF 1] 4(4) by simp
    with 4(2) [OF 1 refl 4(3) _ _ 4(6)] 4(5) 1 show ?thesis by simp
  next
    case 2
    with \<open>visit n edges target d \<noteq> None\<close> show ?thesis by (auto split: option.splits res.splits)
  qed
qed

lemma visit_roots_Ok:
  "visit_roots n edges nodes {} D = Some (Ok ()) \<Longrightarrow> dfs_inv edges \<lparr>df_visiting = {}, df_visited = D, df_path = []\<rparr> \<Longrightarrow>
     \<exists>D'. set nodes \<subseteq> D' \<and> D \<subseteq> D' \<and> dfs_inv edges \<lparr>df_visiting = {}, df_visited = D', df_path = []\<rparr>"
proof (induction nodes arbitrary: D)
  case Nil
  then show ?case by auto
next
  case (Cons node nodes)
  let ?d = "\<lparr>df_visiting = {}, df_visited = D, df_path = []\<rparr>"
  obtain d1 where d1: "visit n edges node ?d = Some (Ok d1)"
    "visit_roots n edges nodes (df_visiting d1) (df_visited d1) = Some (Ok ())"
    using Cons.prems(1) by (auto split: option.splits res.splits)
  from visit_Ok(1) [OF d1(1) Cons.prems(2)]
  have v: "df_visiting d1 = {}" "D \<subseteq> df_visited d1" "node \<in> df_visited d1" "dfs_inv edges d1" by auto
  have "dfs_inv edges \<lparr>df_visiting = {}, df_visited = df_visited d1, df_path = []\<rparr>"
    using v(1,4) by (simp add: dfs_inv_def)
  from Cons.IH [OF d1(2) [unfolded v(1)] this] v(2,3) show ?case by auto
qed

lemma visit_roots_Err:
  "visit_roots n edges nodes {} D = Some (Err e) \<Longrightarrow>
     \<exists>p. e = DependencyCycle (Dbg p) \<and> is_cycle_report edges p"
proof (induction nodes arbitrary: D)
  case (Cons node nodes)
  let ?d = "\<lparr>df_visiting = {}, df_visited = D, df_path = []\<rparr>"
  consider "visit n edges node ?d = Some (Err e)"
    | d1 where "visit n edges node ?d = Some (Ok d1)"
        "visit_roots n edges nodes (df_visiting d1) (df_visited d1) = Some (Err e)"
    using Cons.prems by (auto split: option.splits res.splits)
  then show ?case
  proof cases
    case 1
    then show ?thesis
      using visit_Err(1) [of n edges node ?d e] by (simp add: path_inv_def is_walk_def)
  next
    case 2
    with visit_path(1) [OF 2(1)] Cons.IH show ?thesis by simp
  qed
qed simp

lemma visit_roots_total:
  assumes "finite U" and "card U < n" and "set nodes \<subseteq> U" and "edge_rel edges `` U \<subseteq> U"
  shows "\<exists>r. visit_roots n edges nodes {} D = Some r \<and> (\<forall>p. r \<noteq> Panicked p)"
  using assms(3)
proof (induction nodes arbitrary: D)
  case (Cons node nodes)
  let ?d = "\<lparr>df_visiting = {}, df_visited = D, df_path = []\<rparr>"
  have "visit n edges node ?d \<noteq> None"
    using visit_total(1) [of U ?d n node edges] assms(1,2,4) Cons.prems by simp
  then obtain r where r: "visit n edges node ?d = Some r" by blast
  show ?case
  proof (cases r)
    case (Panicked p)
    with r visit_not_panicked(1) show ?thesis by blast
  next
    case (Err e)
    with r show ?thesis by simp
  next
    case (Ok d1)
    with r visit_path(1) have "df_visiting d1 = {}" by fastforce
    with Cons r Ok show ?thesis by simp
  qed
qed simp

lemma graph_nodes_closed: "edge_rel edges `` set (graph_nodes edges) \<subseteq> set (graph_nodes edges)"
proof
  fix b
  assume "b \<in> edge_rel edges `` set (graph_nodes edges)"
  then obtain a where "b \<in> set (fibers_at edges a)" by (auto simp: edge_rel_def)
  then obtain l where "(a, l) \<in> set edges" "b \<in> set l"
    by (cases "aget edges a") (auto simp: fibers_at_def dest: map_of_SomeD)
  then show "b \<in> set (graph_nodes edges)" by (force simp: graph_nodes_def)
qed

lemma edge_source: "(a, b) \<in> edge_rel edges \<Longrightarrow> a \<in> set (akeys edges)"
  using aget_Some_key [of edges a] by (cases "aget edges a") (auto simp: edge_rel_def fibers_at_def)

lemma validate_cycles_total: "\<exists>r. validate_cycles edges = Some r \<and> (\<forall>p. r \<noteq> Panicked p)"
  unfolding validate_cycles_def
proof (rule visit_roots_total [where U = "set (graph_nodes edges)"])
  show "card (set (graph_nodes edges)) < Suc (length (graph_nodes edges))"
    by (simp add: card_length less_Suc_eq_le)
qed (use graph_nodes_closed in \<open>auto simp: graph_nodes_def\<close>)

lemma validate_cycles_Ok:
  assumes "validate_cycles edges = Some (Ok ())"
  shows "acyclic (edge_rel edges)"
proof -
  have "dfs_inv edges \<lparr>df_visiting = {}, df_visited = {}, df_path = []\<rparr>"
    by (simp add: dfs_inv_def acyclic_def)
  from visit_roots_Ok [OF assms [unfolded validate_cycles_def] this] obtain D
    where D: "set (akeys edges) \<subseteq> D" "edge_rel edges `` D \<subseteq> D" "acyclic (Restr (edge_rel edges) D)"
    by (auto simp: dfs_inv_def)
  have "edge_rel edges \<subseteq> Restr (edge_rel edges) D"
  proof
    fix ab
    assume "ab \<in> edge_rel edges"
    then obtain a b where "ab = (a, b)" "(a, b) \<in> edge_rel edges" by (cases ab) auto
    with edge_source [of a b edges] D(1,2) show "ab \<in> Restr (edge_rel edges) D" by blast
  qed
  with D(3) show ?thesis using acyclic_subset by blast
qed

section \<open>Properties\<close>

text \<open>
  C6. Cycle validation decides acyclicity: it always returns, it accepts exactly the acyclic
  graphs, and an error carries a walk along dependency edges whose last Fiber was already on it.
\<close>

theorem validate_cycles_decides:
  "(acyclic (edge_rel edges) \<and> validate_cycles edges = Some (Ok ())) \<noteq>
   (\<exists>p. validate_cycles edges = Some (Err (DependencyCycle (Dbg p))) \<and> is_cycle_report edges p)"
proof -
  obtain r where r: "validate_cycles edges = Some r" "\<forall>p. r \<noteq> Panicked p"
    using validate_cycles_total by blast
  show ?thesis
  proof (cases r)
    case (Ok u)
    with r validate_cycles_Ok show ?thesis by simp
  next
    case (Err e)
    with r visit_roots_Err cycle_report_cyclic show ?thesis unfolding validate_cycles_def by fastforce
  qed (use r(2) in blast)
qed

lemma move_back:
  assumes "distinct (akeys (gr_declared g))" and "move_providers from to symbols fiber g = (Ok (), g1)"
  shows "\<exists>g2. move_providers to from symbols fiber g1 = (Ok (), g2) \<and>
    (\<forall>scope symbol. mset (providers scope symbol g2) = mset (providers scope symbol g))"
proof -
  have d: "distinct symbols" "\<forall>s \<in> set symbols. \<not> move_rejected from to fiber g s"
      "g1 = move_all from to fiber symbols g"
    using move_providers_cases [OF assms(2)] by auto
  have ok: "s \<in> set symbols \<Longrightarrow> count (mset (providers from s g)) fiber = 1 \<and> fiber \<notin> set (providers to s g) \<and>
      (\<forall>scope. scope \<noteq> from \<longrightarrow> fiber \<notin> set (providers scope s g))" for s
    using d(2) unfolding move_rejected_iff [OF assms(1)] by blast
  show ?thesis
  proof (cases "symbols = []")
    case True
    with d(3) show ?thesis by (simp add: move_providers_def)
  next
    case False
    then have "hd symbols \<in> set symbols" by simp
    from ok [OF this] have ne: "from \<noteq> to"
      by (metis count_eq_zero_iff set_mset_mset zero_neq_one)
    note p1 = move_all_providers [OF d(1) ne, of _ _ fiber g, folded d(3)]
    have "distinct (akeys (gr_declared g1))" unfolding d(3) by (rule wf_move_all [OF assms(1)])
    then have "\<not> move_rejected to from fiber g1 s" if "s \<in> set symbols" for s
      using ok [OF that] that ne by (auto simp: move_rejected_iff p1 not_in_iff)
    then have m: "move_providers to from symbols fiber g1 = (Ok (), move_all to from fiber symbols g1)"
      using d(1) by (auto simp: move_providers_def list_ex_iff distinct_card)
    have "mset (providers scope s (move_all to from fiber symbols g1)) = mset (providers scope s g)" for scope s
      using ok [of s] ne filter_other_mset [of "providers from s g" fiber]
      by (auto simp: move_all_providers [OF d(1) ne [symmetric]] p1 filter_absent_mset)
    with m show ?thesis by blast
  qed
qed

text \<open>
  A provider revision moves all its symbols or none, and moving back restores, scope by scope
  and symbol by symbol, the same multiset of providers.
\<close>

theorem move_providers_roundtrip:
  assumes "distinct (akeys (gr_declared g))" and "move_providers from to symbols fiber g = (Ok (), g1)"
  shows "\<exists>g2. move_providers to from symbols fiber g1 = (Ok (), g2) \<and>
    (\<forall>scope symbol. mset (providers scope symbol g2) = mset (providers scope symbol g))"
  using assms by (rule move_back)

definition example_graph :: graph_state where
  "example_graph = add_provider 0 (from_index 0) 3 graph_default"

theorem move_providers_roundtrip_witness:
  "fst (move_providers 0 1 [from_index 0] 3 example_graph) = Ok () \<and>
   (\<exists>g2. move_providers 1 0 [from_index 0] 3 (snd (move_providers 0 1 [from_index 0] 3 example_graph)) = (Ok (), g2))"
proof -
  have d: "distinct (akeys (gr_declared example_graph))"
    by (simp add: example_graph_def add_provider_def graph_default_def push_at_def fibers_at_def)
  have "\<not> move_rejected 0 1 3 example_graph (from_index 0)"
    unfolding move_rejected_iff [OF d]
    by (auto simp: example_graph_def providers_def graph_default_def add_provider_def fibers_at_def
        push_at_def split: if_splits)
  then have "move_providers 0 1 [from_index 0] 3 example_graph
      = (Ok (), move_all 0 1 3 [from_index 0] example_graph)"
    by (simp add: move_providers_def)
  with move_providers_roundtrip [OF d this] show ?thesis by auto
qed

end
