(* ===== verification/Disposal.thy ===== *)
theory Disposal
  imports Interfaces Runtime_Config
begin

text \<open>
  Disposal vocabulary (\<^verbatim>\<open>disposal.rs\<close>): phases, scope states, issues, observations, the outcome
  a caller derives from an observation, and the completion slot that is published once.

  Supervisor join handles carry no data the Runtime reads; the records keep only whether one is
  registered.
\<close>

datatype disposal_phase =
    Idle | TasksPhase | DrainingPhase | ChildScopes | Handlers | Services | Effects
  | Reconciling | Finalizing | Complete | TerminatedPhase

datatype scope_state = ScopeActive | ScopeDisposing | ScopeDisposedState | ScopeTerminated

record cleanup_issue =
  ci_phase :: cleanup_phase
  ci_message :: message
  ci_cause :: "cordis_error option"

datatype dispose_outcome =
    OutcomeDisposed
  | CommittedWithCleanupIssues "cleanup_issue list"
  | OutcomeIncomplete cordis_error "cleanup_issue list"

datatype scope_dispose_outcome =
    ScopeOutcomeDisposed
  | ScopeCommittedWithCleanupIssues "cleanup_issue list"
  | ScopeOutcomeIncomplete cordis_error "cleanup_issue list"

datatype disposal_terminal = Committed | Incomplete cordis_error

record disposal_observation =
  do_legacy_result :: "unit cres"
  do_terminal :: disposal_terminal
  do_issues :: "cleanup_issue list"

definition fiber_outcome :: "disposal_observation \<Rightarrow> dispose_outcome" where
  "fiber_outcome obs = (case do_terminal obs of
      Committed \<Rightarrow> if do_issues obs = [] then OutcomeDisposed
                   else CommittedWithCleanupIssues (do_issues obs)
    | Incomplete primary \<Rightarrow> OutcomeIncomplete primary (do_issues obs))"

definition scope_outcome :: "disposal_observation \<Rightarrow> scope_dispose_outcome" where
  "scope_outcome obs = (case do_terminal obs of
      Committed \<Rightarrow> if do_issues obs = [] then ScopeOutcomeDisposed
                   else ScopeCommittedWithCleanupIssues (do_issues obs)
    | Incomplete primary \<Rightarrow> ScopeOutcomeIncomplete primary (do_issues obs))"

section \<open>Completions\<close>

text \<open>A completion is the slot that waiters read; \<open>None\<close> means that they keep waiting.\<close>

type_synonym disposal_completion = "disposal_observation option"

definition completion_default :: disposal_completion where
  "completion_default = None"

definition completion_observation :: "disposal_completion \<Rightarrow> disposal_observation option" where
  "completion_observation slot = slot"

definition completion_publish :: "disposal_observation \<Rightarrow> disposal_completion \<Rightarrow> unit cres \<times> disposal_completion" where
  "completion_publish obs slot = (case slot of
      Some _ \<Rightarrow> (Err (Invariant (Lit ''disposal completion published more than once'')), slot)
    | None \<Rightarrow> (Ok (), Some obs))"

interpretation completion: one_shot
  "\<lambda>v c. (is_ok (fst (completion_publish v c)), snd (completion_publish v c))" completion_observation
  by unfold_locales (auto simp: completion_publish_def completion_observation_def split: option.splits)

record scope_disposal =
  sd_completion :: disposal_completion
  sd_result :: "unit cres option"
  sd_supervisor :: bool
  sd_issues :: "cleanup_issue list"
  sd_persistent :: bool

definition scope_disposal_default :: scope_disposal where
  "scope_disposal_default = \<lparr>sd_completion = completion_default, sd_result = None,
     sd_supervisor = False, sd_issues = [], sd_persistent = False\<rparr>"

record fiber_disposal =
  fd_phase :: disposal_phase
  fd_wait_for_dependencies :: bool
  fd_errors :: "cleanup_issue list"
  fd_result :: "unit cres option"
  fd_completion :: disposal_completion
  fd_persistent_drain :: bool
  fd_supervisor :: bool

definition fiber_disposal_default :: fiber_disposal where
  "fiber_disposal_default = \<lparr>fd_phase = Idle, fd_wait_for_dependencies = True, fd_errors = [],
     fd_result = None, fd_completion = completion_default, fd_persistent_drain = False,
     fd_supervisor = False\<rparr>"

text \<open>\<open>format!("{:?}: {}", issue.phase, issue.message)\<close> joined with \<open>"; "\<close>.\<close>

definition issue_text :: "cleanup_issue \<Rightarrow> message" where
  "issue_text i = Cat [PhaseText (ci_phase i), Lit '': '', ci_message i]"

fun join_texts :: "message list \<Rightarrow> message list" where
  "join_texts [] = []"
| "join_texts [m] = [m]"
| "join_texts (m # ms) = m # Lit ''; '' # join_texts ms"

definition joined :: "message list \<Rightarrow> message" where
  "joined ms = Cat (join_texts ms)"

definition typed_issue :: "cleanup_phase \<Rightarrow> cordis_error \<Rightarrow> cleanup_issue" where
  "typed_issue phase e = \<lparr>ci_phase = phase, ci_message = ErrText e, ci_cause = Some e\<rparr>"

end
