(* ===== verification/Scope_Registry.thy ===== *)
theory Scope_Registry
  imports Disposal "HOL-Library.Multiset"
begin

text \<open>
  The scope tree (\<^verbatim>\<open>scope_registry.rs\<close>), the part of \<open>create_scope_internal\<close> that runs under the
  arena lock (\<^verbatim>\<open>runtime/scope.rs\<close>), and the reload revision of the tree
  (\<open>PreparedScopeRevision\<close>, \<^verbatim>\<open>runtime/fiber.rs\<close>).

  Walks to the root follow parent links; they are partial functions (\<open>None\<close>: no return), and
  \<open>wf_scopes\<close> makes them total.
\<close>

record scope_record =
  sc_name :: string
  sc_parent :: "scope_id option"
  sc_children :: "scope_id list"
  sc_fibers :: "fiber_id list"
  sc_state :: scope_state
  sc_hidden :: bool
  sc_disposal :: scope_disposal

type_synonym scope_arena = "(scope_id, scope_record) amap"

definition root_record :: scope_record where
  "root_record = \<lparr>sc_name = ''root'', sc_parent = None, sc_children = [], sc_fibers = [],
     sc_state = ScopeActive, sc_hidden = False, sc_disposal = scope_disposal_default\<rparr>"

definition scope_registry_new :: "scope_id \<Rightarrow> scope_arena" where
  "scope_registry_new root = [(root, root_record)]"

definition scope_parent :: "scope_id \<Rightarrow> scope_arena \<Rightarrow> scope_id option cres" where
  "scope_parent scope scopes = (case aget scopes scope of
      None \<Rightarrow> Err ScopeNotFound | Some r \<Rightarrow> Ok (sc_parent r))"

partial_function (option) ancestry_loop ::
  "scope_arena \<Rightarrow> scope_id option \<Rightarrow> scope_id list \<Rightarrow> scope_id list cres option" where
  "ancestry_loop scopes cursor result = (case cursor of
      None \<Rightarrow> Some (Ok result)
    | Some i \<Rightarrow> (case aget scopes i of
          None \<Rightarrow> Some (Err ScopeNotFound)
        | Some r \<Rightarrow> ancestry_loop scopes (sc_parent r) (result @ [i])))"

definition ancestry :: "scope_id \<Rightarrow> scope_arena \<Rightarrow> scope_id list cres option" where
  "ancestry scope scopes = ancestry_loop scopes (Some scope) []"

partial_function (option) root_to_leaf_loop ::
  "scope_arena \<Rightarrow> bool \<Rightarrow> scope_id option \<Rightarrow> scope_id list \<Rightarrow> scope_id list cres option" where
  "root_to_leaf_loop scopes require_active cursor result = (case cursor of
      None \<Rightarrow> Some (Ok (rev result))
    | Some i \<Rightarrow> (case aget scopes i of
          None \<Rightarrow> Some (Err ScopeNotFound)
        | Some r \<Rightarrow>
            if require_active \<and> sc_state r \<noteq> ScopeActive then Some (Err (ScopeDisposed i))
            else root_to_leaf_loop scopes require_active (sc_parent r) (result @ [i])))"

definition ancestry_root_to_leaf :: "scope_id \<Rightarrow> bool \<Rightarrow> scope_arena \<Rightarrow> scope_id list cres option" where
  "ancestry_root_to_leaf scope require_active scopes =
     root_to_leaf_loop scopes require_active (Some scope) []"

section \<open>Creation\<close>

partial_function (option) depth_loop :: "scope_arena \<Rightarrow> scope_id option \<Rightarrow> nat \<Rightarrow> nat option" where
  "depth_loop scopes cursor depth = (case cursor of
      None \<Rightarrow> Some depth
    | Some i \<Rightarrow>
        let up = (case aget scopes i of None \<Rightarrow> None | Some r \<Rightarrow> sc_parent r)
        in depth_loop scopes up (if up = None then depth else Suc depth))"

text \<open>The part under the arena lock; \<open>fresh\<close> is the handle the arena allocates.\<close>

definition create_scope_locked ::
  "runtime_config \<Rightarrow> scope_id \<Rightarrow> scope_id \<Rightarrow> string \<Rightarrow> bool \<Rightarrow> scope_arena
    \<Rightarrow> (scope_id cres \<times> scope_arena) option" where
  "create_scope_locked config fresh parent name hidden scopes =
     (if length scopes \<ge> unat (max_scopes config)
      then Some (Err (ResourceLimitExceeded Scopes (max_scopes config)), scopes)
      else case depth_loop scopes (Some parent) 1 of
        None \<Rightarrow> None
      | Some depth \<Rightarrow> Some (
          if depth > unat (max_scope_depth config)
          then (Err (ResourceLimitExceeded ScopeDepth (max_scope_depth config)), scopes)
          else case aget scopes parent of
              None \<Rightarrow> (Err ScopeNotFound, scopes)
            | Some p \<Rightarrow>
                if sc_state p \<noteq> ScopeActive then (Err (ScopeDisposed parent), scopes)
                else (Ok fresh,
                  amod parent (\<lambda>r. r\<lparr>sc_children := sc_children r @ [fresh]\<rparr>)
                    (aput fresh \<lparr>sc_name = name, sc_parent = Some parent, sc_children = [],
                       sc_fibers = [], sc_state = ScopeActive, sc_hidden = hidden,
                       sc_disposal = scope_disposal_default\<rparr> scopes))))"

section \<open>Reload revision\<close>

record prepared_scope_revision =
  pr_staging :: scope_id
  pr_target :: scope_id
  pr_staged :: fiber_id
  pr_old :: fiber_id
  pr_children :: "scope_id list"

definition prepare_scope_revision ::
  "scope_id \<Rightarrow> scope_id \<Rightarrow> fiber_id \<Rightarrow> fiber_id \<Rightarrow> scope_id list \<Rightarrow> scope_arena \<Rightarrow> prepared_scope_revision cres" where
  "prepare_scope_revision staging target staged_fiber old children scopes =
     (case aget scopes staging of
        None \<Rightarrow> Err ScopeNotFound
      | Some staging_record \<Rightarrow> (case aget scopes target of
          None \<Rightarrow> Err ScopeNotFound
        | Some target_record \<Rightarrow>
            if sc_state staging_record \<noteq> ScopeActive \<or> sc_state target_record \<noteq> ScopeActive \<or>
               staged_fiber \<notin> set (sc_fibers staging_record) \<or> old \<notin> set (sc_fibers target_record) \<or>
               list_ex (\<lambda>child. case aget scopes child of
                   None \<Rightarrow> True | Some r \<Rightarrow> sc_parent r \<noteq> Some staging) children
            then Err (RevisionValidationFailed (Lit ''prepared scope topology changed before reload commit''))
            else Ok \<lparr>pr_staging = staging, pr_target = target, pr_staged = staged_fiber, pr_old = old,
                     pr_children = children\<rparr>))"

definition occurs_once :: "'a \<Rightarrow> 'a list \<Rightarrow> bool" where
  "occurs_once x xs \<longleftrightarrow> length (filter (\<lambda>y. y = x) xs) = 1"

definition commit_valid :: "prepared_scope_revision \<Rightarrow> scope_arena \<Rightarrow> bool" where
  "commit_valid p scopes \<longleftrightarrow>
     (case aget scopes (pr_staging p) of None \<Rightarrow> False | Some r \<Rightarrow>
        sc_state r = ScopeActive \<and> occurs_once (pr_staged p) (sc_fibers r) \<and>
        set (pr_children p) \<subseteq> set (sc_children r)) \<and>
     (case aget scopes (pr_target p) of None \<Rightarrow> False | Some r \<Rightarrow>
        sc_state r = ScopeActive \<and> occurs_once (pr_old p) (sc_fibers r) \<and>
        pr_staged p \<notin> set (sc_fibers r) \<and> set (pr_children p) \<inter> set (sc_children r) = {}) \<and>
     list_all (\<lambda>(i, r). i = pr_staging p \<or> pr_staged p \<notin> set (sc_fibers r)) scopes \<and>
     list_all (\<lambda>child. case aget scopes child of
        None \<Rightarrow> False | Some r \<Rightarrow> sc_parent r = Some (pr_staging p)) (pr_children p)"

definition rollback_valid :: "prepared_scope_revision \<Rightarrow> scope_arena \<Rightarrow> bool" where
  "rollback_valid p scopes \<longleftrightarrow>
     (case aget scopes (pr_target p) of None \<Rightarrow> False | Some r \<Rightarrow>
        sc_state r = ScopeActive \<and> occurs_once (pr_old p) (sc_fibers r) \<and>
        occurs_once (pr_staged p) (sc_fibers r) \<and> set (pr_children p) \<subseteq> set (sc_children r)) \<and>
     (case aget scopes (pr_staging p) of None \<Rightarrow> False | Some r \<Rightarrow>
        sc_state r = ScopeActive \<and> pr_staged p \<notin> set (sc_fibers r) \<and>
        set (pr_children p) \<inter> set (sc_children r) = {}) \<and>
     list_all (\<lambda>(i, r). i = pr_target p \<or> pr_staged p \<notin> set (sc_fibers r)) scopes \<and>
     list_all (\<lambda>child. case aget scopes child of
        None \<Rightarrow> False | Some r \<Rightarrow> sc_parent r = Some (pr_target p)) (pr_children p)"

definition without :: "'a list \<Rightarrow> 'a list \<Rightarrow> 'a list" where
  "without xs ys = filter (\<lambda>y. y \<notin> set xs) ys"

text \<open>Move the staged Fiber and the children from one record to the other.\<close>

definition move_bundle ::
  "scope_id \<Rightarrow> scope_id \<Rightarrow> prepared_scope_revision \<Rightarrow> scope_arena \<Rightarrow> scope_arena" where
  "move_bundle from to p scopes =
     (let s1 = amod from (\<lambda>r. r\<lparr>sc_fibers := filter (\<lambda>f. f \<noteq> pr_staged p) (sc_fibers r),
                                sc_children := without (pr_children p) (sc_children r)\<rparr>) scopes;
          s2 = amod to (\<lambda>r. r\<lparr>sc_fibers := sc_fibers r @ [pr_staged p],
                              sc_children := sc_children r @ pr_children p\<rparr>) s1
      in fold (\<lambda>child. amod child (\<lambda>r. r\<lparr>sc_parent := Some to\<rparr>)) (pr_children p) s2)"

definition commit_locked :: "prepared_scope_revision \<Rightarrow> scope_arena \<Rightarrow> unit cres \<times> scope_arena" where
  "commit_locked p scopes =
     (if \<not> commit_valid p scopes
      then (Err (RevisionValidationFailed (Lit ''scope topology changed before reload commit'')), scopes)
      else (Ok (), move_bundle (pr_staging p) (pr_target p) p scopes))"

definition rollback_locked :: "prepared_scope_revision \<Rightarrow> scope_arena \<Rightarrow> unit cres \<times> scope_arena" where
  "rollback_locked p scopes =
     (if \<not> rollback_valid p scopes
      then (Err (RevisionValidationFailed (Lit ''scope topology changed before reload rollback'')), scopes)
      else (Ok (), move_bundle (pr_target p) (pr_staging p) p scopes))"

section \<open>Chains to the root\<close>

inductive chain :: "scope_arena \<Rightarrow> scope_id \<Rightarrow> scope_id list \<Rightarrow> bool" for scopes where
  top: "aget scopes s = Some r \<Longrightarrow> sc_parent r = None \<Longrightarrow> chain scopes s [s]"
| up: "aget scopes s = Some r \<Longrightarrow> sc_parent r = Some p \<Longrightarrow> chain scopes p xs \<Longrightarrow> chain scopes s (s # xs)"

inductive_cases chainE: "chain scopes s xs"

lemma chain_hd: "chain scopes s xs \<Longrightarrow> \<exists>ys. xs = s # ys"
  by (erule chainE) auto

lemma chain_not_empty: "chain scopes s xs \<Longrightarrow> xs \<noteq> []"
  by (erule chainE) auto

lemma chain_det: "chain scopes s xs \<Longrightarrow> chain scopes s ys \<Longrightarrow> xs = ys"
proof (induction arbitrary: ys rule: chain.induct)
  case (top s r)
  from top(3,1,2) show ?case by (cases rule: chain.cases) auto
next
  case (up s r p xs)
  from up(5,1,2) up.IH show ?case by (cases rule: chain.cases) auto
qed

lemma chain_agree:
  "chain scopes s xs \<Longrightarrow>
     (\<And>i r. i \<in> set xs \<Longrightarrow> aget scopes i = Some r \<Longrightarrow> \<exists>r'. aget scopes' i = Some r' \<and> sc_parent r' = sc_parent r) \<Longrightarrow>
     chain scopes' s xs"
proof (induction rule: chain.induct)
  case (top s r)
  then show ?case by (metis chain.top list.set_intros(1))
next
  case (up s r p xs)
  then obtain r' where "aget scopes' s = Some r'" "sc_parent r' = Some p" by fastforce
  with up show ?case by (auto intro: chain.up)
qed

lemma ancestry_loop_chain: "chain scopes s xs \<Longrightarrow> ancestry_loop scopes (Some s) acc = Some (Ok (acc @ xs))"
proof (induction arbitrary: acc rule: chain.induct)
  case (top s r)
  then show ?case by (simp add: ancestry_loop.simps)
next
  case (up s r p xs)
  then show ?case by (subst ancestry_loop.simps) simp
qed

lemma root_to_leaf_loop_chain: "chain scopes s xs \<Longrightarrow> root_to_leaf_loop scopes False (Some s) acc = Some (Ok (rev (acc @ xs)))"
proof (induction arbitrary: acc rule: chain.induct)
  case (top s r)
  then show ?case by (simp add: root_to_leaf_loop.simps)
next
  case (up s r p xs)
  then show ?case by (subst root_to_leaf_loop.simps) simp
qed

lemma root_to_leaf_loop_active:
  "chain scopes s xs \<Longrightarrow> (\<forall>i \<in> set xs. \<forall>r. aget scopes i = Some r \<longrightarrow> sc_state r = ScopeActive) \<Longrightarrow>
     root_to_leaf_loop scopes True (Some s) acc = Some (Ok (rev (acc @ xs)))"
proof (induction arbitrary: acc rule: chain.induct)
  case (top s r)
  then show ?case by (simp add: root_to_leaf_loop.simps)
next
  case (up s r p xs)
  then show ?case by (subst root_to_leaf_loop.simps) simp
qed

lemma root_to_leaf_loop_inactive:
  "chain scopes s xs \<Longrightarrow> (\<exists>i \<in> set xs. \<exists>r. aget scopes i = Some r \<and> sc_state r \<noteq> ScopeActive) \<Longrightarrow>
     \<exists>i \<in> set xs. root_to_leaf_loop scopes True (Some s) acc = Some (Err (ScopeDisposed i))"
proof (induction arbitrary: acc rule: chain.induct)
  case (top s r)
  then show ?case by (auto simp: root_to_leaf_loop.simps)
next
  case (up s r p xs)
  show ?case
  proof (cases "sc_state r = ScopeActive")
    case True
    with up have "\<exists>i \<in> set xs. root_to_leaf_loop scopes True (Some p) (acc @ [s]) = Some (Err (ScopeDisposed i))"
      by auto
    with True up(1,2) show ?thesis by (auto simp: root_to_leaf_loop.simps [of _ _ "Some s"])
  next
    case False
    with up(1,2) show ?thesis by (auto simp: root_to_leaf_loop.simps)
  qed
qed

lemma depth_loop_chain: "chain scopes s xs \<Longrightarrow> depth_loop scopes (Some s) d = Some (d + (length xs - 1))"
proof (induction arbitrary: d rule: chain.induct)
  case (top s r)
  then show ?case by (simp add: depth_loop.simps)
next
  case (up s r p xs)
  then have "length xs \<noteq> 0" using chain_not_empty by auto
  with up show ?case by (subst depth_loop.simps) simp
qed

section \<open>The tree invariant\<close>

definition live_scope :: "scope_record \<Rightarrow> bool" where
  "live_scope r \<longleftrightarrow> sc_state r \<noteq> ScopeDisposedState"

definition wf_scopes :: "scope_id \<Rightarrow> scope_arena \<Rightarrow> bool" where
  "wf_scopes root scopes \<longleftrightarrow> distinct (akeys scopes) \<and>
     (\<exists>r. aget scopes root = Some r \<and> sc_parent r = None) \<and>
     (\<forall>i r. aget scopes i = Some r \<longrightarrow> (i \<noteq> root \<longrightarrow> sc_parent r \<noteq> None) \<and> distinct (sc_children r) \<and>
        (sc_state r = ScopeDisposedState \<longrightarrow> sc_children r = []) \<and>
        (live_scope r \<longrightarrow> (\<exists>xs. chain scopes i xs)) \<and>
        (\<forall>p. sc_parent r = Some p \<longrightarrow> live_scope r \<longrightarrow>
           (\<exists>rp. aget scopes p = Some rp \<and> i \<in> set (sc_children rp))) \<and>
        (\<forall>c \<in> set (sc_children r). \<exists>rc. aget scopes c = Some rc \<and> sc_parent rc = Some i \<and> live_scope rc))"

text \<open>Every live scope nests at most \<open>limit\<close> levels below the root.\<close>

definition depth_bounded :: "nat \<Rightarrow> scope_arena \<Rightarrow> bool" where
  "depth_bounded limit scopes \<longleftrightarrow> (\<forall>i xs. chain scopes i xs \<longrightarrow> length xs \<le> Suc limit)"

lemma wf_scopes_new: "wf_scopes root (scope_registry_new root)"
proof -
  have "chain (scope_registry_new root) root [root]"
    by (rule chain.top [of _ _ root_record]) (simp_all add: scope_registry_new_def root_record_def)
  then show ?thesis
    by (auto simp: wf_scopes_def scope_registry_new_def root_record_def split: if_splits)
qed

lemma wf_scopes_chain: "wf_scopes root scopes \<Longrightarrow> aget scopes i = Some r \<Longrightarrow> live_scope r \<Longrightarrow> \<exists>xs. chain scopes i xs"
  unfolding wf_scopes_def by blast

text \<open>The record that creation leaves at a handle.\<close>

definition created_at :: "scope_id \<Rightarrow> scope_id \<Rightarrow> string \<Rightarrow> bool \<Rightarrow> scope_arena \<Rightarrow> scope_id \<Rightarrow> scope_record option" where
  "created_at fresh parent name hidden scopes i =
     (if i = fresh then Some \<lparr>sc_name = name, sc_parent = Some parent, sc_children = [], sc_fibers = [],
        sc_state = ScopeActive, sc_hidden = hidden, sc_disposal = scope_disposal_default\<rparr>
      else if i = parent then map_option (\<lambda>r. r\<lparr>sc_children := sc_children r @ [fresh]\<rparr>) (aget scopes i)
      else aget scopes i)"

lemma create_scope_Ok:
  assumes "create_scope_locked config fresh parent name hidden scopes = Some (Ok i, scopes')"
    and "fresh \<notin> set (akeys scopes)"
  shows "i = fresh \<and> parent \<noteq> fresh \<and> length scopes < unat (max_scopes config) \<and>
    (\<exists>depth. depth_loop scopes (Some parent) 1 = Some depth \<and> depth \<le> unat (max_scope_depth config)) \<and>
    (\<exists>p. aget scopes parent = Some p \<and> sc_state p = ScopeActive) \<and>
    aget scopes' = created_at fresh parent name hidden scopes \<and> set (akeys scopes') = insert fresh (set (akeys scopes)) \<and>
    (distinct (akeys scopes) \<longrightarrow> distinct (akeys scopes')) \<and> length scopes' = Suc (length scopes)"
proof -
  from assms(1) obtain depth p where d: "depth_loop scopes (Some parent) 1 = Some depth"
      "length scopes < unat (max_scopes config)" "depth \<le> unat (max_scope_depth config)"
      "aget scopes parent = Some p" "sc_state p = ScopeActive" "i = fresh"
      "scopes' = amod parent (\<lambda>r. r\<lparr>sc_children := sc_children r @ [fresh]\<rparr>)
         (aput fresh \<lparr>sc_name = name, sc_parent = Some parent, sc_children = [], sc_fibers = [],
           sc_state = ScopeActive, sc_hidden = hidden, sc_disposal = scope_disposal_default\<rparr> scopes)"
    by (auto simp: create_scope_locked_def not_le split: if_splits option.splits)
  have ne: "parent \<noteq> fresh" using aget_Some_key [OF d(4)] assms(2) by blast
  have "aget scopes' = created_at fresh parent name hidden scopes"
    using ne by (auto simp: d(7) created_at_def fun_eq_iff)
  moreover have "length scopes' = Suc (length scopes)"
    unfolding d(7) using assms(2) by (simp add: length_aput del: set_map)
  moreover have "set (akeys scopes') = insert fresh (set (akeys scopes))"
    unfolding d(7) by (simp del: set_map)
  ultimately show ?thesis using d ne by (simp add: d(7) del: set_map)
qed

lemma created_at_fresh:
  "\<exists>r. created_at fresh parent name hidden scopes fresh = Some r \<and> sc_parent r = Some parent"
  by (simp add: created_at_def)

lemma chain_created_fresh:
  assumes "chain scopes' parent ps" and "aget scopes' = created_at fresh parent name hidden scopes"
  shows "chain scopes' fresh (fresh # ps)"
  using created_at_fresh [of fresh parent name hidden scopes] assms by (auto intro: chain.up)

lemma chain_created:
  assumes "chain scopes i xs" and "fresh \<notin> set (akeys scopes)"
    and "aget scopes' = created_at fresh parent name hidden scopes"
  shows "chain scopes' i xs"
proof (rule chain_agree [OF assms(1)])
  fix j r
  assume "aget scopes j = Some r"
  moreover from this have "j \<noteq> fresh" using aget_Some_key assms(2) by metis
  ultimately show "\<exists>r'. aget scopes' j = Some r' \<and> sc_parent r' = sc_parent r"
    unfolding assms(3) by (auto simp: created_at_def)
qed

lemma chain_created_rev:
  assumes "chain scopes' i xs" and "i \<noteq> fresh"
    and new: "fresh \<notin> set (akeys scopes)" "aget scopes' = created_at fresh parent name hidden scopes"
    and closed: "\<And>j r. aget scopes j = Some r \<Longrightarrow> sc_parent r \<noteq> Some fresh"
  shows "chain scopes i xs"
  using assms(1,2)
proof (induction rule: chain.induct)
  case (top s r)
  then obtain r0 where "aget scopes s = Some r0" "sc_parent r0 = None"
    unfolding new(2) by (auto simp: created_at_def split: if_splits)
  then show ?case by (rule chain.top)
next
  case (up s r p xs)
  then obtain r0 where r0: "aget scopes s = Some r0" "sc_parent r0 = Some p"
    unfolding new(2) by (auto simp: created_at_def split: if_splits)
  with closed have "p \<noteq> fresh" by blast
  with up r0 show ?case by (auto intro: chain.up)
qed

text \<open>A generational handle that was never handed out: no record has it or points to it.\<close>

definition fresh_scope :: "scope_id \<Rightarrow> scope_arena \<Rightarrow> bool" where
  "fresh_scope i scopes \<longleftrightarrow> i \<notin> set (akeys scopes) \<and>
     (\<forall>j r. aget scopes j = Some r \<longrightarrow> sc_parent r \<noteq> Some i \<and> i \<notin> set (sc_children r))"

lemma create_scope_wf:
  assumes wf: "wf_scopes root scopes" and fresh: "fresh_scope fresh scopes"
    and created: "create_scope_locked config fresh parent name hidden scopes = Some (Ok i, scopes')"
  shows "wf_scopes root scopes'"
proof -
  have nk: "fresh \<notin> set (akeys scopes)" using fresh by (simp add: fresh_scope_def)
  note c = create_scope_Ok [OF created nk]
  have get: "aget scopes' = created_at fresh parent name hidden scopes" using c by blast
  obtain p where p: "aget scopes parent = Some p" "sc_state p = ScopeActive" "parent \<noteq> fresh"
    using c by blast
  have rootne: "root \<noteq> fresh"
    using wf nk aget_Some_key unfolding wf_scopes_def by metis
  obtain ps where ps: "chain scopes parent ps"
    using wf_scopes_chain [OF wf p(1)] p(2) by (auto simp: live_scope_def)
  have fresh_chain: "chain scopes' fresh (fresh # ps)"
    by (rule chain_created_fresh [OF chain_created [OF ps nk get] get])
  have one: "(j \<noteq> root \<longrightarrow> sc_parent r \<noteq> None) \<and> distinct (sc_children r) \<and>
        (sc_state r = ScopeDisposedState \<longrightarrow> sc_children r = []) \<and>
        (live_scope r \<longrightarrow> (\<exists>xs. chain scopes' j xs)) \<and>
        (\<forall>q. sc_parent r = Some q \<longrightarrow> live_scope r \<longrightarrow>
           (\<exists>rp. aget scopes' q = Some rp \<and> j \<in> set (sc_children rp))) \<and>
        (\<forall>d \<in> set (sc_children r). \<exists>rc. aget scopes' d = Some rc \<and> sc_parent rc = Some j \<and> live_scope rc)"
    if r: "aget scopes' j = Some r" for j r
  proof (cases "j = fresh")
    case True
    with r have "r = \<lparr>sc_name = name, sc_parent = Some parent, sc_children = [], sc_fibers = [],
        sc_state = ScopeActive, sc_hidden = hidden, sc_disposal = scope_disposal_default\<rparr>"
      unfolding get by (simp add: created_at_def)
    with True fresh_chain p show ?thesis by (auto simp: get created_at_def)
  next
    case False
    then obtain r0 where r0: "aget scopes j = Some r0" "sc_parent r = sc_parent r0" "sc_state r = sc_state r0"
        "sc_children r = sc_children r0 @ (if j = parent then [fresh] else [])"
      using r unfolding get by (auto simp: created_at_def split: if_splits)
    have old: "(j \<noteq> root \<longrightarrow> sc_parent r0 \<noteq> None)" "distinct (sc_children r0)"
        "sc_state r0 = ScopeDisposedState \<longrightarrow> sc_children r0 = []"
        "live_scope r0 \<longrightarrow> (\<exists>xs. chain scopes j xs)"
        "\<forall>q. sc_parent r0 = Some q \<longrightarrow> live_scope r0 \<longrightarrow>
           (\<exists>rp. aget scopes q = Some rp \<and> j \<in> set (sc_children rp))"
        "\<forall>d \<in> set (sc_children r0). \<exists>rc. aget scopes d = Some rc \<and> sc_parent rc = Some j \<and> live_scope rc"
      using wf r0(1) unfolding wf_scopes_def by blast+
    have "fresh \<notin> set (sc_children r0)" using fresh r0(1) by (auto simp: fresh_scope_def)
    then have d: "distinct (sc_children r)" using old(2) r0(4) by simp
    have live: "live_scope r = live_scope r0" using r0(3) by (simp add: live_scope_def)
    have disp: "sc_state r = ScopeDisposedState \<longrightarrow> sc_children r = []"
      using old(3) r0 p by auto
    have ch: "live_scope r \<longrightarrow> (\<exists>xs. chain scopes' j xs)"
      using old(4) live chain_created [OF _ nk get] by blast
    have par: "\<exists>rp. aget scopes' q = Some rp \<and> j \<in> set (sc_children rp)"
      if q: "sc_parent r = Some q" "live_scope r" for q
    proof -
      obtain rp where rp: "aget scopes q = Some rp" "j \<in> set (sc_children rp)"
        using q old(5) unfolding r0(2) live by blast
      have "q \<noteq> fresh" using rp(1) nk aget_Some_key by metis
      with rp show ?thesis by (auto simp: get created_at_def)
    qed
    have kid: "\<exists>rc. aget scopes' e = Some rc \<and> sc_parent rc = Some j \<and> live_scope rc"
      if "e \<in> set (sc_children r)" for e
    proof (cases "e = fresh")
      case True
      with that r0(4) \<open>fresh \<notin> set (sc_children r0)\<close> have "j = parent" by (auto split: if_splits)
      with True show ?thesis by (simp add: get created_at_def live_scope_def)
    next
      case ne: False
      with that r0(4) have "e \<in> set (sc_children r0)" by (auto split: if_splits)
      then obtain rc where "aget scopes e = Some rc" "sc_parent rc = Some j" "live_scope rc" using old(6) by blast
      with ne show ?thesis by (auto simp: get created_at_def live_scope_def)
    qed
    show ?thesis using old(1) r0(2) d disp ch par kid by simp
  qed
  have "\<exists>r. aget scopes' root = Some r \<and> sc_parent r = None"
  proof -
    obtain r where "aget scopes root = Some r" "sc_parent r = None" using wf unfolding wf_scopes_def by blast
    with rootne show ?thesis by (auto simp: get created_at_def)
  qed
  moreover have "distinct (akeys scopes')" using c wf unfolding wf_scopes_def by blast
  ultimately show ?thesis using one unfolding wf_scopes_def by blast
qed

lemma create_scope_depth:
  assumes "wf_scopes root scopes" and fresh: "fresh_scope fresh scopes"
    and created: "create_scope_locked config fresh parent name hidden scopes = Some (Ok i, scopes')"
    and bound: "depth_bounded (unat (max_scope_depth config)) scopes"
  shows "depth_bounded (unat (max_scope_depth config)) scopes'"
  unfolding depth_bounded_def
proof (intro allI impI)
  fix j xs
  assume ch: "chain scopes' j xs"
  have nk: "fresh \<notin> set (akeys scopes)" using fresh by (simp add: fresh_scope_def)
  note c = create_scope_Ok [OF created nk]
  have get: "aget scopes' = created_at fresh parent name hidden scopes" using c by blast
  have closed: "aget scopes j = Some r \<Longrightarrow> sc_parent r \<noteq> Some fresh" for j r
    using fresh by (auto simp: fresh_scope_def)
  obtain p where p: "aget scopes parent = Some p" "sc_state p = ScopeActive" "parent \<noteq> fresh"
    using c by blast
  obtain ps where ps: "chain scopes parent ps"
    using wf_scopes_chain [OF assms(1) p(1)] p(2) by (auto simp: live_scope_def)
  show "length xs \<le> Suc (unat (max_scope_depth config))"
  proof (cases "j = fresh")
    case True
    have "chain scopes' fresh (fresh # ps)"
      by (rule chain_created_fresh [OF chain_created [OF ps nk get] get])
    with True ch have "xs = fresh # ps" using chain_det by blast
    moreover have "1 + (length ps - 1) \<le> unat (max_scope_depth config)"
      using c depth_loop_chain [OF ps, of 1] by auto
    ultimately show ?thesis using chain_not_empty [OF ps] by (cases ps) auto
  next
    case False
    have "chain scopes j xs" by (rule chain_created_rev [OF ch False nk get closed])
    with bound show ?thesis by (simp add: depth_bounded_def)
  qed
qed

lemma chain_last: "chain scopes s xs \<Longrightarrow> \<exists>r. aget scopes (last xs) = Some r \<and> sc_parent r = None"
proof (induction rule: chain.induct)
  case (up s r p xs)
  then show ?case using chain_not_empty [OF up(3)] by simp
qed auto

lemma chain_last_root: "wf_scopes root scopes \<Longrightarrow> chain scopes s xs \<Longrightarrow> last xs = root"
  using chain_last [of scopes s xs] unfolding wf_scopes_def by metis

section \<open>Commit and rollback of a scope revision\<close>

lemma aget_fold_amod:
  assumes "\<And>r. f (f r) = f r"
  shows "aget (fold (\<lambda>c. amod c f) cs m) i = (if i \<in> set cs then map_option f (aget m i) else aget m i)"
  using assms by (induction cs arbitrary: m) (auto simp: option.map_comp comp_def)

lemma move_bundle_get:
  assumes "from \<noteq> to"
  shows "aget (move_bundle from to p scopes) i = map_option (\<lambda>r. r\<lparr>
      sc_fibers := (if i = from then filter (\<lambda>f. f \<noteq> pr_staged p) (sc_fibers r)
                    else if i = to then sc_fibers r @ [pr_staged p] else sc_fibers r),
      sc_children := (if i = from then without (pr_children p) (sc_children r)
                      else if i = to then sc_children r @ pr_children p else sc_children r),
      sc_parent := (if i \<in> set (pr_children p) then Some to else sc_parent r)\<rparr>) (aget scopes i)"
  using assms
  by (cases "aget scopes i") (auto simp: move_bundle_def Let_def aget_fold_amod)

text \<open>Two records that differ only in the order of their Fibers and children.\<close>

definition same_members :: "scope_record option \<Rightarrow> scope_record option \<Rightarrow> bool" where
  "same_members x y \<longleftrightarrow> (case (x, y) of
      (Some r, Some r') \<Rightarrow> r'\<lparr>sc_fibers := sc_fibers r, sc_children := sc_children r\<rparr> = r \<and>
         mset (sc_fibers r') = mset (sc_fibers r) \<and> mset (sc_children r') = mset (sc_children r)
    | (None, None) \<Rightarrow> True
    | _ \<Rightarrow> False)"

lemma occurs_once_count: "occurs_once x xs \<longleftrightarrow> count (mset xs) x = 1"
proof -
  have "length (filter (\<lambda>y. y = x) xs) = count (mset xs) x" by (induction xs) auto
  then show ?thesis by (simp add: occurs_once_def)
qed

lemma occurs_once_member: "occurs_once x xs \<Longrightarrow> x \<in> set xs"
  by (metis occurs_once_count count_eq_zero_iff set_mset_mset zero_neq_one)

lemma mset_filter_once: "occurs_once f xs \<Longrightarrow> mset (filter (\<lambda>x. x \<noteq> f) xs @ [f]) = mset xs"
  unfolding occurs_once_count by (rule multiset_eqI) (auto simp: not_in_iff [symmetric])

lemma mset_without_append:
  assumes "distinct xs" and "distinct cs" and "set cs \<subseteq> set xs"
  shows "mset (without cs xs @ cs) = mset xs"
proof -
  have "distinct (without cs xs @ cs)" using assms by (auto simp: without_def)
  moreover have "set (without cs xs @ cs) = set xs" using assms(3) by (auto simp: without_def)
  ultimately show ?thesis using assms(1) set_eq_iff_mset_eq_distinct by blast
qed

lemma without_disjoint_append: "set cs \<inter> set xs = {} \<Longrightarrow> without cs (xs @ cs) = xs"
  by (auto simp: without_def filter_id_conv filter_empty_conv)

lemma filter_absent_append: "f \<notin> set xs \<Longrightarrow> filter (\<lambda>x. x \<noteq> f) (xs @ [f]) = xs"
  by (auto simp: filter_id_conv)

lemma akeys_fold_amod [simp]: "akeys (fold (\<lambda>c. amod c f) cs m) = akeys m"
  by (induction cs arbitrary: m) simp_all

lemma akeys_move_bundle [simp]: "akeys (move_bundle from to p scopes) = akeys scopes"
  by (simp add: move_bundle_def Let_def)

lemma list_all_entries:
  assumes "distinct (akeys m)"
  shows "list_all (\<lambda>(i, r). P i r) m \<longleftrightarrow> (\<forall>i r. aget m i = Some r \<longrightarrow> P i r)"
  using assms by (force simp: list_all_iff dest: map_of_SomeD intro: map_of_is_SomeI)

lemma commit_valid_parts:
  assumes "commit_valid p scopes" and "distinct (akeys scopes)"
  shows "\<exists>rs rt. aget scopes (pr_staging p) = Some rs \<and> aget scopes (pr_target p) = Some rt \<and>
    sc_state rs = ScopeActive \<and> sc_state rt = ScopeActive \<and> pr_staging p \<noteq> pr_target p \<and>
    occurs_once (pr_staged p) (sc_fibers rs) \<and> occurs_once (pr_old p) (sc_fibers rt) \<and>
    pr_staged p \<notin> set (sc_fibers rt) \<and>
    set (pr_children p) \<subseteq> set (sc_children rs) \<and> set (pr_children p) \<inter> set (sc_children rt) = {}"
    and "\<And>i r. aget scopes i = Some r \<Longrightarrow> i = pr_staging p \<or> pr_staged p \<notin> set (sc_fibers r)"
    and "\<And>c. c \<in> set (pr_children p) \<Longrightarrow> \<exists>r. aget scopes c = Some r \<and> sc_parent r = Some (pr_staging p)"
proof -
  have a: "list_all (\<lambda>(i, r). i = pr_staging p \<or> pr_staged p \<notin> set (sc_fibers r)) scopes"
    "list_all (\<lambda>child. case aget scopes child of
        None \<Rightarrow> False | Some r \<Rightarrow> sc_parent r = Some (pr_staging p)) (pr_children p)"
    using assms(1) by (simp_all add: commit_valid_def)
  show "\<And>i r. aget scopes i = Some r \<Longrightarrow> i = pr_staging p \<or> pr_staged p \<notin> set (sc_fibers r)"
    using a(1) unfolding list_all_entries [OF assms(2)] by blast
  show "\<And>c. c \<in> set (pr_children p) \<Longrightarrow> \<exists>r. aget scopes c = Some r \<and> sc_parent r = Some (pr_staging p)"
    using a(2) by (fastforce simp: list_all_iff split: option.splits)
  obtain rs rt where r: "aget scopes (pr_staging p) = Some rs" "aget scopes (pr_target p) = Some rt"
    using assms(1) unfolding commit_valid_def by (auto split: option.splits)
  then have "pr_staging p \<noteq> pr_target p"
    using assms(1) occurs_once_member unfolding commit_valid_def by fastforce
  with r assms(1) show "\<exists>rs rt. aget scopes (pr_staging p) = Some rs \<and> aget scopes (pr_target p) = Some rt \<and>
    sc_state rs = ScopeActive \<and> sc_state rt = ScopeActive \<and> pr_staging p \<noteq> pr_target p \<and>
    occurs_once (pr_staged p) (sc_fibers rs) \<and> occurs_once (pr_old p) (sc_fibers rt) \<and>
    pr_staged p \<notin> set (sc_fibers rt) \<and>
    set (pr_children p) \<subseteq> set (sc_children rs) \<and> set (pr_children p) \<inter> set (sc_children rt) = {}"
    by (simp add: commit_valid_def)
qed

lemma rollback_valid_after_commit:
  assumes v: "commit_valid p scopes" and d: "distinct (akeys scopes)"
  shows "rollback_valid p (move_bundle (pr_staging p) (pr_target p) p scopes)"
proof -
  let ?s = "move_bundle (pr_staging p) (pr_target p) p scopes"
  obtain rs rt where r: "aget scopes (pr_staging p) = Some rs" "aget scopes (pr_target p) = Some rt"
    "sc_state rs = ScopeActive" "sc_state rt = ScopeActive" "pr_staging p \<noteq> pr_target p"
    "occurs_once (pr_staged p) (sc_fibers rs)" "occurs_once (pr_old p) (sc_fibers rt)"
    "pr_staged p \<notin> set (sc_fibers rt)"
    "set (pr_children p) \<subseteq> set (sc_children rs)" "set (pr_children p) \<inter> set (sc_children rt) = {}"
    using commit_valid_parts(1) [OF v d] by blast
  note get = move_bundle_get [OF r(5), of p scopes]
  have dist: "distinct (akeys ?s)" using d by simp
  have "pr_old p \<noteq> pr_staged p" using r(7,8) occurs_once_member by metis
  then have o: "occurs_once (pr_old p) (sc_fibers rt @ [pr_staged p])"
      "occurs_once (pr_staged p) (sc_fibers rt @ [pr_staged p])"
    using r(7,8) by (auto simp: occurs_once_count not_in_iff)
  have all: "list_all (\<lambda>(i, r). i = pr_target p \<or> pr_staged p \<notin> set (sc_fibers r)) ?s"
    unfolding list_all_entries [OF dist]
  proof (intro allI impI)
    fix i x
    assume x: "aget ?s i = Some x"
    then obtain x0 where x0: "aget scopes i = Some x0" unfolding get by blast
    from commit_valid_parts(2) [OF v d x0] show "i = pr_target p \<or> pr_staged p \<notin> set (sc_fibers x)"
      using x x0 unfolding get by (cases "i = pr_staging p") auto
  qed
  have kids: "list_all (\<lambda>child. case aget ?s child of
        None \<Rightarrow> False | Some r \<Rightarrow> sc_parent r = Some (pr_target p)) (pr_children p)"
    unfolding list_all_iff
  proof
    fix c
    assume c: "c \<in> set (pr_children p)"
    from commit_valid_parts(3) [OF v d c] obtain r where "aget scopes c = Some r" by blast
    with c show "case aget ?s c of None \<Rightarrow> False | Some r \<Rightarrow> sc_parent r = Some (pr_target p)"
      by (simp add: get)
  qed
  have t: "aget ?s (pr_target p) = Some (rt\<lparr>sc_fibers := sc_fibers rt @ [pr_staged p],
      sc_children := sc_children rt @ pr_children p,
      sc_parent := (if pr_target p \<in> set (pr_children p) then Some (pr_target p) else sc_parent rt)\<rparr>)"
    using r(2,5) by (simp add: get)
  have s: "aget ?s (pr_staging p) = Some (rs\<lparr>sc_fibers := filter (\<lambda>f. f \<noteq> pr_staged p) (sc_fibers rs),
      sc_children := without (pr_children p) (sc_children rs),
      sc_parent := (if pr_staging p \<in> set (pr_children p) then Some (pr_target p) else sc_parent rs)\<rparr>)"
    using r(1,5) by (simp add: get)
  have "set (pr_children p) \<inter> set (without (pr_children p) (sc_children rs)) = {}"
    by (auto simp: without_def)
  with all kids show ?thesis
    unfolding rollback_valid_def t s using r(3,4) o by simp
qed

lemma move_back_same:
  assumes v: "commit_valid p scopes" and d: "distinct (akeys scopes)" and dc: "distinct (pr_children p)"
    and kids: "\<And>r. aget scopes (pr_staging p) = Some r \<Longrightarrow> distinct (sc_children r)"
  shows "same_members (aget scopes i)
    (aget (move_bundle (pr_target p) (pr_staging p) p (move_bundle (pr_staging p) (pr_target p) p scopes)) i)"
proof (cases "aget scopes i")
  case None
  obtain rs rt where "pr_staging p \<noteq> pr_target p" using commit_valid_parts(1) [OF v d] by blast
  with None show ?thesis by (simp add: move_bundle_get same_members_def)
next
  case (Some r)
  obtain rs rt where r: "aget scopes (pr_staging p) = Some rs" "aget scopes (pr_target p) = Some rt"
    "pr_staging p \<noteq> pr_target p" "occurs_once (pr_staged p) (sc_fibers rs)"
    "pr_staged p \<notin> set (sc_fibers rt)"
    "set (pr_children p) \<subseteq> set (sc_children rs)" "set (pr_children p) \<inter> set (sc_children rt) = {}"
    using commit_valid_parts(1) [OF v d] by blast
  have par: "i \<in> set (pr_children p) \<Longrightarrow> sc_parent r = Some (pr_staging p)"
    using commit_valid_parts(3) [OF v d, of i] Some by auto
  consider "i = pr_staging p" | "i = pr_target p" | "i \<noteq> pr_staging p" "i \<noteq> pr_target p" by blast
  then show ?thesis
  proof cases
    case 1
    then have "r = rs" using Some r(1) by simp
    with 1 Some r par mset_filter_once [OF r(4)] mset_without_append [OF kids [OF r(1)] dc r(6)]
    show ?thesis by (simp add: move_bundle_get same_members_def del: mset_append)
  next
    case 2
    then have "r = rt" using Some r(2) by simp
    with 2 Some r par filter_absent_append [OF r(5)] without_disjoint_append [OF r(7)]
    show ?thesis by (simp add: move_bundle_get same_members_def)
  next
    case 3
    with Some r(3) par show ?thesis by (simp add: move_bundle_get same_members_def)
  qed
qed

section \<open>Properties\<close>


definition example_scopes :: scope_arena where
  "example_scopes = scope_registry_new 0"

lemma example_scopes_chain: "chain example_scopes i xs \<Longrightarrow> xs = [0]"
  by (erule chainE) (auto simp: example_scopes_def scope_registry_new_def root_record_def split: if_splits)


text \<open>
  Walking up from a live scope ends and reaches the root; the checked walk from the root
  succeeds exactly when every scope on the way is active, and otherwise names a scope of the way
  that is not.
\<close>

theorem ancestry_reaches_root:
  assumes "wf_scopes root scopes" and "aget scopes s = Some r" and "live_scope r"
  shows "\<exists>xs. ancestry s scopes = Some (Ok xs) \<and> hd xs = s \<and> last xs = root \<and>
    (if \<forall>i \<in> set xs. \<forall>ri. aget scopes i = Some ri \<longrightarrow> sc_state ri = ScopeActive
     then ancestry_root_to_leaf s True scopes = Some (Ok (rev xs))
     else \<exists>i \<in> set xs. ancestry_root_to_leaf s True scopes = Some (Err (ScopeDisposed i)))"
proof -
  obtain xs where xs: "chain scopes s xs" using wf_scopes_chain [OF assms] by blast
  have "ancestry s scopes = Some (Ok xs)"
    using ancestry_loop_chain [OF xs] by (simp add: ancestry_def)
  moreover have "hd xs = s" using chain_hd [OF xs] by auto
  moreover have "last xs = root" by (rule chain_last_root [OF assms(1) xs])
  moreover have "if \<forall>i \<in> set xs. \<forall>ri. aget scopes i = Some ri \<longrightarrow> sc_state ri = ScopeActive
     then ancestry_root_to_leaf s True scopes = Some (Ok (rev xs))
     else \<exists>i \<in> set xs. ancestry_root_to_leaf s True scopes = Some (Err (ScopeDisposed i))"
    using root_to_leaf_loop_active [OF xs, of "[]"] root_to_leaf_loop_inactive [OF xs, of "[]"]
    unfolding ancestry_root_to_leaf_def by auto
  ultimately show ?thesis by blast
qed

theorem ancestry_reaches_root_witness:
  "\<exists>xs. ancestry 0 example_scopes = Some (Ok xs) \<and> last xs = 0"
proof -
  have "aget example_scopes 0 = Some root_record" "live_scope root_record"
    by (simp_all add: example_scopes_def scope_registry_new_def root_record_def live_scope_def)
  from ancestry_reaches_root [OF wf_scopes_new [of 0, folded example_scopes_def] this]
  show ?thesis by blast
qed

lemma scope_commit_reversible:
  assumes "distinct (akeys scopes)" and "distinct (pr_children p)"
    and "\<And>r. aget scopes (pr_staging p) = Some r \<Longrightarrow> distinct (sc_children r)"
  shows "(\<exists>e. commit_locked p scopes = (Err e, scopes)) \<or>
    (\<exists>s1 s2. commit_locked p scopes = (Ok (), s1) \<and> rollback_locked p s1 = (Ok (), s2) \<and>
       (\<forall>i. same_members (aget scopes i) (aget s2 i)))"
proof (cases "commit_valid p scopes")
  case False
  then show ?thesis by (simp add: commit_locked_def)
next
  case True
  with rollback_valid_after_commit [OF True assms(1)] move_back_same [OF True assms(1,2,3)]
  show ?thesis by (simp add: commit_locked_def rollback_locked_def)
qed

text \<open>
  The scope revision of a reload is reversible: a failed commit changes nothing, and rolling
  back a successful commit succeeds and restores every record up to the order of its members.
\<close>

theorem scope_revision_roundtrip:
  assumes "distinct (akeys scopes)" and "distinct (pr_children p)"
    and "\<And>r. aget scopes (pr_staging p) = Some r \<Longrightarrow> distinct (sc_children r)"
  shows "(\<exists>e. commit_locked p scopes = (Err e, scopes)) \<or>
    (\<exists>s1 s2. commit_locked p scopes = (Ok (), s1) \<and> rollback_locked p s1 = (Ok (), s2) \<and>
       (\<forall>i. same_members (aget scopes i) (aget s2 i)))"
  using assms by (rule scope_commit_reversible)

definition example_reload_scopes :: scope_arena where
  "example_reload_scopes =
     [(0, root_record\<lparr>sc_children := [1], sc_fibers := [4]\<rparr>),
      (1, root_record\<lparr>sc_parent := Some 0, sc_children := [2], sc_fibers := [5], sc_hidden := True\<rparr>),
      (2, root_record\<lparr>sc_parent := Some 1\<rparr>)]"

definition example_scope_revision :: prepared_scope_revision where
  "example_scope_revision = \<lparr>pr_staging = 1, pr_target = 0, pr_staged = 5, pr_old = 4, pr_children = [2]\<rparr>"

theorem scope_revision_roundtrip_witness:
  "\<exists>s1 s2. commit_locked example_scope_revision example_reload_scopes = (Ok (), s1) \<and>
     rollback_locked example_scope_revision s1 = (Ok (), s2)"
proof -
  have h: "distinct (akeys example_reload_scopes)" "distinct (pr_children example_scope_revision)"
    "\<And>r. aget example_reload_scopes (pr_staging example_scope_revision) = Some r \<Longrightarrow> distinct (sc_children r)"
    by (simp_all add: example_reload_scopes_def example_scope_revision_def)
  have "commit_valid example_scope_revision example_reload_scopes"
    by (simp add: commit_valid_def example_reload_scopes_def example_scope_revision_def
        root_record_def occurs_once_def)
  then have "fst (commit_locked example_scope_revision example_reload_scopes) = Ok ()"
    by (simp add: commit_locked_def)
  with scope_revision_roundtrip [OF h] show ?thesis by auto
qed

end
