(* ===== verification/Event_Bus.thy ===== *)
theory Event_Bus
  imports Gate
begin

text \<open>
  Events (\<^verbatim>\<open>event_bus.rs\<close>): registration in copy-on-write snapshots and the five dispatch modes.

  User code is a parameter \<open>call\<close>: what a handler returns and what it does to the world, the pair
  of the gates and an arbitrary user state; \<open>Panicked\<close> is an unwinding handler. A waterfall handler
  is a \<open>wf_step\<close>: it may consume its continuation once, as ownership of \<open>Next\<close> enforces. The
  dispatch loops return, besides the result, the handlers they called.

  Concurrent polling in \<open>parallel\<close> is modelled by the schedule that runs the admitted futures in
  order.
\<close>

type_synonym event_key = string
type_synonym event_value = native_value
type_synonym event_outcome = "event_value option"
type_synonym 'u world = "gate_store \<times> 'u"

record 'h snapshot_handler =
  sn_id :: handler_id
  sn_handler :: 'h
  sn_gate :: gate_ref

record 'h handler_entry =
  he_event :: event_key
  he_handler :: 'h
  he_gate :: gate_ref

record 'h event_bus =
  eb_slots :: "(event_key, 'h snapshot_handler list) amap"
  eb_handlers :: "(handler_id, 'h handler_entry) amap"

definition event_bus_default :: "'h event_bus" where
  "event_bus_default = \<lparr>eb_slots = [], eb_handlers = []\<rparr>"

section \<open>Registration\<close>

text \<open>\<open>slot\<close>: the snapshot of an event, created empty on first use.\<close>

definition bus_slot :: "event_key \<Rightarrow> 'h event_bus \<Rightarrow> 'h snapshot_handler list \<times> 'h event_bus" where
  "bus_slot key b = (case aget (eb_slots b) key of
      Some snapshot \<Rightarrow> (snapshot, b)
    | None \<Rightarrow> ([], b\<lparr>eb_slots := aput key [] (eb_slots b)\<rparr>))"

definition register_gated ::
  "handler_id \<Rightarrow> event_key \<Rightarrow> 'h \<Rightarrow> gate_ref \<Rightarrow> 'h event_bus \<Rightarrow> handler_id \<times> 'h event_bus" where
  "register_gated fresh event handler gate b =
     (let (snapshot, b1) = bus_slot event b;
          b2 = b1\<lparr>eb_handlers := aput fresh \<lparr>he_event = event, he_handler = handler, he_gate = gate\<rparr>
                 (eb_handlers b1)\<rparr>;
          snapshot' = snapshot @ [\<lparr>sn_id = fresh, sn_handler = handler, sn_gate = gate\<rparr>]
      in (fresh, b2\<lparr>eb_slots := aput event snapshot' (eb_slots b2)\<rparr>))"

text \<open>The registration with a gate of its own, which is published at once or by \<open>activate\<close>.\<close>

definition bus_register ::
  "handler_id \<Rightarrow> selector_ref \<Rightarrow> gate_ref \<Rightarrow> event_key \<Rightarrow> 'h \<Rightarrow> bool \<Rightarrow> 'h event_bus \<times> gate_store
    \<Rightarrow> handler_id cres \<times> 'h event_bus \<times> gate_store" where
  "bus_register fresh sel gate event handler active st = (case st of (b, g) \<Rightarrow>
     (case (if active then standalone_published sel gate g else (Ok (), standalone_staged sel gate g)) of
        (Ok _, g1) \<Rightarrow> (case register_gated fresh event handler gate b of (i, b1) \<Rightarrow> (Ok i, b1, g1))
      | (Err e, g1) \<Rightarrow> (Err e, b, g1)
      | (Panicked p, g1) \<Rightarrow> (Panicked p, b, g1)))"

definition bus_activate :: "handler_id \<Rightarrow> 'h event_bus \<times> gate_store \<Rightarrow> bool \<times> 'h event_bus \<times> gate_store" where
  "bus_activate i st = (case st of (b, g) \<Rightarrow> (case aget (eb_handlers b) i of
      None \<Rightarrow> (False, b, g)
    | Some entry \<Rightarrow> (case bus_slot (he_event entry) b of (snapshot, b1) \<Rightarrow>
        if is_visible g (he_gate entry) then (True, b1, g)
        else (True,
              if list_ex (\<lambda>h. sn_id h = i) snapshot then b1
              else b1\<lparr>eb_slots := aput (he_event entry)
                     (snapshot @ [\<lparr>sn_id = i, sn_handler = he_handler entry, sn_gate = he_gate entry\<rparr>]) (eb_slots b1)\<rparr>,
              snd (publish (he_gate entry) g)))))"

definition bus_remove :: "handler_id \<Rightarrow> 'h event_bus \<Rightarrow> bool \<times> 'h event_bus" where
  "bus_remove i b = (case aget (eb_handlers b) i of
      None \<Rightarrow> (False, b)
    | Some entry \<Rightarrow>
        let event = he_event entry;
            (snapshot, b1) = bus_slot event b;
            handlers = adel i (eb_handlers b1);
            unregistered = \<not> list_ex (\<lambda>item. he_event item = event) (avals handlers);
            snapshot' = filter (\<lambda>h. sn_id h \<noteq> i) snapshot;
            b2 = b1\<lparr>eb_handlers := handlers, eb_slots := aput event snapshot' (eb_slots b1)\<rparr>
        in (True, if unregistered \<and> snapshot' = []
                  then b2\<lparr>eb_slots := adel event (eb_slots b2)\<rparr> else b2))"

section \<open>Dispatch\<close>

type_synonym ('h, 'u) handler_call = "'h \<Rightarrow> event_value \<Rightarrow> 'u world \<Rightarrow> event_outcome cres \<times> 'u world"

text \<open>\<open>call_handler\<close>: an unwinding handler becomes an error.\<close>

definition catch_event :: "event_outcome cres \<times> 'w \<Rightarrow> event_outcome cres \<times> 'w" where
  "catch_event rw = (case rw of
      (Panicked p, w) \<Rightarrow> (Err (EventHandlerPanicked (Lit p)), w)
    | (r, w) \<Rightarrow> (r, w))"

definition release_lease :: "gate_ref \<Rightarrow> 'u world \<Rightarrow> unit cres \<times> 'u world" where
  "release_lease gate w = (case gate_drop_lease (GenerationLease gate False) (fst w) of
      (r, g) \<Rightarrow> (r, (g, snd w)))"

definition take_lease :: "gate_ref \<Rightarrow> 'u world \<Rightarrow> bool cres \<times> 'u world" where
  "take_lease gate w = (case gate_try_acquire gate (fst w) of (r, g) \<Rightarrow> (r, (g, snd w)))"

text \<open>
  One admitted call: \<open>None\<close> when the generation refuses the lease, otherwise the handler's result;
  the lease is dropped at the end of the iteration.
\<close>

definition call_admitted ::
  "('h, 'u) handler_call \<Rightarrow> 'h snapshot_handler \<Rightarrow> event_value \<Rightarrow> 'u world
    \<Rightarrow> event_outcome cres option cres \<times> 'u world" where
  "call_admitted call h value = sbind (take_lease (sn_gate h)) (\<lambda>granted w1.
     if \<not> granted then (Ok None, w1)
     else case catch_event (call (sn_handler h) value w1) of
       (r, w2) \<Rightarrow> sbind (release_lease (sn_gate h)) (\<lambda>_ w3. (Ok (Some r), w3)) w2)"

fun emit_loop ::
  "('h, 'u) handler_call \<Rightarrow> event_value \<Rightarrow> 'h snapshot_handler list \<Rightarrow> visibility_cache \<Rightarrow> cordis_error option
    \<Rightarrow> 'u world \<Rightarrow> (cordis_error option \<times> 'h snapshot_handler list) cres \<times> 'u world" where
  "emit_loop call value [] cache first_error w = (Ok (first_error, []), w)"
| "emit_loop call value (h # hs) cache first_error w =
     (case cache_visible (fst w) (sn_gate h) cache of
        (False, cache') \<Rightarrow> emit_loop call value hs cache' first_error w
      | (True, cache') \<Rightarrow> sbind (call_admitted call h value) (\<lambda>outcome w1. case outcome of
            None \<Rightarrow> emit_loop call value hs cache' first_error w1
          | Some r \<Rightarrow>
              let first' = (case (r, first_error) of (Err e, None) \<Rightarrow> Some e | _ \<Rightarrow> first_error)
              in sbind (emit_loop call value hs cache' first')
                   (\<lambda>(e, called) w2. (Ok (e, h # called), w2)) w1) w)"

definition emit ::
  "('h, 'u) handler_call \<Rightarrow> event_key \<Rightarrow> event_value \<Rightarrow> 'h event_bus \<Rightarrow> 'u world \<Rightarrow> unit cres \<times> 'u world" where
  "emit call event value b w = (case aget (eb_slots b) event of
      None \<Rightarrow> (Ok (), w)
    | Some snapshot \<Rightarrow> sbind (emit_loop call value snapshot [] None)
        (\<lambda>(first_error, called) w1. (case first_error of None \<Rightarrow> Ok () | Some e \<Rightarrow> Err e, w1)) w)"

text \<open>\<open>serial\<close>: \<open>outcomes.push(call_handler(..).await?)\<close> returns at the first error.\<close>

fun serial_loop ::
  "('h, 'u) handler_call \<Rightarrow> event_value \<Rightarrow> 'h snapshot_handler list \<Rightarrow> visibility_cache
    \<Rightarrow> 'u world \<Rightarrow> (event_outcome list cres \<times> 'h snapshot_handler list) cres \<times> 'u world" where
  "serial_loop call value [] cache w = (Ok (Ok [], []), w)"
| "serial_loop call value (h # hs) cache w =
     (case cache_visible (fst w) (sn_gate h) cache of
        (False, cache') \<Rightarrow> serial_loop call value hs cache' w
      | (True, cache') \<Rightarrow> sbind (call_admitted call h value) (\<lambda>outcome w1. case outcome of
            None \<Rightarrow> serial_loop call value hs cache' w1
          | Some (Ok r) \<Rightarrow> sbind (serial_loop call value hs cache')
              (\<lambda>(rs, called) w2. (Ok (rbind rs (\<lambda>xs. Ok (r # xs)), h # called), w2)) w1
          | Some (Err e) \<Rightarrow> (Ok (Err e, [h]), w1)
          | Some (Panicked p) \<Rightarrow> (Panicked p, w1)) w)"

definition serial ::
  "('h, 'u) handler_call \<Rightarrow> event_key \<Rightarrow> event_value \<Rightarrow> 'h event_bus \<Rightarrow> 'u world
    \<Rightarrow> event_outcome list cres \<times> 'u world" where
  "serial call event value b w = (case aget (eb_slots b) event of
      None \<Rightarrow> (Ok [], w)
    | Some snapshot \<Rightarrow> sbind (serial_loop call value snapshot []) (\<lambda>(rs, called) w1. (rs, w1)) w)"

fun bail_loop ::
  "('h, 'u) handler_call \<Rightarrow> event_value \<Rightarrow> 'h snapshot_handler list \<Rightarrow> visibility_cache
    \<Rightarrow> 'u world \<Rightarrow> (event_outcome cres \<times> 'h snapshot_handler list) cres \<times> 'u world" where
  "bail_loop call value [] cache w = (Ok (Ok None, []), w)"
| "bail_loop call value (h # hs) cache w =
     (case cache_visible (fst w) (sn_gate h) cache of
        (False, cache') \<Rightarrow> bail_loop call value hs cache' w
      | (True, cache') \<Rightarrow> sbind (call_admitted call h value) (\<lambda>outcome w1. case outcome of
            None \<Rightarrow> bail_loop call value hs cache' w1
          | Some (Ok None) \<Rightarrow> sbind (bail_loop call value hs cache')
              (\<lambda>(r, called) w2. (Ok (r, h # called), w2)) w1
          | Some r \<Rightarrow> (Ok (r, [h]), w1)) w)"

definition bail ::
  "('h, 'u) handler_call \<Rightarrow> event_key \<Rightarrow> event_value \<Rightarrow> 'h event_bus \<Rightarrow> 'u world
    \<Rightarrow> event_outcome cres \<times> 'u world" where
  "bail call event value b w = (case aget (eb_slots b) event of
      None \<Rightarrow> (Ok None, w)
    | Some snapshot \<Rightarrow> sbind (bail_loop call value snapshot []) (\<lambda>(r, called) w1. (r, w1)) w)"

subsection \<open>Parallel\<close>

fun admit_loop ::
  "'h snapshot_handler list \<Rightarrow> visibility_cache \<Rightarrow> 'u world \<Rightarrow> 'h snapshot_handler list cres \<times> 'u world" where
  "admit_loop [] cache w = (Ok [], w)"
| "admit_loop (h # hs) cache w =
     (case cache_visible (fst w) (sn_gate h) cache of
        (False, cache') \<Rightarrow> admit_loop hs cache' w
      | (True, cache') \<Rightarrow> sbind (take_lease (sn_gate h)) (\<lambda>granted w1.
            if granted then sbind (admit_loop hs cache') (\<lambda>rest w2. (Ok (h # rest), w2)) w1
            else admit_loop hs cache' w1) w)"

fun join_all ::
  "('h, 'u) handler_call \<Rightarrow> event_value \<Rightarrow> 'h snapshot_handler list \<Rightarrow> 'u world
    \<Rightarrow> event_outcome cres list cres \<times> 'u world" where
  "join_all call value [] w = (Ok [], w)"
| "join_all call value (h # hs) w =
     (case catch_event (call (sn_handler h) value w) of (r, w1) \<Rightarrow>
        sbind (release_lease (sn_gate h)) (\<lambda>_.
          sbind (join_all call value hs) (\<lambda>rs w2. (Ok (r # rs), w2))) w1)"

text \<open>\<open>collect\<close> into a \<open>Result\<close>: the first error in list order, if any.\<close>

fun collect_results :: "'a cres list \<Rightarrow> 'a list cres" where
  "collect_results [] = Ok []"
| "collect_results (r # rs) = rbind r (\<lambda>x. rbind (collect_results rs) (\<lambda>xs. Ok (x # xs)))"

definition parallel ::
  "('h, 'u) handler_call \<Rightarrow> event_key \<Rightarrow> event_value \<Rightarrow> 'h event_bus \<Rightarrow> 'u world
    \<Rightarrow> event_outcome list cres \<times> 'u world" where
  "parallel call event value b w = (case aget (eb_slots b) event of
      None \<Rightarrow> (Ok [], w)
    | Some snapshot \<Rightarrow> sbind (admit_loop snapshot []) (\<lambda>admitted.
        sbind (join_all call value admitted) (\<lambda>rs w1. (collect_results rs, w1))) w)"

subsection \<open>Waterfall\<close>

datatype 'w wf_step =
    WfDone "event_outcome cres" 'w
  | WfNext 'w "event_outcome cres \<Rightarrow> 'w \<Rightarrow> event_outcome cres \<times> 'w"

type_synonym ('h, 'u) waterfall_call = "'h \<Rightarrow> event_value \<Rightarrow> 'u world \<Rightarrow> 'u world wf_step"

fun run_waterfall ::
  "('h, 'u) waterfall_call \<Rightarrow> event_value \<Rightarrow> 'h snapshot_handler list \<Rightarrow> 'u world
    \<Rightarrow> event_outcome cres \<times> 'u world" where
  "run_waterfall call value [] w = (Ok (Some value), w)"
| "run_waterfall call value (h # hs) w = sbind (take_lease (sn_gate h)) (\<lambda>granted w1.
     if \<not> granted then run_waterfall call value hs w1
     else case catch_event (case call (sn_handler h) value w1 of
              WfDone r w2 \<Rightarrow> (r, w2)
            | WfNext w2 resume \<Rightarrow> (case run_waterfall call value hs w2 of
                  (Panicked p, w3) \<Rightarrow> (Panicked p, w3)
                | (r, w3) \<Rightarrow> resume r w3))
       of (r, w4) \<Rightarrow> sbind (release_lease (sn_gate h)) (\<lambda>_ w5. (r, w5)) w4) w"

fun visible_handlers ::
  "gate_store \<Rightarrow> 'h snapshot_handler list \<Rightarrow> visibility_cache \<Rightarrow> 'h snapshot_handler list" where
  "visible_handlers g [] cache = []"
| "visible_handlers g (h # hs) cache = (case cache_visible g (sn_gate h) cache of
      (True, cache') \<Rightarrow> h # visible_handlers g hs cache'
    | (False, cache') \<Rightarrow> visible_handlers g hs cache')"

definition waterfall ::
  "('h, 'u) waterfall_call \<Rightarrow> event_key \<Rightarrow> event_value \<Rightarrow> 'h event_bus \<Rightarrow> 'u world
    \<Rightarrow> event_outcome cres \<times> 'u world" where
  "waterfall call event value b w = (case aget (eb_slots b) event of
      None \<Rightarrow> (Ok (Some value), w)
    | Some snapshot \<Rightarrow> run_waterfall call value (visible_handlers (fst w) snapshot []) w)"

section \<open>Registration invariant\<close>

text \<open>The snapshot of an event lists exactly the registered handlers of the event.\<close>

definition snapshot_of :: "handler_id \<Rightarrow> 'h handler_entry \<Rightarrow> 'h snapshot_handler" where
  "snapshot_of i e = \<lparr>sn_id = i, sn_handler = he_handler e, sn_gate = he_gate e\<rparr>"

definition slot_handlers :: "'h event_bus \<Rightarrow> event_key \<Rightarrow> 'h snapshot_handler list" where
  "slot_handlers b event = (case aget (eb_slots b) event of None \<Rightarrow> [] | Some hs \<Rightarrow> hs)"

definition wf_bus :: "'h event_bus \<Rightarrow> bool" where
  "wf_bus b \<longleftrightarrow> distinct (akeys (eb_handlers b)) \<and> (\<forall>event.
     distinct (map sn_id (slot_handlers b event)) \<and>
     set (slot_handlers b event) =
       {snapshot_of i e | i e. aget (eb_handlers b) i = Some e \<and> he_event e = event})"

lemma bus_slot_handlers:
  "bus_slot event b = (snapshot, b1) \<Longrightarrow> snapshot = slot_handlers b event \<and> eb_handlers b1 = eb_handlers b \<and>
     slot_handlers b1 = slot_handlers b"
  by (auto simp: bus_slot_def slot_handlers_def fun_eq_iff split: option.splits if_splits)

text \<open>A registered handler has its place in the snapshot already: an activation changes its gate only.\<close>

lemma activate_publishes:
  assumes "wf_bus b" and "aget (eb_handlers b) i = Some e"
  shows "bus_activate i (b, g) = (True, b, if is_visible g (he_gate e) then g else snd (publish (he_gate e) g))"
proof -
  have m: "snapshot_of i e \<in> set (slot_handlers b (he_event e))"
    using assms unfolding wf_bus_def by blast
  then obtain hs where hs: "aget (eb_slots b) (he_event e) = Some hs" "snapshot_of i e \<in> set hs"
    by (cases "aget (eb_slots b) (he_event e)") (simp_all add: slot_handlers_def)
  then have "list_ex (\<lambda>h. sn_id h = i) hs" by (force simp: list_ex_iff snapshot_of_def)
  with hs(1) assms(2) show ?thesis by (simp add: bus_activate_def bus_slot_def)
qed

lemma register_spec:
  assumes "register_gated i event handler gate b = (j, b')"
  shows "j = i" and "eb_handlers b' = aput i \<lparr>he_event = event, he_handler = handler, he_gate = gate\<rparr> (eb_handlers b)"
    and "slot_handlers b' = (slot_handlers b)(event := slot_handlers b event @
           [\<lparr>sn_id = i, sn_handler = handler, sn_gate = gate\<rparr>])"
proof -
  obtain snapshot b1 where b1: "bus_slot event b = (snapshot, b1)" by force
  note p = bus_slot_handlers [OF b1]
  show "j = i" "eb_handlers b' = aput i \<lparr>he_event = event, he_handler = handler, he_gate = gate\<rparr> (eb_handlers b)"
    using assms b1 p by (auto simp: register_gated_def)
  have "slot_handlers b' = (slot_handlers b1)(event := snapshot @
           [\<lparr>sn_id = i, sn_handler = handler, sn_gate = gate\<rparr>])"
    using assms b1 by (auto simp: register_gated_def slot_handlers_def fun_eq_iff)
  with p show "slot_handlers b' = (slot_handlers b)(event := slot_handlers b event @
           [\<lparr>sn_id = i, sn_handler = handler, sn_gate = gate\<rparr>])" by simp
qed

lemma register_wf:
  assumes "wf_bus b" and "i \<notin> set (akeys (eb_handlers b))"
    and "register_gated i event handler gate b = (j, b')"
  shows "wf_bus b'"
proof -
  note r = register_spec [OF assms(3)]
  let ?e = "\<lparr>he_event = event, he_handler = handler, he_gate = gate\<rparr>"
  have none: "aget (eb_handlers b) i = None" using assms(2) aget_None_iff by metis
  have "distinct (map sn_id (slot_handlers b' ev)) \<and> set (slot_handlers b' ev) =
      {snapshot_of k e | k e. aget (eb_handlers b') k = Some e \<and> he_event e = ev}" for ev
  proof -
    have d: "distinct (map sn_id (slot_handlers b ev))"
      and s: "set (slot_handlers b ev) =
        {snapshot_of k e | k e. aget (eb_handlers b) k = Some e \<and> he_event e = ev}"
      using assms(1) by (simp_all add: wf_bus_def)
    have "i \<notin> sn_id ` set (slot_handlers b ev)"
      unfolding s using none by (auto simp: snapshot_of_def)
    moreover have iff: "aget (eb_handlers b') k = Some e \<longleftrightarrow> k = i \<and> e = ?e \<or> aget (eb_handlers b) k = Some e" for k e
      unfolding r(2) using none by auto
    have "{snapshot_of k e | k e. aget (eb_handlers b') k = Some e \<and> he_event e = ev}
        = {snapshot_of k e | k e. aget (eb_handlers b) k = Some e \<and> he_event e = ev}
          \<union> {snapshot_of i e | e. e = ?e \<and> he_event e = ev}" unfolding iff by blast
    then have "{snapshot_of k e | k e. aget (eb_handlers b') k = Some e \<and> he_event e = ev}
        = set (slot_handlers b ev) \<union> (if ev = event then {snapshot_of i ?e} else {})"
      unfolding s by simp
    ultimately show ?thesis using d s by (auto simp: r(3) snapshot_of_def)
  qed
  moreover have "distinct (akeys (eb_handlers b'))"
    unfolding r(2) using assms(1) by (simp add: wf_bus_def del: set_map)
  ultimately show ?thesis by (simp add: wf_bus_def)
qed

lemma remove_spec:
  assumes "bus_remove i b = (ok, b')"
  shows "(case aget (eb_handlers b) i of
      None \<Rightarrow> \<not> ok \<and> b' = b
    | Some e \<Rightarrow> ok \<and> eb_handlers b' = adel i (eb_handlers b) \<and>
        slot_handlers b' = (slot_handlers b)(he_event e :=
          filter (\<lambda>h. sn_id h \<noteq> i) (slot_handlers b (he_event e))))"
proof (cases "aget (eb_handlers b) i")
  case None
  with assms show ?thesis by (simp add: bus_remove_def)
next
  case (Some e)
  obtain snapshot b1 where b1: "bus_slot (he_event e) b = (snapshot, b1)" by force
  note p = bus_slot_handlers [OF b1]
  have "slot_handlers b' = (slot_handlers b1)(he_event e := filter (\<lambda>h. sn_id h \<noteq> i) snapshot)"
    using assms Some b1 by (auto simp: bus_remove_def slot_handlers_def fun_eq_iff Let_def split: if_splits)
  with assms Some b1 p show ?thesis
    by (auto simp: bus_remove_def Let_def split: if_splits)
qed

lemma remove_wf:
  assumes "wf_bus b" and "bus_remove i b = (ok, b')"
  shows "wf_bus b' \<and> (\<forall>event. i \<notin> sn_id ` set (slot_handlers b' event)) \<and> aget (eb_handlers b') i = None"
proof (cases "aget (eb_handlers b) i")
  case None
  with remove_spec [OF assms(2)] assms(1) show ?thesis
    by (auto simp: wf_bus_def snapshot_of_def)
next
  case (Some e)
  with remove_spec [OF assms(2)] have r: "eb_handlers b' = adel i (eb_handlers b)"
      "slot_handlers b' = (slot_handlers b)(he_event e :=
          filter (\<lambda>h. sn_id h \<noteq> i) (slot_handlers b (he_event e)))" by auto
  have one: "distinct (map sn_id (slot_handlers b' ev)) \<and> set (slot_handlers b' ev) =
      {snapshot_of k x | k x. aget (eb_handlers b') k = Some x \<and> he_event x = ev}" for ev
  proof -
    have d: "distinct (map sn_id (slot_handlers b ev))"
      and s: "set (slot_handlers b ev) =
        {snapshot_of k x | k x. aget (eb_handlers b) k = Some x \<and> he_event x = ev}"
      using assms(1) by (simp_all add: wf_bus_def)
    have "set (slot_handlers b' ev) = {h \<in> set (slot_handlers b ev). sn_id h \<noteq> i}"
    proof (cases "ev = he_event e")
      case True
      then show ?thesis by (simp add: r(2))
    next
      case False
      then have "sn_id h \<noteq> i" if "h \<in> set (slot_handlers b ev)" for h
        using that Some unfolding s by (auto simp: snapshot_of_def)
      with False show ?thesis by (auto simp: r(2))
    qed
    also have "\<dots> = {snapshot_of k x | k x. aget (eb_handlers b') k = Some x \<and> he_event x = ev}"
      unfolding s r(1) by (auto simp: snapshot_of_def)
    finally show ?thesis using d by (auto simp: r(2) distinct_map_filter)
  qed
  have "distinct (akeys (eb_handlers b'))"
    unfolding r(1) using assms(1) by (simp add: wf_bus_def del: set_map)
  with one have "wf_bus b'" by (simp add: wf_bus_def)
  moreover from one have "i \<notin> sn_id ` set (slot_handlers b' event)" for event
    unfolding r(1) by (auto simp: snapshot_of_def)
  ultimately show ?thesis by (simp add: r(1))
qed

section \<open>One generation per dispatch\<close>

definition same_ids :: "gate_store \<Rightarrow> gate_store \<Rightarrow> bool" where
  "same_ids g g' \<longleftrightarrow> (\<forall>x. cg_selector (gs_gate g' x) = cg_selector (gs_gate g x) \<and>
     cg_generation (gs_gate g' x) = cg_generation (gs_gate g x))"

lemma same_ids_refl [simp]: "same_ids g g"
  by (simp add: same_ids_def)

lemma same_ids_trans: "same_ids a b \<Longrightarrow> same_ids b c \<Longrightarrow> same_ids a c"
  by (simp add: same_ids_def)

lemma same_ids_view: "gate_view s' = gate_view s \<Longrightarrow> same_ids s s'"
  by (auto simp: gate_view_def same_ids_def fun_eq_iff)

text \<open>User code may open, close and cut over gates, but not change what a gate is.\<close>

definition stable_ids :: "('h, 'u) handler_call \<Rightarrow> bool" where
  "stable_ids call \<longleftrightarrow> (\<forall>h v w. same_ids (fst w) (fst (snd (call h v w))))"

lemma take_lease_ids: "take_lease gate w = (r, w') \<Longrightarrow> same_ids (fst w) (fst w')"
  by (auto simp: take_lease_def split: prod.splits dest!: gate_try_acquire_view same_ids_view)

lemma release_lease_ids: "release_lease gate w = (r, w') \<Longrightarrow> same_ids (fst w) (fst w')"
  by (auto simp: release_lease_def split: prod.splits dest!: gate_drop_lease_view same_ids_view)

lemma catch_event_world: "snd (catch_event rw) = snd rw"
  by (cases rw; cases "fst rw") (auto simp: catch_event_def)

lemma catch_event_not_panicked: "fst (catch_event rw) \<noteq> Panicked p"
  by (cases rw; cases "fst rw") (auto simp: catch_event_def)

lemma call_admitted_ids:
  assumes "stable_ids call" and "call_admitted call h value w = (Ok r, w')"
  shows "same_ids (fst w) (fst w')"
proof -
  obtain b w1 where w1: "take_lease (sn_gate h) w = (Ok b, w1)"
    using assms(2) by (auto simp: call_admitted_def sbind_Ok_iff)
  note i1 = take_lease_ids [OF w1]
  show ?thesis
  proof (cases b)
    case False
    with assms(2) w1 i1 show ?thesis by (simp add: call_admitted_def)
  next
    case True
    obtain x w2 where w2: "catch_event (call (sn_handler h) value w1) = (x, w2)"
      by (metis surj_pair)
    have "same_ids (fst w1) (fst w2)"
      using assms(1) catch_event_world [of "call (sn_handler h) value w1"] w2
      unfolding stable_ids_def by (metis snd_conv)
    moreover obtain y where "release_lease (sn_gate h) w2 = (Ok y, w')"
      using assms(2) w1 w2 True by (auto simp: call_admitted_def sbind_Ok_iff)
    then have "same_ids (fst w2) (fst w')" by (rule release_lease_ids)
    ultimately show ?thesis using i1 same_ids_trans by blast
  qed
qed

text \<open>The final cache extends the initial one and names the generation of every called handler.\<close>

definition pinned ::
  "gate_store \<Rightarrow> visibility_cache \<Rightarrow> 'h snapshot_handler list \<Rightarrow> bool" where
  "pinned g cache called \<longleftrightarrow> (\<exists>m :: selector_ref \<Rightarrow> generation_id option.
     (\<forall>k v. aget cache k = Some v \<longrightarrow> m k = Some v) \<and>
     (\<forall>h \<in> set called. m (cg_selector (gs_gate g (sn_gate h))) = Some (cg_generation (gs_gate g (sn_gate h)))))"

lemma pinned_Nil [simp]: "pinned g cache []"
  by (auto simp: pinned_def)

lemma pinned_ids: "same_ids g g' \<Longrightarrow> pinned g' cache called \<Longrightarrow> pinned g cache called"
  by (simp add: pinned_def same_ids_def)

lemma cache_visible_spec:
  assumes "cache_visible g x cache = (b, cache')"
  shows "\<forall>k v. aget cache k = Some v \<longrightarrow> aget cache' k = Some v"
    and "b \<longleftrightarrow> aget cache' (cg_selector (gs_gate g x)) = Some (cg_generation (gs_gate g x))"
  using assms by (auto simp: cache_visible_def Let_def split: option.splits)

lemma pinned_miss:
  assumes "cache_visible g x cache = (b, cache')" and "pinned g cache' called"
  shows "pinned g cache called"
proof -
  from assms(2) obtain m where "\<forall>k v. aget cache' k = Some v \<longrightarrow> m k = Some v"
    "\<forall>h \<in> set called. m (cg_selector (gs_gate g (sn_gate h))) = Some (cg_generation (gs_gate g (sn_gate h)))"
    unfolding pinned_def by blast
  with cache_visible_spec(1) [OF assms(1)] show ?thesis unfolding pinned_def by (intro exI [of _ m]) blast
qed

lemma pinned_hit:
  assumes "cache_visible g (sn_gate h) cache = (True, cache')" and "pinned g cache' called"
  shows "pinned g cache (h # called)"
proof -
  from assms(2) obtain m where "\<forall>k v. aget cache' k = Some v \<longrightarrow> m k = Some v"
    "\<forall>x \<in> set called. m (cg_selector (gs_gate g (sn_gate x))) = Some (cg_generation (gs_gate g (sn_gate x)))"
    unfolding pinned_def by blast
  with cache_visible_spec [OF assms(1)] show ?thesis unfolding pinned_def by (intro exI [of _ m]) simp
qed

lemma pinned_unique:
  "pinned g [] called \<Longrightarrow> h \<in> set called \<Longrightarrow> h' \<in> set called \<Longrightarrow>
     cg_selector (gs_gate g (sn_gate h)) = cg_selector (gs_gate g (sn_gate h')) \<Longrightarrow>
     cg_generation (gs_gate g (sn_gate h)) = cg_generation (gs_gate g (sn_gate h'))"
  unfolding pinned_def by (metis option.inject)

lemma emit_loop_pinned:
  assumes "stable_ids call"
  shows "emit_loop call value hs cache fe w = (Ok (e, called), w') \<Longrightarrow> pinned (fst w) cache called"
proof (induction hs arbitrary: cache fe w e called)
  case Nil
  then show ?case by simp
next
  case (Cons h hs)
  obtain b cache' where c: "cache_visible (fst w) (sn_gate h) cache = (b, cache')"
    by (metis surj_pair)
  show ?case
  proof (cases b)
    case False
    with Cons.prems c have "emit_loop call value hs cache' fe w = (Ok (e, called), w')" by simp
    from pinned_miss [OF c Cons.IH [OF this]] show ?thesis .
  next
    case True
    with Cons.prems c obtain o1 w1 where w1: "call_admitted call h value w = (Ok o1, w1)"
      by (auto simp: sbind_Ok_iff)
    note ids = call_admitted_ids [OF assms w1]
    show ?thesis
    proof (cases o1)
      case None
      with Cons.prems c True w1 have "emit_loop call value hs cache' fe w1 = (Ok (e, called), w')" by simp
      from pinned_miss [OF c pinned_ids [OF ids Cons.IH [OF this]]] show ?thesis .
    next
      case (Some r)
      with Cons.prems c True w1 obtain fe' called' where l:
        "emit_loop call value hs cache' fe' w1 = (Ok (e, called'), w')" "called = h # called'"
        by (auto simp: sbind_Ok_iff Let_def)
      have "cache_visible (fst w) (sn_gate h) cache = (True, cache')" using c True by simp
      from pinned_hit [OF this pinned_ids [OF ids Cons.IH [OF l(1)]]] l(2) show ?thesis by simp
    qed
  qed
qed

section \<open>Leases balance\<close>

text \<open>User code that gives back what it takes: it leaves every lease counter as it found it.\<close>

definition lease_neutral :: "('h, 'u) handler_call \<Rightarrow> bool" where
  "lease_neutral call \<longleftrightarrow> (\<forall>h v w. wf_gates (fst w) \<longrightarrow>
     wf_gates (fst (snd (call h v w))) \<and> gate_plain (fst (snd (call h v w))) = gate_plain (fst w) \<and>
     gate_free (fst (snd (call h v w))) = gate_free (fst w))"

definition balanced :: "'u world \<Rightarrow> 'u world \<Rightarrow> bool" where
  "balanced w w' \<longleftrightarrow> wf_gates (fst w') \<and> gate_plain (fst w') = gate_plain (fst w) \<and>
     gate_free (fst w') = gate_free (fst w)"

lemma balanced_trans: "balanced a b \<Longrightarrow> balanced b c \<Longrightarrow> balanced a c"
  by (simp add: balanced_def)

lemma take_lease_cases:
  assumes "wf_gates (fst w)" and "gate_free (fst w) gate \<noteq> 0"
  shows "(take_lease gate w = (Ok False, w)) \<or>
    (\<exists>w1. take_lease gate w = (Ok True, w1) \<and> wf_gates (fst w1) \<and>
      gate_plain (fst w1) = (gate_plain (fst w))(gate := Suc (gate_plain (fst w) gate)) \<and>
      gate_free (fst w1) = (gate_free (fst w))(gate := gate_free (fst w) gate - 1))"
proof (cases "gate_accepting (fst w) gate")
  case True
  from plain.acquire_ok [OF assms(1) this assms(2)] show ?thesis by (auto simp: take_lease_def)
next
  case False
  from plain.acquire_refused [OF assms(1) this] show ?thesis by (simp add: take_lease_def)
qed

lemma release_lease_ok:
  assumes "wf_gates (fst w)" and "gate_plain (fst w) gate \<noteq> 0"
  shows "\<exists>w1. release_lease gate w = (Ok (), w1) \<and> wf_gates (fst w1) \<and>
      gate_plain (fst w1) = (gate_plain (fst w))(gate := gate_plain (fst w) gate - 1) \<and>
      gate_free (fst w1) = (gate_free (fst w))(gate := Suc (gate_free (fst w) gate))"
  using plain.release_ok [OF assms] by (auto simp: release_lease_def)

lemma held_use_balanced:
  assumes "wf_gates (fst w)" and "gate_free (fst w) gate \<noteq> 0"
    and "gate_plain (fst w2) = (gate_plain (fst w))(gate := Suc (gate_plain (fst w) gate))"
    and "gate_free (fst w2) = (gate_free (fst w))(gate := gate_free (fst w) gate - 1)" and "wf_gates (fst w2)"
  shows "\<exists>w3. release_lease gate w2 = (Ok (), w3) \<and> balanced w w3"
proof -
  have "gate_plain (fst w2) gate \<noteq> 0" using assms(3) by simp
  from release_lease_ok [OF assms(5) this] obtain w3 where "release_lease gate w2 = (Ok (), w3)" "wf_gates (fst w3)"
      "gate_plain (fst w3) = (gate_plain (fst w2))(gate := gate_plain (fst w2) gate - 1)"
      "gate_free (fst w3) = (gate_free (fst w2))(gate := Suc (gate_free (fst w2) gate))" by blast
  with assms(2-4) show ?thesis by (auto simp: balanced_def fun_eq_iff)
qed

lemma call_admitted_balanced:
  assumes "lease_neutral call" and "wf_gates (fst w)" and "gate_free (fst w) (sn_gate h) \<noteq> 0"
  shows "\<exists>r w'. call_admitted call h value w = (Ok r, w') \<and> (\<forall>p. r \<noteq> Some (Panicked p)) \<and> balanced w w'"
  using take_lease_cases [OF assms(2,3)]
proof (elim disjE exE conjE)
  assume "take_lease (sn_gate h) w = (Ok False, w)"
  then have "call_admitted call h value w = (Ok None, w)" by (simp add: call_admitted_def sbind_def)
  moreover have "balanced w w" using assms(2) by (simp add: balanced_def)
  ultimately show ?thesis by blast
next
  fix w1
  assume w1: "take_lease (sn_gate h) w = (Ok True, w1)" "wf_gates (fst w1)"
    "gate_plain (fst w1) = (gate_plain (fst w))(sn_gate h := Suc (gate_plain (fst w) (sn_gate h)))"
    "gate_free (fst w1) = (gate_free (fst w))(sn_gate h := gate_free (fst w) (sn_gate h) - 1)"
  obtain r w2 where w2: "catch_event (call (sn_handler h) value w1) = (r, w2)" by (metis surj_pair)
  have same: "wf_gates (fst w2)" "gate_plain (fst w2) = gate_plain (fst w1)" "gate_free (fst w2) = gate_free (fst w1)"
    using assms(1) w1(2) w2 catch_event_world [of "call (sn_handler h) value w1"]
    unfolding lease_neutral_def by (metis snd_conv)+
  from held_use_balanced [OF assms(2,3) same(2) [unfolded w1(3)] same(3) [unfolded w1(4)] same(1)]
  obtain w3 where w3: "release_lease (sn_gate h) w2 = (Ok (), w3)" "balanced w w3" by blast
  have "r \<noteq> Panicked p" for p
    using catch_event_not_panicked [of "call (sn_handler h) value w1"] w2 by (metis fst_conv)
  with w1(1) w2 w3 show ?thesis by (auto simp: call_admitted_def)
qed

lemma emit_loop_balanced:
  assumes "lease_neutral call"
  shows "wf_gates (fst w) \<Longrightarrow> \<forall>h \<in> set hs. gate_free (fst w) (sn_gate h) \<noteq> 0 \<Longrightarrow>
    \<exists>e called w'. emit_loop call value hs cache fe w = (Ok (e, called), w') \<and> balanced w w'"
proof (induction hs arbitrary: cache fe w)
  case Nil
  then show ?case by (simp add: balanced_def)
next
  case (Cons h hs)
  obtain b cache' where c: "cache_visible (fst w) (sn_gate h) cache = (b, cache')" by (metis surj_pair)
  show ?case
  proof (cases b)
    case False
    with Cons.IH [of w cache' fe] Cons.prems c show ?thesis by simp
  next
    case True
    obtain r w1 where w1: "call_admitted call h value w = (Ok r, w1)" "balanced w w1"
      using call_admitted_balanced [OF assms Cons.prems(1)] Cons.prems(2) by (metis list.set_intros(1))
    have pre: "wf_gates (fst w1)" "\<forall>h \<in> set hs. gate_free (fst w1) (sn_gate h) \<noteq> 0"
      using w1(2) Cons.prems(2) by (auto simp: balanced_def)
    note ih = Cons.IH [OF pre]
    show ?thesis
    proof (cases r)
      case None
      obtain e called w' where "emit_loop call value hs cache' fe w1 = (Ok (e, called), w')" "balanced w1 w'"
        using ih by blast
      with None c True w1 balanced_trans [OF w1(2)] show ?thesis by auto
    next
      case (Some x)
      define fe' where "fe' = (case x of Err e \<Rightarrow> (case fe of None \<Rightarrow> Some e | Some _ \<Rightarrow> fe) | _ \<Rightarrow> fe)"
      obtain e called w' where l: "emit_loop call value hs cache' fe' w1 = (Ok (e, called), w')" "balanced w1 w'"
        using ih by blast
      have "emit_loop call value (h # hs) cache fe w = (Ok (e, h # called), w')"
        using Some c True w1(1) l(1) by (simp add: Let_def fe'_def [symmetric])
      with balanced_trans [OF w1(2) l(2)] show ?thesis by blast
    qed
  qed
qed

text \<open>A waterfall handler is neutral before and after it runs its continuation.\<close>

definition waterfall_neutral :: "('h, 'u) waterfall_call \<Rightarrow> bool" where
  "waterfall_neutral call \<longleftrightarrow> (\<forall>h v w. wf_gates (fst w) \<longrightarrow> (case call h v w of
      WfDone r w' \<Rightarrow> balanced w w'
    | WfNext w' resume \<Rightarrow> balanced w w' \<and>
        (\<forall>r w3. wf_gates (fst w3) \<longrightarrow> balanced w3 (snd (resume r w3)))))"

lemma balanced_refl: "wf_gates (fst w) \<Longrightarrow> balanced w w"
  by (simp add: balanced_def)

lemma run_waterfall_balanced:
  assumes "waterfall_neutral call"
  shows "wf_gates (fst w) \<Longrightarrow> \<forall>g. count_list (map sn_gate hs) g \<le> gate_free (fst w) g \<Longrightarrow>
    \<exists>r w'. run_waterfall call value hs w = (r, w') \<and> balanced w w' \<and> (\<forall>p. r \<noteq> Panicked p)"
proof (induction hs arbitrary: w)
  case Nil
  then show ?case by (simp add: balanced_def)
next
  case (Cons h hs)
  let ?g = "sn_gate h"
  have free: "gate_free (fst w) ?g \<noteq> 0" using Cons.prems(2) [rule_format, of ?g] by simp
  have tail: "\<forall>g. count_list (map sn_gate hs) g \<le> gate_free (fst w) g - (if g = ?g then 1 else 0)"
  proof
    fix g
    show "count_list (map sn_gate hs) g \<le> gate_free (fst w) g - (if g = ?g then 1 else 0)"
      using Cons.prems(2) [rule_format, of g] by (auto split: if_splits)
  qed
  then have tail': "\<forall>g. count_list (map sn_gate hs) g \<le> gate_free (fst w) g"
    by (meson diff_le_self le_trans)
  show ?case using take_lease_cases [OF Cons.prems(1) free]
  proof (elim disjE exE conjE)
    assume "take_lease ?g w = (Ok False, w)"
    then have "run_waterfall call value (h # hs) w = run_waterfall call value hs w"
      by (simp add: sbind_def)
    with Cons.IH [OF Cons.prems(1) tail'] show ?thesis by simp
  next
    fix w1
    assume w1: "take_lease ?g w = (Ok True, w1)" "wf_gates (fst w1)"
      "gate_plain (fst w1) = (gate_plain (fst w))(?g := Suc (gate_plain (fst w) ?g))"
      "gate_free (fst w1) = (gate_free (fst w))(?g := gate_free (fst w) ?g - 1)"
    define body where "body = (case call (sn_handler h) value w1 of
              WfDone r w2 \<Rightarrow> (r, w2)
            | WfNext w2 resume \<Rightarrow> (case run_waterfall call value hs w2 of
                  (Panicked p, w3) \<Rightarrow> (Panicked p, w3)
                | (r, w3) \<Rightarrow> resume r w3))"
    have body_bal: "balanced w1 (snd body)"
    proof (cases "call (sn_handler h) value w1")
      case (WfDone r w2)
      then have "balanced w1 w2"
        using assms [unfolded waterfall_neutral_def, rule_format, OF w1(2), of "sn_handler h" "value"]
        unfolding WfDone by simp
      with WfDone show ?thesis by (simp add: body_def)
    next
      case (WfNext w2 resume)
      have n: "balanced w1 w2" "\<forall>r w3. wf_gates (fst w3) \<longrightarrow> balanced w3 (snd (resume r w3))"
        using assms [unfolded waterfall_neutral_def, rule_format, OF w1(2), of "sn_handler h" "value"]
        unfolding WfNext by auto
      have "gate_free (fst w2) = (\<lambda>g. gate_free (fst w) g - (if g = ?g then 1 else 0))"
        using n(1) w1(4) by (auto simp: balanced_def fun_eq_iff)
      then have pre: "\<forall>g. count_list (map sn_gate hs) g \<le> gate_free (fst w2) g"
        using tail by metis
      have wf2: "wf_gates (fst w2)" using n(1) by (simp add: balanced_def)
      from Cons.IH [OF wf2 pre] obtain r w3 where w3: "run_waterfall call value hs w2 = (r, w3)"
          "balanced w2 w3" "\<forall>p. r \<noteq> Panicked p" by blast
      have "body = resume r w3" using WfNext w3(1,3) by (cases r) (simp_all add: body_def)
      moreover have "wf_gates (fst w3)" using w3(2) by (simp add: balanced_def)
      then have "balanced w3 (snd (resume r w3))" using n(2) by blast
      ultimately show ?thesis using n(1) w3(2) balanced_trans by metis
    qed
    obtain r w4 where w4: "catch_event body = (r, w4)" by (metis surj_pair)
    have "w4 = snd body" using catch_event_world [of body] w4 by simp
    with body_bal have b4: "balanced w1 w4" by simp
    then have "gate_plain (fst w4) = (gate_plain (fst w))(?g := Suc (gate_plain (fst w) ?g))"
      "gate_free (fst w4) = (gate_free (fst w))(?g := gate_free (fst w) ?g - 1)" "wf_gates (fst w4)"
      using w1(3,4) by (simp_all add: balanced_def)
    from held_use_balanced [OF Cons.prems(1) free this]
    obtain w5 where w5: "release_lease ?g w4 = (Ok (), w5)" "balanced w w5" by blast
    have "r \<noteq> Panicked p" for p
      using catch_event_not_panicked [of body] w4 by (metis fst_conv)
    moreover have "run_waterfall call value (h # hs) w = (r, w5)"
      using w1(1) w4 w5(1) unfolding body_def by simp
    ultimately show ?thesis using w5(2) by blast
  qed
qed

section \<open>Properties\<close>


text \<open>Two generations of one plugin registered for one event.\<close>

definition cutover_gates :: gate_store where
  "cutover_gates = \<lparr>gs_selector = (\<lambda>_. 1), gs_gate = \<lambda>g. staged 0 (if g = 0 then 1 else 2)\<rparr>"

definition rejecting_call :: "(nat, unit) handler_call" where
  "rejecting_call h value w = (Err EventTypeMismatch, w)"

lemma rejecting_call_neutral: "stable_ids rejecting_call" "lease_neutral rejecting_call"
  by (simp_all add: stable_ids_def lease_neutral_def rejecting_call_def)

lemma cutover_gates_facts:
  "wf_gates cutover_gates" "gate_free cutover_gates g \<noteq> 0" "gate_accepting cutover_gates g"
  "is_visible cutover_gates 0" "cg_selector (gs_gate cutover_gates g) = 0"
proof -
  show "wf_gates cutover_gates" by (simp add: wf_gates_def cutover_gates_def staged_def)
qed (simp_all add: cutover_gates_def staged_def gate_free_def gate_inflight_def
      exec_inflight_def generation_execution_default_def unat_inflight max_inflight
      EXECUTION_ACCEPTING_def is_visible_def selector_active_def gate_accepting_def
      exec_accepting_def execution_state_unat)

definition cutover_snapshot :: "nat snapshot_handler list" where
  "cutover_snapshot = [\<lparr>sn_id = 0, sn_handler = 0, sn_gate = 0\<rparr>, \<lparr>sn_id = 1, sn_handler = 1, sn_gate = 1\<rparr>]"


text \<open>
  Emitting an event gives back every lease it takes and never panics, whichever handlers fail
  or panic: the in-flight counters of all generations are what they were.
\<close>

theorem emit_leases_balance:
  assumes "lease_neutral call" and "wf_gates (fst w)" and "\<forall>g. gate_free (fst w) g \<noteq> 0"
  shows "\<exists>r w'. emit call event value b w = (r, w') \<and> (\<forall>p. r \<noteq> Panicked p) \<and>
    wf_gates (fst w') \<and> gate_plain (fst w') = gate_plain (fst w)"
proof (cases "aget (eb_slots b) event")
  case None
  with assms(2) show ?thesis by (simp add: emit_def)
next
  case (Some snapshot)
  obtain e called w' where l: "emit_loop call value snapshot [] None w = (Ok (e, called), w')" "balanced w w'"
    using emit_loop_balanced [OF assms(1,2)] assms(3) by metis
  then have "emit call event value b w = (case e of None \<Rightarrow> Ok () | Some e \<Rightarrow> Err e, w')"
    using Some by (simp add: emit_def)
  with l(2) show ?thesis by (auto simp: balanced_def split: option.splits)
qed

definition failing_call :: "(nat, unit) handler_call" where
  "failing_call h value w = (Panicked ''handler'', w)"

definition example_bus :: "nat event_bus" where
  "example_bus = snd (register_gated 3 ''tick'' 7 0 event_bus_default)"

theorem emit_leases_balance_witness:
  "\<exists>w'. snd (emit failing_call ''tick'' (NativeValue 0 0) example_bus (example_gates, ())) = w' \<and>
     gate_plain (fst w') = gate_plain example_gates"
proof -
  have n: "lease_neutral failing_call" by (simp add: lease_neutral_def failing_call_def)
  have g: "gate_free (fst (example_gates, ())) g \<noteq> 0" for g
    by (simp add: gate_free_def gate_inflight_def exec_inflight_def example_gates_def staged_def
        generation_execution_default_def unat_inflight max_inflight EXECUTION_ACCEPTING_def)
  have "wf_gates (fst (example_gates, ()))" by (simp add: example_gates_wf)
  from emit_leases_balance [OF n this] g show ?thesis by (metis fst_conv snd_conv)
qed

text \<open>
  A waterfall gives back every lease it takes, and no panic of a handler escapes it: neutral
  handlers leave all counters unchanged, whether they stop the chain, continue it or unwind.
\<close>

theorem waterfall_leases_balance:
  assumes "waterfall_neutral call" and "wf_gates (fst w)"
    and "\<forall>g. count_list (map sn_gate hs) g \<le> gate_free (fst w) g"
  shows "\<exists>r w'. run_waterfall call value hs w = (r, w') \<and> (\<forall>p. r \<noteq> Panicked p) \<and>
    wf_gates (fst w') \<and> gate_plain (fst w') = gate_plain (fst w)"
proof -
  obtain r w' where "run_waterfall call value hs w = (r, w')" "balanced w w'" "\<forall>p. r \<noteq> Panicked p"
    using run_waterfall_balanced [OF assms] by blast
  then show ?thesis by (intro exI [of _ r] exI [of _ w']) (simp add: balanced_def)
qed

definition passing_call :: "(nat, unit) waterfall_call" where
  "passing_call h value w = WfNext w (\<lambda>r w3. (r, w3))"

theorem waterfall_leases_balance_witness:
  "\<exists>r w'. run_waterfall passing_call (NativeValue 0 0) [\<lparr>sn_id = 0, sn_handler = 0, sn_gate = 0\<rparr>] (example_gates, ())
     = (r, w') \<and> gate_plain (fst w') = gate_plain example_gates"
proof -
  have n: "waterfall_neutral passing_call"
    by (simp add: waterfall_neutral_def passing_call_def balanced_refl)
  have g: "\<forall>g. count_list (map sn_gate [\<lparr>sn_id = 0, sn_handler = 0 :: nat, sn_gate = 0\<rparr>]) g
      \<le> gate_free (fst (example_gates, ())) g"
    by (simp add: gate_free_def gate_inflight_def exec_inflight_def example_gates_def staged_def
        generation_execution_default_def unat_inflight max_inflight EXECUTION_ACCEPTING_def)
  have "wf_gates (fst (example_gates, ()))" by (simp add: example_gates_wf)
  from waterfall_leases_balance [OF n this g] show ?thesis by (metis fst_conv)
qed

text \<open>
  The registration tables stay consistent and removal is complete: after a handler is removed
  no dispatch snapshot of any event contains it, and all other handlers are untouched.
\<close>

theorem removed_handler_never_dispatched:
  assumes "wf_bus b" and "bus_remove i b = (ok, b')"
  shows "wf_bus b' \<and> (\<forall>event. i \<notin> sn_id ` set (slot_handlers b' event)) \<and>
    (\<forall>j. j \<noteq> i \<longrightarrow> aget (eb_handlers b') j = aget (eb_handlers b) j)"
proof -
  have "aget (eb_handlers b') j = aget (eb_handlers b) j" if "j \<noteq> i" for j
    using remove_spec [OF assms(2)] that by (auto split: option.splits)
  with remove_wf [OF assms] show ?thesis by blast
qed

theorem removed_handler_never_dispatched_witness:
  "3 \<notin> sn_id ` set (slot_handlers (snd (bus_remove 3 example_bus)) ''tick'')"
proof -
  have "wf_bus example_bus"
    unfolding example_bus_def
    by (rule register_wf [of event_bus_default 3 "''tick''" 7 0 3])
      (auto simp: wf_bus_def event_bus_default_def slot_handlers_def register_gated_def bus_slot_def)
  from removed_handler_never_dispatched [OF this] show ?thesis by (metis prod.collapse)
qed

text \<open>
  \<open>serial\<close> does not run every handler: when the first admitted handler fails, the dispatch
  returns its error and calls none of the remaining handlers.
\<close>

theorem serial_stops_at_first_error:
  assumes "lease_neutral call" and "wf_gates (fst w)" and "gate_free (fst w) (sn_gate h) \<noteq> 0"
    and "is_visible (fst w) (sn_gate h)" and "gate_accepting (fst w) (sn_gate h)"
    and "\<And>w. \<exists>w'. call (sn_handler h) value w = (Err e, w')"
  shows "\<exists>w'. serial_loop call value (h # hs) [] w = (Ok (Err e, [h]), w')"
proof -
  have c: "\<exists>c. cache_visible (fst w) (sn_gate h) [] = (True, c)"
    using assms(4) by (simp add: cache_visible_def Let_def is_visible_def)
  obtain r w1 where w1: "call_admitted call h value w = (Ok r, w1)"
    using call_admitted_balanced [OF assms(1-3)] by blast
  have "\<exists>w2. take_lease (sn_gate h) w = (Ok True, w2)"
    using plain.acquire_ok [OF assms(2,5,3)] by (auto simp: take_lease_def)
  then obtain w2 where w2: "take_lease (sn_gate h) w = (Ok True, w2)" by blast
  obtain w3 where "call (sn_handler h) value w2 = (Err e, w3)" using assms(6) by blast
  with w1 w2 have "r = Some (Err e)"
    by (auto simp: call_admitted_def catch_event_def sbind_Ok_iff)
  with c w1 show ?thesis by auto
qed

theorem serial_stops_at_first_error_witness:
  "\<exists>w'. serial_loop rejecting_call (NativeValue 0 0) cutover_snapshot [] (cutover_gates, ())
     = (Ok (Err EventTypeMismatch, [hd cutover_snapshot]), w')"
proof -
  let ?h = "\<lparr>sn_id = 0, sn_handler = 0 :: nat, sn_gate = 0\<rparr>" and ?w = "(cutover_gates, ())"
  have w: "wf_gates (fst ?w)" "gate_free (fst ?w) (sn_gate ?h) \<noteq> 0" "is_visible (fst ?w) (sn_gate ?h)"
      "gate_accepting (fst ?w) (sn_gate ?h)"
    using cutover_gates_facts by simp_all
  have c: "\<exists>w'. rejecting_call (sn_handler ?h) (NativeValue 0 0) x = (Err EventTypeMismatch, w')" for x
    by (intro exI [of _ x]) (simp add: rejecting_call_def)
  show ?thesis using serial_stops_at_first_error [OF rejecting_call_neutral(2) w c, of "tl cutover_snapshot"]
    by (simp add: cutover_snapshot_def)
qed

end
