(* ===== verification/Invocation.thy ===== *)
theory Invocation
  imports Gate "HOL-Library.Product_Lexorder" "HOL-Library.Multiset"
begin

text \<open>
  Invocations (\<^verbatim>\<open>invocation.rs\<close>): registration of scoped handlers and middleware, the validation of
  activations and reload revisions, the dispatch snapshot with its leases and its one retry, and
  the middleware chain.

  User code is a parameter. A middleware is a \<open>mw_step\<close>: it may consume its continuation once, with
  a context and an input of its choice. \<open>between\<close> is what other threads do to the gates between
  the two attempts of a snapshot.
\<close>

record invocation_context =
  ic_metadata :: invocation_metadata
  ic_deadline :: nat

record 'h inv_handler =
  ih_scope :: scope_id
  ih_key :: invocation_key
  ih_handler :: 'h
  ih_gate :: gate_ref

record 'm inv_middleware =
  mw_scope :: scope_id
  mw_key :: invocation_key
  mw_middleware :: 'm
  mw_gate :: gate_ref
  mw_order :: u64

record ('h, 'm) invocation_registry =
  ir_handlers :: "(invocation_handler_id, 'h inv_handler) amap"
  ir_middleware :: "(invocation_middleware_id, 'm inv_middleware) amap"
  ir_next_order :: u64

definition invocation_registry_default :: "('h, 'm) invocation_registry" where
  "invocation_registry_default = \<lparr>ir_handlers = [], ir_middleware = [], ir_next_order = 0\<rparr>"

section \<open>Registration\<close>

definition register_handler ::
  "invocation_handler_id \<Rightarrow> scope_id \<Rightarrow> invocation_key \<Rightarrow> 'h \<Rightarrow> gate_ref \<Rightarrow> gate_store
    \<Rightarrow> ('h, 'm) invocation_registry \<Rightarrow> invocation_handler_id cres \<times> ('h, 'm) invocation_registry" where
  "register_handler fresh scope key handler gate g r =
     (if list_ex (\<lambda>entry. (is_visible g (ih_gate entry) \<or> ih_gate entry = gate) \<and>
            ih_scope entry = scope \<and> ih_key entry = key) (avals (ir_handlers r))
      then (Err (DuplicateInvocationHandler key), r)
      else (Ok fresh, r\<lparr>ir_handlers := aput fresh
              \<lparr>ih_scope = scope, ih_key = key, ih_handler = handler, ih_gate = gate\<rparr> (ir_handlers r)\<rparr>))"

definition register_middleware ::
  "invocation_middleware_id \<Rightarrow> scope_id \<Rightarrow> invocation_key \<Rightarrow> 'm \<Rightarrow> gate_ref
    \<Rightarrow> ('h, 'm) invocation_registry \<Rightarrow> invocation_middleware_id \<times> ('h, 'm) invocation_registry" where
  "register_middleware fresh scope key middleware gate r =
     (fresh, r\<lparr>ir_next_order := ir_next_order r + 1,
               ir_middleware := aput fresh \<lparr>mw_scope = scope, mw_key = key, mw_middleware = middleware,
                  mw_gate = gate, mw_order = ir_next_order r\<rparr> (ir_middleware r)\<rparr>)"

fun validate_handler_ids ::
  "gate_store \<Rightarrow> ('h, 'm) invocation_registry \<Rightarrow> invocation_handler_id list \<Rightarrow> invocation_handler_id list \<Rightarrow> unit cres" where
  "validate_handler_ids g r all_ids [] = Ok ()"
| "validate_handler_ids g r all_ids (i # is) = (case aget (ir_handlers r) i of
      None \<Rightarrow> Err FiberNotFound
    | Some entry \<Rightarrow>
        if list_ex (\<lambda>(j, candidate). j \<noteq> i \<and>
             (is_visible g (ih_gate candidate) \<or> j \<in> set all_ids) \<and>
             ih_scope candidate = ih_scope entry \<and> ih_key candidate = ih_key entry) (ir_handlers r)
        then Err (DuplicateInvocationHandler (ih_key entry))
        else validate_handler_ids g r all_ids is)"

definition validate_activation ::
  "gate_store \<Rightarrow> invocation_handler_id list \<Rightarrow> invocation_middleware_id list \<Rightarrow> ('h, 'm) invocation_registry \<Rightarrow> unit cres" where
  "validate_activation g handler_ids middleware_ids r =
     rbind (validate_handler_ids g r handler_ids handler_ids) (\<lambda>_.
       if list_ex (\<lambda>i. aget (ir_middleware r) i = None) middleware_ids then Err FiberNotFound
       else Ok ())"

definition remove_handler :: "invocation_handler_id \<Rightarrow> ('h, 'm) invocation_registry \<Rightarrow> bool \<times> ('h, 'm) invocation_registry" where
  "remove_handler i r = (aget (ir_handlers r) i \<noteq> None, r\<lparr>ir_handlers := adel i (ir_handlers r)\<rparr>)"

definition remove_middleware :: "invocation_middleware_id \<Rightarrow> ('h, 'm) invocation_registry \<Rightarrow> bool \<times> ('h, 'm) invocation_registry" where
  "remove_middleware i r = (aget (ir_middleware r) i \<noteq> None, r\<lparr>ir_middleware := adel i (ir_middleware r)\<rparr>)"

fun validate_revision_ids ::
  "gate_store \<Rightarrow> ('h, 'm) invocation_registry \<Rightarrow> invocation_handler_id list \<Rightarrow> invocation_handler_id list \<Rightarrow> scope_id
    \<Rightarrow> invocation_handler_id list \<Rightarrow> unit cres" where
  "validate_revision_ids g r old_ids staged_ids target [] = Ok ()"
| "validate_revision_ids g r old_ids staged_ids target (i # is) = (case aget (ir_handlers r) i of
      None \<Rightarrow> Err FiberNotFound
    | Some entry \<Rightarrow>
        if list_ex (\<lambda>(j, candidate). j \<notin> set old_ids \<and> j \<noteq> i \<and>
             (is_visible g (ih_gate candidate) \<or> j \<in> set staged_ids) \<and>
             ih_scope candidate = target \<and> ih_key candidate = ih_key entry) (ir_handlers r)
        then Err (DuplicateInvocationHandler (ih_key entry))
        else validate_revision_ids g r old_ids staged_ids target is)"

definition validate_invocation_revision ::
  "gate_store \<Rightarrow> invocation_handler_id list \<Rightarrow> invocation_handler_id list \<Rightarrow> scope_id \<Rightarrow> ('h, 'm) invocation_registry \<Rightarrow> unit cres" where
  "validate_invocation_revision g old_ids staged_ids target r =
     validate_revision_ids g r old_ids staged_ids target staged_ids"

definition commit_invocation_revision ::
  "invocation_handler_id list \<Rightarrow> invocation_middleware_id list \<Rightarrow> scope_id \<Rightarrow> ('h, 'm) invocation_registry
    \<Rightarrow> ('h, 'm) invocation_registry" where
  "commit_invocation_revision staged_handlers staged_middleware target r =
     r\<lparr>ir_handlers := fold (\<lambda>i. amod i (\<lambda>e. e\<lparr>ih_scope := target\<rparr>)) staged_handlers (ir_handlers r),
       ir_middleware := fold (\<lambda>i. amod i (\<lambda>e. e\<lparr>mw_scope := target\<rparr>)) staged_middleware (ir_middleware r)\<rparr>"

section \<open>Dispatch snapshot\<close>

fun find_in_scope ::
  "gate_store \<Rightarrow> scope_id \<Rightarrow> invocation_key \<Rightarrow> 'h inv_handler list \<Rightarrow> visibility_cache
    \<Rightarrow> 'h inv_handler option \<times> visibility_cache" where
  "find_in_scope g scope key [] cache = (None, cache)"
| "find_in_scope g scope key (entry # entries) cache =
     (case cache_visible g (ih_gate entry) cache of (visible, cache') \<Rightarrow>
        if visible \<and> ih_scope entry = scope \<and> ih_key entry = key then (Some entry, cache')
        else find_in_scope g scope key entries cache')"

text \<open>The scopes are tried from the leaf to the root.\<close>

fun find_handler ::
  "gate_store \<Rightarrow> invocation_key \<Rightarrow> 'h inv_handler list \<Rightarrow> scope_id list \<Rightarrow> visibility_cache
    \<Rightarrow> 'h inv_handler option \<times> visibility_cache" where
  "find_handler g key entries [] cache = (None, cache)"
| "find_handler g key entries (scope # scopes) cache =
     (case find_in_scope g scope key entries cache of
        (Some entry, cache') \<Rightarrow> (Some entry, cache')
      | (None, cache') \<Rightarrow> find_handler g key entries scopes cache')"

fun index_of :: "'a \<Rightarrow> 'a list \<Rightarrow> nat option" where
  "index_of x [] = None"
| "index_of x (y # ys) = (if y = x then Some 0 else map_option Suc (index_of x ys))"

fun collect_middleware ::
  "gate_store \<Rightarrow> invocation_key \<Rightarrow> scope_id list \<Rightarrow> 'm inv_middleware list \<Rightarrow> visibility_cache
    \<Rightarrow> (nat \<times> u64 \<times> 'm inv_middleware) list" where
  "collect_middleware g key scopes [] cache = []"
| "collect_middleware g key scopes (entry # entries) cache =
     (case index_of (mw_scope entry) scopes of
        None \<Rightarrow> collect_middleware g key scopes entries cache
      | Some depth \<Rightarrow> (case cache_visible g (mw_gate entry) cache of (visible, cache') \<Rightarrow>
          if visible \<and> mw_key entry = key
          then (depth, mw_order entry, entry) # collect_middleware g key scopes entries cache'
          else collect_middleware g key scopes entries cache'))"

definition sort_middleware :: "(nat \<times> u64 \<times> 'm inv_middleware) list \<Rightarrow> (nat \<times> u64 \<times> 'm inv_middleware) list" where
  "sort_middleware = sort_key (\<lambda>(depth, order, _). (depth, unat order))"

record ('h, 'm) invocation_snapshot =
  is_handler :: 'h
  is_middleware :: "'m list"
  is_leases :: "gate_ref list"

definition acquire_gate :: "gate_ref \<Rightarrow> gate_store \<Rightarrow> bool cres \<times> gate_store" where
  "acquire_gate = gate_try_acquire"

definition release_gate :: "gate_ref \<Rightarrow> gate_store \<Rightarrow> unit cres \<times> gate_store" where
  "release_gate gate = gate_drop_lease (GenerationLease gate False)"

text \<open>The selection of one attempt: the handler and the ordered middleware.\<close>

definition select_chain ::
  "gate_store \<Rightarrow> ('h, 'm) invocation_registry \<Rightarrow> scope_id list \<Rightarrow> invocation_key
    \<Rightarrow> ('h inv_handler \<times> 'm inv_middleware list) option" where
  "select_chain g r scopes key =
     (case find_handler g key (avals (ir_handlers r)) (rev scopes) [] of
        (None, _) \<Rightarrow> None
      | (Some h, cache) \<Rightarrow>
          Some (h, map (\<lambda>(_, _, e). e)
                 (sort_middleware (collect_middleware g key scopes (avals (ir_middleware r)) cache))))"

fun snapshot_attempts ::
  "(gate_store \<Rightarrow> gate_store) \<Rightarrow> ('h, 'm) invocation_registry \<Rightarrow> scope_id list \<Rightarrow> invocation_key
    \<Rightarrow> nat list \<Rightarrow> gate_store \<Rightarrow> ('h, 'm) invocation_snapshot cres \<times> gate_store" where
  "snapshot_attempts between r scopes key [] g = (Err InvocationGenerationChanged, g)"
| "snapshot_attempts between r scopes key (attempt # attempts) g =
     (case select_chain g r scopes key of
        None \<Rightarrow> (Err (InvocationHandlerNotFound key), g)
      | Some (h, ms) \<Rightarrow>
          sbind (acquire_all acquire_gate (ih_gate h # map mw_gate ms)) (\<lambda>(admitted, leases) g1.
            if \<not> admitted
            then sbind (release_all release_gate leases) (\<lambda>_ g2.
              if attempt = 0 then snapshot_attempts between r scopes key attempts (between g2)
              else (Err InvocationGenerationChanged, g2)) g1
            else (Ok \<lparr>is_handler = ih_handler h, is_middleware = map mw_middleware ms,
                      is_leases = leases\<rparr>, g1)) g)"

definition registry_snapshot ::
  "(gate_store \<Rightarrow> gate_store) \<Rightarrow> ('h, 'm) invocation_registry \<Rightarrow> scope_id list \<Rightarrow> invocation_key
    \<Rightarrow> gate_store \<Rightarrow> ('h, 'm) invocation_snapshot cres \<times> gate_store" where
  "registry_snapshot between r scopes key = snapshot_attempts between r scopes key [0, 1]"

section \<open>The chain\<close>

type_synonym 'w inv_call = "invocation_context \<Rightarrow> invocation_value \<Rightarrow> 'w \<Rightarrow> invocation_value cres \<times> 'w"

datatype 'w mw_step =
    MwDone "invocation_value cres" 'w
  | MwNext invocation_context invocation_value 'w
      "invocation_value cres \<Rightarrow> 'w \<Rightarrow> invocation_value cres \<times> 'w"

definition catch_as :: "(message \<Rightarrow> cordis_error) \<Rightarrow> 'a cres \<times> 'w \<Rightarrow> 'a cres \<times> 'w" where
  "catch_as f rw = (case rw of (Panicked p, w) \<Rightarrow> (Err (f (Lit p)), w) | (r, w) \<Rightarrow> (r, w))"

fun run_chain ::
  "('h \<Rightarrow> 'w inv_call) \<Rightarrow> ('m \<Rightarrow> invocation_context \<Rightarrow> invocation_value \<Rightarrow> 'w \<Rightarrow> 'w mw_step)
    \<Rightarrow> 'h \<Rightarrow> 'm list \<Rightarrow> 'w inv_call" where
  "run_chain call step handler [] ctx input w =
     catch_as InvocationHandlerPanicked (call handler ctx input w)"
| "run_chain call step handler (m # ms) ctx input w =
     catch_as InvocationMiddlewarePanicked (case step m ctx input w of
         MwDone r w1 \<Rightarrow> (r, w1)
       | MwNext ctx' input' w1 resume \<Rightarrow>
           (case run_chain call step handler ms ctx' input' w1 of (r, w2) \<Rightarrow> resume r w2))"

text \<open>\<open>invocation_handler_fn\<close>: a typed handler downcasts its request first.\<close>

definition typed_handler ::
  "nat \<Rightarrow> (invocation_context \<Rightarrow> native_value \<Rightarrow> 'w \<Rightarrow> native_value cres \<times> 'w) \<Rightarrow> 'w inv_call" where
  "typed_handler request_type f ctx input w = (case downcast_native request_type input of
      Ok request \<Rightarrow> (case f ctx request w of (r, w') \<Rightarrow> (rbind r (\<lambda>v. Ok (InvocationNative v)), w'))
    | _ \<Rightarrow> (Err (InvocationTypeMismatch (im_key (ic_metadata ctx))), w))"

text \<open>\<open>InvocationSnapshot::invoke\<close>: the leases live until the chain returns.\<close>

definition snapshot_invoke ::
  "('h \<Rightarrow> (gate_store \<times> 'u) inv_call)
    \<Rightarrow> ('m \<Rightarrow> invocation_context \<Rightarrow> invocation_value \<Rightarrow> gate_store \<times> 'u \<Rightarrow> (gate_store \<times> 'u) mw_step)
    \<Rightarrow> ('h, 'm) invocation_snapshot \<Rightarrow> (gate_store \<times> 'u) inv_call" where
  "snapshot_invoke call step snap ctx input w =
     (case run_chain call step (is_handler snap) (is_middleware snap) ctx input w of
        (r, w1) \<Rightarrow> (case release_all release_gate (is_leases snap) (fst w1) of
            (Ok _, g) \<Rightarrow> (r, (g, snd w1))
          | (Err e, g) \<Rightarrow> (Err e, (g, snd w1))
          | (Panicked p, g) \<Rightarrow> (Panicked p, (g, snd w1))))"

section \<open>Selection\<close>

definition cache_ok :: "gate_store \<Rightarrow> visibility_cache \<Rightarrow> bool" where
  "cache_ok g cache \<longleftrightarrow> (\<forall>k v. aget cache k = Some v \<longrightarrow> v = selector_active g k)"

lemma cache_ok_Nil [simp]: "cache_ok g []"
  by (simp add: cache_ok_def)

lemma cache_visible_ok:
  "cache_ok g cache \<Longrightarrow> \<exists>c. cache_visible g x cache = (is_visible g x, c) \<and> cache_ok g c"
  by (auto simp: cache_ok_def cache_visible_def is_visible_def Let_def split: option.splits)

definition handler_matches :: "gate_store \<Rightarrow> invocation_key \<Rightarrow> scope_id \<Rightarrow> 'h inv_handler \<Rightarrow> bool" where
  "handler_matches g key scope entry \<longleftrightarrow> is_visible g (ih_gate entry) \<and> ih_scope entry = scope \<and> ih_key entry = key"

lemma find_in_scope_find:
  "cache_ok g cache \<Longrightarrow>
     \<exists>c. find_in_scope g scope key entries cache = (find (handler_matches g key scope) entries, c) \<and> cache_ok g c"
proof (induction entries arbitrary: cache)
  case (Cons entry entries)
  obtain c where c: "cache_visible g (ih_gate entry) cache = (is_visible g (ih_gate entry), c)" "cache_ok g c"
    using cache_visible_ok [OF Cons.prems] by blast
  with Cons.IH [OF c(2)] Cons.prems show ?case by (auto simp: handler_matches_def)
qed simp

text \<open>The specification: the first scope from the leaf that has a matching entry.\<close>

fun nearest_handler :: "gate_store \<Rightarrow> invocation_key \<Rightarrow> 'h inv_handler list \<Rightarrow> scope_id list \<Rightarrow> 'h inv_handler option" where
  "nearest_handler g key entries [] = None"
| "nearest_handler g key entries (scope # scopes) = (case find (handler_matches g key scope) entries of
      Some e \<Rightarrow> Some e | None \<Rightarrow> nearest_handler g key entries scopes)"

lemma find_handler_nearest:
  "cache_ok g cache \<Longrightarrow>
     \<exists>c. find_handler g key entries scopes cache = (nearest_handler g key entries scopes, c) \<and> cache_ok g c"
proof (induction scopes arbitrary: cache)
  case (Cons scope scopes)
  obtain c where c: "find_in_scope g scope key entries cache = (find (handler_matches g key scope) entries, c)"
      "cache_ok g c"
    using find_in_scope_find [OF Cons.prems] by blast
  with Cons.IH [OF c(2)] show ?case by (auto split: option.splits)
qed simp

definition middleware_matches :: "gate_store \<Rightarrow> invocation_key \<Rightarrow> scope_id list \<Rightarrow> 'm inv_middleware \<Rightarrow> bool" where
  "middleware_matches g key scopes e \<longleftrightarrow>
     index_of (mw_scope e) scopes \<noteq> None \<and> is_visible g (mw_gate e) \<and> mw_key e = key"

lemma collect_middleware_filter:
  "cache_ok g cache \<Longrightarrow> collect_middleware g key scopes entries cache =
     map (\<lambda>e. (the (index_of (mw_scope e) scopes), mw_order e, e)) (filter (middleware_matches g key scopes) entries)"
proof (induction entries arbitrary: cache)
  case (Cons e entries)
  obtain c where "cache_visible g (mw_gate e) cache = (is_visible g (mw_gate e), c)" "cache_ok g c"
    using cache_visible_ok [OF Cons.prems] by blast
  with Cons show ?case by (auto simp: middleware_matches_def split: option.splits)
qed simp

lemma index_of_Some_iff: "index_of x xs \<noteq> None \<longleftrightarrow> x \<in> set xs"
  by (induction xs) auto

definition middleware_rank :: "scope_id list \<Rightarrow> 'm inv_middleware \<Rightarrow> nat \<times> nat" where
  "middleware_rank scopes e = (the (index_of (mw_scope e) scopes), unat (mw_order e))"

lemma sort_key_map: "sort_key f (map g xs) = map g (sort_key (f \<circ> g) xs)"
proof -
  have ins: "insort_key f (g x) (map g ys) = map g (insort_key (\<lambda>a. f (g a)) x ys)" for x ys
    by (induction ys) auto
  show ?thesis by (induction xs) (simp_all add: ins comp_def)
qed

lemma select_chain_spec:
  "select_chain g r scopes key =
     (case nearest_handler g key (avals (ir_handlers r)) (rev scopes) of
        None \<Rightarrow> None
      | Some h \<Rightarrow> Some (h, sort_key (middleware_rank scopes)
          (filter (middleware_matches g key scopes) (avals (ir_middleware r)))))"
proof -
  obtain c where c: "find_handler g key (avals (ir_handlers r)) (rev scopes) []
      = (nearest_handler g key (avals (ir_handlers r)) (rev scopes), c)" "cache_ok g c"
    using find_handler_nearest [OF cache_ok_Nil] by blast
  have eq: "(\<lambda>(depth, order, _). (depth, unat order)) \<circ>
      (\<lambda>e. (the (index_of (mw_scope e) scopes), mw_order e, e)) = middleware_rank scopes"
    by (auto simp: middleware_rank_def)
  show ?thesis
    using c by (simp add: select_chain_def collect_middleware_filter sort_middleware_def sort_key_map eq
        comp_def [of "\<lambda>(_, _, e). e"] split: option.splits)
qed

section \<open>Leases of a snapshot\<close>

lemma release_gate_eq: "release_gate = (\<lambda>gate. gate_drop_lease (GenerationLease gate False))"
  by (simp add: release_gate_def fun_eq_iff)

definition neutral_env :: "(gate_store \<Rightarrow> gate_store) \<Rightarrow> bool" where
  "neutral_env between \<longleftrightarrow> (\<forall>g. wf_gates g \<longrightarrow> wf_gates (between g) \<and>
     gate_plain (between g) = gate_plain g \<and> gate_free (between g) = gate_free g)"

definition room_for :: "nat \<Rightarrow> gate_store \<Rightarrow> bool" where
  "room_for n g \<longleftrightarrow> (\<forall>x. n \<le> gate_free g x)"

lemma count_list_le_length: "count_list xs x \<le> length xs"
  by (induction xs) auto

lemma select_chain_length:
  "select_chain g r scopes key = Some (h, ms) \<Longrightarrow> length ms \<le> length (ir_middleware r)"
  by (auto simp: select_chain_spec split: option.splits)

text \<open>What a snapshot call leaves behind: counted leases on success, nothing on failure.\<close>

definition snapshot_accounts ::
  "gate_store \<Rightarrow> ('h, 'm) invocation_snapshot cres \<Rightarrow> gate_store \<Rightarrow> bool" where
  "snapshot_accounts g res g' \<longleftrightarrow> wf_gates g' \<and> (case res of
      Panicked p \<Rightarrow> False
    | Err e \<Rightarrow> gate_plain g' = gate_plain g \<and> gate_free g' = gate_free g
    | Ok snap \<Rightarrow> gate_plain g' = (\<lambda>x. gate_plain g x + count_list (is_leases snap) x) \<and>
        gate_free g' = (\<lambda>x. gate_free g x - count_list (is_leases snap) x) \<and>
        length (is_leases snap) = Suc (length (is_middleware snap)))"

lemma snapshot_attempts_accounts:
  assumes "neutral_env between"
  shows "wf_gates g \<Longrightarrow> room_for (Suc (length (ir_middleware r))) g \<Longrightarrow>
    snapshot_attempts between r scopes key attempts g = (res, g') \<Longrightarrow> snapshot_accounts g res g'"
proof (induction attempts arbitrary: g)
  case Nil
  then show ?case by (auto simp: snapshot_accounts_def)
next
  case (Cons a attempts)
  show ?case
  proof (cases "select_chain g r scopes key")
    case None
    with Cons.prems show ?thesis by (auto simp: snapshot_accounts_def)
  next
    case (Some hm)
    obtain h ms where hm: "hm = (h, ms)" by (cases hm)
    let ?gs = "ih_gate h # map mw_gate ms"
    have room: "count_list ?gs x \<le> gate_free g x" for x
      using Cons.prems(2) select_chain_length [OF Some [unfolded hm]] count_list_le_length [of ?gs x]
      unfolding room_for_def by (metis Suc_le_mono le_trans length_Cons length_map)
    from plain.acquire_all_spec [OF Cons.prems(1) room]
    obtain b ls g1 where g1: "acquire_all acquire_gate ?gs g = (Ok (b, ls), g1)" "wf_gates g1"
        "gate_plain g1 = (\<lambda>x. gate_plain g x + count_list ls x)"
        "gate_free g1 = (\<lambda>x. gate_free g x - count_list ls x)"
        "ls = takeWhile (gate_accepting g) ?gs" "b \<longleftrightarrow> (\<forall>x \<in> set ?gs. gate_accepting g x)"
      unfolding acquire_gate_def by blast
    show ?thesis
    proof (cases b)
      case True
      with g1(5,6) have "ls = ?gs" by (simp add: takeWhile_eq_all_conv)
      then have len: "length ls = Suc (length ms)" by simp
      have "res = Ok \<lparr>is_handler = ih_handler h, is_middleware = map mw_middleware ms, is_leases = ls\<rparr>" "g' = g1"
        using True Cons.prems(3) Some hm g1(1) by simp_all
      with g1(2-4) len show ?thesis by (simp add: snapshot_accounts_def)
    next
      case False
      from plain.acquire_release [OF Cons.prems(1) room g1(1) [unfolded acquire_gate_def]]
      obtain g2 where g2: "release_all release_gate ls g1 = (Ok (), g2)" "wf_gates g2"
          "gate_plain g2 = gate_plain g" "gate_free g2 = gate_free g"
        unfolding release_gate_eq by blast
      have env: "wf_gates (between g2)" "gate_plain (between g2) = gate_plain g" "gate_free (between g2) = gate_free g"
        using assms g2 by (simp_all add: neutral_env_def)
      then have room2: "room_for (Suc (length (ir_middleware r))) (between g2)"
        using Cons.prems(2) by (simp add: room_for_def)
      show ?thesis
      proof (cases "a = 0")
        case True
        with False Cons.prems(3) Some hm g1(1) g2(1)
        have "snapshot_attempts between r scopes key attempts (between g2) = (res, g')" by simp
        from Cons.IH [OF env(1) room2 this] show ?thesis
          by (cases res) (simp_all add: snapshot_accounts_def env(2,3) g2(3,4))
      next
        case a: False
        with False Cons.prems(3) Some hm g1(1) g2 show ?thesis by (auto simp: snapshot_accounts_def)
      qed
    qed
  qed
qed

section \<open>Panics stay inside the chain\<close>

lemma catch_as_not_panicked: "fst (catch_as f rw) \<noteq> Panicked p"
  by (cases rw; cases "fst rw") (auto simp: catch_as_def)

lemma catch_as_snd [simp]: "snd (catch_as f rw) = snd rw"
  by (cases rw; cases "fst rw") (auto simp: catch_as_def)

lemma run_chain_not_panicked: "fst (run_chain call step h ms ctx input w) \<noteq> Panicked p"
  by (cases ms) (simp_all add: catch_as_not_panicked)


text \<open>User code that leaves the gates' lease counters as it found them.\<close>

definition same_counts :: "gate_store \<times> 'u \<Rightarrow> gate_store \<times> 'u \<Rightarrow> bool" where
  "same_counts w w' \<longleftrightarrow> wf_gates (fst w') \<and> gate_plain (fst w') = gate_plain (fst w)"

definition neutral_handler :: "('h \<Rightarrow> (gate_store \<times> 'u) inv_call) \<Rightarrow> bool" where
  "neutral_handler call \<longleftrightarrow> (\<forall>h ctx input w. wf_gates (fst w) \<longrightarrow> same_counts w (snd (call h ctx input w)))"

definition neutral_middleware ::
  "('m \<Rightarrow> invocation_context \<Rightarrow> invocation_value \<Rightarrow> gate_store \<times> 'u \<Rightarrow> (gate_store \<times> 'u) mw_step) \<Rightarrow> bool" where
  "neutral_middleware step \<longleftrightarrow> (\<forall>m ctx input w. wf_gates (fst w) \<longrightarrow> (case step m ctx input w of
      MwDone r w' \<Rightarrow> same_counts w w'
    | MwNext ctx' input' w' resume \<Rightarrow> same_counts w w' \<and>
        (\<forall>r w2. wf_gates (fst w2) \<longrightarrow> same_counts w2 (snd (resume r w2)))))"

lemma same_counts_trans: "same_counts w w1 \<Longrightarrow> same_counts w1 w2 \<Longrightarrow> same_counts w w2"
  by (simp add: same_counts_def)

lemma run_chain_counts:
  assumes "neutral_handler call" and "neutral_middleware step"
  shows "wf_gates (fst w) \<Longrightarrow> same_counts w (snd (run_chain call step handler ms ctx input w))"
proof (induction ms arbitrary: ctx input w)
  case Nil
  then show ?case using assms(1) unfolding neutral_handler_def run_chain.simps catch_as_snd by blast
next
  case (Cons m ms)
  have step: "case step m ctx input w of
      MwDone r w' \<Rightarrow> same_counts w w'
    | MwNext ctx' input' w' resume \<Rightarrow> same_counts w w' \<and>
        (\<forall>r w2. wf_gates (fst w2) \<longrightarrow> same_counts w2 (snd (resume r w2)))"
    using assms(2) Cons.prems unfolding neutral_middleware_def by blast
  show ?case
  proof (cases "step m ctx input w")
    case (MwDone r w')
    with step show ?thesis by simp
  next
    case (MwNext ctx' input' w' resume)
    with step have 1: "same_counts w w'" "\<And>r w2. wf_gates (fst w2) \<Longrightarrow> same_counts w2 (snd (resume r w2))"
      by (simp_all del: split_paired_All)
    have 2: "same_counts w' (snd (run_chain call step handler ms ctx' input' w'))"
      using Cons.IH 1(1) by (simp add: same_counts_def)
    then have 3: "wf_gates (fst (snd (run_chain call step handler ms ctx' input' w')))"
      by (simp add: same_counts_def)
    show ?thesis
      using MwNext same_counts_trans [OF same_counts_trans [OF 1(1) 2] 1(2) [OF 3]]
      by (simp add: split_beta)
  qed
qed

lemma release_counts:
  assumes "wf_gates g" and "\<forall>x. count_list ls x \<le> gate_plain g x"
  shows "\<exists>g'. release_all release_gate ls g = (Ok (), g') \<and> wf_gates g' \<and>
    gate_plain g' = (\<lambda>x. gate_plain g x - count_list ls x)"
  using plain.release_all_spec [OF assms(1)] assms(2) unfolding release_gate_eq by blast

section \<open>Properties\<close>

text \<open>
  C9. Selection of an invocation: the handler is a visible handler of the key in the scope nearest
  to the caller, and the middleware is exactly the visible middleware of the key along the
  caller's ancestry, ordered from the root scope to the leaf and by registration order.
\<close>

theorem invocation_selection_correct:
  assumes "select_chain g r scopes key = Some (h, ms)"
  shows "(\<exists>i < length scopes. h \<in> set (avals (ir_handlers r)) \<and> handler_matches g key (scopes ! i) h \<and>
      (\<forall>j. i < j \<and> j < length scopes \<longrightarrow>
        (\<forall>e \<in> set (avals (ir_handlers r)). \<not> handler_matches g key (scopes ! j) e))) \<and>
    sorted (map (middleware_rank scopes) ms) \<and>
    mset ms = mset (filter (middleware_matches g key scopes) (avals (ir_middleware r)))"
proof -
  have nearest: "\<exists>i < length xs. h \<in> set es \<and> handler_matches g key (xs ! i) h \<and>
      (\<forall>j < i. \<forall>e \<in> set es. \<not> handler_matches g key (xs ! j) e)"
    if "nearest_handler g key es xs = Some h" for xs es
    using that
  proof (induction xs)
    case (Cons x xs)
    show ?case
    proof (cases "find (handler_matches g key x) es")
      case None
      with Cons obtain i where "i < length xs" "h \<in> set es" "handler_matches g key (xs ! i) h"
        "\<forall>j < i. \<forall>e \<in> set es. \<not> handler_matches g key (xs ! j) e" by auto
      with None show ?thesis
        by (intro exI [of _ "Suc i"]) (auto simp: less_Suc_eq_0_disj find_None_iff)
    next
      case (Some e)
      with Cons.prems show ?thesis by (intro exI [of _ 0]) (auto simp: find_Some_iff)
    qed
  qed simp
  have "nearest_handler g key (avals (ir_handlers r)) (rev scopes) = Some h"
    using assms by (auto simp: select_chain_spec split: option.splits)
  from nearest [OF this] obtain i where i: "i < length scopes" "h \<in> set (avals (ir_handlers r))"
      "handler_matches g key (rev scopes ! i) h"
      "\<forall>j < i. \<forall>e \<in> set (avals (ir_handlers r)). \<not> handler_matches g key (rev scopes ! j) e"
    by (metis length_rev)
  have far: "\<not> handler_matches g key (scopes ! j) e"
    if "length scopes - Suc i < j" "j < length scopes" "e \<in> set (avals (ir_handlers r))" for j e
  proof -
    have "length scopes - Suc j < i" "rev scopes ! (length scopes - Suc j) = scopes ! j"
      using that by (simp_all add: rev_nth)
    with i(4) that(3) show ?thesis by metis
  qed
  have near: "handler_matches g key (scopes ! (length scopes - Suc i)) h" using i(1,3) by (simp add: rev_nth)
  have "\<exists>i < length scopes. h \<in> set (avals (ir_handlers r)) \<and> handler_matches g key (scopes ! i) h \<and>
      (\<forall>j. i < j \<and> j < length scopes \<longrightarrow>
        (\<forall>e \<in> set (avals (ir_handlers r)). \<not> handler_matches g key (scopes ! j) e))"
    using i(1,2) near far by (intro exI [of _ "length scopes - Suc i"]) auto
  moreover have "ms = sort_key (middleware_rank scopes)
      (filter (middleware_matches g key scopes) (avals (ir_middleware r)))"
    using assms by (auto simp: select_chain_spec split: option.splits)
  ultimately show ?thesis by simp
qed

definition echo_key :: invocation_key where
  "echo_key = InvocationKey ''demo'' ''echo'' 1"

definition example_invocations :: "(nat, nat) invocation_registry" where
  "example_invocations = snd (register_middleware 1 0 echo_key 8 0
     (snd (register_handler 0 0 echo_key 7 0 example_gates invocation_registry_default)))"

lemma example_invocations_eq:
  "example_invocations = \<lparr>ir_handlers = [(0, \<lparr>ih_scope = 0, ih_key = echo_key, ih_handler = 7, ih_gate = 0\<rparr>)],
     ir_middleware = [(1, \<lparr>mw_scope = 0, mw_key = echo_key, mw_middleware = 8, mw_gate = 0, mw_order = 0\<rparr>)],
     ir_next_order = 1\<rparr>"
  by (simp add: example_invocations_def register_middleware_def register_handler_def
      invocation_registry_default_def)

lemma example_visible: "is_visible example_gates 0"
  by (simp add: is_visible_def selector_active_def example_gates_def staged_def)

lemma example_selection:
  "select_chain example_gates example_invocations [0, 5] echo_key =
     Some (\<lparr>ih_scope = 0, ih_key = echo_key, ih_handler = 7, ih_gate = 0\<rparr>,
       [\<lparr>mw_scope = 0, mw_key = echo_key, mw_middleware = 8, mw_gate = 0, mw_order = 0\<rparr>])"
  by (simp add: select_chain_spec example_invocations_eq handler_matches_def middleware_matches_def
      example_visible)

theorem invocation_selection_correct_witness:
  "mset (snd (the (select_chain example_gates example_invocations [0, 5] echo_key))) =
     mset (filter (middleware_matches example_gates echo_key [0, 5]) (avals (ir_middleware example_invocations)))"
  using invocation_selection_correct [OF example_selection] by (simp add: example_selection)

text \<open>
  Leases of an invocation: taking the dispatch snapshot and running the chain returns the gates
  with the plain lease counters they had, whatever branch was taken, and no panic escapes; a
  failed snapshot gives back every lease of both attempts.
\<close>

theorem invocation_leases_balance:
  assumes "neutral_env between" and "neutral_handler call" and "neutral_middleware step"
    and "wf_gates g" and "room_for (Suc (length (ir_middleware r))) g"
    and "registry_snapshot between r scopes key g = (res, g1)"
  shows "case res of Panicked p \<Rightarrow> False
    | Err e \<Rightarrow> gate_plain g1 = gate_plain g \<and> gate_free g1 = gate_free g
    | Ok snap \<Rightarrow> \<exists>out g2 u2. snapshot_invoke call step snap ctx input (g1, u) = (out, (g2, u2)) \<and>
        (\<forall>p. out \<noteq> Panicked p) \<and> wf_gates g2 \<and> gate_plain g2 = gate_plain g"
proof -
  have acc: "snapshot_accounts g res g1"
    by (rule snapshot_attempts_accounts [OF assms(1,4,5) assms(6) [unfolded registry_snapshot_def]])
  show ?thesis
  proof (cases res)
    case (Ok snap)
    let ?run = "run_chain call step (is_handler snap) (is_middleware snap) ctx input (g1, u)"
    have g1: "wf_gates g1" "gate_plain g1 = (\<lambda>x. gate_plain g x + count_list (is_leases snap) x)"
      using acc Ok by (simp_all add: snapshot_accounts_def)
    have run: "wf_gates (fst (snd ?run))" "gate_plain (fst (snd ?run)) = gate_plain g1"
      using run_chain_counts [OF assms(2,3)] g1(1) by (auto simp: same_counts_def)
    have "\<forall>x. count_list (is_leases snap) x \<le> gate_plain (fst (snd ?run)) x"
      by (simp add: run(2) g1(2))
    from release_counts [OF run(1) this] obtain g2 where g2:
        "release_all release_gate (is_leases snap) (fst (snd ?run)) = (Ok (), g2)" "wf_gates g2"
        "gate_plain g2 = gate_plain g"
      by (auto simp: run(2) g1(2))
    then have "snapshot_invoke call step snap ctx input (g1, u) = (fst ?run, (g2, snd (snd ?run)))"
      by (simp add: snapshot_invoke_def split_beta)
    with g2 show ?thesis using Ok by (simp add: run_chain_not_panicked)
  qed (use acc in \<open>simp_all add: snapshot_accounts_def\<close>)
qed

definition example_context :: invocation_context where
  "example_context = \<lparr>ic_metadata = invocation_metadata_new 1 echo_key 5 3, ic_deadline = 100\<rparr>"

theorem invocation_leases_balance_witness:
  "\<exists>snap g1 out g2 u2. registry_snapshot (\<lambda>g. g) example_invocations [0, 5] echo_key example_gates = (Ok snap, g1) \<and>
     snapshot_invoke (\<lambda>h ctx input w. (Ok input, w)) (\<lambda>m ctx input w. MwNext ctx input w Pair) snap example_context
       (InvocationExternal ''json'' []) (g1, ()) = (out, (g2, u2)) \<and> gate_plain g2 = gate_plain example_gates"
proof -
  have g: "room_for (Suc (length (ir_middleware example_invocations))) example_gates"
    by (simp add: room_for_def example_invocations_eq gate_free_def gate_inflight_def exec_inflight_def
        example_gates_def staged_def generation_execution_default_def unat_inflight max_inflight
        EXECUTION_ACCEPTING_def)
  have acc: "gate_accepting example_gates x" for x
    by (simp add: gate_accepting_def example_gates_def staged_def exec_accepting_def
        generation_execution_default_def execution_state_def execution_consts)
  have "count_list [0, 0] x \<le> gate_free example_gates x" for x
    using g count_list_le_length [of "[0, 0 :: nat]" x]
    by (simp add: room_for_def example_invocations_eq)
  from plain.acquire_all_spec [OF example_gates_wf this] acc
  obtain ls g1 where g1: "acquire_all acquire_gate [0, 0] example_gates = (Ok (True, ls), g1)"
    unfolding acquire_gate_def by auto
  obtain snap where snap:
      "registry_snapshot (\<lambda>g. g) example_invocations [0, 5] echo_key example_gates = (Ok snap, g1)"
    using g1 by (simp add: registry_snapshot_def example_selection)
  have n: "neutral_env (\<lambda>g. g)" "neutral_handler (\<lambda>(h :: nat) ctx input (w :: gate_store \<times> unit). (Ok input, w))"
      "neutral_middleware (\<lambda>(m :: nat) ctx input (w :: gate_store \<times> unit). MwNext ctx input w Pair)"
    by (simp_all add: neutral_env_def neutral_handler_def neutral_middleware_def same_counts_def)
  from invocation_leases_balance [OF n example_gates_wf g snap, of example_context "InvocationExternal ''json'' []" "()"]
  obtain out g2 u2 where "snapshot_invoke (\<lambda>h ctx input w. (Ok input, w)) (\<lambda>m ctx input w. MwNext ctx input w Pair) snap
      example_context (InvocationExternal ''json'' []) (g1, ()) = (out, (g2, u2))"
    "gate_plain g2 = gate_plain example_gates" by auto
  with snap show ?thesis by blast
qed

definition handlers_unique :: "gate_store \<Rightarrow> ('h, 'm) invocation_registry \<Rightarrow> bool" where
  "handlers_unique g r \<longleftrightarrow> (\<forall>i e j f. aget (ir_handlers r) i = Some e \<longrightarrow> aget (ir_handlers r) j = Some f \<longrightarrow>
     is_visible g (ih_gate e) \<longrightarrow> is_visible g (ih_gate f) \<longrightarrow>
     ih_scope e = ih_scope f \<longrightarrow> ih_key e = ih_key f \<longrightarrow> i = j)"

lemma validate_handler_ids_Ok:
  "validate_handler_ids g r all_ids is = Ok () \<Longrightarrow> i \<in> set is \<Longrightarrow> aget (ir_handlers r) i = Some e \<Longrightarrow>
   aget (ir_handlers r) j = Some f \<Longrightarrow> j \<noteq> i \<Longrightarrow> is_visible g (ih_gate f) \<or> j \<in> set all_ids \<Longrightarrow>
   \<not> (ih_scope f = ih_scope e \<and> ih_key f = ih_key e)"
proof (induction "is")
  case (Cons k ks)
  have "(j, f) \<in> set (ir_handlers r)" using Cons.prems(4) by (simp add: map_of_SomeD)
  with Cons show ?case by (fastforce simp: list_ex_iff split: option.splits if_splits)
qed simp

text \<open>The handlers of one generation are those a Fiber registered behind its gate.\<close>

definition generation_handlers :: "gate_store \<Rightarrow> gate_ref \<Rightarrow> invocation_handler_id list \<Rightarrow> ('h, 'm) invocation_registry \<Rightarrow> bool" where
  "generation_handlers g gate ids r \<longleftrightarrow> (\<forall>i e. aget (ir_handlers r) i = Some e \<longrightarrow>
     (ih_gate e = gate \<longleftrightarrow> i \<in> set ids) \<and>
     (ih_gate e \<noteq> gate \<longrightarrow> cg_selector (gs_gate g (ih_gate e)) \<noteq> cg_selector (gs_gate g gate) \<or>
        cg_generation (gs_gate g (ih_gate e)) \<noteq> cg_generation (gs_gate g gate)))"

text \<open>
  C10. A validated activation keeps invocation routing unambiguous: when \<open>validate_activation\<close> accepts
  the handlers of a generation and the generation is then published, there is still at most one
  visible handler for each scope and key.
\<close>

theorem activation_keeps_handlers_unique:
  assumes "handlers_unique g r" and "generation_handlers g gate ids r"
    and "validate_activation g ids mids r = Ok ()" and "publish gate g = (True, g')"
  shows "handlers_unique g' r"
proof -
  note pub = publish_True [OF assms(4)]
  have val: "validate_handler_ids g r ids ids = Ok ()"
    using assms(3) by (auto simp: validate_activation_def rbind_Ok_iff)
  have old: "is_visible g (ih_gate e)"
    if "aget (ir_handlers r) i = Some e" "i \<notin> set ids" "is_visible g' (ih_gate e)" for i e
  proof -
    have "ih_gate e \<noteq> gate" using assms(2) that(1,2) by (auto simp: generation_handlers_def)
    then have "cg_selector (gs_gate g (ih_gate e)) \<noteq> cg_selector (gs_gate g gate) \<or>
        cg_generation (gs_gate g (ih_gate e)) \<noteq> cg_generation (gs_gate g gate)"
      using assms(2) that(1) by (auto simp: generation_handlers_def)
    then show ?thesis
      using that(3) by (auto simp: is_visible_def selector_active_def pub(2,5) split: if_splits)
  qed
  show ?thesis
    unfolding handlers_unique_def
  proof (intro allI impI, rule ccontr)
    fix i e j f
    assume h: "aget (ir_handlers r) i = Some e" "aget (ir_handlers r) j = Some f"
        "is_visible g' (ih_gate e)" "is_visible g' (ih_gate f)"
        "ih_scope e = ih_scope f" "ih_key e = ih_key f" "i \<noteq> j"
    consider "i \<in> set ids" | "j \<in> set ids" | "i \<notin> set ids" "j \<notin> set ids" by blast
    then show False
    proof cases
      case 1
      with validate_handler_ids_Ok [OF val 1 h(1,2)] old [OF h(2) _ h(4)] h show False by metis
    next
      case 2
      with validate_handler_ids_Ok [OF val 2 h(2,1)] old [OF h(1) _ h(3)] h show False by metis
    next
      case 3
      with old [OF h(1) _ h(3)] old [OF h(2) _ h(4)] assms(1) h show False
        unfolding handlers_unique_def by metis
    qed
  qed
qed

text \<open>Two plugins of one scope, each staged behind its own selector, register the same key.\<close>

definition racing_gates :: gate_store where
  "racing_gates = \<lparr>gs_selector = \<lambda>_. GEN_NONE, gs_gate = \<lambda>g. staged g 1\<rparr>"

definition racing_invocations :: "(nat, nat) invocation_registry" where
  "racing_invocations = snd (register_handler 2 0 echo_key 8 1 racing_gates
     (snd (register_handler 1 0 echo_key 7 0 racing_gates invocation_registry_default)))"

lemma racing_eq:
  "racing_invocations = \<lparr>ir_handlers = [(1, \<lparr>ih_scope = 0, ih_key = echo_key, ih_handler = 7, ih_gate = 0\<rparr>),
     (2, \<lparr>ih_scope = 0, ih_key = echo_key, ih_handler = 8, ih_gate = 1\<rparr>)], ir_middleware = [], ir_next_order = 0\<rparr>"
  by (simp add: racing_invocations_def register_handler_def invocation_registry_default_def is_visible_def
      selector_active_def racing_gates_def staged_def GEN_NONE_def)

lemma racing_publish:
  "publish 0 racing_gates = (True, racing_gates\<lparr>gs_selector := (\<lambda>_. GEN_NONE)(0 := 1)\<rparr>)"
  by (simp add: publish_def selector_switch_def racing_gates_def staged_def)

theorem activation_keeps_handlers_unique_witness:
  "handlers_unique (snd (publish 0 racing_gates)) racing_invocations"
proof -
  have "handlers_unique racing_gates racing_invocations"
    by (simp add: handlers_unique_def is_visible_def selector_active_def racing_gates_def staged_def GEN_NONE_def)
  moreover have "generation_handlers racing_gates 0 [1] racing_invocations"
    by (auto simp: generation_handlers_def racing_eq racing_gates_def staged_def split: if_splits)
  moreover have "validate_activation racing_gates [1] [] racing_invocations = Ok ()"
    by (simp add: validate_activation_def racing_eq is_visible_def selector_active_def racing_gates_def
        staged_def GEN_NONE_def)
  ultimately show ?thesis using activation_keeps_handlers_unique racing_publish by fastforce
qed

text \<open>
  The validation of an activation and its publication are separate steps. Two staged generations
  of one scope that both pass \<open>validate_activation\<close> before either is published are then both
  published, and two handlers of the same scope and key are visible.
\<close>

theorem concurrent_activations_collide:
  "validate_activation racing_gates [1] [] racing_invocations = Ok () \<and>
   validate_activation racing_gates [2] [] racing_invocations = Ok () \<and>
   (case publish 0 racing_gates of (b0, g0) \<Rightarrow> case publish 1 g0 of (b1, g1) \<Rightarrow>
      b0 \<and> b1 \<and> \<not> handlers_unique g1 racing_invocations)"
proof -
  let ?g1 = "racing_gates\<lparr>gs_selector := (\<lambda>_. GEN_NONE)(0 := 1, 1 := 1)\<rparr>"
  have "publish 1 (snd (publish 0 racing_gates)) = (True, ?g1)"
    by (simp add: racing_publish publish_def selector_switch_def racing_gates_def staged_def)
  moreover have "\<not> handlers_unique ?g1 racing_invocations"
  proof
    assume "handlers_unique ?g1 racing_invocations"
    from this [unfolded handlers_unique_def, rule_format, of 1
        "\<lparr>ih_scope = 0, ih_key = echo_key, ih_handler = 7, ih_gate = 0\<rparr>" 2
        "\<lparr>ih_scope = 0, ih_key = echo_key, ih_handler = 8, ih_gate = 1\<rparr>"] show False
      by (simp add: racing_eq is_visible_def selector_active_def racing_gates_def staged_def)
  qed
  moreover have "validate_activation racing_gates [1] [] racing_invocations = Ok ()"
      "validate_activation racing_gates [2] [] racing_invocations = Ok ()"
    by (simp_all add: validate_activation_def racing_eq is_visible_def selector_active_def racing_gates_def
        staged_def GEN_NONE_def)
  ultimately show ?thesis by (simp add: racing_publish)
qed

end
