(* ===== verification/Shutdown_Coordinator.thy ===== *)
theory Shutdown_Coordinator
  imports Interfaces Disposal
begin

text \<open>
  The shutdown coordinator (\<^verbatim>\<open>shutdown_coordinator.rs\<close>): one convergence attempt at a time, whose
  outcome is published once to every caller that observes it.

  A completion is shared by reference: \<open>sc_outcomes\<close> maps a completion to its outcome slot. \<open>start\<close>
  spawns the supervisor task; \<open>coordinator_step\<close> adds the supervisors that are still running.
\<close>

datatype runtime_shutdown_state = ShutdownRunning | ShutdownInProgress | ShutdownIncomplete | ShutdownComplete

datatype shutdown_blocker =
    BlockFiber fiber_id
  | BlockHostedExecution fiber_id
  | BlockScope scope_id
  | BlockRuntimeWorkers usize
  | BlockTasks usize
  | BlockGenerationInflight fiber_id u64 usize usize
  | BlockReloadTransactions usize
  | BlockStaging usize usize

datatype shutdown_outcome =
    OutcomeComplete
  | OutcomeCompleteWithIssues "cleanup_issue list"
  | ShutdownOutcomeIncomplete "shutdown_blocker list" "cleanup_issue list"

section \<open>Completions\<close>

type_synonym shutdown_completion = "shutdown_outcome option"

definition completion_outcome :: "shutdown_completion \<Rightarrow> shutdown_outcome option" where
  "completion_outcome slot = slot"

definition publish_outcome :: "shutdown_outcome \<Rightarrow> shutdown_completion \<Rightarrow> bool \<times> shutdown_completion" where
  "publish_outcome outcome slot = (case slot of Some _ \<Rightarrow> (False, slot) | None \<Rightarrow> (True, Some outcome))"

interpretation shutdown_slot: one_shot publish_outcome completion_outcome
  by unfold_locales (auto simp: publish_outcome_def completion_outcome_def split: option.splits)

section \<open>The coordinator\<close>

type_synonym completion_ref = nat

record shutdown_operation =
  so_completion :: completion_ref
  so_supervisor_active :: bool

record shutdown_coordinator =
  sc_lifecycle :: runtime_shutdown_state
  sc_operation :: "shutdown_operation option"
  sc_outcomes :: "completion_ref \<Rightarrow> shutdown_completion"

definition coordinator_default :: shutdown_coordinator where
  "coordinator_default = \<lparr>sc_lifecycle = ShutdownRunning, sc_operation = None, sc_outcomes = \<lambda>_. None\<rparr>"

text \<open>The result is the completion and whether a supervisor was started.\<close>

definition start_or_observe ::
  "completion_ref \<Rightarrow> shutdown_coordinator \<Rightarrow> (completion_ref \<times> bool) \<times> shutdown_coordinator" where
  "start_or_observe fresh s =
     (let observed = (case sc_operation s of
            None \<Rightarrow> None
          | Some operation \<Rightarrow>
              if completion_outcome (sc_outcomes s (so_completion operation)) = None \<or>
                 sc_lifecycle s = ShutdownComplete
              then Some (so_completion operation) else None)
      in case observed of
           Some completion \<Rightarrow> ((completion, False), s)
         | None \<Rightarrow> ((fresh, True),
             s\<lparr>sc_lifecycle := ShutdownInProgress,
               sc_outcomes := (sc_outcomes s)(fresh := None),
               sc_operation := Some \<lparr>so_completion = fresh, so_supervisor_active = True\<rparr>\<rparr>))"

text \<open>The first component is \<open>published\<close>, which the code asserts.\<close>

definition shutdown_finish ::
  "shutdown_outcome \<Rightarrow> completion_ref \<Rightarrow> shutdown_coordinator \<Rightarrow> bool \<times> shutdown_coordinator" where
  "shutdown_finish outcome completion s =
     (let lifecycle = (case outcome of ShutdownOutcomeIncomplete _ _ \<Rightarrow> ShutdownIncomplete | _ \<Rightarrow> ShutdownComplete);
          (published, slot) = publish_outcome outcome (sc_outcomes s completion)
      in (published,
          s\<lparr>sc_lifecycle := lifecycle,
            sc_operation := map_option (\<lambda>op. op\<lparr>so_supervisor_active := False\<rparr>) (sc_operation s),
            sc_outcomes := (sc_outcomes s)(completion := slot)\<rparr>))"

definition coordinator_snapshot ::
  "shutdown_coordinator \<Rightarrow> runtime_shutdown_state \<times> shutdown_outcome option \<times> bool" where
  "coordinator_snapshot s =
     (sc_lifecycle s,
      (case sc_operation s of None \<Rightarrow> None | Some op \<Rightarrow> completion_outcome (sc_outcomes s (so_completion op))),
      sc_lifecycle s = ShutdownInProgress)"

section \<open>Supervisors\<close>

text \<open>
  The system adds the running supervisors, the completions ever handed out and whether an assertion
  of \<open>shutdown_finish\<close> failed. A supervisor ends by calling \<open>shutdown_finish\<close> with its completion.
\<close>

record shutdown_system =
  sy_coordinator :: shutdown_coordinator
  sy_running :: "completion_ref list"
  sy_used :: "completion_ref list"
  sy_asserted :: bool

inductive coordinator_step :: "shutdown_system \<Rightarrow> shutdown_system \<Rightarrow> bool" where
  Request: "fresh \<notin> set (sy_used s) \<Longrightarrow>
     start_or_observe fresh (sy_coordinator s) = ((completion, started), c') \<Longrightarrow>
     coordinator_step s (s\<lparr>sy_coordinator := c',
       sy_running := (if started then completion # sy_running s else sy_running s),
       sy_used := (if started then fresh # sy_used s else sy_used s)\<rparr>)"
| Finish: "completion \<in> set (sy_running s) \<Longrightarrow>
     shutdown_finish outcome completion (sy_coordinator s) = (published, c') \<Longrightarrow>
     coordinator_step s (s\<lparr>sy_coordinator := c', sy_running := remove1 completion (sy_running s),
       sy_asserted := sy_asserted s \<and> published\<rparr>)"

definition coordinator_init :: "shutdown_system \<Rightarrow> bool" where
  "coordinator_init s \<longleftrightarrow> s = \<lparr>sy_coordinator = coordinator_default, sy_running = [], sy_used = [], sy_asserted = True\<rparr>"

interpretation coordinator: transition_system coordinator_init coordinator_step .

inductive_cases coordinator_stepE: "coordinator_step s t"

text \<open>What every reachable state satisfies.\<close>

definition coordinator_inv :: "shutdown_system \<Rightarrow> bool" where
  "coordinator_inv s \<longleftrightarrow>
     sy_asserted s \<and> set (sy_running s) \<subseteq> set (sy_used s) \<and>
     (case sc_operation (sy_coordinator s) of
        None \<Rightarrow> sc_lifecycle (sy_coordinator s) = ShutdownRunning \<and> sy_running s = []
      | Some op \<Rightarrow> so_completion op \<in> set (sy_used s) \<and>
          (case sc_outcomes (sy_coordinator s) (so_completion op) of
             None \<Rightarrow> sc_lifecycle (sy_coordinator s) = ShutdownInProgress \<and> so_supervisor_active op \<and>
               sy_running s = [so_completion op]
           | Some outcome \<Rightarrow> \<not> so_supervisor_active op \<and> sy_running s = [] \<and>
               sc_lifecycle (sy_coordinator s) = (case outcome of
                 ShutdownOutcomeIncomplete _ _ \<Rightarrow> ShutdownIncomplete | _ \<Rightarrow> ShutdownComplete)))"

lemma coordinator_inv_init: "coordinator_init s \<Longrightarrow> coordinator_inv s"
  by (simp add: coordinator_init_def coordinator_inv_def coordinator_default_def)

lemma coordinator_inv_step: "coordinator_inv s \<Longrightarrow> coordinator_step s t \<Longrightarrow> coordinator_inv t"
proof (erule coordinator_stepE)
  fix fresh completion started c'
  assume I: "coordinator_inv s" and fresh: "fresh \<notin> set (sy_used s)"
    and r: "start_or_observe fresh (sy_coordinator s) = ((completion, started), c')"
    and t: "t = s\<lparr>sy_coordinator := c', sy_running := if started then completion # sy_running s else sy_running s,
      sy_used := if started then fresh # sy_used s else sy_used s\<rparr>"
  show "coordinator_inv t"
    using I fresh r unfolding t
    by (auto simp: coordinator_inv_def start_or_observe_def Let_def completion_outcome_def
        split: option.splits if_splits shutdown_outcome.splits)
next
  fix completion outcome published c'
  assume I: "coordinator_inv s" and run: "completion \<in> set (sy_running s)"
    and r: "shutdown_finish outcome completion (sy_coordinator s) = (published, c')"
    and t: "t = s\<lparr>sy_coordinator := c', sy_running := remove1 completion (sy_running s),
      sy_asserted := sy_asserted s \<and> published\<rparr>"
  from I run obtain op where op: "sc_operation (sy_coordinator s) = Some op" "completion = so_completion op"
      "sc_outcomes (sy_coordinator s) (so_completion op) = None" "sy_running s = [so_completion op]"
    by (auto simp: coordinator_inv_def split: option.splits)
  show "coordinator_inv t"
    using I r op unfolding t
    by (auto simp: coordinator_inv_def shutdown_finish_def Let_def publish_outcome_def
        split: shutdown_outcome.splits)
qed

lemma coordinator_reachable_inv: "coordinator.reachable s \<Longrightarrow> coordinator_inv s"
  using coordinator.invariant [of s coordinator_inv] coordinator_inv_init coordinator_inv_step by blast

section \<open>Properties\<close>

text \<open>
  At most one convergence attempt runs at any time, the lifecycle says \<open>ShuttingDown\<close> exactly
  while it runs, and every attempt publishes its outcome exactly once (the assertion of \<open>finish\<close>
  never fails).
\<close>

theorem single_shutdown_attempt:
  assumes "coordinator.reachable s"
  shows "length (sy_running s) = (if sc_lifecycle (sy_coordinator s) = ShutdownInProgress then 1 else 0) \<and>
    sy_asserted s \<and>
    (\<forall>c \<in> set (sy_running s). completion_outcome (sc_outcomes (sy_coordinator s) c) = None)"
  using coordinator_reachable_inv [OF assms]
  by (auto simp: coordinator_inv_def completion_outcome_def split: option.splits shutdown_outcome.splits)

definition shutdown_requested :: shutdown_system where
  "shutdown_requested = \<lparr>sy_coordinator = snd (start_or_observe 0 coordinator_default),
     sy_running = [0], sy_used = [0], sy_asserted = True\<rparr>"

lemma shutdown_requested_reachable: "coordinator.reachable shutdown_requested"
proof -
  let ?s = "\<lparr>sy_coordinator = coordinator_default, sy_running = [], sy_used = [], sy_asserted = True\<rparr>"
  have "coordinator.reachable ?s" by (rule coordinator.reachable.start) (simp add: coordinator_init_def)
  moreover have "coordinator_step ?s shutdown_requested"
    using coordinator_step.Request [of 0 ?s 0 True "snd (start_or_observe 0 coordinator_default)"]
    by (simp add: start_or_observe_def coordinator_default_def shutdown_requested_def)
  ultimately show ?thesis by (rule coordinator.reachable.step)
qed

theorem single_shutdown_attempt_witness: "length (sy_running shutdown_requested) = 1"
  using single_shutdown_attempt [OF shutdown_requested_reachable]
  by (simp add: shutdown_requested_def start_or_observe_def coordinator_default_def)

text \<open>
  Completion is permanent: once an attempt has published a complete outcome, no later request
  starts another attempt, and every request observes that same completion and outcome.
\<close>

theorem complete_shutdown_is_final:
  assumes "coordinator.reachable s" and "sc_lifecycle (sy_coordinator s) = ShutdownComplete"
    and "coordinator_step\<^sup>*\<^sup>* s t"
  shows "sy_coordinator t = sy_coordinator s \<and>
    (\<exists>c outcome. completion_outcome (sc_outcomes (sy_coordinator s) c) = Some outcome \<and>
      (\<forall>fresh. start_or_observe fresh (sy_coordinator t) = ((c, False), sy_coordinator t)))"
proof -
  have "sy_running t = [] \<and> sy_coordinator t = sy_coordinator s"
    using assms(3)
  proof (induction rule: rtranclp_induct)
    case base
    then show ?case
      using coordinator_reachable_inv [OF assms(1)] assms(2)
      by (auto simp: coordinator_inv_def split: option.splits shutdown_outcome.splits)
  next
    case (step y z)
    from step.hyps(2) show ?case
    proof (cases rule: coordinator_step.cases)
      case (Request fresh completion started c')
      have "started = False \<and> c' = sy_coordinator s"
        using Request(3) step.IH assms(2) coordinator_reachable_inv [OF assms(1)]
        by (auto simp: start_or_observe_def coordinator_inv_def split: option.splits if_splits)
      with Request(1) step.IH show ?thesis by simp
    next
      case (Finish completion outcome published c')
      with step.IH show ?thesis by simp
    qed
  qed
  moreover obtain op outcome where "sc_operation (sy_coordinator s) = Some op"
      "sc_outcomes (sy_coordinator s) (so_completion op) = Some outcome"
    using coordinator_reachable_inv [OF assms(1)] assms(2)
    by (auto simp: coordinator_inv_def split: option.splits shutdown_outcome.splits)
  ultimately show ?thesis
    using assms(2) by (intro conjI exI [of _ "so_completion op"] exI [of _ outcome])
      (simp_all add: start_or_observe_def completion_outcome_def)
qed

definition shutdown_completed :: shutdown_system where
  "shutdown_completed = shutdown_requested\<lparr>sy_coordinator :=
     snd (shutdown_finish OutcomeComplete 0 (sy_coordinator shutdown_requested)), sy_running := []\<rparr>"

theorem complete_shutdown_is_final_witness:
  "\<exists>c. \<forall>fresh. start_or_observe fresh (sy_coordinator shutdown_completed) = ((c, False), sy_coordinator shutdown_completed)"
proof -
  have "coordinator_step shutdown_requested shutdown_completed"
    using coordinator_step.Finish [of 0 shutdown_requested OutcomeComplete True
        "snd (shutdown_finish OutcomeComplete 0 (sy_coordinator shutdown_requested))"]
    by (simp add: shutdown_completed_def shutdown_requested_def shutdown_finish_def Let_def
        publish_outcome_def start_or_observe_def coordinator_default_def)
  then have "coordinator.reachable shutdown_completed"
    using shutdown_requested_reachable coordinator.reachable.step by blast
  moreover have "sc_lifecycle (sy_coordinator shutdown_completed) = ShutdownComplete"
    by (simp add: shutdown_completed_def shutdown_finish_def Let_def split_beta)
  ultimately show ?thesis using complete_shutdown_is_final [OF _ _ rtranclp.rtrancl_refl] by blast
qed

end
