(* ===== verification/Health.thy ===== *)
theory Health
  imports Core_Types
begin

text \<open>
  Runtime diagnostics (\<^verbatim>\<open>health.rs\<close>): the counters and the bounded queue of the most recent
  payload-free issues. The observation time of an issue is an argument.
\<close>

datatype runtime_health = Healthy | Degraded | HealthShuttingDown | HealthFailed

datatype health_issue_kind =
    InvocationErrorIssue | InvocationTimeoutIssue | InvocationCancelledIssue | InvocationPanicIssue
  | TaskPanicIssue | RuntimeWorkerPanicIssue | RuntimeWorkerErrorIssue | QuotaRejectedIssue

record health_issue =
  hi_at :: nat
  hi_kind :: health_issue_kind
  hi_scope :: "scope_id option"
  hi_fiber :: "fiber_id option"
  hi_invocation :: "invocation_id option"

record diagnostics =
  dg_successes :: u64
  dg_errors :: u64
  dg_timeouts :: u64
  dg_cancellations :: u64
  dg_panics :: u64
  dg_quota_rejections :: u64
  dg_recent :: "health_issue list"

definition diagnostics_default :: diagnostics where
  "diagnostics_default = \<lparr>dg_successes = 0, dg_errors = 0, dg_timeouts = 0, dg_cancellations = 0,
     dg_panics = 0, dg_quota_rejections = 0, dg_recent = []\<rparr>"

definition push_issue :: "health_issue \<Rightarrow> diagnostics \<Rightarrow> diagnostics" where
  "push_issue issue d =
     (let recent = (if length (dg_recent d) = 64 then tl (dg_recent d) else dg_recent d)
      in d\<lparr>dg_recent := recent @ [issue]\<rparr>)"

definition recent_issues :: "diagnostics \<Rightarrow> health_issue list" where
  "recent_issues d = dg_recent d"

text \<open>The last \<open>n\<close> elements of a list.\<close>

definition last_n :: "nat \<Rightarrow> 'a list \<Rightarrow> 'a list" where
  "last_n n xs = drop (length xs - n) xs"

lemma length_last_n [simp]: "length (last_n n xs) = min n (length xs)"
  by (auto simp: last_n_def)

lemma last_n_snoc:
  "0 < n \<Longrightarrow> last_n n (xs @ [x]) = (if n \<le> length xs then tl (last_n n xs) else last_n n xs) @ [x]"
  by (auto simp: last_n_def drop_Suc [symmetric] Suc_diff_le tl_drop)

lemma push_issue_recent:
  "dg_recent (push_issue issue d) =
     (if length (dg_recent d) = 64 then tl (dg_recent d) else dg_recent d) @ [issue]"
  by (simp add: push_issue_def Let_def)

text \<open>
  The diagnostics queue is a sliding window: after any sequence of issues it holds exactly the
  64 most recent ones, oldest first, and recording an issue never touches a counter.
\<close>

theorem recent_issues_window:
  "recent_issues (fold push_issue issues diagnostics_default) = last_n 64 issues \<and>
   dg_quota_rejections (fold push_issue issues d) = dg_quota_rejections d"
proof
  show "recent_issues (fold push_issue issues diagnostics_default) = last_n 64 issues"
  proof (induction issues rule: rev_induct)
    case Nil
    then show ?case by (simp add: recent_issues_def diagnostics_default_def last_n_def)
  next
    case (snoc issue issues)
    then have "dg_recent (fold push_issue issues diagnostics_default) = last_n 64 issues"
      by (simp add: recent_issues_def)
    then show ?case
      by (simp add: recent_issues_def push_issue_recent last_n_snoc)
  qed
  show "dg_quota_rejections (fold push_issue issues d) = dg_quota_rejections d"
    by (induction issues arbitrary: d) (simp_all add: push_issue_def Let_def)
qed

end
