(* ===== verification/Tasks.thy ===== *)
theory Tasks
  imports Health "HOL-Library.Multiset"
begin

text \<open>
  Task supervision (\<^verbatim>\<open>task.rs\<close>): the tasks owned by Fibers and the workers owned by the Runtime.

  A spawned future runs inside a wrapper whose result is its \<open>task_outcome\<close>; awaiting its join handle
  yields that outcome or a join error (\<open>join_result\<close>). The executor is a parameter: it decides the
  result of each wrapper and the order in which joins complete. A Fiber's \<open>tasks\<close> list is held in
  \<open>tw_owners\<close>; an owner that was dropped (a dead \<open>Weak\<close>) is \<open>None\<close>. The two loops of a drain (before
  and after its deadline) treat a join alike; the deadline only decides whether tasks are aborted.
\<close>

datatype task_outcome = OutCompleted | OutCancelled | OutPanicked | OutAborted | OutErrored

text \<open>\<open>JoinErr b\<close>: a join error with \<open>is_panic() = b\<close>.\<close>

datatype join_result = JoinOk task_outcome | JoinErr bool

definition joined_outcome :: "join_result \<Rightarrow> task_outcome" where
  "joined_outcome r = (case r of
      JoinOk outcome \<Rightarrow> outcome
    | JoinErr is_panic \<Rightarrow> if is_panic then OutPanicked else OutAborted)"

section \<open>The wrapper of a Fiber task\<close>

text \<open>What the \<open>select!\<close> of the wrapper observes first.\<close>

datatype body_event = BodyCancelled | BodyReady | BodyPanics

text \<open>
  The wrapper's outcome and whether it reports to the supervisor. \<open>started\<close> is the start signal;
  \<open>activation\<close> is \<open>None\<close> without an activation barrier, otherwise whether the barrier opened.
\<close>

definition task_wrapper :: "bool \<Rightarrow> bool option \<Rightarrow> body_event \<Rightarrow> task_outcome \<times> bool" where
  "task_wrapper started activation body =
     (if \<not> started then (OutCancelled, False)
      else if activation = Some False then (OutCancelled, True)
      else (case body of BodyReady \<Rightarrow> OutCompleted | BodyCancelled \<Rightarrow> OutCancelled
              | BodyPanics \<Rightarrow> OutPanicked, True))"

section \<open>The supervisor of Fiber tasks\<close>

record owned_task =
  ow_id :: task_id
  ow_owner_id :: fiber_id
  ow_scope_id :: scope_id

record task_counters =
  tc_reaped :: u64
  tc_completed :: u64
  tc_cancelled :: u64
  tc_panicked :: u64
  tc_aborted :: u64

definition task_counters_default :: task_counters where
  "task_counters_default = \<lparr>tc_reaped = 0, tc_completed = 0, tc_cancelled = 0, tc_panicked = 0, tc_aborted = 0\<rparr>"

record task_supervisor =
  tp_arena :: "(task_id, owned_task) amap"
  tp_diagnostics :: diagnostics
  tp_counters :: task_counters

record task_world =
  tw_supervisor :: task_supervisor
  tw_owners :: "fiber_id \<Rightarrow> task_id list option"

definition task_supervisor_new :: "diagnostics \<Rightarrow> task_supervisor" where
  "task_supervisor_new d = \<lparr>tp_arena = [], tp_diagnostics = d, tp_counters = task_counters_default\<rparr>"

text \<open>\<open>TaskSupervisor::spawn\<close>; the caller pushes the returned id on the owner's list (\<open>Context::spawn\<close>).\<close>

definition task_spawn :: "task_id \<Rightarrow> fiber_id \<Rightarrow> scope_id \<Rightarrow> task_supervisor \<Rightarrow> task_id \<times> task_supervisor" where
  "task_spawn fresh owner scope s =
     (fresh, s\<lparr>tp_arena := aput fresh \<lparr>ow_id = fresh, ow_owner_id = owner, ow_scope_id = scope\<rparr> (tp_arena s)\<rparr>)"

definition count_outcome :: "task_outcome \<Rightarrow> task_counters \<Rightarrow> task_counters" where
  "count_outcome outcome c0 =
     (let c = c0\<lparr>tc_reaped := tc_reaped c0 + 1\<rparr>
      in case outcome of
           OutCompleted \<Rightarrow> c\<lparr>tc_completed := tc_completed c + 1\<rparr>
         | OutCancelled \<Rightarrow> c\<lparr>tc_cancelled := tc_cancelled c + 1\<rparr>
         | OutPanicked \<Rightarrow> c\<lparr>tc_panicked := tc_panicked c + 1\<rparr>
         | OutAborted \<Rightarrow> c\<lparr>tc_aborted := tc_aborted c + 1\<rparr>
         | OutErrored \<Rightarrow> c)"

definition record_task_outcome :: "nat \<Rightarrow> owned_task \<Rightarrow> task_outcome \<Rightarrow> task_supervisor \<Rightarrow> task_supervisor" where
  "record_task_outcome now task outcome s =
     (let s1 = s\<lparr>tp_counters := count_outcome outcome (tp_counters s)\<rparr>
      in if outcome = OutPanicked
         then s1\<lparr>tp_diagnostics := push_issue \<lparr>hi_at = now, hi_kind = TaskPanicIssue,
                hi_scope = Some (ow_scope_id task), hi_fiber = Some (ow_owner_id task), hi_invocation = None\<rparr>
                (tp_diagnostics s1)\<rparr>
         else s1)"

definition detach_task :: "owned_task \<Rightarrow> (fiber_id \<Rightarrow> task_id list option) \<Rightarrow> fiber_id \<Rightarrow> task_id list option" where
  "detach_task task owners = (case owners (ow_owner_id task) of
      None \<Rightarrow> owners
    | Some tasks \<Rightarrow> owners(ow_owner_id task := Some (filter (\<lambda>t. t \<noteq> ow_id task) tasks)))"

text \<open>\<open>complete\<close>, called by a wrapper: a no-op when the task has been taken out of the arena.\<close>

definition task_complete :: "nat \<Rightarrow> task_id \<Rightarrow> task_outcome \<Rightarrow> task_world \<Rightarrow> task_world" where
  "task_complete now i outcome w = (case aget (tp_arena (tw_supervisor w)) i of
      None \<Rightarrow> w
    | Some task \<Rightarrow>
        let s = tw_supervisor w; s1 = s\<lparr>tp_arena := adel i (tp_arena s)\<rparr>
        in w\<lparr>tw_supervisor := record_task_outcome now task outcome s1, tw_owners := detach_task task (tw_owners w)\<rparr>)"

section \<open>Draining\<close>

fun take_tasks :: "task_id list \<Rightarrow> (task_id, owned_task) amap \<Rightarrow> owned_task list \<times> (task_id, owned_task) amap" where
  "take_tasks [] arena = ([], arena)"
| "take_tasks (i # is) arena = (case aget arena i of
      None \<Rightarrow> take_tasks is arena
    | Some task \<Rightarrow> (case take_tasks is (adel i arena) of (tasks, arena') \<Rightarrow> (task # tasks, arena')))"

definition join_task :: "nat \<Rightarrow> owned_task \<Rightarrow> join_result \<Rightarrow> task_world \<Rightarrow> task_world" where
  "join_task now task result w =
     w\<lparr>tw_supervisor := record_task_outcome now task (joined_outcome result) (tw_supervisor w),
       tw_owners := detach_task task (tw_owners w)\<rparr>"

text \<open>
  \<open>cancel_all\<close>: \<open>order\<close> is the order in which the joins complete, \<open>result\<close> what each join yields.
\<close>

definition cancel_all ::
  "nat \<Rightarrow> (owned_task list \<Rightarrow> owned_task list) \<Rightarrow> (task_id \<Rightarrow> join_result) \<Rightarrow> task_id list
    \<Rightarrow> task_world \<Rightarrow> unit cres \<times> task_world" where
  "cancel_all now order result ids w =
     (let s = tw_supervisor w;
          (tasks, arena) = take_tasks ids (tp_arena s);
          joins = order tasks;
          w1 = w\<lparr>tw_supervisor := s\<lparr>tp_arena := arena\<rparr>\<rparr>;
          w2 = fold (\<lambda>task. join_task now task (result (ow_id task))) joins w1;
          panic = list_ex (\<lambda>task. joined_outcome (result (ow_id task)) = OutPanicked) joins
      in (if panic then Err (TaskPanicked (Lit ''owned task panicked'')) else Ok (), w2))"

definition live_fiber_tasks :: "task_supervisor \<Rightarrow> nat" where
  "live_fiber_tasks s = length (tp_arena s)"

section \<open>Runtime workers\<close>

datatype runtime_worker_kind =
    InstallWorker | DependencyReconcileWorker | ReloadTransactionWorker | GcReconcileWorker
  | HostFailureConvergenceWorker

text \<open>What the body of a worker does; a cleanup worker does not listen to its token.\<close>

datatype worker_event = WorkerReturns "unit cres" | WorkerSeesCancel

definition worker_wrapper :: "bool \<Rightarrow> bool \<Rightarrow> worker_event \<Rightarrow> (task_outcome \<times> bool) option" where
  "worker_wrapper started cleanup event =
     (if \<not> started then Some (OutCancelled, False)
      else case event of
          WorkerSeesCancel \<Rightarrow> if cleanup then None else Some (OutCancelled, True)
        | WorkerReturns (Ok _) \<Rightarrow> Some (OutCompleted, True)
        | WorkerReturns (Err _) \<Rightarrow> Some (OutErrored, True)
        | WorkerReturns (Panicked _) \<Rightarrow> Some (OutPanicked, True))"

record runtime_worker =
  rw_kind :: runtime_worker_kind
  rw_cleanup :: bool
  rw_cancelled :: bool

record runtime_worker_supervisor =
  rs_workers :: "(u64, runtime_worker) amap"
  rs_next :: u64
  rs_diagnostics :: diagnostics
  rs_reaped :: u64
  rs_panicked :: u64
  rs_errors :: u64
  rs_cancelled :: u64
  rs_aborted :: u64

definition worker_supervisor_new :: "diagnostics \<Rightarrow> runtime_worker_supervisor" where
  "worker_supervisor_new d = \<lparr>rs_workers = [], rs_next = 1, rs_diagnostics = d, rs_reaped = 0,
     rs_panicked = 0, rs_errors = 0, rs_cancelled = 0, rs_aborted = 0\<rparr>"

definition worker_spawn ::
  "runtime_worker_kind \<Rightarrow> bool \<Rightarrow> runtime_worker_supervisor \<Rightarrow> u64 \<times> runtime_worker_supervisor" where
  "worker_spawn kind cleanup s =
     (rs_next s, s\<lparr>rs_next := rs_next s + 1,
        rs_workers := aput (rs_next s) \<lparr>rw_kind = kind, rw_cleanup = cleanup, rw_cancelled = False\<rparr> (rs_workers s)\<rparr>)"

definition push_worker_issue :: "nat \<Rightarrow> health_issue_kind \<Rightarrow> runtime_worker_supervisor \<Rightarrow> runtime_worker_supervisor" where
  "push_worker_issue now kind s = s\<lparr>rs_diagnostics := push_issue \<lparr>hi_at = now, hi_kind = kind,
     hi_scope = None, hi_fiber = None, hi_invocation = None\<rparr> (rs_diagnostics s)\<rparr>"

definition record_worker_outcome :: "nat \<Rightarrow> task_outcome \<Rightarrow> runtime_worker_supervisor \<Rightarrow> runtime_worker_supervisor" where
  "record_worker_outcome now outcome s0 =
     (let s = s0\<lparr>rs_reaped := rs_reaped s0 + 1\<rparr>
      in case outcome of
           OutPanicked \<Rightarrow> push_worker_issue now RuntimeWorkerPanicIssue (s\<lparr>rs_panicked := rs_panicked s + 1\<rparr>)
         | OutErrored \<Rightarrow> push_worker_issue now RuntimeWorkerErrorIssue (s\<lparr>rs_errors := rs_errors s + 1\<rparr>)
         | OutCancelled \<Rightarrow> s\<lparr>rs_cancelled := rs_cancelled s + 1\<rparr>
         | OutAborted \<Rightarrow> s\<lparr>rs_aborted := rs_aborted s + 1\<rparr>
         | OutCompleted \<Rightarrow> s)"

definition complete_worker :: "nat \<Rightarrow> u64 \<Rightarrow> task_outcome \<Rightarrow> runtime_worker_supervisor \<Rightarrow> runtime_worker_supervisor" where
  "complete_worker now i outcome s = (case aget (rs_workers s) i of
      None \<Rightarrow> s
    | Some _ \<Rightarrow> record_worker_outcome now outcome (s\<lparr>rs_workers := adel i (rs_workers s)\<rparr>))"

text \<open>
  \<open>shutdown_until\<close>: the drained workers (cancelled unless they are cleanup workers) and the
  supervisor after every join, in the order and with the results the executor chooses.
\<close>

definition shutdown_until ::
  "nat \<Rightarrow> ((u64 \<times> runtime_worker) list \<Rightarrow> (u64 \<times> runtime_worker) list) \<Rightarrow> (u64 \<Rightarrow> join_result)
    \<Rightarrow> runtime_worker_supervisor \<Rightarrow> (u64 \<times> runtime_worker) list \<times> runtime_worker_supervisor" where
  "shutdown_until now order result s =
     (let workers = map (\<lambda>(i, w). (i, if rw_cleanup w then w else w\<lparr>rw_cancelled := True\<rparr>)) (rs_workers s);
          s1 = s\<lparr>rs_workers := []\<rparr>
      in (workers, fold (\<lambda>(i, _). record_worker_outcome now (joined_outcome (result i))) (order workers) s1))"

definition live_workers :: "runtime_worker_supervisor \<Rightarrow> nat" where
  "live_workers s = length (rs_workers s)"

section \<open>Accounting lemmas\<close>

definition counted :: "task_counters \<Rightarrow> u64" where
  "counted c = tc_completed c + tc_cancelled c + tc_panicked c + tc_aborted c"

definition wf_arena :: "(task_id, owned_task) amap \<Rightarrow> bool" where
  "wf_arena arena \<longleftrightarrow> distinct (akeys arena) \<and> (\<forall>i task. aget arena i = Some task \<longrightarrow> ow_id task = i)"

lemma count_outcome_reaped [simp]: "tc_reaped (count_outcome outcome c) = tc_reaped c + 1"
  by (cases outcome) (simp_all add: count_outcome_def Let_def)

lemma count_outcome_counted:
  "outcome \<noteq> OutErrored \<Longrightarrow> counted (count_outcome outcome c) = counted c + 1"
  by (cases outcome) (simp_all add: count_outcome_def counted_def Let_def)

lemma record_task_outcome_sel [simp]:
  "tp_arena (record_task_outcome now task outcome s) = tp_arena s"
  "tp_counters (record_task_outcome now task outcome s) = count_outcome outcome (tp_counters s)"
  by (simp_all add: record_task_outcome_def Let_def)

lemma detach_task_eq:
  "detach_task task owners f =
     (if f = ow_owner_id task then map_option (filter (\<lambda>t. t \<noteq> ow_id task)) (owners f) else owners f)"
  by (simp add: detach_task_def split: option.splits)

lemma wf_arena_adel: "wf_arena arena \<Longrightarrow> wf_arena (adel i arena)"
  by (simp add: wf_arena_def)

lemma take_tasks_spec:
  "wf_arena arena \<Longrightarrow> \<exists>tasks arena'. take_tasks is arena = (tasks, arena') \<and> wf_arena arena' \<and>
    (\<forall>j. aget arena' j = (if j \<in> set is then None else aget arena j)) \<and> distinct (map ow_id tasks) \<and>
    (\<forall>task. task \<in> set tasks \<longleftrightarrow> ow_id task \<in> set is \<and> aget arena (ow_id task) = Some task) \<and>
    length arena = length arena' + length tasks"
proof (induction "is" arbitrary: arena)
  case (Cons i "is")
  show ?case
  proof (cases "aget arena i")
    case None
    with Cons.IH [OF Cons.prems] show ?thesis by fastforce
  next
    case (Some task)
    then have i: "ow_id task = i" using Cons.prems by (simp add: wf_arena_def)
    from Cons.IH [OF wf_arena_adel [OF Cons.prems]] obtain tasks arena' where t:
        "take_tasks is (adel i arena) = (tasks, arena')" "wf_arena arena'"
        "\<forall>j. aget arena' j = (if j \<in> set is then None else aget (adel i arena) j)" "distinct (map ow_id tasks)"
        "\<forall>task. task \<in> set tasks \<longleftrightarrow> ow_id task \<in> set is \<and> aget (adel i arena) (ow_id task) = Some task"
        "length (adel i arena) = length arena' + length tasks" by blast
    have "length arena \<noteq> 0" using Some by auto
    then have len: "length arena = length arena' + length (task # tasks)"
      using length_adel [OF _ Some] Cons.prems t(6) by (simp add: wf_arena_def)
    have mem: "t \<in> set (task # tasks) \<longleftrightarrow> ow_id t \<in> set (i # is) \<and> aget arena (ow_id t) = Some t" for t
      using t(5) Some i by (auto split: if_splits)
    have "i \<notin> ow_id ` set tasks" using t(5) by auto
    with t Some i len mem show ?thesis
      by (intro exI [of _ "task # tasks"] exI [of _ arena']) auto
  qed
qed simp

lemma join_task_sel [simp]:
  "tp_arena (tw_supervisor (join_task now task r w)) = tp_arena (tw_supervisor w)"
  "tp_counters (tw_supervisor (join_task now task r w)) =
     count_outcome (joined_outcome r) (tp_counters (tw_supervisor w))"
  "tw_owners (join_task now task r w) = detach_task task (tw_owners w)"
  by (simp_all add: join_task_def)

lemma joins_spec:
  "w' = fold (\<lambda>task. join_task now task (result (ow_id task))) joins w \<Longrightarrow>
     tp_arena (tw_supervisor w') = tp_arena (tw_supervisor w) \<and>
     tc_reaped (tp_counters (tw_supervisor w')) = tc_reaped (tp_counters (tw_supervisor w)) + of_nat (length joins) \<and>
     (\<forall>f. tw_owners w' f = map_option (filter (\<lambda>t. \<not> (\<exists>task \<in> set joins. ow_id task = t \<and> ow_owner_id task = f)))
        (tw_owners w f))"
proof (induction joins arbitrary: w)
  case Nil
  then show ?case by (simp add: option.map_ident)
next
  case (Cons task joins)
  from Cons.IH [of "join_task now task (result (ow_id task)) w"] Cons.prems
  show ?case
    by (auto simp: detach_task_eq option.map_comp comp_def filter_filter conj_commute
        intro!: option.map_cong filter_cong)
qed

section \<open>Properties\<close>

text \<open>
  Draining tasks: \<open>cancel_all\<close> takes exactly the listed live tasks out of the arena, counts each of
  them once, removes them from their owners' lists and nothing else, and reports an error exactly
  when one of them panicked, in whatever order the joins complete.
\<close>

theorem cancel_all_drains:
  assumes "wf_arena (tp_arena (tw_supervisor w))" and "\<forall>xs. mset (order xs) = mset xs"
    and "cancel_all now order result ids w = (r, w')"
  shows "(\<forall>i. aget (tp_arena (tw_supervisor w')) i =
      (if i \<in> set ids then None else aget (tp_arena (tw_supervisor w)) i)) \<and>
    live_fiber_tasks (tw_supervisor w') \<le> live_fiber_tasks (tw_supervisor w) \<and>
    tc_reaped (tp_counters (tw_supervisor w')) = tc_reaped (tp_counters (tw_supervisor w)) +
      of_nat (live_fiber_tasks (tw_supervisor w) - live_fiber_tasks (tw_supervisor w')) \<and>
    (\<forall>f. tw_owners w' f = map_option (filter (\<lambda>t. \<not> (t \<in> set ids \<and>
      (\<exists>task. aget (tp_arena (tw_supervisor w)) t = Some task \<and> ow_owner_id task = f)))) (tw_owners w f)) \<and>
    (r = Ok () \<longleftrightarrow> (\<forall>i \<in> set ids. aget (tp_arena (tw_supervisor w)) i \<noteq> None \<longrightarrow>
      joined_outcome (result i) \<noteq> OutPanicked))"
proof -
  obtain tasks arena where t: "take_tasks ids (tp_arena (tw_supervisor w)) = (tasks, arena)"
      "\<forall>j. aget arena j = (if j \<in> set ids then None else aget (tp_arena (tw_supervisor w)) j)"
      "\<forall>task. task \<in> set tasks \<longleftrightarrow> ow_id task \<in> set ids \<and> aget (tp_arena (tw_supervisor w)) (ow_id task) = Some task"
      "length (tp_arena (tw_supervisor w)) = length arena + length tasks"
    using take_tasks_spec [OF assms(1), of ids] by blast
  have joins: "set (order tasks) = set tasks" "length (order tasks) = length tasks"
    using assms(2) by (metis mset_eq_setD) (metis assms(2) size_mset)
  have arena_id: "aget (tp_arena (tw_supervisor w)) i = Some task \<Longrightarrow> ow_id task = i" for i task
    using assms(1) by (simp add: wf_arena_def)
  define w1 where "w1 = w\<lparr>tw_supervisor := (tw_supervisor w)\<lparr>tp_arena := arena\<rparr>\<rparr>"
  have w': "w' = fold (\<lambda>task. join_task now task (result (ow_id task))) (order tasks) w1"
    and r: "r = (if list_ex (\<lambda>task. joined_outcome (result (ow_id task)) = OutPanicked) (order tasks)
      then Err (TaskPanicked (Lit ''owned task panicked'')) else Ok ())"
    using assms(3) by (auto simp: cancel_all_def t(1) w1_def Let_def)
  note J = joins_spec [OF w']
  have 1: "tp_arena (tw_supervisor w') = arena" using J by (simp add: w1_def)
  have 2: "tc_reaped (tp_counters (tw_supervisor w')) = tc_reaped (tp_counters (tw_supervisor w)) + of_nat (length tasks)"
    using J joins(2) by (simp add: w1_def)
  have taken: "task \<in> set tasks \<and> ow_id task = i \<longleftrightarrow>
      i \<in> set ids \<and> aget (tp_arena (tw_supervisor w)) i = Some task" for task i
    using t(3) arena_id [of i task] by auto
  then have "(\<exists>task \<in> set tasks. ow_id task = i \<and> ow_owner_id task = f) \<longleftrightarrow>
      i \<in> set ids \<and> (\<exists>task. aget (tp_arena (tw_supervisor w)) i = Some task \<and> ow_owner_id task = f)" for i f
    by blast
  then have 3: "\<forall>f. tw_owners w' f = map_option (filter (\<lambda>t. \<not> (t \<in> set ids \<and>
      (\<exists>task. aget (tp_arena (tw_supervisor w)) t = Some task \<and> ow_owner_id task = f)))) (tw_owners w f)"
    using J joins(1) by (simp add: w1_def)
  have 4: "r = Ok () \<longleftrightarrow> (\<forall>i \<in> set ids. aget (tp_arena (tw_supervisor w)) i \<noteq> None \<longrightarrow>
      joined_outcome (result i) \<noteq> OutPanicked)"
    unfolding r list_ex_iff joins(1) using t(3) arena_id by (auto; metis)
  show ?thesis
    using t(2,4) 2 3 4 unfolding 1 live_fiber_tasks_def by simp
qed

definition example_tasks :: task_world where
  "example_tasks = \<lparr>tw_supervisor = snd (task_spawn 7 3 0 (task_supervisor_new diagnostics_default)),
     tw_owners = (\<lambda>_. None)(3 := Some [7])\<rparr>"

theorem cancel_all_drains_witness:
  "fst (cancel_all 0 (\<lambda>xs. xs) (\<lambda>_. JoinErr False) [7, 9] example_tasks) = Ok ()"
proof -
  have "wf_arena (tp_arena (tw_supervisor example_tasks))"
    by (simp add: wf_arena_def example_tasks_def task_spawn_def task_supervisor_new_def)
  moreover obtain r w' where r: "cancel_all 0 (\<lambda>xs. xs) (\<lambda>_. JoinErr False) [7, 9] example_tasks = (r, w')"
    by (cases "cancel_all 0 (\<lambda>xs. xs) (\<lambda>_. JoinErr False) [7, 9] example_tasks")
  ultimately have "r = Ok ()"
    using cancel_all_drains [OF _ _ r] by (simp add: joined_outcome_def)
  with r show ?thesis by simp
qed

section \<open>Concurrent completion and draining\<close>

text \<open>
  Wrappers, drains and owners run concurrently. \<open>tk_taken\<close> are the tasks a drain has taken and not
  yet joined, \<open>tk_detaching\<close> the tasks that were recorded and are about to leave their owner's list
  (the two halves of \<open>complete\<close> and of a join are separate steps, as their locks are).
\<close>

datatype wrapper_state = WrapperRunning | WrapperReturned task_outcome | WrapperAborted

record task_system =
  tk_world :: task_world
  tk_wrapper :: "task_id \<Rightarrow> wrapper_state option"
  tk_taken :: "owned_task list"
  tk_detaching :: "owned_task list"
  tk_spawned :: "task_id list"

abbreviation system_arena :: "task_system \<Rightarrow> (task_id, owned_task) amap" where
  "system_arena s \<equiv> tp_arena (tw_supervisor (tk_world s))"

definition set_supervisor :: "(task_supervisor \<Rightarrow> task_supervisor) \<Rightarrow> task_system \<Rightarrow> task_system" where
  "set_supervisor f s = s\<lparr>tk_world := (tk_world s)\<lparr>tw_supervisor := f (tw_supervisor (tk_world s))\<rparr>\<rparr>"

definition set_owners ::
  "((fiber_id \<Rightarrow> task_id list option) \<Rightarrow> fiber_id \<Rightarrow> task_id list option) \<Rightarrow> task_system \<Rightarrow> task_system" where
  "set_owners f s = s\<lparr>tk_world := (tk_world s)\<lparr>tw_owners := f (tw_owners (tk_world s))\<rparr>\<rparr>"

inductive task_step :: "task_system \<Rightarrow> task_system \<Rightarrow> bool" where
  Spawn: "fresh \<notin> set (tk_spawned s) \<Longrightarrow> tw_owners (tk_world s) f = Some tasks \<Longrightarrow>
     task_step s (set_owners (\<lambda>owners. owners(f := Some (tasks @ [fresh])))
       (set_supervisor (\<lambda>t. snd (task_spawn fresh f scope t)) s)
         \<lparr>tk_wrapper := (tk_wrapper s)(fresh := Some WrapperRunning), tk_spawned := fresh # tk_spawned s\<rparr>)"
| ReturnLive: "tk_wrapper s i = Some WrapperRunning \<Longrightarrow> fst (task_wrapper True activation body) = outcome \<Longrightarrow>
     aget (system_arena s) i = Some task \<Longrightarrow>
     task_step s ((set_supervisor (\<lambda>t. record_task_outcome now task outcome (t\<lparr>tp_arena := adel i (tp_arena t)\<rparr>)) s)
       \<lparr>tk_wrapper := (tk_wrapper s)(i := Some (WrapperReturned outcome)), tk_detaching := task # tk_detaching s\<rparr>)"
| ReturnTaken: "tk_wrapper s i = Some WrapperRunning \<Longrightarrow> fst (task_wrapper True activation body) = outcome \<Longrightarrow>
     aget (system_arena s) i = None \<Longrightarrow>
     task_step s (s\<lparr>tk_wrapper := (tk_wrapper s)(i := Some (WrapperReturned outcome))\<rparr>)"
| Take: "take_tasks ids (system_arena s) = (tasks, arena) \<Longrightarrow>
     task_step s ((set_supervisor (\<lambda>t. t\<lparr>tp_arena := arena\<rparr>) s)\<lparr>tk_taken := tasks @ tk_taken s\<rparr>)"
| Abort: "task \<in> set (tk_taken s) \<Longrightarrow> tk_wrapper s (ow_id task) = Some WrapperRunning \<Longrightarrow>
     task_step s (s\<lparr>tk_wrapper := (tk_wrapper s)(ow_id task := Some WrapperAborted)\<rparr>)"
| Join: "task \<in> set (tk_taken s) \<Longrightarrow>
     (case tk_wrapper s (ow_id task) of
        Some (WrapperReturned outcome) \<Rightarrow> result = JoinOk outcome
      | Some WrapperAborted \<Rightarrow> result = JoinErr False
      | _ \<Rightarrow> False) \<Longrightarrow>
     task_step s ((set_supervisor (record_task_outcome now task (joined_outcome result)) s)
       \<lparr>tk_taken := remove1 task (tk_taken s), tk_detaching := task # tk_detaching s\<rparr>)"
| Detach: "task \<in> set (tk_detaching s) \<Longrightarrow>
     task_step s ((set_owners (detach_task task) s)\<lparr>tk_detaching := remove1 task (tk_detaching s)\<rparr>)"
| DropOwner: "task_step s (set_owners (\<lambda>owners. owners(f := None)) s)"

definition task_init :: "task_system \<Rightarrow> bool" where
  "task_init s \<longleftrightarrow> tk_wrapper s = (\<lambda>_. None) \<and> tk_taken s = [] \<and> tk_detaching s = [] \<and> tk_spawned s = [] \<and>
     tw_supervisor (tk_world s) = task_supervisor_new diagnostics_default \<and>
     (\<forall>f tasks. tw_owners (tk_world s) f = Some tasks \<longrightarrow> tasks = [])"

interpretation tasks: transition_system task_init task_step .

inductive_cases task_stepE: "task_step s t"

section \<open>The invariant of the system\<close>

lemma avals_adel:
  "distinct (akeys arena) \<Longrightarrow> aget arena i = Some task \<Longrightarrow> mset (avals arena) = add_mset task (mset (avals (adel i arena)))"
proof (induction arena)
  case (Cons kv arena)
  show ?case
  proof (cases "fst kv = i")
    case True
    with Cons.prems have "adel i (kv # arena) = arena" "snd kv = task"
      by (auto simp: AList.delete_eq filter_id_conv image_iff)
    then show ?thesis by simp
  next
    case False
    with Cons show ?thesis by (cases kv) (simp add: AList.delete_eq)
  qed
qed simp

lemma avals_take:
  "distinct (akeys arena) \<Longrightarrow> take_tasks is arena = (tasks, arena') \<Longrightarrow>
   mset (avals arena) = mset (avals arena') + mset tasks \<and> distinct (akeys arena')"
proof (induction "is" arbitrary: arena tasks)
  case (Cons i "is")
  show ?case
  proof (cases "aget arena i")
    case None
    with Cons show ?thesis by simp
  next
    case (Some task)
    with Cons.prems(2) obtain ts where ts: "take_tasks is (adel i arena) = (ts, arena')" "tasks = task # ts"
      by (auto split: prod.splits)
    from Cons.IH [OF _ ts(1)] avals_adel [OF Cons.prems(1) Some] Cons.prems(1) ts(2) show ?thesis by simp
  qed
qed simp

definition pending :: "task_system \<Rightarrow> owned_task multiset" where
  "pending s = mset (avals (system_arena s)) + mset (tk_taken s) + mset (tk_detaching s)"

definition owners_ok :: "owned_task multiset \<Rightarrow> (fiber_id \<Rightarrow> task_id list option) \<Rightarrow> bool" where
  "owners_ok P owners \<longleftrightarrow> (\<forall>f tasks. owners f = Some tasks \<longrightarrow> distinct tasks \<and>
     set tasks = {ow_id task | task. task \<in># P \<and> ow_owner_id task = f})"

definition ids_ok :: "owned_task multiset \<Rightarrow> task_id list \<Rightarrow> bool" where
  "ids_ok P spawned \<longleftrightarrow> distinct spawned \<and> (\<forall>i. count (image_mset ow_id P) i \<le> 1) \<and>
     (\<forall>task. task \<in># P \<longrightarrow> ow_id task \<in> set spawned)"

definition counts_ok :: "task_system \<Rightarrow> bool" where
  "counts_ok s \<longleftrightarrow> counted (tp_counters (tw_supervisor (tk_world s))) = tc_reaped (tp_counters (tw_supervisor (tk_world s))) \<and>
     of_nat (length (tk_spawned s)) = tc_reaped (tp_counters (tw_supervisor (tk_world s))) +
       of_nat (length (system_arena s)) + of_nat (length (tk_taken s))"

definition wrappers_ok :: "task_system \<Rightarrow> bool" where
  "wrappers_ok s \<longleftrightarrow> (\<forall>i outcome. tk_wrapper s i = Some (WrapperReturned outcome) \<longrightarrow> outcome \<noteq> OutErrored)"

definition task_inv :: "task_system \<Rightarrow> bool" where
  "task_inv s \<longleftrightarrow> wf_arena (system_arena s) \<and> owners_ok (pending s) (tw_owners (tk_world s)) \<and>
     ids_ok (pending s) (tk_spawned s) \<and> counts_ok s \<and> wrappers_ok s"

lemma task_wrapper_outcome: "fst (task_wrapper started activation body) \<noteq> OutErrored"
  by (auto simp: task_wrapper_def split: body_event.splits)

lemma ids_ok_add:
  "ids_ok P spawned \<Longrightarrow> ow_id task \<notin> set spawned \<Longrightarrow> ids_ok (add_mset task P) (ow_id task # spawned)"
proof -
  assume ok: "ids_ok P spawned" and new: "ow_id task \<notin> set spawned"
  then have "ow_id task \<notin># image_mset ow_id P" by (auto simp: ids_ok_def)
  then have "count (image_mset ow_id P) (ow_id task) = 0" by (simp only: not_in_iff)
  then show ?thesis using ok new by (simp add: ids_ok_def)
qed

lemma ids_ok_remove: "ids_ok (add_mset task P) spawned \<Longrightarrow> ids_ok P spawned"
proof -
  assume ok: "ids_ok (add_mset task P) spawned"
  have "count (image_mset ow_id P) i \<le> count (image_mset ow_id (add_mset task P)) i" for i by simp
  then have "count (image_mset ow_id P) i \<le> 1" for i
    using ok le_trans unfolding ids_ok_def by blast
  then show ?thesis using ok by (simp add: ids_ok_def)
qed

lemma owners_ok_add:
  assumes "owners_ok P owners" and "owners f = Some tasks" and "ow_owner_id task = f"
    and "\<And>t. t \<in># P \<Longrightarrow> ow_id t \<noteq> ow_id task"
  shows "owners_ok (add_mset task P) (owners(f := Some (tasks @ [ow_id task])))"
  unfolding owners_ok_def
proof (intro allI impI)
  fix f' tasks'
  assume f': "(owners(f := Some (tasks @ [ow_id task]))) f' = Some tasks'"
  have old: "distinct ts \<and> set ts = {ow_id t |t. t \<in># P \<and> ow_owner_id t = g}" if "owners g = Some ts" for g ts
    using assms(1) that unfolding owners_ok_def by blast
  show "distinct tasks' \<and> set tasks' = {ow_id t |t. t \<in># add_mset task P \<and> ow_owner_id t = f'}"
  proof (cases "f' = f")
    case True
    have "ow_id task \<notin> set tasks" using old [OF assms(2)] assms(4) by force
    with True f' old [OF assms(2)] assms(3) show ?thesis by auto
  next
    case False
    with f' old [of f' tasks'] assms(3) show ?thesis by auto
  qed
qed

lemma owners_ok_remove:
  assumes "owners_ok (add_mset task P) owners" and "ids_ok (add_mset task P) spawned"
  shows "owners_ok P (detach_task task owners)"
proof -
  have "count (image_mset ow_id P) (ow_id task) = 0"
    using assms(2) unfolding ids_ok_def by (metis One_nat_def Suc_le_mono count_add_mset image_mset_add_mset le_zero_eq)
  then have "ow_id task \<notin># image_mset ow_id P" by (simp only: not_in_iff)
  then have fresh: "t \<in># P \<Longrightarrow> ow_id t \<noteq> ow_id task" for t
    by (metis imageI set_image_mset)
  show ?thesis
    unfolding owners_ok_def
  proof (intro allI impI)
    fix f tasks
    assume d: "detach_task task owners f = Some tasks"
    show "distinct tasks \<and> set tasks = {ow_id t |t. t \<in># P \<and> ow_owner_id t = f}"
    proof (cases "f = ow_owner_id task")
      case True
      with d obtain ts where ts: "owners f = Some ts" "tasks = filter (\<lambda>t. t \<noteq> ow_id task) ts"
        by (auto simp: detach_task_eq)
      have "distinct ts" "set ts = {ow_id t |t. t \<in># add_mset task P \<and> ow_owner_id t = f}"
        using assms(1) ts(1) unfolding owners_ok_def by blast+
      with ts(2) fresh show ?thesis by auto
    next
      case False
      then have "owners f = Some tasks" using d by (simp add: detach_task_eq)
      then have "distinct tasks" "set tasks = {ow_id t |t. t \<in># add_mset task P \<and> ow_owner_id t = f}"
        using assms(1) unfolding owners_ok_def by blast+
      with False show ?thesis by auto
    qed
  qed
qed

lemma task_inv_init: "task_init s \<Longrightarrow> task_inv s"
  by (fastforce simp: task_init_def task_inv_def task_supervisor_new_def wf_arena_def pending_def owners_ok_def
      ids_ok_def counts_ok_def wrappers_ok_def counted_def task_counters_default_def)

lemma task_inv_move:
  assumes "task_inv s" and "pending t = pending s" and "tw_owners (tk_world t) = tw_owners (tk_world s)"
    and "tk_spawned t = tk_spawned s" and "wf_arena (system_arena t)" and "counts_ok t" and "wrappers_ok t"
  shows "task_inv t"
  using assms by (simp add: task_inv_def)

lemma task_inv_step:
  assumes I: "task_inv s" and step: "task_step s t"
  shows "task_inv t"
proof -
  note I' = I [unfolded task_inv_def counts_ok_def wrappers_ok_def]
  have counts: "counts_ok s" using I by (simp add: task_inv_def)
  from step show ?thesis
  proof (cases rule: task_step.cases)
    case (Spawn fresh f tasks scope)
    note t = Spawn(1)
    let ?task = "\<lparr>ow_id = fresh, ow_owner_id = f, ow_scope_id = scope\<rparr>"
    have new: "task \<in># pending s \<Longrightarrow> ow_id task \<noteq> fresh" for task
      using I' Spawn(2) by (auto simp: ids_ok_def)
    have "aget (system_arena s) i = Some task \<Longrightarrow> task \<in># pending s" for i task
      by (force simp: pending_def dest: map_of_SomeD)
    with new I' have "aget (system_arena s) fresh = None" by (metis option.exhaust wf_arena_def)
    then have arena: "system_arena t = system_arena s @ [(fresh, ?task)]"
      by (simp add: t set_owners_def set_supervisor_def task_spawn_def aput_fresh aget_None_iff)
    have pend: "pending t = add_mset ?task (pending s)"
      by (simp add: pending_def arena) (simp add: t set_owners_def set_supervisor_def)
    have "wf_arena (system_arena t)"
      using I' unfolding t by (auto simp: set_owners_def set_supervisor_def task_spawn_def wf_arena_def)
    moreover have "owners_ok (pending t) (tw_owners (tk_world t))"
      using owners_ok_add [of "pending s" _ f tasks ?task] I' Spawn(3) new pend
      by (simp add: t set_owners_def set_supervisor_def)
    moreover have "ids_ok (pending t) (tk_spawned t)"
      using ids_ok_add [of "pending s" _ ?task] I' Spawn(2) pend by (simp add: t)
    moreover have "counts_ok t"
      using counts by (simp add: counts_ok_def arena) (simp add: t set_owners_def set_supervisor_def task_spawn_def)
    moreover have "wrappers_ok t" using I' by (simp add: wrappers_ok_def t)
    ultimately show "task_inv t" by (simp add: task_inv_def)
  next
    case (ReturnLive i activation body outcome task now)
    note t = ReturnLive(1) and o = ReturnLive(3) and a = ReturnLive(4)
    have ne: "outcome \<noteq> OutErrored" using task_wrapper_outcome o by blast
    have d: "distinct (akeys (system_arena s))" using I' by (simp add: wf_arena_def)
    have arena: "system_arena t = adel i (system_arena s)" by (simp add: t set_supervisor_def)
    have len: "length (system_arena s) = Suc (length (adel i (system_arena s)))"
      using length_adel [OF d a] a by (cases "system_arena s") auto
    show "task_inv t"
    proof (rule task_inv_move [OF I])
      show "pending t = pending s"
        using avals_adel [OF d a] by (simp add: pending_def arena) (simp add: t set_supervisor_def)
      show "wf_arena (system_arena t)" using I' by (simp add: arena wf_arena_adel)
      show "counts_ok t"
        using counts len count_outcome_counted [OF ne]
        by (simp add: counts_ok_def arena) (simp add: t set_supervisor_def algebra_simps)
      show "wrappers_ok t" using I' ne by (simp add: wrappers_ok_def t)
    qed (simp_all add: t set_supervisor_def)
  next
    case (ReturnTaken i activation body outcome)
    note t = ReturnTaken(1)
    have "outcome \<noteq> OutErrored" using task_wrapper_outcome ReturnTaken(3) by blast
    with I' show "task_inv t"
      by (intro task_inv_move [OF I]) (simp_all add: t pending_def counts_ok_def wrappers_ok_def)
  next
    case (Take ids tasks arena)
    note t = Take(1) and take = Take(2)
    have wf: "wf_arena (system_arena s)" using I' by simp
    note T = take_tasks_spec [OF wf, of ids, unfolded take]
    have arena: "system_arena t = arena" by (simp add: t set_supervisor_def)
    show "task_inv t"
    proof (rule task_inv_move [OF I])
      show "pending t = pending s"
        using avals_take [OF _ take] wf by (simp add: pending_def arena wf_arena_def) (simp add: t set_supervisor_def)
      show "wf_arena (system_arena t)" using T by (simp add: arena)
      show "counts_ok t"
        using counts T by (simp add: counts_ok_def arena) (simp add: t set_supervisor_def algebra_simps)
      show "wrappers_ok t" using I' by (simp add: wrappers_ok_def t set_supervisor_def)
    qed (simp_all add: t set_supervisor_def)
  next
    case (Abort task)
    note t = Abort(1)
    show "task_inv t"
      using I' by (intro task_inv_move [OF I]) (simp_all add: t pending_def counts_ok_def wrappers_ok_def)
  next
    case (Join task result now)
    note t = Join(1) and mem = Join(2) and res = Join(3)
    have ne: "joined_outcome result \<noteq> OutErrored"
      using res I' by (auto simp: joined_outcome_def split: option.splits wrapper_state.splits)
    have arena: "system_arena t = system_arena s" by (simp add: t set_supervisor_def)
    have len: "length (tk_taken s) = Suc (length (remove1 task (tk_taken s)))"
      using mem length_pos_if_in_set [OF mem] by (simp add: length_remove1)
    show "task_inv t"
    proof (rule task_inv_move [OF I])
      show "pending t = pending s"
        using mem by (simp add: pending_def arena) (simp add: t set_supervisor_def)
      show "wf_arena (system_arena t)" using I' by (simp add: arena)
      show "counts_ok t"
        using counts len count_outcome_counted [OF ne]
        by (simp add: counts_ok_def arena) (simp add: t set_supervisor_def algebra_simps)
      show "wrappers_ok t" using I' by (simp add: wrappers_ok_def t set_supervisor_def)
    qed (simp_all add: t set_supervisor_def)
  next
    case (Detach task)
    note t = Detach(1) and mem = Detach(2)
    have arena: "system_arena t = system_arena s" by (simp add: t set_owners_def)
    have "pending s = add_mset task (pending t)"
      using mem by (simp add: pending_def arena) (simp add: t set_owners_def)
    then have "owners_ok (add_mset task (pending t)) (tw_owners (tk_world s))"
        "ids_ok (add_mset task (pending t)) (tk_spawned s)"
      using I' by simp_all
    then have "owners_ok (pending t) (detach_task task (tw_owners (tk_world s)))" "ids_ok (pending t) (tk_spawned s)"
      using owners_ok_remove ids_ok_remove by blast+
    then show "task_inv t"
      using I' by (simp add: task_inv_def t set_owners_def counts_ok_def wrappers_ok_def)
  next
    case (DropOwner f)
    note t = DropOwner(1)
    show "task_inv t"
      using I' by (simp add: task_inv_def t set_owners_def counts_ok_def wrappers_ok_def pending_def owners_ok_def)
  qed
qed

lemma task_reachable_inv: "tasks.reachable s \<Longrightarrow> task_inv s"
  using tasks.invariant [of s task_inv] task_inv_init task_inv_step by blast

text \<open>
  C11. Every owned task is accounted for exactly once, however completion, draining, abort and the
  death of owners interleave: the spawned tasks are those reaped, those live in the arena and those
  a drain is joining; the outcome counters add up to the reaped counter; and a live Fiber's task list
  holds exactly its tasks that are not yet detached.
\<close>

theorem tasks_accounted_exactly:
  assumes "tasks.reachable s"
  shows "of_nat (length (tk_spawned s)) = tc_reaped (tp_counters (tw_supervisor (tk_world s))) +
      of_nat (live_fiber_tasks (tw_supervisor (tk_world s))) + of_nat (length (tk_taken s)) \<and>
    counted (tp_counters (tw_supervisor (tk_world s))) = tc_reaped (tp_counters (tw_supervisor (tk_world s))) \<and>
    (\<forall>f tasks. tw_owners (tk_world s) f = Some tasks \<longrightarrow> distinct tasks \<and>
      set tasks = {ow_id task | task. task \<in># pending s \<and> ow_owner_id task = f})"
  using task_reachable_inv [OF assms]
  by (simp add: task_inv_def counts_ok_def owners_ok_def live_fiber_tasks_def)

definition idle_tasks :: task_system where
  "idle_tasks = \<lparr>tk_world = \<lparr>tw_supervisor = task_supervisor_new diagnostics_default, tw_owners = (\<lambda>_. None)(3 := Some [])\<rparr>,
     tk_wrapper = \<lambda>_. None, tk_taken = [], tk_detaching = [], tk_spawned = []\<rparr>"

definition one_task :: task_system where
  "one_task = \<lparr>tk_world = example_tasks, tk_wrapper = (\<lambda>_. None)(7 := Some WrapperRunning),
     tk_taken = [], tk_detaching = [], tk_spawned = [7]\<rparr>"

lemma one_task_reachable: "tasks.reachable one_task"
proof -
  have "tasks.reachable idle_tasks"
    by (rule tasks.reachable.start) (simp add: task_init_def idle_tasks_def)
  moreover have "task_step idle_tasks one_task"
    using task_step.Spawn [of 7 idle_tasks 3 "[]" 0]
    by (simp add: idle_tasks_def one_task_def example_tasks_def set_owners_def set_supervisor_def)
  ultimately show ?thesis by (rule tasks.reachable.step)
qed

theorem tasks_accounted_exactly_witness:
  "tw_owners (tk_world one_task) 3 = Some [7] \<and> {7} = {ow_id task | task. task \<in># pending one_task \<and> ow_owner_id task = 3}"
proof -
  have o: "tw_owners (tk_world one_task) 3 = Some [7]" by (simp add: one_task_def example_tasks_def)
  with tasks_accounted_exactly [OF one_task_reachable]
  have "set [7] = {ow_id task | task. task \<in># pending one_task \<and> ow_owner_id task = 3}" by blast
  with o show ?thesis by simp
qed

lemma record_worker_reaped: "rs_reaped (record_worker_outcome now outcome s) = rs_reaped s + 1"
  "rs_workers (record_worker_outcome now outcome s) = rs_workers s"
  by (cases outcome; simp add: record_worker_outcome_def Let_def push_worker_issue_def)+

lemma fold_worker_reaped:
  "rs_reaped (fold (\<lambda>(i, _). record_worker_outcome now (f i)) ws s) = rs_reaped s + of_nat (length ws) \<and>
   rs_workers (fold (\<lambda>(i, _). record_worker_outcome now (f i)) ws s) = rs_workers s"
  by (induction ws arbitrary: s) (auto simp: record_worker_reaped)

text \<open>
  Draining the Runtime workers: \<open>shutdown_until\<close> leaves no supervised worker, cancels exactly the
  workers that are not cleanup workers, and reaps each of them once, in any order of the joins.
\<close>

theorem shutdown_until_drains:
  assumes "\<forall>xs. mset (order xs) = mset xs" and "shutdown_until now order result s = (workers, s')"
  shows "live_workers s' = 0 \<and> rs_reaped s' = rs_reaped s + of_nat (live_workers s) \<and>
    akeys workers = akeys (rs_workers s) \<and>
    (\<forall>i w. (i, w) \<in> set workers \<longrightarrow> \<not> rw_cleanup w \<longrightarrow> rw_cancelled w)"
proof -
  have workers: "workers = map (\<lambda>(i, w). (i, if rw_cleanup w then w else w\<lparr>rw_cancelled := True\<rparr>)) (rs_workers s)"
    and s': "s' = fold (\<lambda>(i, _). record_worker_outcome now (joined_outcome (result i))) (order workers) (s\<lparr>rs_workers := []\<rparr>)"
    using assms(2) by (auto simp: shutdown_until_def Let_def)
  have "mset (order workers) = mset workers" using assms(1) by blast
  then have "length (order workers) = length workers" by (rule mset_eq_length)
  then have len: "length (order workers) = live_workers s" by (simp add: workers live_workers_def)
  have "akeys workers = akeys (rs_workers s)" by (auto simp: workers)
  moreover have "\<forall>i w. (i, w) \<in> set workers \<longrightarrow> \<not> rw_cleanup w \<longrightarrow> rw_cancelled w"
    by (auto simp: workers split: if_splits)
  ultimately show ?thesis
    using fold_worker_reaped [of now "\<lambda>i. joined_outcome (result i)" "order workers"] len
    by (simp add: s' live_workers_def)
qed

definition example_workers :: runtime_worker_supervisor where
  "example_workers = snd (worker_spawn ReloadTransactionWorker True
     (snd (worker_spawn InstallWorker False (worker_supervisor_new diagnostics_default))))"

theorem shutdown_until_drains_witness:
  "rs_reaped (snd (shutdown_until 0 (\<lambda>xs. xs) (\<lambda>_. JoinErr False) example_workers)) = 2"
proof -
  obtain workers s' where r: "shutdown_until 0 (\<lambda>xs. xs) (\<lambda>_. JoinErr False) example_workers = (workers, s')"
    by (cases "shutdown_until 0 (\<lambda>xs. xs) (\<lambda>_. JoinErr False) example_workers")
  show ?thesis
    using shutdown_until_drains [OF _ r] r
    by (simp add: example_workers_def worker_spawn_def worker_supervisor_new_def live_workers_def)
qed

end
