(* ===== verification/Runs.thy ===== *)
theory Runs
  imports Core_Types
begin

text \<open>
  Runs: a computation over a state that returns a result and the next state, or does not return
  (\<open>None\<close>). The Runtime and a process session are the two states the development runs over.
\<close>

section \<open>Runs\<close>

type_synonym ('s, 'a) run_over = "'s \<Rightarrow> ('a cres \<times> 's) option"

definition pass :: "'a \<Rightarrow> ('s, 'a) run_over" where
  "pass a s = Some (Ok a, s)"

definition give :: "'a cres \<Rightarrow> ('s, 'a) run_over" where
  "give r s = Some (r, s)"

definition reads :: "('s \<Rightarrow> 'a) \<Rightarrow> ('s, 'a) run_over" where
  "reads f s = Some (Ok (f s), s)"

definition update :: "('s \<Rightarrow> 's) \<Rightarrow> ('s, unit) run_over" where
  "update f s = Some (Ok (), f s)"

definition andthen :: "('s, 'a) run_over \<Rightarrow> ('a \<Rightarrow> ('s, 'b) run_over) \<Rightarrow> ('s, 'b) run_over" where
  "andthen m f s = (case m s of
      None \<Rightarrow> None
    | Some (Ok a, s') \<Rightarrow> f a s'
    | Some (Err e, s') \<Rightarrow> Some (Err e, s')
    | Some (Panicked p, s') \<Rightarrow> Some (Panicked p, s'))"

text \<open>Run \<open>m\<close> and go on with its result, whatever it is.\<close>

definition settle :: "('s, 'a) run_over \<Rightarrow> ('a cres \<Rightarrow> ('s, 'b) run_over) \<Rightarrow> ('s, 'b) run_over" where
  "settle m f s = (case m s of None \<Rightarrow> None | Some (r, s') \<Rightarrow> f r s')"

text \<open>An operation of one component of the state.\<close>

definition within :: "('s \<Rightarrow> 'p) \<Rightarrow> ('p \<Rightarrow> 's \<Rightarrow> 's) \<Rightarrow> ('p \<Rightarrow> 'a cres \<times> 'p) \<Rightarrow> ('s, 'a) run_over" where
  "within sel upd f s = (case f (sel s) of (r, p) \<Rightarrow> Some (r, upd p s))"

fun each :: "('a \<Rightarrow> ('s, unit) run_over) \<Rightarrow> 'a list \<Rightarrow> ('s, unit) run_over" where
  "each f [] = pass ()"
| "each f (x # xs) = andthen (f x) (\<lambda>_. each f xs)"

section \<open>Laws of runs\<close>

lemma andthen_pass [simp]: "andthen (pass a) f = f a"
  by (simp add: andthen_def pass_def fun_eq_iff)

lemma andthen_Ok_iff:
  "andthen m f s = Some (Ok b, t) \<longleftrightarrow> (\<exists>a u. m s = Some (Ok a, u) \<and> f a u = Some (Ok b, t))"
  by (auto simp: andthen_def split: option.splits res.splits)

lemma andthen_Err_iff:
  "andthen m f s = Some (Err e, t) \<longleftrightarrow>
     m s = Some (Err e, t) \<or> (\<exists>a u. m s = Some (Ok a, u) \<and> f a u = Some (Err e, t))"
  by (auto simp: andthen_def split: option.splits res.splits)

lemma andthen_assoc: "andthen (andthen m f) g = andthen m (\<lambda>a. andthen (f a) g)"
  by (auto simp: andthen_def fun_eq_iff split: option.splits res.splits)

end
