(* ===== verification/Runtime_State.thy ===== *)
theory Runtime_State
  imports Runtime_Config Plugin_Registry Service_Registry Dependency_Graph Scope_Registry Event_Bus
    Invocation Shutdown_Coordinator Tasks Runs
begin

text \<open>
  The state of a Runtime (\<^verbatim>\<open>runtime/mod.rs\<close>, \<^verbatim>\<open>fiber_registry.rs\<close>, \<^verbatim>\<open>runtime/lifecycle.rs\<close>) and the
  form of its operations.

  An operation is a \<open>run\<close>: from a state it returns a result and the next state, or \<open>None\<close> when it does
  not return. A region that holds locks is one step; where the code awaits, other threads may run,
  which the operations model with a parameter that changes the state.

  Handlers, middleware, plugins and effects are user code and are identified by numbers. Shared
  objects are references into the state: gates and selectors (\<open>rt_gates\<close>), activation barriers
  (\<open>rt_barriers\<close>) and liveness flags of host processes (\<open>rt_processes\<close>). A weak reference to a
  Fiber cell can be upgraded as long as the registry holds the cell.
\<close>

section \<open>Fibers\<close>

type_synonym plugin_ref = nat
type_synonym effect_ref = nat
type_synonym barrier_ref = nat
type_synonym process_ref = nat

record fiber_record =
  fb_scope :: scope_id
  fb_descriptor :: plugin_descriptor
  fb_state :: fiber_state
  fb_plugin :: plugin_ref
  fb_effects :: "effect_ref list"
  fb_tasks :: "task_id list"
  fb_handlers :: "handler_id list"
  fb_invocation_handlers :: "invocation_handler_id list"
  fb_invocation_middleware :: "invocation_middleware_id list"
  fb_provided :: "service_key list"
  fb_child_scopes :: "scope_id list"
  fb_host_processes :: "process_ref list"
  fb_cancelled :: bool
  fb_activation :: "barrier_ref option"
  fb_activation_sealed :: bool
  fb_capabilities :: gate_ref
  fb_generation :: generation_id
  fb_staged :: bool
  fb_reload_owned :: bool
  fb_disposal :: fiber_disposal

record fiber_cell =
  fc_plugin_id :: plugin_id
  fc_inner :: fiber_record

text \<open>An activation barrier: pending, opened by the commit, or dropped without opening.\<close>

datatype barrier = BarrierPending | BarrierOpened | BarrierDropped

section \<open>The Runtime\<close>

record runtime =
  rt_shutdown :: shutdown_coordinator
  rt_fibers :: "(fiber_id, fiber_cell) amap"
  rt_events :: "nat event_bus"
  rt_invocations :: "(nat, nat) invocation_registry"
  rt_tasks :: task_supervisor
  rt_workers :: runtime_worker_supervisor
  rt_root :: scope_id
  rt_scopes :: scope_arena
  rt_plugins :: plugin_registry
  rt_services :: service_registry
  rt_dependencies :: graph_state
  rt_config :: runtime_config
  rt_permits :: usize
  rt_diagnostics :: diagnostics
  rt_next_invocation :: u64
  rt_active_reloads :: usize
  rt_reload_cleanup_pending :: usize
  rt_gc_state :: usize
  rt_pending_activations :: "(fiber_id, bool) amap"
  rt_admission :: admission_gate
  rt_gates :: gate_store
  rt_barriers :: "barrier_ref \<Rightarrow> barrier"
  rt_processes :: "process_ref \<Rightarrow> bool"
  rt_shutdown_deadline :: "nat option"

definition runtime_with_config :: "scope_id \<Rightarrow> gate_store \<Rightarrow> runtime_config \<Rightarrow> runtime cres" where
  "runtime_with_config root gates config = rbind (config_validate config) (\<lambda>_. Ok
     \<lparr>rt_shutdown = coordinator_default, rt_fibers = [], rt_events = event_bus_default,
      rt_invocations = invocation_registry_default, rt_tasks = task_supervisor_new diagnostics_default,
      rt_workers = worker_supervisor_new diagnostics_default, rt_root = root,
      rt_scopes = scope_registry_new root, rt_plugins = [],
      rt_services = service_registry_new (max_interned_symbols config) (max_resolution_cache_entries config),
      rt_dependencies = graph_default, rt_config = config,
      rt_permits = max_concurrent_invocations config, rt_diagnostics = diagnostics_default,
      rt_next_invocation = 1, rt_active_reloads = 0, rt_reload_cleanup_pending = 0, rt_gc_state = 0,
      rt_pending_activations = [], rt_admission = admission_default, rt_gates = gates,
      rt_barriers = \<lambda>_. BarrierPending, rt_processes = \<lambda>_. False, rt_shutdown_deadline = None\<rparr>)"

section \<open>Runs\<close>

type_synonym 'a run = "(runtime, 'a) run_over"

abbreviation in_gates :: "(gate_store \<Rightarrow> 'a cres \<times> gate_store) \<Rightarrow> 'a run" where
  "in_gates \<equiv> within rt_gates (\<lambda>g s. s\<lparr>rt_gates := g\<rparr>)"

abbreviation in_services :: "(service_registry \<Rightarrow> 'a cres \<times> service_registry) \<Rightarrow> 'a run" where
  "in_services \<equiv> within rt_services (\<lambda>p s. s\<lparr>rt_services := p\<rparr>)"

abbreviation in_plugins :: "(plugin_registry \<Rightarrow> 'a cres \<times> plugin_registry) \<Rightarrow> 'a run" where
  "in_plugins \<equiv> within rt_plugins (\<lambda>p s. s\<lparr>rt_plugins := p\<rparr>)"

abbreviation in_dependencies :: "(graph_state \<Rightarrow> 'a cres \<times> graph_state) \<Rightarrow> 'a run" where
  "in_dependencies \<equiv> within rt_dependencies (\<lambda>p s. s\<lparr>rt_dependencies := p\<rparr>)"

abbreviation in_scopes :: "(scope_arena \<Rightarrow> 'a cres \<times> scope_arena) \<Rightarrow> 'a run" where
  "in_scopes \<equiv> within rt_scopes (\<lambda>p s. s\<lparr>rt_scopes := p\<rparr>)"

abbreviation in_invocations ::
  "((nat, nat) invocation_registry \<Rightarrow> 'a cres \<times> (nat, nat) invocation_registry) \<Rightarrow> 'a run" where
  "in_invocations \<equiv> within rt_invocations (\<lambda>p s. s\<lparr>rt_invocations := p\<rparr>)"

text \<open>\<open>let _admission = self.0.admission.enter()?\<close> in front of a body; the guard is dropped at its end.\<close>

definition with_admission :: "'a run \<Rightarrow> 'a run" where
  "with_admission body =
     andthen (within rt_admission (\<lambda>g s. s\<lparr>rt_admission := g\<rparr>) admission_enter) (\<lambda>_.
       settle body (\<lambda>r. andthen (update (\<lambda>s. s\<lparr>rt_admission := admission_leave (rt_admission s)\<rparr>)) (\<lambda>_. give r)))"

section \<open>Access to Fibers\<close>

definition fiber :: "fiber_id \<Rightarrow> runtime \<Rightarrow> fiber_record option" where
  "fiber f s = map_option fc_inner (aget (rt_fibers s) f)"

definition modify_fiber :: "fiber_id \<Rightarrow> (fiber_record \<Rightarrow> fiber_record) \<Rightarrow> runtime \<Rightarrow> runtime" where
  "modify_fiber f g s = s\<lparr>rt_fibers := amod f (\<lambda>c. c\<lparr>fc_inner := g (fc_inner c)\<rparr>) (rt_fibers s)\<rparr>"

text \<open>\<open>self.0.fibers.get(fiber).ok_or(CordisError::FiberNotFound)?\<close>\<close>

definition get_fiber :: "fiber_id \<Rightarrow> fiber_record run" where
  "get_fiber f s = Some (ok_or FiberNotFound (fiber f s), s)"

text \<open>\<open>transition\<close> (\<^verbatim>\<open>runtime/fiber.rs\<close>).\<close>

definition transition :: "fiber_id \<Rightarrow> fiber_state \<Rightarrow> unit run" where
  "transition f next = andthen (get_fiber f) (\<lambda>r.
     if \<not> can_transition_to (fb_state r) next then give (Err (InvalidFiberState f (fb_state r) next))
     else update (modify_fiber f (\<lambda>r. r\<lparr>fb_state := next\<rparr>)))"

section \<open>Helpers of the Runtime\<close>

definition quota_error ::
  "nat \<Rightarrow> resource_kind \<Rightarrow> usize \<Rightarrow> scope_id option \<Rightarrow> fiber_id option \<Rightarrow> 'a run" where
  "quota_error now resource limit scope f =
     andthen (update (\<lambda>s. s\<lparr>rt_diagnostics := push_issue \<lparr>hi_at = now, hi_kind = QuotaRejectedIssue,
           hi_scope = scope, hi_fiber = f, hi_invocation = None\<rparr>
         ((rt_diagnostics s)\<lparr>dg_quota_rejections := dg_quota_rejections (rt_diagnostics s) + 1\<rparr>)\<rparr>)) (\<lambda>_.
       give (Err (ResourceLimitExceeded resource limit)))"

definition intern_symbol :: "service_key \<Rightarrow> service_symbol run" where
  "intern_symbol key s = Some (intern key (rt_services s), s)"

definition lookup_symbol :: "service_key \<Rightarrow> runtime \<Rightarrow> service_symbol option" where
  "lookup_symbol key s = service_lookup key (rt_services s)"

definition intern_service :: "service_key \<Rightarrow> service_symbol run" where
  "intern_service key = in_services (try_intern key)"

definition bump_service_epoch :: "unit run" where
  "bump_service_epoch = update (\<lambda>s. s\<lparr>rt_services := bump_epoch (rt_services s)\<rparr>)"

text \<open>\<open>scope_ancestry\<close>: an unknown scope gives the empty list (\<open>unwrap_or_default\<close>).\<close>

definition scope_ancestry :: "scope_id \<Rightarrow> scope_id list run" where
  "scope_ancestry scope s = (case ancestry scope (rt_scopes s) of
      None \<Rightarrow> None
    | Some (Ok xs) \<Rightarrow> Some (Ok xs, s)
    | Some _ \<Rightarrow> Some (Ok [], s))"

definition resolve_symbol :: "scope_id \<Rightarrow> service_symbol \<Rightarrow> service_entry option run" where
  "resolve_symbol scope symbol = andthen (scope_ancestry scope) (\<lambda>xs s.
     case resolve (rt_gates s) scope xs symbol (rt_services s) of
       None \<Rightarrow> None
     | Some (entry, services) \<Rightarrow> Some (Ok entry, s\<lparr>rt_services := services\<rparr>))"

text \<open>\<open>Runtime::resolve_owned\<close>: a hidden entry of the owner, else the visible resolution.\<close>

definition runtime_resolve_owned :: "scope_id \<Rightarrow> service_symbol \<Rightarrow> fiber_id \<Rightarrow> service_entry option run" where
  "runtime_resolve_owned scope symbol owner = andthen (scope_ancestry scope) (\<lambda>xs s.
     case resolve_owned (rt_gates s) xs symbol owner (rt_services s) of
       Some entry \<Rightarrow> Some (Ok (Some entry), s)
     | None \<Rightarrow> (case resolve (rt_gates s) scope xs symbol (rt_services s) of
           None \<Rightarrow> None
         | Some (entry, services) \<Rightarrow> Some (Ok entry, s\<lparr>rt_services := services\<rparr>)))"

text \<open>\<open>deps.iter().all(|key| ...)\<close> stops at the first unresolved dependency.\<close>

fun dependencies_met :: "scope_id \<Rightarrow> service_key list \<Rightarrow> bool run" where
  "dependencies_met scope [] = pass True"
| "dependencies_met scope (key # keys) = andthen (intern_symbol key) (\<lambda>symbol.
     andthen (resolve_symbol scope symbol) (\<lambda>entry.
       if entry = None then pass False else dependencies_met scope keys))"

text \<open>
  The supervisors share the Runtime's diagnostics, and the task supervisor works on the Fibers'
  own task lists.
\<close>

definition in_tasks :: "(task_world \<Rightarrow> 'a cres \<times> task_world) \<Rightarrow> 'a run" where
  "in_tasks op s =
     (let w = \<lparr>tw_supervisor = (rt_tasks s)\<lparr>tp_diagnostics := rt_diagnostics s\<rparr>,
               tw_owners = \<lambda>f. map_option fb_tasks (fiber f s)\<rparr>
      in case op w of (r, w') \<Rightarrow> Some (r,
           s\<lparr>rt_tasks := tw_supervisor w', rt_diagnostics := tp_diagnostics (tw_supervisor w'),
             rt_fibers := map (\<lambda>(f, c). (f, case tw_owners w' f of
                 None \<Rightarrow> c | Some tasks \<Rightarrow> c\<lparr>fc_inner := (fc_inner c)\<lparr>fb_tasks := tasks\<rparr>\<rparr>)) (rt_fibers s)\<rparr>))"

definition in_workers :: "(runtime_worker_supervisor \<Rightarrow> 'a \<times> runtime_worker_supervisor) \<Rightarrow> 'a run" where
  "in_workers op s = (case op ((rt_workers s)\<lparr>rs_diagnostics := rt_diagnostics s\<rparr>) of
      (a, w) \<Rightarrow> Some (Ok a, s\<lparr>rt_workers := w, rt_diagnostics := rs_diagnostics w\<rparr>))"

definition spawn_worker :: "runtime_worker_kind \<Rightarrow> bool \<Rightarrow> u64 run" where
  "spawn_worker kind cleanup = within rt_workers (\<lambda>p s. s\<lparr>rt_workers := p\<rparr>)
     (\<lambda>w. case worker_spawn kind cleanup w of (i, w') \<Rightarrow> (Ok i, w'))"

section \<open>Laws of Fiber access\<close>

lemma fiber_modify [simp]:
  "fiber f (modify_fiber g h s) = (if f = g then map_option h (fiber f s) else fiber f s)"
  by (simp add: fiber_def modify_fiber_def option.map_comp comp_def)

end
