(* ===== verification/Garbage.thy ===== *)
theory Garbage
  imports Runtime_State
begin

text \<open>
  Garbage collection (\<^verbatim>\<open>runtime/snapshot.rs\<close>): \<open>collect_garbage\<close> reclaims the arena slots of disposed
  Fibers and Scopes; \<open>request_gc\<close> starts or re-arms the one background collector through the word
  \<open>gc_state\<close> (0 idle, 1 collecting, 2 collect again).
\<close>

section \<open>Collection\<close>

definition disposed_fibers :: "runtime \<Rightarrow> (fiber_id \<times> plugin_id) list" where
  "disposed_fibers s = map (\<lambda>(f, c). (f, fc_plugin_id c))
     (filter (\<lambda>(f, c). fb_state (fc_inner c) = Disposed) (rt_fibers s))"

text \<open>\<open>detach_fiber\<close> (whose failure is only asserted) and \<open>reclaim_if_dead\<close> for each removed Fiber.\<close>

fun detach_all :: "gate_store \<Rightarrow> (fiber_id \<times> plugin_id) list \<Rightarrow> plugin_registry \<Rightarrow> plugin_registry" where
  "detach_all g [] r = r"
| "detach_all g ((f, p) # removed) r =
     detach_all g removed (snd (reclaim_if_dead g p (snd (detach_fiber p r))))"

definition reclaimable_scope :: "scope_id \<Rightarrow> scope_id \<times> scope_record \<Rightarrow> bool" where
  "reclaimable_scope root ir \<longleftrightarrow> fst ir \<noteq> root \<and> sc_state (snd ir) = ScopeDisposedState \<and>
     sc_children (snd ir) = [] \<and> sc_fibers (snd ir) = []"

definition collect_garbage :: "runtime \<Rightarrow> (nat \<times> nat) \<times> runtime" where
  "collect_garbage s =
     (let removed = disposed_fibers s;
          ids = map fst removed;
          fibers = filter (\<lambda>(f, _). f \<notin> set ids) (rt_fibers s);
          dependencies = retain_fibers (\<lambda>f. f \<notin> set ids) (rt_dependencies s);
          plugins = detach_all (rt_gates s) removed (rt_plugins s);
          scopes = map (map_prod (\<lambda>i. i) (\<lambda>r. r\<lparr>sc_fibers := filter (\<lambda>f. f \<notin> set ids) (sc_fibers r)\<rparr>)) (rt_scopes s);
          dead = filter (reclaimable_scope (rt_root s)) scopes
      in ((length removed, length dead),
          s\<lparr>rt_fibers := fibers, rt_dependencies := dependencies, rt_plugins := plugins,
            rt_scopes := filter (\<lambda>(i, _). i \<notin> set (map fst dead)) scopes\<rparr>))"

section \<open>Requests\<close>

definition cas :: "usize \<Rightarrow> usize \<Rightarrow> usize \<Rightarrow> (usize + usize) \<times> usize" where
  "cas expected next w = (if w = expected then (Inr w, next) else (Inl w, w))"

text \<open>\<open>request_gc\<close> without interference; a closed admission gate makes it a no-op.\<close>

definition request_gc :: "unit run" where
  "request_gc = settle (with_admission (\<lambda>s.
     case cas 0 1 (rt_gc_state s) of
       (Inr _, w) \<Rightarrow> andthen (spawn_worker GcReconcileWorker True) (\<lambda>_. pass ()) (s\<lparr>rt_gc_state := w\<rparr>)
     | (Inl seen, w) \<Rightarrow>
         if seen = 1 then Some (Ok (), s\<lparr>rt_gc_state := snd (cas 1 2 w)\<rparr>)
         else Some (Ok (), s))) (\<lambda>_. pass ())"

text \<open>One iteration of the collector; the result says whether it goes on.\<close>

definition gc_iteration :: "runtime \<Rightarrow> bool \<times> runtime" where
  "gc_iteration s =
     (let s1 = snd (collect_garbage s)
      in case cas 1 0 (rt_gc_state s1) of
           (Inr _, w) \<Rightarrow> (False, s1\<lparr>rt_gc_state := w\<rparr>)
         | (Inl seen, w) \<Rightarrow>
             if seen = 2 then (True, s1\<lparr>rt_gc_state := snd (cas 2 1 w)\<rparr>) else (False, s1))"

section \<open>Concurrent requests\<close>

text \<open>
  Requesters and collectors interleave at every compare-and-swap. A requester first disposes of
  something (\<open>gc_garbage\<close>), then requests a collection.
\<close>

datatype gc_requester = FirstCas | SecondCas
datatype gc_collector = Collecting | ClearCas | RearmCas

record gc_system =
  gc_word :: usize
  gc_garbage :: bool
  gc_requesters :: "gc_requester list"
  gc_collectors :: "gc_collector list"

inductive gc_step :: "gc_system \<Rightarrow> gc_system \<Rightarrow> bool" where
  Dispose: "gc_step s (s\<lparr>gc_garbage := True, gc_requesters := FirstCas # gc_requesters s\<rparr>)"
| First: "FirstCas \<in> set (gc_requesters s) \<Longrightarrow> cas 0 1 (gc_word s) = (r, w) \<Longrightarrow>
     gc_step s (s\<lparr>gc_word := w,
       gc_requesters := (if r = Inl 1 then [SecondCas] else []) @ remove1 FirstCas (gc_requesters s),
       gc_collectors := (if r = Inr 0 then [Collecting] else []) @ gc_collectors s\<rparr>)"
| Second: "SecondCas \<in> set (gc_requesters s) \<Longrightarrow> cas 1 2 (gc_word s) = (r, w) \<Longrightarrow>
     gc_step s (s\<lparr>gc_word := w, gc_requesters := remove1 SecondCas (gc_requesters s)\<rparr>)"
| Collect: "Collecting \<in> set (gc_collectors s) \<Longrightarrow>
     gc_step s (s\<lparr>gc_garbage := False, gc_collectors := ClearCas # remove1 Collecting (gc_collectors s)\<rparr>)"
| Clear: "ClearCas \<in> set (gc_collectors s) \<Longrightarrow> cas 1 0 (gc_word s) = (r, w) \<Longrightarrow>
     gc_step s (s\<lparr>gc_word := w,
       gc_collectors := (if r = Inl 2 then [RearmCas] else []) @ remove1 ClearCas (gc_collectors s)\<rparr>)"
| Rearm: "RearmCas \<in> set (gc_collectors s) \<Longrightarrow> cas 2 1 (gc_word s) = (r, w) \<Longrightarrow>
     gc_step s (s\<lparr>gc_word := w, gc_collectors := Collecting # remove1 RearmCas (gc_collectors s)\<rparr>)"

definition gc_init :: "gc_system \<Rightarrow> bool" where
  "gc_init s \<longleftrightarrow> s = \<lparr>gc_word = 0, gc_garbage = False, gc_requesters = [], gc_collectors = []\<rparr>"

interpretation gc: transition_system gc_init gc_step .

inductive_cases gc_stepE: "gc_step s t"

definition gc_inv :: "gc_system \<Rightarrow> bool" where
  "gc_inv s \<longleftrightarrow>
     gc_word s = 0 \<and> gc_collectors s = [] \<or>
     gc_word s = 1 \<and> (gc_collectors s = [Collecting] \<or> gc_collectors s = [ClearCas]) \<or>
     gc_word s = 2 \<and> (\<exists>c. gc_collectors s = [c])"

lemma gc_inv_step: "gc_inv s \<Longrightarrow> gc_step s t \<Longrightarrow> gc_inv t"
  by (erule gc_stepE) (auto simp: gc_inv_def cas_def split: if_splits)

lemma gc_reachable_inv: "gc.reachable s \<Longrightarrow> gc_inv s"
  using gc.invariant [of s gc_inv] gc_inv_step by (auto simp: gc_init_def gc_inv_def)

section \<open>Plugin accounting\<close>

text \<open>Every Fiber's plugin has a slot whose count is the number of its Fibers.\<close>

definition plugins_of :: "(fiber_id, fiber_cell) amap \<Rightarrow> plugin_id list" where
  "plugins_of fibers = map (\<lambda>(_, c). fc_plugin_id c) fibers"

definition accounted :: "(plugin_id \<Rightarrow> nat) \<Rightarrow> plugin_registry \<Rightarrow> bool" where
  "accounted load r \<longleftrightarrow> (\<forall>p. case aget r p of
      None \<Rightarrow> load p = 0 | Some slot \<Rightarrow> unat (ps_fiber_count slot) = load p)"

lemma detach_reclaim_accounted:
  assumes "accounted load r" and "load p \<noteq> 0"
  shows "accounted (load(p := load p - 1)) (snd (reclaim_if_dead g p (snd (detach_fiber p r))))"
  unfolding accounted_def
proof
  fix q
  have at: "case aget r q of None \<Rightarrow> load q = 0 | Some slot \<Rightarrow> unat (ps_fiber_count slot) = load q" for q
    using assms(1) unfolding accounted_def by blast
  obtain slot where slot: "aget r p = Some slot" "unat (ps_fiber_count slot) = load p"
    using at [of p] assms(2) by (cases "aget r p") auto
  then have nz: "ps_fiber_count slot \<noteq> 0" using assms(2) by auto
  then have less: "unat (ps_fiber_count slot - 1) = load p - 1"
    using slot(2) by (simp add: unat_minus_one)
  let ?slot = "slot\<lparr>ps_fiber_count := ps_fiber_count slot - 1\<rparr>"
  have "snd (detach_fiber p r) = aput p ?slot r" using slot(1) nz by (simp add: detach_fiber_def)
  then have "aget (snd (reclaim_if_dead g p (snd (detach_fiber p r)))) q =
      (if q = p then if ps_fiber_count ?slot = 0 \<and> selector_active g (ps_selector ?slot) = GEN_NONE then None else Some ?slot
       else aget r q)"
    by (simp add: reclaim_if_dead_def)
  then show "case aget (snd (reclaim_if_dead g p (snd (detach_fiber p r)))) q of
      None \<Rightarrow> (load(p := load p - 1)) q = 0
    | Some slot \<Rightarrow> unat (ps_fiber_count slot) = (load(p := load p - 1)) q"
    using less at [of q] by (cases "q = p") (auto split: option.splits)
qed

lemma detach_all_accounted:
  "accounted (\<lambda>p. load p + count_list (map snd removed) p) r \<Longrightarrow> accounted load (detach_all g removed r)"
proof (induction removed arbitrary: r)
  case (Cons fp removed)
  obtain f p where fp: "fp = (f, p)" by (cases fp)
  let ?load = "\<lambda>q. load q + count_list (map snd (fp # removed)) q"
  have "?load(p := ?load p - 1) = (\<lambda>q. load q + count_list (map snd removed) q)"
    by (auto simp: fp)
  moreover have "?load p \<noteq> 0" by (simp add: fp)
  ultimately have "accounted (\<lambda>q. load q + count_list (map snd removed) q)
      (snd (reclaim_if_dead g p (snd (detach_fiber p r))))"
    using detach_reclaim_accounted [OF Cons.prems, of p g] by metis
  from Cons.IH [OF this] show ?case by (simp add: fp)
qed simp

definition plugins_accounted :: "runtime \<Rightarrow> bool" where
  "plugins_accounted s \<longleftrightarrow> accounted (count_list (plugins_of (rt_fibers s))) (rt_plugins s)"

lemma disposed_ids: "distinct (akeys (rt_fibers s)) \<Longrightarrow>
   f \<in> fst ` set (disposed_fibers s) \<longleftrightarrow> (\<exists>r. fiber f s = Some r \<and> fb_state r = Disposed)"
  by (force simp: disposed_fibers_def fiber_def image_iff dest: map_of_SomeD)

lemma collect_fibers: "distinct (akeys (rt_fibers s)) \<Longrightarrow>
   rt_fibers (snd (collect_garbage s)) = filter (\<lambda>(f, c). fb_state (fc_inner c) \<noteq> Disposed) (rt_fibers s)"
proof -
  assume d: "distinct (akeys (rt_fibers s))"
  have "(f, c) \<in> set (rt_fibers s) \<Longrightarrow> f \<in> fst ` set (disposed_fibers s) \<longleftrightarrow> fb_state (fc_inner c) = Disposed" for f c
    using disposed_ids [OF d, of f] d by (force simp: fiber_def dest: map_of_is_SomeI)
  then show ?thesis
    by (auto simp: collect_garbage_def Let_def intro!: filter_cong)
qed

lemma count_partition:
  "count_list (map f xs) p = count_list (map f (filter P xs)) p + count_list (map f (filter (\<lambda>x. \<not> P x) xs)) p"
  by (induction xs) auto

lemma collect_accounted:
  assumes "distinct (akeys (rt_fibers s))" and "plugins_accounted s"
  shows "plugins_accounted (snd (collect_garbage s))"
proof -
  let ?P = "\<lambda>(f, c). fb_state (fc_inner c) \<noteq> Disposed"
  have "map snd (disposed_fibers s) = plugins_of (filter (\<lambda>x. \<not> ?P x) (rt_fibers s))"
    by (simp add: disposed_fibers_def plugins_of_def comp_def split_beta')
  then have "count_list (plugins_of (rt_fibers s)) =
      (\<lambda>p. count_list (plugins_of (filter ?P (rt_fibers s))) p + count_list (map snd (disposed_fibers s)) p)"
    by (simp add: plugins_of_def fun_eq_iff) (metis count_partition)
  with assms(2) have "accounted (\<lambda>p. count_list (plugins_of (filter ?P (rt_fibers s))) p +
      count_list (map snd (disposed_fibers s)) p) (rt_plugins s)"
    by (simp add: plugins_accounted_def)
  from detach_all_accounted [OF this] show ?thesis
    unfolding plugins_accounted_def collect_fibers [OF assms(1)]
    by (simp add: collect_garbage_def Let_def)
qed

lemma aget_map_values: "aget (map (map_prod (\<lambda>k. k) f) m) k = map_option f (aget m k)"
  by (induction m) auto

lemma aget_filter_values:
  "distinct (akeys m) \<Longrightarrow> aget (filter (\<lambda>(k, v). P v) m) k =
     (case aget m k of None \<Rightarrow> None | Some v \<Rightarrow> if P v then Some v else None)"
proof (induction m)
  case (Cons kv m)
  obtain k0 v0 where kv: "kv = (k0, v0)" by (cases kv)
  with Cons.prems have "aget m k0 = None" by (simp add: map_of_eq_None_iff)
  with Cons kv show ?case by (cases "k = k0") simp_all
qed simp

lemma dependents_retain: "dependents symbol (retain_fibers keep g) = filter keep (dependents symbol g)"
  by (simp add: dependents_def fibers_at_def retain_fibers_def aget_map_values split: option.splits)

lemma collect_scopes_kept:
  assumes "distinct (akeys (rt_scopes s))" and "aget (rt_scopes s) i = Some r"
    and "i = rt_root s \<or> sc_children r \<noteq> []"
  shows "aget (rt_scopes (snd (collect_garbage s))) i \<noteq> None"
proof -
  define scopes where "scopes = map (map_prod (\<lambda>i. i) (\<lambda>r. r\<lparr>sc_fibers :=
      filter (\<lambda>f. f \<notin> set (map fst (disposed_fibers s))) (sc_fibers r)\<rparr>)) (rt_scopes s)"
  define dead where "dead = map fst (filter (reclaimable_scope (rt_root s)) scopes)"
  have eq: "rt_scopes (snd (collect_garbage s)) = filter (\<lambda>(i, _). i \<notin> set dead) scopes"
    by (simp add: collect_garbage_def Let_def scopes_def dead_def)
  have keys: "akeys scopes = akeys (rt_scopes s)" by (simp add: scopes_def)
  obtain r' where r': "aget scopes i = Some r'" "sc_children r' = sc_children r"
    using assms(2) by (simp add: scopes_def aget_map_values)
  have "i \<notin> set dead"
  proof
    assume "i \<in> set dead"
    then obtain r2 where r2: "(i, r2) \<in> set scopes" "reclaimable_scope (rt_root s) (i, r2)"
      by (auto simp: dead_def)
    then have "aget scopes i = Some r2" using assms(1) keys by (simp add: map_of_is_SomeI)
    with r' r2(2) assms(3) show False by (simp add: reclaimable_scope_def)
  qed
  then have "(i, r') \<in> set (filter (\<lambda>(i, _). i \<notin> set dead) scopes)"
    using r'(1) by (simp add: map_of_SomeD)
  then show ?thesis unfolding eq aget_None_iff by force
qed

section \<open>Properties\<close>


definition example_fiber :: "fiber_state \<Rightarrow> fiber_record" where
  "example_fiber state = \<lparr>fb_scope = 0,
     fb_descriptor = \<lparr>pd_name = ''demo'', pd_dependencies = [], pd_provisions = [],
       pd_dependency_policy = Restart, pd_revision = 1\<rparr>,
     fb_state = state, fb_plugin = 0, fb_effects = [], fb_tasks = [], fb_handlers = [],
     fb_invocation_handlers = [], fb_invocation_middleware = [], fb_provided = [], fb_child_scopes = [],
     fb_host_processes = [], fb_cancelled = False, fb_activation = None, fb_activation_sealed = False,
     fb_capabilities = 0, fb_generation = 1, fb_staged = False, fb_reload_owned = False,
     fb_disposal = fiber_disposal_default\<rparr>"

definition empty_runtime :: runtime where
  "empty_runtime = (case runtime_with_config 0 example_gates config_default of Ok s \<Rightarrow> s | _ \<Rightarrow> undefined)"

text \<open>Two Fibers of plugin 9 in the root scope, the second of which has been disposed.\<close>

definition example_runtime :: runtime where
  "example_runtime = empty_runtime\<lparr>
     rt_fibers := [(4, \<lparr>fc_plugin_id = 9, fc_inner = example_fiber Active\<rparr>),
                   (5, \<lparr>fc_plugin_id = 9, fc_inner = example_fiber Disposed\<rparr>)],
     rt_plugins := [(9, \<lparr>ps_selector = 0, ps_next_generation = 3, ps_fiber_count = 2\<rparr>)],
     rt_scopes := [(0, root_record\<lparr>sc_fibers := [4, 5]\<rparr>)]\<rparr>"


text \<open>
  There is never more than one background collector, however requests race, and the word
  \<open>gc_state\<close> is idle exactly when no collector runs.
\<close>

theorem single_collector:
  assumes "gc.reachable s"
  shows "length (gc_collectors s) \<le> 1 \<and> (gc_word s = 0 \<longleftrightarrow> gc_collectors s = [])"
  using gc_reachable_inv [OF assms] by (auto simp: gc_inv_def)

definition gc_requested :: gc_system where
  "gc_requested = \<lparr>gc_word = 1, gc_garbage = True, gc_requesters = [], gc_collectors = [Collecting]\<rparr>"

lemma gc_requested_reachable: "gc.reachable gc_requested"
proof -
  let ?s0 = "\<lparr>gc_word = 0, gc_garbage = False, gc_requesters = [], gc_collectors = []\<rparr>"
  let ?s1 = "\<lparr>gc_word = 0, gc_garbage = True, gc_requesters = [FirstCas], gc_collectors = []\<rparr>"
  have "gc.reachable ?s0" by (rule gc.reachable.start) (simp add: gc_init_def)
  moreover have "gc_step ?s0 ?s1" using gc_step.Dispose [of ?s0] by simp
  moreover have "gc_step ?s1 gc_requested"
    using gc_step.First [of ?s1 "Inr 0" 1] by (simp add: cas_def gc_requested_def)
  ultimately show ?thesis by (meson gc.reachable.step)
qed

theorem single_collector_witness: "length (gc_collectors gc_requested) \<le> 1"
  using single_collector [OF gc_requested_reachable] by blast

text \<open>
  A collection request can be lost. When a requester has seen the collector running and the
  collector clears \<open>gc_state\<close> before the requester re-arms it, the request has no effect: the system
  becomes quiescent with garbage left and no collector to reclaim it.
\<close>

theorem gc_request_can_be_lost:
  "\<exists>s. gc.reachable s \<and> gc_garbage s \<and> gc_word s = 0 \<and> gc_requesters s = [] \<and> gc_collectors s = []"
proof -
  let ?s3 = "\<lparr>gc_word = 1, gc_garbage = False, gc_requesters = [], gc_collectors = [ClearCas]\<rparr>"
  let ?s4 = "\<lparr>gc_word = 1, gc_garbage = True, gc_requesters = [FirstCas], gc_collectors = [ClearCas]\<rparr>"
  let ?s5 = "\<lparr>gc_word = 1, gc_garbage = True, gc_requesters = [SecondCas], gc_collectors = [ClearCas]\<rparr>"
  let ?s6 = "\<lparr>gc_word = 0, gc_garbage = True, gc_requesters = [SecondCas], gc_collectors = []\<rparr>"
  let ?s7 = "\<lparr>gc_word = 0, gc_garbage = True, gc_requesters = [], gc_collectors = []\<rparr>"
  have "gc_step gc_requested ?s3" using gc_step.Collect [of gc_requested] by (simp add: gc_requested_def)
  moreover have "gc_step ?s3 ?s4" using gc_step.Dispose [of ?s3] by simp
  moreover have "gc_step ?s4 ?s5" using gc_step.First [of ?s4 "Inl 1" 1] by (simp add: cas_def)
  moreover have "gc_step ?s5 ?s6" using gc_step.Clear [of ?s5 "Inr 1" 0] by (simp add: cas_def)
  moreover have "gc_step ?s6 ?s7" using gc_step.Second [of ?s6 "Inl 0" 0] by (simp add: cas_def)
  ultimately have "gc.reachable ?s7"
    using gc_requested_reachable by (meson gc.reachable.step)
  then show ?thesis by force
qed

end
