(* ===== verification/Context_Ops.thy ===== *)
theory Context_Ops
  imports Garbage
begin

text \<open>
  The capability handle of a plugin activation (\<^verbatim>\<open>context.rs\<close>). Every operation first passes the
  Runtime's admission gate (when it changes something), then takes a lease of the Context's
  generation; both are given back when the operation returns.

  \<open>env\<close> is what other threads do between the check of the Fiber and the lease; \<open>now\<close> is the clock and
  \<open>fresh\<close> a handle the arena allocates.
\<close>

record context_handle =
  cx_scope :: scope_id
  cx_fiber :: fiber_id
  cx_generation :: generation_id

record context_admission =
  ca_fiber :: fiber_record  \<comment> \<open>the owner's record when it was read\<close>
  ca_scope :: scope_id
  ca_gate :: gate_ref
  ca_cancelled :: bool

section \<open>Admission\<close>

definition lifecycle_admitted :: "fiber_record \<Rightarrow> bool" where
  "lifecycle_admitted r \<longleftrightarrow> fb_state r \<in> {Starting, Active, Reloading}"

definition admit_core :: "(runtime \<Rightarrow> runtime) \<Rightarrow> context_handle \<Rightarrow> context_admission run" where
  "admit_core env cx = andthen (get_fiber (cx_fiber cx)) (\<lambda>r.
     if fb_generation r \<noteq> cx_generation cx
     then give (Err (StaleContextGeneration (cx_fiber cx) (cx_generation cx) (fb_generation r)))
     else andthen (update env) (\<lambda>_.
       andthen (in_gates (gate_try_acquire (fb_capabilities r))) (\<lambda>granted.
         if \<not> granted
         then give (Err (StaleContextGeneration (cx_fiber cx) (cx_generation cx) (fb_generation r)))
         else if \<not> lifecycle_admitted r
         then andthen (in_gates (gate_drop_lease (GenerationLease (fb_capabilities r) False)))
                (\<lambda>_. give (Err (FiberInactive (cx_fiber cx))))
         else pass \<lparr>ca_fiber = r, ca_scope = fb_scope r, ca_gate = fb_capabilities r,
                    ca_cancelled = fb_cancelled r\<rparr>)))"

text \<open>\<open>let admission = self.admit()?\<close> in front of a body; the lease is dropped at its end.\<close>

definition with_context ::
  "(runtime \<Rightarrow> runtime) \<Rightarrow> context_handle \<Rightarrow> (context_admission \<Rightarrow> 'a run) \<Rightarrow> 'a run" where
  "with_context env cx body = andthen (admit_core env cx) (\<lambda>adm.
     settle (body adm) (\<lambda>r.
       andthen (in_gates (gate_drop_lease (GenerationLease (ca_gate adm) False))) (\<lambda>_. give r)))"

definition ensure_mutable :: "fiber_record \<Rightarrow> fiber_id \<Rightarrow> unit cres" where
  "ensure_mutable r f =
     (if fb_activation_sealed r then Err (ActivationSealed f)
      else if fb_state r \<in> {Starting, Active, Reloading} then Ok () else Err (FiberInactive f))"

text \<open>The owner's record under its write lock, after \<open>ensure_mutable\<close>.\<close>

definition mutable_fiber :: "fiber_id \<Rightarrow> fiber_record run" where
  "mutable_fiber f = andthen (get_fiber f) (\<lambda>r. andthen (give (ensure_mutable r f)) (\<lambda>_. pass r))"

definition context_scope :: "(runtime \<Rightarrow> runtime) \<Rightarrow> context_handle \<Rightarrow> scope_id run" where
  "context_scope env cx = with_context env cx (\<lambda>adm. pass (ca_scope adm))"

definition context_parent :: "(runtime \<Rightarrow> runtime) \<Rightarrow> context_handle \<Rightarrow> scope_id option run" where
  "context_parent env cx = with_context env cx (\<lambda>adm. andthen (reads rt_scopes) (\<lambda>scopes.
     give (scope_parent (ca_scope adm) scopes)))"

section \<open>Registration\<close>

definition schedule_activation :: "fiber_id \<Rightarrow> unit run" where
  "schedule_activation f = settle (with_admission (\<lambda>s.
     case aget (rt_pending_activations s) f of
       Some _ \<Rightarrow> Some (Ok (), s\<lparr>rt_pending_activations := aput f True (rt_pending_activations s)\<rparr>)
     | None \<Rightarrow> andthen (spawn_worker DependencyReconcileWorker False) (\<lambda>_. pass ())
         (s\<lparr>rt_pending_activations := aput f False (rt_pending_activations s)\<rparr>))) (\<lambda>_. pass ())"

text \<open>A waiting dependent whose dependencies are now met is scheduled.\<close>

definition wake_dependent :: "fiber_id \<Rightarrow> unit run" where
  "wake_dependent f s = (case fiber f s of
      None \<Rightarrow> Some (Ok (), s)
    | Some r \<Rightarrow>
        if fb_state r \<noteq> WaitingDependencies then Some (Ok (), s)
        else andthen (dependencies_met (fb_scope r) (pd_dependencies (fb_descriptor r))) (\<lambda>met.
          if met then schedule_activation f else pass ()) s)"

definition provide ::
  "(runtime \<Rightarrow> runtime) \<Rightarrow> context_handle \<Rightarrow> service_key \<Rightarrow> native_value \<Rightarrow> unit run" where
  "provide env cx key v = with_admission (with_context env cx (\<lambda>adm.
     andthen (mutable_fiber (cx_fiber cx)) (\<lambda>r.
     if key \<notin> set (pd_provisions (fb_descriptor r))
     then give (Err (RevisionValidationFailed (Cat [Lit ''undeclared service provision: '', KeyText key])))
     else andthen (reads (lookup_symbol key)) (\<lambda>found. case found of
         None \<Rightarrow> give (Err (Invariant (Cat [Lit ''declared service key is missing from the admitted interner: '', KeyText key])))
       | Some symbol \<Rightarrow> andthen (reads rt_services) (\<lambda>services.
           if service_contains (ca_scope adm) symbol services then give (Err (DuplicateService key))
           else andthen (update (\<lambda>s. modify_fiber (cx_fiber cx) (\<lambda>r. r\<lparr>fb_provided := fb_provided r @ [key]\<rparr>)
                  (s\<lparr>rt_services := service_insert (ca_scope adm) symbol
                       \<lparr>se_owner = cx_fiber cx, se_scope = ca_scope adm, se_value = ServiceNative v,
                        se_gate = ca_gate adm\<rparr> (rt_services s)\<rparr>))) (\<lambda>_.
             if fb_state r = Active \<and> \<not> fb_staged r
             then andthen bump_service_epoch (\<lambda>_. andthen (reads (\<lambda>s. dependents symbol (rt_dependencies s)))
                    (each wake_dependent))
             else pass ()))))))"

definition add_effect :: "nat \<Rightarrow> (runtime \<Rightarrow> runtime) \<Rightarrow> context_handle \<Rightarrow> effect_ref \<Rightarrow> unit run" where
  "add_effect now env cx effect = with_admission (with_context env cx (\<lambda>adm.
     andthen (mutable_fiber (cx_fiber cx)) (\<lambda>r. andthen (reads rt_config) (\<lambda>config.
       if length (fb_effects r) \<ge> unat (max_effects_per_fiber config)
       then quota_error now EffectsPerFiber (max_effects_per_fiber config) (Some (ca_scope adm)) (Some (cx_fiber cx))
       else update (modify_fiber (cx_fiber cx) (\<lambda>r. r\<lparr>fb_effects := fb_effects r @ [effect]\<rparr>))))))"

definition ensure_handler_quota :: "nat \<Rightarrow> fiber_record \<Rightarrow> fiber_id \<Rightarrow> unit run" where
  "ensure_handler_quota now r f = andthen (reads rt_config) (\<lambda>config.
     if length (fb_handlers r) + length (fb_invocation_handlers r) + length (fb_invocation_middleware r)
          \<ge> unat (max_handlers_per_fiber config)
     then quota_error now HandlersPerFiber (max_handlers_per_fiber config) None (Some f)
     else pass ())"

text \<open>The common front of the three handler registrations.\<close>

definition registering ::
  "nat \<Rightarrow> (runtime \<Rightarrow> runtime) \<Rightarrow> context_handle \<Rightarrow> (context_admission \<Rightarrow> 'a run) \<Rightarrow> 'a run" where
  "registering now env cx body = with_admission (with_context env cx (\<lambda>adm.
     andthen (mutable_fiber (cx_fiber cx)) (\<lambda>r.
       andthen (ensure_handler_quota now r (cx_fiber cx)) (\<lambda>_. body adm))))"

definition on_event ::
  "nat \<Rightarrow> (runtime \<Rightarrow> runtime) \<Rightarrow> handler_id \<Rightarrow> context_handle \<Rightarrow> event_key \<Rightarrow> nat \<Rightarrow> handler_id run" where
  "on_event now env fresh cx event handler = registering now env cx (\<lambda>adm.
     andthen (update (\<lambda>s. modify_fiber (cx_fiber cx) (\<lambda>r. r\<lparr>fb_handlers := fb_handlers r @ [fresh]\<rparr>)
         (s\<lparr>rt_events := snd (register_gated fresh event handler (ca_gate adm) (rt_events s))\<rparr>)))
       (\<lambda>_. pass fresh))"

definition handle_invocation ::
  "nat \<Rightarrow> (runtime \<Rightarrow> runtime) \<Rightarrow> invocation_handler_id \<Rightarrow> context_handle \<Rightarrow> invocation_key \<Rightarrow> nat
    \<Rightarrow> invocation_handler_id run" where
  "handle_invocation now env fresh cx key handler = registering now env cx (\<lambda>adm.
     andthen (reads rt_gates) (\<lambda>gates.
     andthen (in_invocations (register_handler fresh (ca_scope adm) key handler (ca_gate adm) gates)) (\<lambda>i.
       andthen (update (modify_fiber (cx_fiber cx) (\<lambda>r. r\<lparr>fb_invocation_handlers := fb_invocation_handlers r @ [i]\<rparr>)))
         (\<lambda>_. pass i))))"

definition invocation_middleware ::
  "nat \<Rightarrow> (runtime \<Rightarrow> runtime) \<Rightarrow> invocation_middleware_id \<Rightarrow> context_handle \<Rightarrow> invocation_key \<Rightarrow> nat
    \<Rightarrow> invocation_middleware_id run" where
  "invocation_middleware now env fresh cx key middleware = registering now env cx (\<lambda>adm.
     andthen (update (\<lambda>s. modify_fiber (cx_fiber cx)
         (\<lambda>r. r\<lparr>fb_invocation_middleware := fb_invocation_middleware r @ [fresh]\<rparr>)
         (s\<lparr>rt_invocations := snd (register_middleware fresh (ca_scope adm) key middleware (ca_gate adm)
             (rt_invocations s))\<rparr>)))
       (\<lambda>_. pass fresh))"

section \<open>Tasks and scopes\<close>

definition context_spawn :: "nat \<Rightarrow> (runtime \<Rightarrow> runtime) \<Rightarrow> task_id \<Rightarrow> context_handle \<Rightarrow> task_id run" where
  "context_spawn now env fresh cx = with_admission (with_context env cx (\<lambda>adm.
     andthen (get_fiber (cx_fiber cx)) (\<lambda>r.
     if fb_state r \<notin> {Starting, Active} \<or> fb_state r = Starting \<and> fb_activation_sealed r
     then give (Err (FiberInactive (cx_fiber cx)))
     else andthen (reads rt_config) (\<lambda>config.
       if length (fb_tasks r) \<ge> unat (max_tasks_per_fiber config)
       then quota_error now TasksPerFiber (max_tasks_per_fiber config) (Some (ca_scope adm)) (Some (cx_fiber cx))
       else andthen (update (\<lambda>s. modify_fiber (cx_fiber cx) (\<lambda>r. r\<lparr>fb_tasks := fb_tasks r @ [fresh]\<rparr>)
              (s\<lparr>rt_tasks := snd (task_spawn fresh (cx_fiber cx) (ca_scope adm) (rt_tasks s))\<rparr>)))
            (\<lambda>_. pass fresh)))))"

definition interval :: "nat \<Rightarrow> (runtime \<Rightarrow> runtime) \<Rightarrow> task_id \<Rightarrow> context_handle \<Rightarrow> duration \<Rightarrow> task_id run" where
  "interval now env fresh cx period = with_context env cx (\<lambda>_.
     if period = 0 then give (Err (InvalidRuntimeConfig (Lit ''interval period must be non-zero'')))
     else context_spawn now env fresh cx)"

text \<open>
  \<open>Context::create_scope\<close>. The Fiber lock is held while the arena changes; \<open>create_scope_locked\<close> of
  the scope registry makes the same arena change, with the tests in another order.
\<close>

definition context_create_scope ::
  "nat \<Rightarrow> (runtime \<Rightarrow> runtime) \<Rightarrow> scope_id \<Rightarrow> context_handle \<Rightarrow> string \<Rightarrow> scope_id run" where
  "context_create_scope now env fresh cx name = with_admission (
     andthen (update (\<lambda>s. if length (rt_scopes s) \<ge> unat (max_scopes (rt_config s))
                          then snd (collect_garbage s) else s)) (\<lambda>_.
     with_context env cx (\<lambda>adm. andthen (mutable_fiber (cx_fiber cx)) (\<lambda>r.
     andthen (reads rt_config) (\<lambda>config.
     if length (fb_child_scopes r) \<ge> unat (max_child_scopes_per_fiber config)
     then quota_error now ChildScopesPerFiber (max_child_scopes_per_fiber config) (Some (ca_scope adm)) (Some (cx_fiber cx))
     else andthen (reads rt_scopes) (\<lambda>scopes. case aget scopes (ca_scope adm) of
         None \<Rightarrow> give (Err ScopeNotFound)
       | Some parent \<Rightarrow>
           if sc_state parent \<noteq> ScopeActive then give (Err (ScopeDisposed (ca_scope adm)))
           else if length scopes \<ge> unat (max_scopes config)
           then quota_error now Scopes (max_scopes config) (Some (ca_scope adm)) (Some (cx_fiber cx))
           else (case depth_loop scopes (Some (ca_scope adm)) 1 of
               None \<Rightarrow> (\<lambda>_. None)
             | Some depth \<Rightarrow>
                 if depth > unat (max_scope_depth config)
                 then quota_error now ScopeDepth (max_scope_depth config) (Some (ca_scope adm)) (Some (cx_fiber cx))
                 else andthen (update (\<lambda>s. modify_fiber (cx_fiber cx) (\<lambda>r. r\<lparr>fb_child_scopes := fb_child_scopes r @ [fresh]\<rparr>)
                        (s\<lparr>rt_scopes := amod (ca_scope adm) (\<lambda>p. p\<lparr>sc_children := sc_children p @ [fresh]\<rparr>)
                           (aput fresh \<lparr>sc_name = name, sc_parent = Some (ca_scope adm), sc_children = [], sc_fibers = [],
                              sc_state = ScopeActive, sc_hidden = False, sc_disposal = scope_disposal_default\<rparr>
                              (rt_scopes s))\<rparr>))) (\<lambda>_. pass fresh))))))))"

end
