(* ===== verification/Context_Calls.thy ===== *)
theory Context_Calls
  imports Context_Ops
begin

text \<open>
  The calls of a Context that reach other plugins (\<^verbatim>\<open>context.rs\<close>): service handles, invocations and
  event dispatch. User code runs on the Runtime's state; a handler is a number that \<open>call\<close> and
  \<open>step\<close> interpret.
\<close>

section \<open>Services\<close>

text \<open>
  A \<open>ServiceHandle\<close> (\<^verbatim>\<open>service_handle.rs\<close>) keeps a service lease of the provider's generation until it
  is dropped.
\<close>

record service_handle =
  sh_service :: native_value
  sh_lease :: generation_lease
  sh_provider :: fiber_id
  sh_generation :: generation_id
  sh_scope :: scope_id
  sh_symbol :: service_symbol

definition drop_handle :: "service_handle \<Rightarrow> unit run" where
  "drop_handle h = in_gates (gate_drop_lease (sh_lease h))"

text \<open>The typed value behind an admitted entry; a failed downcast drops the lease.\<close>

definition open_handle ::
  "nat \<Rightarrow> cordis_error \<Rightarrow> cordis_error \<Rightarrow> service_symbol \<Rightarrow> service_entry \<Rightarrow> service_handle run" where
  "open_handle ty mismatch external symbol entry =
     (let drop_lease_with = (\<lambda>e. andthen (in_gates (gate_drop_lease (GenerationLease (se_gate entry) True)))
            (\<lambda>_. give (Err e)))
      in case se_value entry of
           ServiceNative v \<Rightarrow>
             if nv_type v = ty
             then andthen (reads (\<lambda>s. cg_generation (gs_gate (rt_gates s) (se_gate entry)))) (\<lambda>generation.
               pass \<lparr>sh_service = v, sh_lease = GenerationLease (se_gate entry) True, sh_provider = se_owner entry,
                     sh_generation = generation, sh_scope = se_scope entry, sh_symbol = symbol\<rparr>)
             else drop_lease_with mismatch
         | ServiceExternal _ \<Rightarrow> drop_lease_with external)"

text \<open>
  The two attempts of a lookup; \<open>between\<close> is what other threads do between the resolution and the
  lease. \<open>missing\<close> is the result when nothing is resolved.
\<close>

fun lookup_attempts ::
  "(runtime \<Rightarrow> runtime) \<Rightarrow> 'a cres \<Rightarrow> (service_entry \<Rightarrow> 'a run) \<Rightarrow> scope_id \<Rightarrow> service_symbol \<Rightarrow> fiber_id
    \<Rightarrow> nat list \<Rightarrow> 'a run" where
  "lookup_attempts between missing found scope symbol f [] = give (Panicked ''bounded service lookup retry'')"
| "lookup_attempts between missing found scope symbol f (attempt # attempts) =
     andthen (runtime_resolve_owned scope symbol f) (\<lambda>resolved. case resolved of
         None \<Rightarrow> give missing
       | Some entry \<Rightarrow> andthen (update between) (\<lambda>_.
           andthen (in_gates (gate_try_acquire_service (se_gate entry))) (\<lambda>granted.
             if granted then found entry
             else if attempt = 0 then lookup_attempts between missing found scope symbol f attempts
             else give (Err (ServiceGenerationDraining (se_owner entry))))))"

definition try_get ::
  "(runtime \<Rightarrow> runtime) \<Rightarrow> (runtime \<Rightarrow> runtime) \<Rightarrow> context_handle \<Rightarrow> nat \<Rightarrow> service_key \<Rightarrow> service_handle option run" where
  "try_get env between cx ty key = with_context env cx (\<lambda>adm.
     andthen (reads (lookup_symbol key)) (\<lambda>found. case found of
         None \<Rightarrow> pass None
       | Some symbol \<Rightarrow> lookup_attempts between (Ok None)
           (\<lambda>entry. andthen (open_handle ty (TypeMismatch key) (TypeMismatch key) symbol entry) (\<lambda>h. pass (Some h)))
           (ca_scope adm) symbol (cx_fiber cx) [0, 1]))"

definition get_service ::
  "(runtime \<Rightarrow> runtime) \<Rightarrow> (runtime \<Rightarrow> runtime) \<Rightarrow> context_handle \<Rightarrow> nat \<Rightarrow> service_key \<Rightarrow> service_handle run" where
  "get_service env between cx ty key = andthen (try_get env between cx ty key) (\<lambda>h. give (ok_or (ServiceNotFound key) h))"

definition get_symbol ::
  "(runtime \<Rightarrow> runtime) \<Rightarrow> (runtime \<Rightarrow> runtime) \<Rightarrow> context_handle \<Rightarrow> nat \<Rightarrow> service_symbol \<Rightarrow> service_handle run" where
  "get_symbol env between cx ty symbol = with_context env cx (\<lambda>adm.
     let text = (\<lambda>what. Invariant (Cat [Lit ''service symbol '', NumText (ucast (symbol_index symbol)), Lit what]))
     in lookup_attempts between (Err (text '' was not found''))
          (open_handle ty (text '' type mismatch'') (text '' is external'') symbol)
          (ca_scope adm) symbol (cx_fiber cx) [0, 1])"

definition contains_service :: "(runtime \<Rightarrow> runtime) \<Rightarrow> context_handle \<Rightarrow> service_key \<Rightarrow> bool run" where
  "contains_service env cx key = with_context env cx (\<lambda>adm.
     andthen (reads (lookup_symbol key)) (\<lambda>found. case found of
         None \<Rightarrow> pass False
       | Some symbol \<Rightarrow> andthen (runtime_resolve_owned (ca_scope adm) symbol (cx_fiber cx)) (\<lambda>e. pass (e \<noteq> None))))"

section \<open>User code on the Runtime\<close>

text \<open>
  The dispatch loops work on gates and a user state. Here the user state is the Runtime itself,
  whose gates are the current ones when user code runs.
\<close>

definition on_world :: "(runtime \<Rightarrow> 'a \<times> runtime) \<Rightarrow> runtime world \<Rightarrow> 'a \<times> runtime world" where
  "on_world f w = (case f ((snd w)\<lparr>rt_gates := fst w\<rparr>) of (a, s) \<Rightarrow> (a, (rt_gates s, s)))"

definition to_run :: "(runtime world \<Rightarrow> 'a cres \<times> runtime world) \<Rightarrow> 'a run" where
  "to_run f s = (case f (rt_gates s, s) of (r, w) \<Rightarrow> Some (r, (snd w)\<lparr>rt_gates := fst w\<rparr>))"

section \<open>Events\<close>

definition ensure_event_admitted :: "unit run" where
  "ensure_event_admitted = with_admission (pass ())"

text \<open>The front of the five dispatch calls.\<close>

definition dispatching :: "(runtime \<Rightarrow> runtime) \<Rightarrow> context_handle \<Rightarrow> 'a run \<Rightarrow> 'a run" where
  "dispatching env cx body = andthen ensure_event_admitted (\<lambda>_. with_context env cx (\<lambda>_. body))"

type_synonym user_call = "nat \<Rightarrow> event_value \<Rightarrow> runtime \<Rightarrow> event_outcome cres \<times> runtime"

definition handler_call :: "user_call \<Rightarrow> (nat, runtime) handler_call" where
  "handler_call call h v = on_world (call h v)"

definition context_emit ::
  "(runtime \<Rightarrow> runtime) \<Rightarrow> user_call \<Rightarrow> context_handle \<Rightarrow> event_key \<Rightarrow> event_value \<Rightarrow> unit run" where
  "context_emit env call cx event v = dispatching env cx (\<lambda>s.
     to_run (emit (handler_call call) event v (rt_events s)) s)"

definition context_bail ::
  "(runtime \<Rightarrow> runtime) \<Rightarrow> user_call \<Rightarrow> context_handle \<Rightarrow> event_key \<Rightarrow> event_value \<Rightarrow> event_outcome run" where
  "context_bail env call cx event v = dispatching env cx (\<lambda>s.
     to_run (bail (handler_call call) event v (rt_events s)) s)"

definition context_serial ::
  "(runtime \<Rightarrow> runtime) \<Rightarrow> user_call \<Rightarrow> context_handle \<Rightarrow> event_key \<Rightarrow> event_value \<Rightarrow> event_outcome list run" where
  "context_serial env call cx event v = dispatching env cx (\<lambda>s.
     to_run (serial (handler_call call) event v (rt_events s)) s)"

definition context_parallel ::
  "(runtime \<Rightarrow> runtime) \<Rightarrow> user_call \<Rightarrow> context_handle \<Rightarrow> event_key \<Rightarrow> event_value \<Rightarrow> event_outcome list run" where
  "context_parallel env call cx event v = dispatching env cx (\<lambda>s.
     to_run (parallel (handler_call call) event v (rt_events s)) s)"

definition context_waterfall ::
  "(runtime \<Rightarrow> runtime) \<Rightarrow> (nat, runtime) waterfall_call \<Rightarrow> context_handle \<Rightarrow> event_key \<Rightarrow> event_value
    \<Rightarrow> event_outcome run" where
  "context_waterfall env call cx event v = dispatching env cx (\<lambda>s.
     to_run (waterfall call event v (rt_events s)) s)"

section \<open>Invocations\<close>

text \<open>
  The parameters of one invocation: what other threads do while the caller waits for a permit
  (\<open>iv_wait\<close>; the caller goes on when a permit is free) and between its steps, whether cancellation
  wins while it waits, and how the chain ends: \<open>None\<close> when it returns, \<open>Some partial\<close> when the
  caller's cancellation drops it after the effect \<open>partial\<close> of the handlers so far.
\<close>

record invoke_schedule =
  iv_now :: nat
  iv_env :: "runtime \<Rightarrow> runtime"
  iv_between :: "gate_store \<Rightarrow> gate_store"
  iv_wait :: "runtime \<Rightarrow> runtime"
  iv_cancel_wait :: bool
  iv_interrupted :: "(runtime \<Rightarrow> runtime) option"

type_synonym user_handler = "nat \<Rightarrow> invocation_context \<Rightarrow> invocation_value \<Rightarrow> runtime \<Rightarrow> invocation_value cres \<times> runtime"
type_synonym user_middleware = "nat \<Rightarrow> invocation_context \<Rightarrow> invocation_value \<Rightarrow> runtime world \<Rightarrow> runtime world mw_step"

definition invocation_call :: "user_handler \<Rightarrow> nat \<Rightarrow> runtime world inv_call" where
  "invocation_call call h ctx input = on_world (call h ctx input)"

definition count_result ::
  "nat \<Rightarrow> scope_id \<Rightarrow> fiber_id \<Rightarrow> invocation_id \<Rightarrow> invocation_value cres \<Rightarrow> diagnostics \<Rightarrow> diagnostics" where
  "count_result now scope f i result d =
     (let issue = (\<lambda>kind. \<lparr>hi_at = now, hi_kind = kind, hi_scope = Some scope, hi_fiber = Some f, hi_invocation = Some i\<rparr>)
      in case result of
           Ok _ \<Rightarrow> d\<lparr>dg_successes := dg_successes d + 1\<rparr>
         | Err InvocationCancelled \<Rightarrow>
             push_issue (issue InvocationCancelledIssue) (d\<lparr>dg_cancellations := dg_cancellations d + 1\<rparr>)
         | Err (InvocationHandlerPanicked _) \<Rightarrow>
             push_issue (issue InvocationPanicIssue) (d\<lparr>dg_panics := dg_panics d + 1\<rparr>)
         | Err (InvocationMiddlewarePanicked _) \<Rightarrow>
             push_issue (issue InvocationPanicIssue) (d\<lparr>dg_panics := dg_panics d + 1\<rparr>)
         | Err _ \<Rightarrow> push_issue (issue InvocationErrorIssue) (d\<lparr>dg_errors := dg_errors d + 1\<rparr>)
         | Panicked _ \<Rightarrow> d)"

text \<open>The snapshot's chain, run to its end or dropped; its leases are released either way.\<close>

definition run_snapshot ::
  "invoke_schedule \<Rightarrow> user_handler \<Rightarrow> user_middleware \<Rightarrow> (nat, nat) invocation_snapshot \<Rightarrow> invocation_context
    \<Rightarrow> invocation_value \<Rightarrow> invocation_value run" where
  "run_snapshot iv call step snap ctx input = (case iv_interrupted iv of
      None \<Rightarrow> to_run (snapshot_invoke (invocation_call call) step snap ctx input)
    | Some partial \<Rightarrow> andthen (update partial) (\<lambda>_.
        andthen (in_gates (release_all release_gate (is_leases snap))) (\<lambda>_. give (Err InvocationCancelled))))"

text \<open>The dispatch under the permit, with the caller's lease held.\<close>

definition dispatch_invocation ::
  "invoke_schedule \<Rightarrow> user_handler \<Rightarrow> user_middleware \<Rightarrow> context_handle \<Rightarrow> invocation_key \<Rightarrow> invocation_value
    \<Rightarrow> nat \<Rightarrow> context_admission \<Rightarrow> (scope_id \<times> invocation_id \<times> invocation_value cres) run" where
  "dispatch_invocation iv call step cx key input deadline adm =
     andthen (get_fiber (cx_fiber cx)) (\<lambda>r.
     if fb_state r \<notin> {Starting, Active} \<or> fb_cancelled r then give (Err InvocationCancelled)
     else andthen (reads rt_scopes) (\<lambda>scopes. case ancestry_root_to_leaf (ca_scope adm) True scopes of
         None \<Rightarrow> (\<lambda>_. None)
       | Some path \<Rightarrow> andthen (give path) (\<lambda>path.
           andthen (reads rt_invocations) (\<lambda>registry.
           andthen (in_gates (registry_snapshot (iv_between iv) registry path key)) (\<lambda>snap.
           andthen (reads rt_next_invocation) (\<lambda>i.
           andthen (update (\<lambda>s. s\<lparr>rt_next_invocation := i + 1\<rparr>)) (\<lambda>_.
             settle (run_snapshot iv call step snap
                 \<lparr>ic_metadata = invocation_metadata_new i key (ca_scope adm) (cx_fiber cx), ic_deadline = deadline\<rparr> input)
               (\<lambda>result. pass (ca_scope adm, i, result)))))))))"

definition invoke_inner ::
  "invoke_schedule \<Rightarrow> user_handler \<Rightarrow> user_middleware \<Rightarrow> context_handle \<Rightarrow> invocation_key \<Rightarrow> invocation_value
    \<Rightarrow> nat \<Rightarrow> invocation_value run" where
  "invoke_inner iv call step cx key input deadline =
     andthen (with_admission (andthen (get_fiber (cx_fiber cx)) (\<lambda>r.
       if fb_state r \<notin> {Starting, Active} then give (Err (FiberInactive (cx_fiber cx))) else pass ()))) (\<lambda>_.
     if iv_cancel_wait iv then give (Err InvocationCancelled)
     else andthen (update (iv_wait iv)) (\<lambda>_. andthen (reads rt_permits) (\<lambda>permits.
       if permits = 0 then (\<lambda>_. None)
       else andthen (update (\<lambda>s. s\<lparr>rt_permits := permits - 1\<rparr>)) (\<lambda>_.
         settle (andthen (with_admission (admit_core (iv_env iv) cx)) (\<lambda>adm.
             settle (dispatch_invocation iv call step cx key input deadline adm) (\<lambda>r.
               andthen (in_gates (gate_drop_lease (GenerationLease (ca_gate adm) False))) (\<lambda>_. give r))))
           (\<lambda>dispatched. andthen (update (\<lambda>s. s\<lparr>rt_permits := rt_permits s + 1\<rparr>)) (\<lambda>_.
             andthen (give dispatched) (\<lambda>(scope, i, result).
               andthen (update (\<lambda>s. s\<lparr>rt_diagnostics := count_result (iv_now iv) scope (cx_fiber cx) i result (rt_diagnostics s)\<rparr>))
                 (\<lambda>_. give result))))))))"

text \<open>
  \<open>invoke_with_timeout\<close>: \<open>timed_out\<close> is \<open>Some s'\<close> when the deadline passes first and the call has left
  the state \<open>s'\<close>; \<open>invoke\<close> is the call with the configured default timeout.
\<close>

definition invoke_with_timeout ::
  "invoke_schedule \<Rightarrow> user_handler \<Rightarrow> user_middleware \<Rightarrow> context_handle \<Rightarrow> invocation_key \<Rightarrow> invocation_value
    \<Rightarrow> nat \<Rightarrow> (runtime \<Rightarrow> runtime) option \<Rightarrow> invocation_value run" where
  "invoke_with_timeout iv call step cx key input deadline timed_out = (case timed_out of
      None \<Rightarrow> invoke_inner iv call step cx key input deadline
    | Some effect \<Rightarrow> andthen (update effect) (\<lambda>_.
        andthen (update (\<lambda>s. s\<lparr>rt_diagnostics := (rt_diagnostics s)\<lparr>dg_timeouts := dg_timeouts (rt_diagnostics s) + 1\<rparr>\<rparr>)) (\<lambda>_.
        settle (context_scope (iv_env iv) cx) (\<lambda>scope.
          andthen (update (\<lambda>s. s\<lparr>rt_diagnostics := push_issue \<lparr>hi_at = iv_now iv, hi_kind = InvocationTimeoutIssue,
              hi_scope = (case scope of Ok sc \<Rightarrow> Some sc | _ \<Rightarrow> None), hi_fiber = Some (cx_fiber cx),
              hi_invocation = None\<rparr> (rt_diagnostics s)\<rparr>)) (\<lambda>_. give (Err InvocationTimedOut))))))"

definition invoke ::
  "invoke_schedule \<Rightarrow> user_handler \<Rightarrow> user_middleware \<Rightarrow> nat \<Rightarrow> context_handle \<Rightarrow> invocation_key \<Rightarrow> invocation_value
    \<Rightarrow> (runtime \<Rightarrow> runtime) option \<Rightarrow> invocation_value run" where
  "invoke iv call step clock cx key input timed_out = andthen (reads (\<lambda>s. default_invocation_timeout (rt_config s)))
     (\<lambda>timeout. invoke_with_timeout iv call step cx key input (clock + timeout) timed_out)"

definition invoke_typed ::
  "invoke_schedule \<Rightarrow> user_handler \<Rightarrow> user_middleware \<Rightarrow> nat \<Rightarrow> context_handle \<Rightarrow> invocation_key \<Rightarrow> native_value
    \<Rightarrow> nat \<Rightarrow> (runtime \<Rightarrow> runtime) option \<Rightarrow> native_value run" where
  "invoke_typed iv call step clock cx key input ty timed_out =
     andthen (invoke iv call step clock cx key (InvocationNative input) timed_out) (\<lambda>v.
       give (case downcast_native ty v of Ok x \<Rightarrow> Ok x | _ \<Rightarrow> Err (InvocationTypeMismatch key)))"

definition invoke_typed_with_timeout ::
  "invoke_schedule \<Rightarrow> user_handler \<Rightarrow> user_middleware \<Rightarrow> nat \<Rightarrow> context_handle \<Rightarrow> invocation_key \<Rightarrow> native_value
    \<Rightarrow> duration \<Rightarrow> nat \<Rightarrow> (runtime \<Rightarrow> runtime) option \<Rightarrow> native_value run" where
  "invoke_typed_with_timeout iv call step clock cx key input timeout ty timed_out =
     andthen (invoke_with_timeout iv call step cx key (InvocationNative input) (clock + timeout) timed_out) (\<lambda>v.
       give (case downcast_native ty v of Ok x \<Rightarrow> Ok x | _ \<Rightarrow> Err (InvocationTypeMismatch key)))"

section \<open>Waiting\<close>

definition context_root :: "(runtime \<Rightarrow> runtime) \<Rightarrow> context_handle \<Rightarrow> scope_id run" where
  "context_root env cx = with_context env cx (\<lambda>_. reads rt_root)"

text \<open>
  The admission is held over the wait, in which other threads do \<open>others\<close>. Which branch of the \<^verbatim>\<open>select!\<close>
  is taken first is a parameter.
\<close>

datatype 'a raced = CancelledFirst | ElapsedFirst | FinishedFirst 'a

definition context_sleep :: "(runtime \<Rightarrow> runtime) \<Rightarrow> bool \<Rightarrow> (runtime \<Rightarrow> runtime) \<Rightarrow> context_handle \<Rightarrow> unit run" where
  "context_sleep env cancelled others cx = with_context env cx (\<lambda>_. andthen (update others) (\<lambda>_.
     give (if cancelled then Err TaskCancelled else Ok ())))"

definition context_timeout :: "(runtime \<Rightarrow> runtime) \<Rightarrow> 'a raced \<Rightarrow> (runtime \<Rightarrow> runtime) \<Rightarrow> context_handle \<Rightarrow> 'a run" where
  "context_timeout env race others cx = with_context env cx (\<lambda>_. andthen (update others) (\<lambda>_.
     give (case race of CancelledFirst \<Rightarrow> Err TaskCancelled | ElapsedFirst \<Rightarrow> Err Timeout | FinishedFirst a \<Rightarrow> Ok a)))"

end
