(* ===== verification/Run_Triples.thy ===== *)
theory Run_Triples
  imports Runtime_State
begin

text \<open>
  Partial-correctness triples for runs, with one law for each construct. A triple
  has one postcondition for a value and one for an error or a panic. \<open>kept\<close> is the case of an
  invariant; the preservation proofs of the operations are chains of these laws.
\<close>

named_theorems triples \<open>laws of the constructs of runs\<close>

definition triple :: "('s \<Rightarrow> bool) \<Rightarrow> ('s, 'a) run_over \<Rightarrow> ('a \<Rightarrow> 's \<Rightarrow> bool) \<Rightarrow> ('s \<Rightarrow> bool) \<Rightarrow> bool" where
  "triple P m Q E \<longleftrightarrow> (\<forall>s r t. P s \<longrightarrow> m s = Some (r, t) \<longrightarrow> (case r of Ok a \<Rightarrow> Q a t | _ \<Rightarrow> E t))"

definition kept :: "('s \<Rightarrow> bool) \<Rightarrow> ('s, 'a) run_over \<Rightarrow> bool" where
  "kept I m \<longleftrightarrow> triple I m (\<lambda>_. I) I"

lemma tripleD_Ok: "triple P m Q E \<Longrightarrow> P s \<Longrightarrow> m s = Some (Ok a, t) \<Longrightarrow> Q a t"
  by (fastforce simp: triple_def)

lemma tripleD_Err: "triple P m Q E \<Longrightarrow> P s \<Longrightarrow> m s = Some (Err e, t) \<Longrightarrow> E t"
  by (fastforce simp: triple_def)

lemma keptD: "kept I m \<Longrightarrow> I s \<Longrightarrow> m s = Some (r, t) \<Longrightarrow> I t"
  unfolding kept_def triple_def by (drule spec [of _ s]) (cases r; simp)

lemma keptI: "(\<And>s r t. I s \<Longrightarrow> m s = Some (r, t) \<Longrightarrow> I t) \<Longrightarrow> kept I m"
  by (fastforce simp: kept_def triple_def split: res.splits)

lemma triple_weaken:
  "triple P' m Q' E' \<Longrightarrow> (\<And>s. P s \<Longrightarrow> P' s) \<Longrightarrow> (\<And>a s. Q' a s \<Longrightarrow> Q a s) \<Longrightarrow> (\<And>s. E' s \<Longrightarrow> E s) \<Longrightarrow> triple P m Q E"
  by (fastforce simp: triple_def split: res.splits)

lemma triple_pass [triples]: "(\<And>s. P s \<Longrightarrow> Q a s) \<Longrightarrow> triple P (pass a) Q E"
  by (simp add: triple_def pass_def)

lemma triple_give [triples]:
  "(\<And>s a. P s \<Longrightarrow> r = Ok a \<Longrightarrow> Q a s) \<Longrightarrow> (\<And>s. P s \<Longrightarrow> E s) \<Longrightarrow> triple P (give r) Q E"
  by (auto simp: triple_def give_def split: res.splits)

lemma triple_reads [triples]: "(\<And>s. P s \<Longrightarrow> Q (f s) s) \<Longrightarrow> triple P (reads f) Q E"
  by (simp add: triple_def reads_def)

lemma triple_update [triples]: "(\<And>s. P s \<Longrightarrow> Q () (f s)) \<Longrightarrow> triple P (update f) Q E"
  by (simp add: triple_def update_def)

lemma triple_andthen:
  "triple P m R E \<Longrightarrow> (\<And>a. triple (R a) (f a) Q E) \<Longrightarrow> triple P (andthen m f) Q E"
  by (fastforce simp: triple_def andthen_def split: option.splits res.splits)

lemma triple_settle:
  "triple P m (\<lambda>_. R) R \<Longrightarrow> (\<And>r. triple R (f r) Q E) \<Longrightarrow> triple P (settle m f) Q E"
proof (unfold triple_def, intro allI impI)
  fix s r t
  assume m: "\<forall>s r t. P s \<longrightarrow> m s = Some (r, t) \<longrightarrow> (case r of Ok a \<Rightarrow> R t | _ \<Rightarrow> R t)"
    and f: "\<And>r. \<forall>s r' t. R s \<longrightarrow> f r s = Some (r', t) \<longrightarrow> (case r' of Ok a \<Rightarrow> Q a t | _ \<Rightarrow> E t)"
    and s: "P s" "settle m f s = Some (r, t)"
  obtain r0 u where u: "m s = Some (r0, u)" "f r0 u = Some (r, t)"
    using s(2) by (auto simp: settle_def split: option.splits)
  have "R u" using m s(1) u(1) by (cases r0) fastforce+
  with f u(2) show "case r of Ok a \<Rightarrow> Q a t | _ \<Rightarrow> E t" by blast
qed

lemma triple_settle_cases:
  assumes "triple P m R F" and "\<And>a. triple (R a) (f (Ok a)) Q E"
    and "\<And>e. triple F (f (Err e)) Q E" and "\<And>p. triple F (f (Panicked p)) Q E"
  shows "triple P (settle m f) Q E"
proof (unfold triple_def, intro allI impI)
  fix s r t
  assume s: "P s" "settle m f s = Some (r, t)"
  then obtain r0 u where u: "m s = Some (r0, u)" "f r0 u = Some (r, t)"
    by (auto simp: settle_def split: option.splits)
  have 1: "case r0 of Ok a \<Rightarrow> R a u | _ \<Rightarrow> F u" using assms(1) s(1) u(1) by (simp add: triple_def)
  show "case r of Ok a \<Rightarrow> Q a t | _ \<Rightarrow> E t"
  proof (cases r0)
    case (Ok a)
    with assms(2) [of a] u(2) 1 show ?thesis by (simp add: triple_def)
  next
    case (Err e)
    with assms(3) [of e] u(2) 1 show ?thesis by (simp add: triple_def)
  next
    case (Panicked p)
    with assms(4) [of p] u(2) 1 show ?thesis by (simp add: triple_def)
  qed
qed

lemma triple_within [triples]:
  "(\<And>s r p. P s \<Longrightarrow> f (sel s) = (r, p) \<Longrightarrow> (case r of Ok a \<Rightarrow> Q a (upd p s) | _ \<Rightarrow> E (upd p s))) \<Longrightarrow>
   triple P (within sel upd f) Q E"
  by (auto simp: triple_def within_def split: prod.splits)

lemma triple_get_fiber [triples]:
  "(\<And>s r. P s \<Longrightarrow> fiber f s = Some r \<Longrightarrow> Q r s) \<Longrightarrow> (\<And>s. P s \<Longrightarrow> E s) \<Longrightarrow> triple P (get_fiber f) Q E"
  unfolding triple_def get_fiber_def
proof (intro allI impI)
  fix s r' t
  assume Q: "\<And>s r. P s \<Longrightarrow> fiber f s = Some r \<Longrightarrow> Q r s" and E: "\<And>s. P s \<Longrightarrow> E s"
    and s: "P s" "Some (ok_or FiberNotFound (fiber f s), s) = Some (r', t)"
  show "case r' of Ok a \<Rightarrow> Q a t | _ \<Rightarrow> E t"
    using s Q [OF s(1)] E [OF s(1)] by (cases "fiber f s") auto
qed

lemma triple_if: "(b \<Longrightarrow> triple P m Q E) \<Longrightarrow> (\<not> b \<Longrightarrow> triple P n Q E) \<Longrightarrow> triple P (if b then m else n) Q E"
  by simp

lemma triple_option:
  "(x = None \<Longrightarrow> triple P m Q E) \<Longrightarrow> (\<And>a. x = Some a \<Longrightarrow> triple P (n a) Q E) \<Longrightarrow>
   triple P (case x of None \<Rightarrow> m | Some a \<Rightarrow> n a) Q E"
  by (cases x) auto

lemma triple_diverge [triples]: "triple P (\<lambda>_. None) Q E"
  by (simp add: triple_def)

section \<open>Invariants\<close>

lemma kept_pass: "kept I (pass a)"
  unfolding kept_def by (rule triple_pass)

lemma kept_give: "kept I (give r)"
  unfolding kept_def by (rule triple_give)

lemma kept_reads: "kept I (reads f)"
  unfolding kept_def by (rule triple_reads)

lemma kept_andthen: "kept I m \<Longrightarrow> (\<And>a. kept I (f a)) \<Longrightarrow> kept I (andthen m f)"
  unfolding kept_def by (rule triple_andthen)

lemma kept_settle: "kept I m \<Longrightarrow> (\<And>r. kept I (f r)) \<Longrightarrow> kept I (settle m f)"
  unfolding kept_def by (rule triple_settle)

lemma kept_get_fiber: "kept I (get_fiber f)"
  unfolding kept_def by (rule triple_get_fiber)

lemma kept_each: "(\<And>x. kept I (f x)) \<Longrightarrow> kept I (each f xs)"
  by (induction xs) (auto intro: kept_pass kept_andthen)

lemma kept_with_admission:
  assumes "kept I body" and "\<And>s g. I s \<Longrightarrow> I (s\<lparr>rt_admission := g\<rparr>)"
  shows "kept I (with_admission body)"
proof -
  have "kept I (within rt_admission (\<lambda>g s. s\<lparr>rt_admission := g\<rparr>) admission_enter)"
    unfolding kept_def by (rule triple_within) (auto simp: assms(2) split: res.splits)
  moreover have "kept I (update (\<lambda>s. s\<lparr>rt_admission := admission_leave (rt_admission s)\<rparr>))"
    unfolding kept_def by (rule triple_update) (rule assms(2))
  ultimately show ?thesis
    unfolding with_admission_def by (intro kept_andthen kept_settle assms(1) kept_give)
qed

lemma kept_in_gates:
  "(\<And>s g. I s \<Longrightarrow> I (s\<lparr>rt_gates := g\<rparr>)) \<Longrightarrow> kept I (in_gates f)"
  unfolding kept_def by (rule triple_within) (auto split: res.splits)

lemma kept_update: "(\<And>s. I s \<Longrightarrow> I (f s)) \<Longrightarrow> kept I (update f)"
  unfolding kept_def by (rule triple_update)

lemma kept_if: "kept I m \<Longrightarrow> kept I n \<Longrightarrow> kept I (if b then m else n)"
  by simp

lemmas kept_laws = kept_pass kept_give kept_reads kept_andthen kept_settle kept_get_fiber kept_each

end
