(* ===== verification/Context_Properties.thy ===== *)
theory Context_Properties
  imports Context_Calls Run_Triples
begin

text \<open>
  What a Context guarantees: a closed or replaced generation can no longer do anything through it, the
  resource limits of a Fiber hold whatever plugins ask for, every lease and permit is given back,
  and a service handle pins exactly the provider it was resolved to.
\<close>

section \<open>Invariants through the two guards\<close>

text \<open>An invariant about neither the gates nor the admission gate.\<close>

definition guard_free :: "(runtime \<Rightarrow> bool) \<Rightarrow> bool" where
  "guard_free I \<longleftrightarrow> (\<forall>s g a. I s \<longrightarrow> I (s\<lparr>rt_gates := g\<rparr>) \<and> I (s\<lparr>rt_admission := a\<rparr>))"

definition env_keeps :: "(runtime \<Rightarrow> bool) \<Rightarrow> (runtime \<Rightarrow> runtime) \<Rightarrow> bool" where
  "env_keeps I env \<longleftrightarrow> (\<forall>s. I s \<longrightarrow> I (env s))"

lemma kept_gates: "guard_free I \<Longrightarrow> kept I (in_gates f)"
  by (rule kept_in_gates) (simp add: guard_free_def)

lemma kept_admission: "guard_free I \<Longrightarrow> kept I body \<Longrightarrow> kept I (with_admission body)"
  by (rule kept_with_admission) (simp_all add: guard_free_def)

lemma kept_env: "env_keeps I env \<Longrightarrow> kept I (update env)"
  by (rule kept_update) (simp add: env_keeps_def)

lemma kept_admit: "guard_free I \<Longrightarrow> env_keeps I env \<Longrightarrow> kept I (admit_core env cx)"
  unfolding admit_core_def
  by (auto intro!: kept_andthen kept_get_fiber kept_give kept_pass kept_gates kept_env)

lemma kept_with_context:
  "guard_free I \<Longrightarrow> env_keeps I env \<Longrightarrow> (\<And>adm. kept I (body adm)) \<Longrightarrow> kept I (with_context env cx body)"
  unfolding with_context_def
  by (intro kept_andthen kept_settle kept_admit kept_gates kept_give)

lemma kept_waits:
  "guard_free I \<Longrightarrow> env_keeps I env \<Longrightarrow> env_keeps I others \<Longrightarrow> kept I (context_sleep env cancelled others cx)"
  "guard_free I \<Longrightarrow> env_keeps I env \<Longrightarrow> env_keeps I others \<Longrightarrow> kept I (context_timeout env race others cx)"
  "guard_free I \<Longrightarrow> env_keeps I env \<Longrightarrow> kept I (context_root env cx)"
  unfolding context_sleep_def context_timeout_def context_root_def
  by (intro kept_with_context kept_andthen kept_env kept_give kept_reads; assumption)+

lemma triple_mutable [triples]:
  "(\<And>s r. P s \<Longrightarrow> fiber f s = Some r \<Longrightarrow> Q r s) \<Longrightarrow> (\<And>s. P s \<Longrightarrow> E s) \<Longrightarrow> triple P (mutable_fiber f) Q E"
  unfolding mutable_fiber_def
  by (rule triple_andthen [where R = "\<lambda>r s. P s \<and> fiber f s = Some r"], rule triple_get_fiber, simp, simp,
      rule triple_andthen [where R = "\<lambda>_ s. P s \<and> fiber f s = Some r" for r], rule triple_give) (auto intro: triple_pass)

lemma kept_mutable: "kept I (mutable_fiber f)"
  unfolding mutable_fiber_def by (intro kept_andthen kept_get_fiber kept_give kept_pass)

section \<open>Resource limits\<close>

definition fiber_limits :: "runtime_config \<Rightarrow> fiber_record \<Rightarrow> bool" where
  "fiber_limits c r \<longleftrightarrow>
     length (fb_effects r) \<le> unat (max_effects_per_fiber c) \<and>
     length (fb_tasks r) \<le> unat (max_tasks_per_fiber c) \<and>
     length (fb_child_scopes r) \<le> unat (max_child_scopes_per_fiber c) \<and>
     length (fb_handlers r) + length (fb_invocation_handlers r) + length (fb_invocation_middleware r)
       \<le> unat (max_handlers_per_fiber c)"

definition within_limits :: "runtime \<Rightarrow> bool" where
  "within_limits s \<longleftrightarrow> (\<forall>f r. fiber f s = Some r \<longrightarrow> fiber_limits (rt_config s) r) \<and>
     length (rt_scopes s) \<le> unat (max_scopes (rt_config s))"

lemma fiber_upd [simp]:
  "fiber f (s\<lparr>rt_gates := g\<rparr>) = fiber f s" "fiber f (s\<lparr>rt_admission := a\<rparr>) = fiber f s"
  "fiber f (s\<lparr>rt_diagnostics := d\<rparr>) = fiber f s" "fiber f (s\<lparr>rt_events := e\<rparr>) = fiber f s"
  "fiber f (s\<lparr>rt_invocations := i\<rparr>) = fiber f s" "fiber f (s\<lparr>rt_tasks := t\<rparr>) = fiber f s"
  "fiber f (s\<lparr>rt_scopes := sc\<rparr>) = fiber f s" "fiber f (s\<lparr>rt_services := sv\<rparr>) = fiber f s"
  "fiber f (s\<lparr>rt_permits := p\<rparr>) = fiber f s" "fiber f (s\<lparr>rt_next_invocation := n\<rparr>) = fiber f s"
  by (simp_all add: fiber_def)

lemma modify_sel [simp]:
  "rt_config (modify_fiber f h s) = rt_config s" "rt_scopes (modify_fiber f h s) = rt_scopes s"
  "rt_permits (modify_fiber f h s) = rt_permits s" "rt_gates (modify_fiber f h s) = rt_gates s"
  "rt_services (modify_fiber f h s) = rt_services s"
  by (simp_all add: modify_fiber_def)

lemma limits_guard_free: "guard_free within_limits"
  by (simp add: guard_free_def within_limits_def)

text \<open>An update of one Fiber that respects its limits.\<close>

lemma limits_modify:
  "within_limits s \<Longrightarrow> fiber f s = Some r \<Longrightarrow> (fiber_limits (rt_config s) r \<Longrightarrow> fiber_limits (rt_config s) (h r)) \<Longrightarrow>
   within_limits (modify_fiber f h s)"
  by (auto simp: within_limits_def)

lemma triple_config [triples]: "(\<And>s. P s \<Longrightarrow> Q (rt_config s) s) \<Longrightarrow> triple P (reads rt_config) Q E"
  by (rule triple_reads)

lemma kept_quota: "kept within_limits (quota_error now resource limit sc f)"
  unfolding quota_error_def by (intro kept_andthen kept_update kept_give) (simp add: within_limits_def)

text \<open>A change of one Fiber, under its lock and within the quota that was tested there.\<close>

lemma kept_registration:
  assumes env: "env_keeps within_limits env"
    and body: "\<And>adm r. triple (\<lambda>s. within_limits s \<and> fiber (cx_fiber cx) s = Some r) (body adm r) (\<lambda>_. within_limits) within_limits"
  shows "kept within_limits (with_context env cx (\<lambda>adm. andthen (mutable_fiber (cx_fiber cx)) (body adm)))"
proof (rule kept_with_context [OF limits_guard_free env])
  show "kept within_limits (andthen (mutable_fiber (cx_fiber cx)) (body adm))" for adm
    unfolding kept_def by (rule triple_andthen [OF triple_mutable body]) auto
qed

lemma triple_with_config:
  "(\<And>c. triple (\<lambda>s. P s \<and> rt_config s = c) (f c) Q E) \<Longrightarrow> triple P (andthen (reads rt_config) f) Q E"
  by (rule triple_andthen [where R = "\<lambda>c s. P s \<and> rt_config s = c", OF triple_reads]) auto

lemma triple_kept: "kept I m \<Longrightarrow> (\<And>s. P s \<Longrightarrow> I s) \<Longrightarrow> triple P m (\<lambda>_. I) I"
  unfolding kept_def by (erule triple_weaken) auto

lemma kept_add_effect: "env_keeps within_limits env \<Longrightarrow> kept within_limits (add_effect now env cx effect)"
  unfolding add_effect_def
  by (intro kept_admission [OF limits_guard_free] kept_registration triple_with_config triple_if)
     (auto intro!: triple_kept [OF kept_quota] triple_update simp: fiber_limits_def elim!: limits_modify)

text \<open>The front of the handler registrations leaves room for one more handler.\<close>

definition has_room :: "runtime_config \<Rightarrow> fiber_record \<Rightarrow> bool" where
  "has_room c r \<longleftrightarrow> length (fb_handlers r) + length (fb_invocation_handlers r) + length (fb_invocation_middleware r)
     < unat (max_handlers_per_fiber c)"

definition roomy :: "fiber_id \<Rightarrow> runtime \<Rightarrow> bool" where
  "roomy f s \<longleftrightarrow> within_limits s \<and> (\<exists>r. fiber f s = Some r \<and> has_room (rt_config s) r)"

lemma kept_registering:
  assumes "env_keeps within_limits env"
    and "\<And>adm. triple (roomy (cx_fiber cx)) (body adm) (\<lambda>_. within_limits) within_limits"
  shows "kept within_limits (registering now env cx body)"
  unfolding registering_def
proof (intro kept_admission [OF limits_guard_free] kept_registration assms(1))
  fix adm r
  let ?P = "\<lambda>s. within_limits s \<and> fiber (cx_fiber cx) s = Some r"
  have "triple ?P (ensure_handler_quota now r (cx_fiber cx)) (\<lambda>_. roomy (cx_fiber cx)) within_limits"
    unfolding ensure_handler_quota_def quota_error_def
    by (intro triple_with_config triple_if triple_andthen [OF triple_update triple_give] triple_pass)
       (auto simp: roomy_def has_room_def within_limits_def)
  then show "triple ?P (andthen (ensure_handler_quota now r (cx_fiber cx)) (\<lambda>_. body adm)) (\<lambda>_. within_limits) within_limits"
    by (rule triple_andthen) (rule assms(2))
qed

lemma limits_handler:
  assumes "roomy f s"
    and "\<And>r. fb_effects (h r) = fb_effects r \<and> fb_tasks (h r) = fb_tasks r \<and> fb_child_scopes (h r) = fb_child_scopes r"
    and "\<And>r. length (fb_handlers (h r)) + length (fb_invocation_handlers (h r)) + length (fb_invocation_middleware (h r))
         = Suc (length (fb_handlers r) + length (fb_invocation_handlers r) + length (fb_invocation_middleware r))"
  shows "within_limits (modify_fiber f h s)"
  using assms by (auto simp: roomy_def has_room_def fiber_limits_def elim!: limits_modify)

lemma limits_upd [simp]:
  "within_limits (s\<lparr>rt_events := e\<rparr>) = within_limits s" "within_limits (s\<lparr>rt_invocations := i\<rparr>) = within_limits s"
  "within_limits (s\<lparr>rt_tasks := t\<rparr>) = within_limits s"
  by (simp_all add: within_limits_def)

lemma roomy_upd [simp]:
  "roomy f (s\<lparr>rt_events := e\<rparr>) = roomy f s" "roomy f (s\<lparr>rt_invocations := i\<rparr>) = roomy f s"
  by (simp_all add: roomy_def)

lemma roomy_limits: "roomy f s \<Longrightarrow> within_limits s"
  by (simp add: roomy_def)

lemma kept_on_event: "env_keeps within_limits env \<Longrightarrow> kept within_limits (on_event now env fresh cx event handler)"
  unfolding on_event_def
  by (intro kept_registering triple_andthen [OF triple_update triple_pass]) (auto intro!: limits_handler)

lemma kept_handle_invocation:
  "env_keeps within_limits env \<Longrightarrow> kept within_limits (handle_invocation now env fresh cx key handler)"
  unfolding handle_invocation_def
  by (intro kept_registering triple_andthen [where R = "\<lambda>_. roomy (cx_fiber cx)", OF triple_reads]
        triple_andthen [where R = "\<lambda>_. roomy (cx_fiber cx)", OF triple_within] triple_andthen [OF triple_update triple_pass])
     (auto intro!: limits_handler simp: roomy_limits split: res.split)

lemma kept_middleware:
  "env_keeps within_limits env \<Longrightarrow> kept within_limits (invocation_middleware now env fresh cx key handler)"
  unfolding invocation_middleware_def
  by (intro kept_registering triple_andthen [OF triple_update triple_pass]) (auto intro!: limits_handler)

lemma kept_fiber_body:
  "(\<And>r. triple (\<lambda>s. within_limits s \<and> fiber f s = Some r) (body r) (\<lambda>_. within_limits) within_limits) \<Longrightarrow>
   kept within_limits (andthen (get_fiber f) body)"
  unfolding kept_def
  by (rule triple_andthen [where R = "\<lambda>r s. within_limits s \<and> fiber f s = Some r", OF triple_get_fiber]) auto

lemma kept_spawn: "env_keeps within_limits env \<Longrightarrow> kept within_limits (context_spawn now env fresh cx)"
  unfolding context_spawn_def
  by (intro kept_admission [OF limits_guard_free] kept_with_context [OF limits_guard_free] kept_fiber_body
        triple_if triple_with_config triple_andthen [OF triple_update triple_pass])
     (auto intro!: triple_kept [OF kept_quota] triple_give limits_modify simp: fiber_limits_def)

text \<open>Scope creation: a collection only removes Fibers and scopes.\<close>

lemma aget_filter_keys: "aget (filter (\<lambda>(k, _). k \<notin> K) m) k = (if k \<in> K then None else aget m k)"
  by (induction m) auto

lemma collect_limits: "within_limits s \<Longrightarrow> within_limits (snd (collect_garbage s))"
proof -
  have "length (rt_scopes (snd (collect_garbage s))) \<le> length (rt_scopes s)"
    unfolding collect_garbage_def Let_def by (simp add: le_trans [OF length_filter_le])
  moreover have "fiber f (snd (collect_garbage s)) = Some r \<Longrightarrow> fiber f s = Some r" for f r
    by (auto simp: fiber_def collect_garbage_def Let_def aget_filter_keys split: if_splits)
  moreover have "rt_config (snd (collect_garbage s)) = rt_config s"
    by (simp add: collect_garbage_def Let_def)
  ultimately show "within_limits s \<Longrightarrow> ?thesis"
    unfolding within_limits_def by fastforce
qed

lemma length_aput_le: "length (aput k v m) \<le> Suc (length m)"
  by (simp add: length_aput)

lemma limits_create:
  assumes "within_limits s" "fiber f s = Some r" "length (fb_child_scopes r) < unat (max_child_scopes_per_fiber (rt_config s))"
    and "length scopes \<le> Suc (length (rt_scopes s))" "length (rt_scopes s) < unat (max_scopes (rt_config s))"
  shows "within_limits (modify_fiber f (\<lambda>r. r\<lparr>fb_child_scopes := fb_child_scopes r @ [fresh]\<rparr>) (s\<lparr>rt_scopes := scopes\<rparr>))"
  using assms by (auto simp: within_limits_def fiber_limits_def)

lemma triple_with_scopes:
  "(\<And>c. triple (\<lambda>s. P s \<and> rt_scopes s = c) (f c) Q E) \<Longrightarrow> triple P (andthen (reads rt_scopes) f) Q E"
  by (rule triple_andthen [where R = "\<lambda>c s. P s \<and> rt_scopes s = c", OF triple_reads]) auto

lemma kept_create_scope: "env_keeps within_limits env \<Longrightarrow> kept within_limits (context_create_scope now env fresh cx name)"
  unfolding context_create_scope_def
  by (intro kept_admission [OF limits_guard_free] kept_andthen kept_update kept_registration
        triple_if triple_option triple_with_config triple_with_scopes triple_diverge triple_andthen [OF triple_update triple_pass])
     (auto intro!: triple_kept [OF kept_quota] triple_give limits_create simp: collect_limits length_aput_le)

lemma example_runtime_sel:
  "rt_config example_runtime = config_default" "rt_gates example_runtime = example_gates"
  "rt_scopes example_runtime = [(0, root_record\<lparr>sc_fibers := [4, 5]\<rparr>)]"
  "rt_permits example_runtime = 64" "rt_admission example_runtime = admission_default"
  "rt_invocations example_runtime = invocation_registry_default"
  by (simp_all add: example_runtime_def empty_runtime_def runtime_with_config_def config_default_valid)
     (simp_all add: config_default_def)

lemma example_runtime_fiber:
  "fiber f example_runtime = (if f = 4 then Some (example_fiber Active) else if f = 5 then Some (example_fiber Disposed) else None)"
  by (simp add: example_runtime_def fiber_def)

text \<open>
  C26. Whatever a plugin asks for through its Context, and whatever other threads do in between as long as
  they respect the limits themselves, no Fiber ever owns more effects, tasks, child scopes or
  handlers than configured, and the Runtime never holds more scopes than configured.
\<close>

theorem context_respects_limits:
  assumes "env_keeps within_limits env"
  shows "kept within_limits (add_effect now env cx effect) \<and>
    kept within_limits (on_event now env handler cx event h) \<and>
    kept within_limits (handle_invocation now env server cx key h) \<and>
    kept within_limits (invocation_middleware now env middleware cx key h) \<and>
    kept within_limits (context_spawn now env task cx) \<and>
    kept within_limits (context_create_scope now env scope cx name)"
  by (intro conjI kept_add_effect kept_on_event kept_handle_invocation kept_middleware kept_spawn
      kept_create_scope assms)

theorem context_respects_limits_witness:
  "kept within_limits (add_effect 7 (\<lambda>s. s) \<lparr>cx_scope = 0, cx_fiber = 4, cx_generation = 1\<rparr> 5) \<and> within_limits example_runtime"
proof -
  have "env_keeps within_limits (\<lambda>s. s)" by (simp add: env_keeps_def)
  from context_respects_limits [OF this]
  have "kept within_limits (add_effect 7 (\<lambda>s. s) \<lparr>cx_scope = 0, cx_fiber = 4, cx_generation = 1\<rparr> 5)"
    by blast
  moreover have "within_limits example_runtime"
    by (auto simp: within_limits_def example_runtime_fiber example_runtime_sel fiber_limits_def example_fiber_def
        config_default_def split: if_splits)
  ultimately show ?thesis by simp
qed

section \<open>Revocation\<close>

lemma admit_core_stale:
  assumes "fiber (cx_fiber cx) s = Some r"
    and "fb_generation r \<noteq> cx_generation cx \<or>
      wf_gates (rt_gates (env s)) \<and> \<not> gate_accepting (rt_gates (env s)) (fb_capabilities r)"
  shows "\<exists>t. admit_core env cx s = Some (Err (StaleContextGeneration (cx_fiber cx) (cx_generation cx) (fb_generation r)), t) \<and>
    (t = s \<or> t = env s)"
proof (cases "fb_generation r = cx_generation cx")
  case True
  with assms(2) have "gate_try_acquire (fb_capabilities r) (rt_gates (env s)) = (Ok False, rt_gates (env s))"
    by (simp add: gate_try_acquire_refused)
  with assms(1) True show ?thesis
    by (simp add: admit_core_def andthen_def get_fiber_def update_def within_def give_def)
qed (simp add: assms(1) admit_core_def andthen_def get_fiber_def give_def)


text \<open>Fiber 4 of the example after the gate of its generation has been closed.\<close>

definition closed_runtime :: runtime where
  "closed_runtime = example_runtime\<lparr>rt_gates := snd (gate_close 0 example_gates)\<rparr>"


section \<open>Service handles\<close>

text \<open>A handle owns a service lease of the generation it names, so that generation cannot drain.\<close>

definition handle_pins :: "service_handle \<Rightarrow> runtime \<Rightarrow> bool" where
  "handle_pins h s \<longleftrightarrow> lease_service (sh_lease h) \<and> 0 < gate_handles (rt_gates s) (lease_gate (sh_lease h)) \<and>
     sh_generation h = cg_generation (gs_gate (rt_gates s) (lease_gate (sh_lease h)))"

text \<open>The handle comes from an entry that the resolution returned.\<close>

definition handle_of :: "fiber_id \<Rightarrow> nat \<Rightarrow> service_handle \<Rightarrow> bool" where
  "handle_of f ty h \<longleftrightarrow> nv_type (sh_service h) = ty \<and> (\<exists>scope entry s t.
     runtime_resolve_owned scope (sh_symbol h) f s = Some (Ok (Some entry), t) \<and> se_value entry = ServiceNative (sh_service h) \<and>
     se_gate entry = lease_gate (sh_lease h) \<and> se_owner entry = sh_provider h \<and> se_scope entry = sh_scope h)"

lemma pinned_not_drained:
  assumes "handle_pins h s" and "wf_gates (rt_gates s)"
  shows "execution_state (ge_word (cg_execution (gs_gate (rt_gates s) (lease_gate (sh_lease h))))) \<noteq> Some Drained"
proof -
  have "gate_inflight (rt_gates s) (lease_gate (sh_lease h)) \<noteq> 0"
    using assms handles_le_inflight [OF assms(2), of "lease_gate (sh_lease h)"] by (simp add: handle_pins_def)
  then show ?thesis
    using wf_gates_execution [OF assms(2), of "lease_gate (sh_lease h)"]
    by (auto simp: wf_execution_def gate_inflight_def)
qed

text \<open>Dropping a plain lease leaves the service leases of every gate.\<close>

lemma drop_plain_pins:
  assumes "gate_drop_lease (GenerationLease g False) gs = (r, gs')"
  shows "gate_handles gs' = gate_handles gs \<and> (\<forall>x. cg_generation (gs_gate gs' x) = cg_generation (gs_gate gs x))"
  using assms
  by (auto simp: gate_drop_lease_def drop_lease_def drop_inflight_def gate_handles_def fun_eq_iff
      split: prod.splits cas_decision.splits if_splits)

lemma acquire_service_pins:
  assumes "gate_try_acquire_service g gs = (Ok True, gs')"
  shows "0 < gate_handles gs' g"
proof -
  define n where "n = ge_service_handles (cg_execution (gs_gate gs g))"
  have "n \<noteq> - 1 \<and> ge_service_handles (cg_execution (gs_gate gs' g)) = n + 1"
    using assms by (auto simp: n_def gate_try_acquire_kind_def try_acquire_kind_def Let_def split: cas_decision.splits if_splits)
  then have "ge_service_handles (cg_execution (gs_gate gs' g)) \<noteq> 0"
    by (metis add.inverse_unique add.commute)
  then show ?thesis by (simp add: gate_handles_def unat_gt_0)
qed

lemma triple_get_value:
  "(\<And>a t. m s = Some (Ok a, t) \<Longrightarrow> Q a t) \<Longrightarrow> triple (\<lambda>x. x = s) m Q (\<lambda>_. True)"
  by (auto simp: triple_def split: res.splits)

lemma triple_True: "triple P m (\<lambda>_ _. True) (\<lambda>_. True)"
  by (simp add: triple_def split: res.splits)

text \<open>A granted lease on a resolved entry becomes a handle that pins it.\<close>

definition granted_entry :: "fiber_id \<Rightarrow> service_symbol \<Rightarrow> service_entry \<Rightarrow> runtime \<Rightarrow> bool" where
  "granted_entry f symbol entry s \<longleftrightarrow> 0 < gate_handles (rt_gates s) (se_gate entry) \<and>
     (\<exists>scope u t. runtime_resolve_owned scope symbol f u = Some (Ok (Some entry), t))"

lemma triple_open_handle:
  "triple (granted_entry f symbol entry) (open_handle ty mismatch external symbol entry)
     (\<lambda>h s. handle_pins h s \<and> handle_of f ty h \<and> sh_symbol h = symbol) (\<lambda>_. True)"
proof (cases "se_value entry")
  case (ServiceNative v)
  then show ?thesis
    by (auto simp: open_handle_def triple_def andthen_def reads_def pass_def handle_pins_def handle_of_def granted_entry_def
        within_def give_def split: prod.splits res.splits)
next
  case (ServiceExternal x)
  then show ?thesis
    by (auto simp: open_handle_def triple_def andthen_def within_def give_def split: prod.splits res.splits)
qed

lemma triple_lookup:
  assumes found: "\<And>entry. triple (granted_entry f symbol entry) (found entry) Q (\<lambda>_. True)"
    and missing: "\<And>a s. missing = Ok a \<Longrightarrow> Q a s"
  shows "triple (\<lambda>_. True) (lookup_attempts between missing found scope symbol f attempts) Q (\<lambda>_. True)"
proof (induction attempts)
  case (Cons attempt attempts)
  let ?from = "\<lambda>e. \<exists>scope u t. runtime_resolve_owned scope symbol f u = Some (Ok (Some e), t)"
  have resolved: "triple (\<lambda>_. True) (runtime_resolve_owned scope symbol f)
      (\<lambda>r _. \<forall>e. r = Some e \<longrightarrow> ?from e) (\<lambda>_. True)"
    by (auto simp: triple_def split: res.splits)
  have granted: "triple (\<lambda>_. ?from e) (in_gates (gate_try_acquire_service (se_gate e)))
      (\<lambda>g s. if g then granted_entry f symbol e s else True) (\<lambda>_. True)" for e
    by (rule triple_within) (auto simp: granted_entry_def dest: acquire_service_pins split: res.splits)
  have tail: "triple (\<lambda>_. ?from e) (andthen (update between) (\<lambda>_. andthen (in_gates (gate_try_acquire_service (se_gate e)))
       (\<lambda>granted. if granted then found e
          else if attempt = 0 then lookup_attempts between missing found scope symbol f attempts
          else give (Err (ServiceGenerationDraining (se_owner e)))))) Q (\<lambda>_. True)" for e
    by (rule triple_andthen [where R = "\<lambda>_ _. ?from e"], rule triple_update, assumption, rule triple_andthen [OF granted])
       (auto simp: found Cons.IH intro!: triple_give)
  show ?case
    unfolding lookup_attempts.simps
    by (rule triple_andthen [OF resolved], rule triple_option, rule triple_give, simp add: missing, simp,
        rule triple_weaken [OF tail]) simp_all
qed (auto intro!: triple_give)

lemma triple_context_value:
  assumes "\<And>adm. triple (\<lambda>_. True) (body adm) Q (\<lambda>_. True)"
    and "\<And>a s g gs. Q a s \<Longrightarrow> gate_drop_lease (GenerationLease g False) (rt_gates s) = (Ok (), gs) \<Longrightarrow> Q a (s\<lparr>rt_gates := gs\<rparr>)"
  shows "triple (\<lambda>_. True) (with_context env cx body) Q (\<lambda>_. True)"
proof -
  let ?release = "\<lambda>adm r. andthen (in_gates (gate_drop_lease (GenerationLease (ca_gate adm) False))) (\<lambda>_. give r)"
  have ok: "triple (Q a) (?release adm (Ok a)) Q (\<lambda>_. True)" for a adm
    by (rule triple_andthen [where R = "\<lambda>_. Q a"], rule triple_within)
       (auto intro!: triple_give assms(2) split: res.splits)
  have "triple (\<lambda>_. True) (?release adm (Err e)) Q (\<lambda>_. True)" "triple (\<lambda>_. True) (?release adm (Panicked p)) Q (\<lambda>_. True)" for adm e p
    by (auto simp: triple_def andthen_def within_def give_def split: prod.splits res.splits)
  then have "triple (\<lambda>_. True) (settle (body adm) (?release adm)) Q (\<lambda>_. True)" for adm
    by (intro triple_settle_cases [OF assms(1) ok])
  then show ?thesis
    unfolding with_context_def by (intro triple_andthen [OF triple_True])
qed


text \<open>The example Runtime with one native service of Fiber 4 in the root scope.\<close>

definition serving_entry :: service_entry where
  "serving_entry = \<lparr>se_owner = 4, se_scope = 0, se_value = ServiceNative (NativeValue 3 8), se_gate = 0\<rparr>"

definition serving_runtime :: runtime where
  "serving_runtime = example_runtime\<lparr>rt_services :=
     (service_insert 0 (from_index 0) serving_entry (snd (try_intern (example_key ''a'') (service_registry_new 4 4))))\<rparr>"

lemma accepting_example: "gate_accepting example_gates x" "gate_room example_gates x"
  by (simp_all add: gate_accepting_def gate_room_def example_gates_def staged_def exec_accepting_def exec_room_def
        exec_inflight_def unat_inflight max_inflight generation_execution_default_def execution_state_def EXECUTION_ACCEPTING_def)

lemma serving_symbol: "lookup_symbol (example_key ''a'') (serving_runtime\<lparr>rt_gates := g\<rparr>) = Some (from_index 0)"
  by (simp add: lookup_symbol_def serving_runtime_def service_lookup_def try_intern_def service_registry_new_def
      service_insert_def Let_def bump_def bump_epoch_def)

lemma serving_resolve:
  "is_visible g 0 \<Longrightarrow> \<exists>t. runtime_resolve_owned 0 (from_index 0) 4 (serving_runtime\<lparr>rt_gates := g\<rparr>) = Some (Ok (Some serving_entry), t)
     \<and> rt_gates t = g"
  by (simp add: runtime_resolve_owned_def scope_ancestry_def andthen_def serving_runtime_def example_runtime_sel ancestry_def
      ancestry_loop.simps root_record_def service_insert_def try_intern_def service_registry_new_def Let_def resolve_owned.simps
    resolve_def cached_resolution_def resolve_write_def find_location.simps evict_loop.simps visible_entry_def entry_at_def serving_entry_def bump_def)

section \<open>Permits\<close>

definition permits :: "usize \<Rightarrow> runtime \<Rightarrow> bool" where
  "permits n s \<longleftrightarrow> rt_permits s = n"

text \<open>User code and other threads that take as many permits as they give back.\<close>

definition permit_neutral :: "(runtime \<Rightarrow> runtime) \<Rightarrow> bool" where
  "permit_neutral f \<longleftrightarrow> (\<forall>s. rt_permits (f s) = rt_permits s)"

definition permit_handler :: "user_handler \<Rightarrow> bool" where
  "permit_handler call \<longleftrightarrow> (\<forall>h ctx v. permit_neutral (\<lambda>s. snd (call h ctx v s)))"

definition permit_middleware :: "user_middleware \<Rightarrow> bool" where
  "permit_middleware step \<longleftrightarrow> (\<forall>m ctx v w. case step m ctx v w of
      MwDone r w' \<Rightarrow> rt_permits (snd w') = rt_permits (snd w)
    | MwNext ctx' v' w' resume \<Rightarrow> rt_permits (snd w') = rt_permits (snd w) \<and>
        (\<forall>r w2. rt_permits (snd (snd (resume r w2))) = rt_permits (snd w2)))"

lemma permits_free: "guard_free (permits n)"
  by (simp add: guard_free_def permits_def)

lemma permits_env: "permit_neutral f \<Longrightarrow> env_keeps (permits n) f"
  by (simp add: permit_neutral_def env_keeps_def permits_def)

lemma run_chain_permits:
  assumes "permit_handler call" and "permit_middleware step"
  shows "rt_permits (snd (snd (run_chain (invocation_call call) step h ms ctx v w))) = rt_permits (snd w)"
proof (induction ms arbitrary: ctx v w)
  case Nil
  have "rt_permits (snd (call h ctx v ((snd w)\<lparr>rt_gates := fst w\<rparr>))) = rt_permits ((snd w)\<lparr>rt_gates := fst w\<rparr>)"
    using assms(1) unfolding permit_handler_def permit_neutral_def by blast
  then show ?case by (simp add: invocation_call_def on_world_def split_beta)
next
  case (Cons m ms)
  have step: "case step m ctx v w of
      MwDone r w' \<Rightarrow> rt_permits (snd w') = rt_permits (snd w)
    | MwNext ctx' v' w' resume \<Rightarrow> rt_permits (snd w') = rt_permits (snd w) \<and>
        (\<forall>r w2. rt_permits (snd (snd (resume r w2))) = rt_permits (snd w2))"
    using assms(2) unfolding permit_middleware_def by blast
  show ?case
  proof (cases "step m ctx v w")
    case (MwNext ctx' v' w' resume)
    with step have "rt_permits (snd w') = rt_permits (snd w)" and "\<And>r w2. rt_permits (snd (snd (resume r w2))) = rt_permits (snd w2)"
      by (simp_all del: split_paired_All)
    with MwNext Cons.IH [of ctx' v' w'] show ?thesis by (simp add: split_beta)
  qed (use step in simp)
qed

lemma kept_to_run:
  "(\<And>w. rt_permits (snd (snd (f w))) = rt_permits (snd w)) \<Longrightarrow> kept (permits n) (to_run f)"
proof (rule keptI)
  fix s r t
  assume f: "\<And>w. rt_permits (snd (snd (f w))) = rt_permits (snd w)" and "permits n s" "to_run f s = Some (r, t)"
  moreover have "rt_permits (snd (snd (f (rt_gates s, s)))) = rt_permits s" using f [of "(rt_gates s, s)"] by simp
  ultimately show "permits n t" by (simp add: to_run_def permits_def split_beta) (auto simp: prod_eq_iff)
qed

lemma kept_snapshot_run:
  assumes "permit_handler call" "permit_middleware step"
    and "\<And>f. iv_interrupted iv = Some f \<Longrightarrow> permit_neutral f"
  shows "kept (permits n) (run_snapshot iv call step snap ctx v)"
proof (cases "iv_interrupted iv")
  case None
  have "rt_permits (snd (snd (snapshot_invoke (invocation_call call) step snap ctx v w))) = rt_permits (snd w)" for w
    using run_chain_permits [OF assms(1,2), of "is_handler snap" "is_middleware snap" ctx v w]
    by (auto simp: snapshot_invoke_def split_beta split: res.split)
  with None show ?thesis by (simp add: run_snapshot_def kept_to_run)
next
  case (Some f)
  with assms(3) show ?thesis
    by (auto simp: run_snapshot_def intro!: kept_andthen kept_gates [OF permits_free] kept_give kept_env [OF permits_env])
qed

lemma kept_dispatch:
  assumes "permit_handler call" "permit_middleware step"
    and "\<And>f. iv_interrupted iv = Some f \<Longrightarrow> permit_neutral f"
  shows "kept (permits n) (dispatch_invocation iv call step cx key v deadline adm)"
proof -
  note k = kept_snapshot_run [OF assms]
  have next_id: "kept (permits n) (update (\<lambda>s. s\<lparr>rt_next_invocation := i + 1\<rparr>))" for i
    by (rule kept_update) (simp add: permits_def)
  have none: "kept (permits n) (\<lambda>_. None)" by (simp add: kept_def triple_diverge)
  show ?thesis
    unfolding dispatch_invocation_def
    by (auto intro!: kept_andthen kept_get_fiber kept_give kept_reads kept_settle k next_id none kept_pass
        kept_gates [OF permits_free] split: option.split)
qed

text \<open>A body that only reads leaves the state as it was, the admission gate included.\<close>

lemma with_admission_reads:
  assumes run: "with_admission body s = Some (r, t)" and body: "\<And>u r v. body u = Some (r, v) \<Longrightarrow> v = u"
  shows "t = s"
proof (cases "ag_state (rt_admission s) = RUNNING")
  case True
  let ?u = "s\<lparr>rt_admission := (rt_admission s)\<lparr>ag_readers := Suc (ag_readers (rt_admission s))\<rparr>\<rparr>"
  obtain r0 v where "body ?u = Some (r0, v)" "t = v\<lparr>rt_admission := admission_leave (rt_admission v)\<rparr>"
    using run True
    by (auto simp: with_admission_def andthen_def within_def settle_def update_def give_def admission_enter_def
        split: option.splits)
  with body [of ?u r0 v] show ?thesis by (simp add: admission_leave_def)
next
  case False
  with run show ?thesis by (simp add: with_admission_def andthen_def within_def admission_enter_def)
qed

text \<open>
  An invocation gives its permit back on every path: refused before the wait it leaves the permits as
  they were; otherwise, whether it is then refused, interrupted by its caller, fails, panics or
  returns, the permits are those that were free when its wait ended.
\<close>

theorem invocation_permit_returned:
  assumes user: "permit_handler call" "permit_middleware step"
    and others: "permit_neutral (iv_env iv)" "\<And>f. iv_interrupted iv = Some f \<Longrightarrow> permit_neutral f"
    and run: "invoke_inner iv call step cx key v deadline s = Some (r, t)"
  shows "rt_permits t = rt_permits s \<or> rt_permits t = rt_permits (iv_wait iv s)"
proof -
  let ?check = "with_admission (andthen (get_fiber (cx_fiber cx)) (\<lambda>r.
       if fb_state r \<notin> {Starting, Active} then give (Err (FiberInactive (cx_fiber cx))) else pass ()))"
  let ?n = "rt_permits (iv_wait iv s) - 1"
  let ?inner = "andthen (with_admission (admit_core (iv_env iv) cx)) (\<lambda>adm.
     settle (dispatch_invocation iv call step cx key v deadline adm) (\<lambda>r.
       andthen (in_gates (gate_drop_lease (GenerationLease (ca_gate adm) False))) (\<lambda>_. give r)))"
  have check: "u = s" if "?check s = Some (r0, u)" for r0 u
    by (rule with_admission_reads [OF that])
       (auto simp: andthen_def get_fiber_def give_def pass_def split: option.splits res.splits if_splits)
  have inner: "kept (permits ?n) ?inner"
    by (intro kept_andthen kept_admission [OF permits_free] kept_admit [OF permits_free permits_env] others(1) kept_settle
        kept_dispatch user others(2) kept_gates [OF permits_free] kept_give)
  show ?thesis
  proof (cases "?check s")
    case (Some ru)
    with check obtain r0 where r0: "?check s = Some (r0, s)" by (cases ru) auto
    show ?thesis
    proof (cases r0)
      case (Ok a)
      show ?thesis
      proof (cases "iv_cancel_wait iv \<or> rt_permits (iv_wait iv s) = 0")
        case True
        with run r0 Ok show ?thesis
          by (auto simp: invoke_inner_def andthen_def give_def update_def reads_def split: if_splits)
      next
        case False
        let ?s1 = "(iv_wait iv s)\<lparr>rt_permits := ?n\<rparr>"
        have "\<exists>d u. ?inner ?s1 = Some (d, u) \<and> rt_permits t = rt_permits u + 1"
          using run r0 Ok False
          by (auto simp: invoke_inner_def andthen_def give_def update_def reads_def settle_def split: option.splits prod.splits res.splits)
        then obtain d u where u: "?inner ?s1 = Some (d, u)" "rt_permits t = rt_permits u + 1" by blast
        have "permits ?n u" by (rule keptD [OF inner _ u(1)]) (simp add: permits_def)
        with u(2) show ?thesis by (simp add: permits_def)
      qed
    qed (use run r0 in \<open>auto simp: invoke_inner_def andthen_def\<close>)
  qed (use run in \<open>simp add: invoke_inner_def andthen_def\<close>)
qed

text \<open>An invocation that waits for nothing, is not cancelled, and finds no handler.\<close>

definition calm :: invoke_schedule where
  "calm = \<lparr>iv_now = 3, iv_env = (\<lambda>s. s), iv_between = (\<lambda>g. g), iv_wait = (\<lambda>s. s), iv_cancel_wait = False,
     iv_interrupted = None\<rparr>"

theorem invocation_permit_returned_witness:
  "\<exists>t. invoke_inner calm (\<lambda>h ctx v s. (Ok v, s)) (\<lambda>m ctx v w. MwDone (Ok v) w)
     \<lparr>cx_scope = 0, cx_fiber = 4, cx_generation = 1\<rparr> echo_key (InvocationExternal ''json'' []) 100 example_runtime
     = Some (Err (InvocationHandlerNotFound echo_key), t) \<and> rt_permits t = 64"
proof -
  have u: "permit_handler (\<lambda>h ctx v s. (Ok v, s))" "permit_middleware (\<lambda>m ctx v w. MwDone (Ok v) w)"
      "permit_neutral (iv_env calm)" "\<And>f. iv_interrupted calm = Some f \<Longrightarrow> permit_neutral f"
    by (simp_all add: permit_handler_def permit_middleware_def permit_neutral_def calm_def)
  obtain g1 where g1: "gate_try_acquire 0 example_gates = (Ok True, g1)" "wf_gates g1"
      "gate_inflight g1 0 \<noteq> 0" "gate_handles g1 0 < gate_inflight g1 0"
    using gate_try_acquire_accepting [where svc = False and g = 0, OF example_gates_wf accepting_example]
      handles_le_inflight [OF example_gates_wf, of 0] by auto
  obtain g2 where g2: "gate_drop_lease (GenerationLease 0 False) g1 = (Ok (), g2)"
    using gate_drop_lease_spec [where svc = False and g = 0, OF g1(2)] g1(3,4) by auto
  have select: "select_chain g (invocation_registry_default :: (nat, nat) invocation_registry) [0] echo_key = None" for g
    by (simp add: select_chain_def invocation_registry_default_def find_handler.simps)
  have path: "ancestry_root_to_leaf 0 True [(0, root_record\<lparr>sc_fibers := [4, 5]\<rparr>)] = Some (Ok [0])"
    by (simp add: ancestry_root_to_leaf_def root_to_leaf_loop.simps root_record_def)
  obtain t where run: "invoke_inner calm (\<lambda>h ctx v s. (Ok v, s)) (\<lambda>m ctx v w. MwDone (Ok v) w)
     \<lparr>cx_scope = 0, cx_fiber = 4, cx_generation = 1\<rparr> echo_key (InvocationExternal ''json'' []) 100 example_runtime
     = Some (Err (InvocationHandlerNotFound echo_key), t)"
    using g1(1) g2 select path
    by (simp add: invoke_inner_def with_admission_def within_def andthen_def settle_def get_fiber_def example_runtime_fiber
        example_runtime_sel example_fiber_def give_def pass_def update_def reads_def calm_def admission_enter_def admission_default_def
        admission_leave_def admit_core_def lifecycle_admitted_def dispatch_invocation_def registry_snapshot_def)
  from invocation_permit_returned [OF u run] run show ?thesis by (simp add: calm_def example_runtime_sel)
qed

end
