(* ===== verification/Fiber_Disposal.thy ===== *)
theory Fiber_Disposal
  imports Context_Properties
begin

text \<open>
  Disposal of a Fiber (\<^verbatim>\<open>runtime/disposal.rs\<close>). The first caller moves the Fiber to \<open>Disposing\<close>, revokes its
  generation and starts a worker; a supervisor turns the worker's end into one published
  observation, and every caller waits for that observation.

  Other parts the worker calls are parameters (\<open>teardown\<close>): the effects are user code, the disposal of
  child scopes and the reconciliation of dependents are tied in the theory \<open>Lifecycle\<close>, the joins of the
  tasks and what other threads do while the worker waits are the executor's.
\<close>

record teardown =
  td_now :: nat
  td_order :: "owned_task list \<Rightarrow> owned_task list"  \<comment> \<open>order in which the task joins complete\<close>
  td_join :: "task_id \<Rightarrow> join_result"
  td_drains :: "(runtime \<Rightarrow> runtime) list list"  \<comment> \<open>per drain call, what happens at each wake-up\<close>
  td_effect :: "effect_ref \<Rightarrow> unit run"
  td_child :: "scope_id \<Rightarrow> unit run"  \<comment> \<open>\<open>dispose_scope\<close>\<close>
  td_reconcile :: "service_symbol list \<Rightarrow> unit run"  \<comment> \<open>\<open>reconcile_symbols\<close>\<close>
  td_abort :: "(runtime \<Rightarrow> runtime) option"  \<comment> \<open>\<open>Some\<close>: the executor drops the worker after this effect\<close>
  td_lock :: "runtime \<Rightarrow> runtime"  \<comment> \<open>what happens while the worker waits for the lifecycle lock\<close>
  td_other :: "runtime \<Rightarrow> runtime"  \<comment> \<open>what other workers do while a later caller waits\<close>

section \<open>Records\<close>

abbreviation modify_disposal :: "fiber_id \<Rightarrow> (fiber_disposal \<Rightarrow> fiber_disposal) \<Rightarrow> runtime \<Rightarrow> runtime" where
  "modify_disposal f g \<equiv> modify_fiber f (\<lambda>r. r\<lparr>fb_disposal := g (fb_disposal r)\<rparr>)"

definition set_disposal_phase :: "fiber_id \<Rightarrow> disposal_phase \<Rightarrow> unit run" where
  "set_disposal_phase f phase = update (modify_disposal f (\<lambda>d. d\<lparr>fd_phase := phase\<rparr>))"

definition push_disposal_error :: "fiber_id \<Rightarrow> cleanup_phase \<Rightarrow> cordis_error \<Rightarrow> unit run" where
  "push_disposal_error f phase e = update (modify_disposal f (\<lambda>d. d\<lparr>fd_errors := fd_errors d @ [typed_issue phase e]\<rparr>))"

text \<open>Run a step and record its error; a panic goes on to the worker.\<close>

definition recording :: "fiber_id \<Rightarrow> cleanup_phase \<Rightarrow> unit run \<Rightarrow> unit run" where
  "recording f phase m = settle m (\<lambda>r. case r of
      Ok _ \<Rightarrow> pass () | Err e \<Rightarrow> push_disposal_error f phase e | Panicked p \<Rightarrow> give (Panicked p))"

text \<open>\<open>record.activation.take()\<close>: the barrier is dropped unopened.\<close>

definition drop_activation :: "fiber_id \<Rightarrow> unit run" where
  "drop_activation f = andthen (reads (fiber f)) (\<lambda>r. case r of
      None \<Rightarrow> pass ()
    | Some r \<Rightarrow> update (\<lambda>s. modify_fiber f (\<lambda>r. r\<lparr>fb_activation := None\<rparr>)
        (case fb_activation r of None \<Rightarrow> s | Some b \<Rightarrow> s\<lparr>rt_barriers := (rt_barriers s)(b := BarrierDropped)\<rparr>)))"

section \<open>Begin\<close>

text \<open>
  The critical section of \<open>dispose_fiber_observation\<close>. \<open>True\<close>: this caller started the worker. The
  flags of the request are merged even when the transition is then refused.
\<close>

definition begin_disposal :: "fiber_id \<Rightarrow> bool \<Rightarrow> bool \<Rightarrow> bool \<Rightarrow> bool run" where
  "begin_disposal f wait persistent allow = andthen (get_fiber f) (\<lambda>r.
     if fb_reload_owned r \<and> \<not> allow then give (Err (FiberLifecycleOwned f))
     else andthen (update (modify_fiber f (\<lambda>r. r\<lparr>fb_reload_owned := fb_reload_owned r \<and> \<not> allow,
            fb_disposal := (fb_disposal r)\<lparr>fd_wait_for_dependencies := fd_wait_for_dependencies (fb_disposal r) \<and> wait,
              fd_persistent_drain := fd_persistent_drain (fb_disposal r) \<or> persistent\<rparr>\<rparr>))) (\<lambda>_.
       if fd_phase (fb_disposal r) \<noteq> Idle then pass False
       else if fb_state r \<noteq> Disposing \<and> \<not> can_transition_to (fb_state r) Disposing
       then give (Err (InvalidFiberState f (fb_state r) Disposing))
       else andthen (update (modify_fiber f (\<lambda>r. r\<lparr>fb_state := Disposing, fb_cancelled := True\<rparr>))) (\<lambda>_.
         andthen (in_gates (gate_close (fb_capabilities r))) (\<lambda>_.
         andthen (drop_activation f) (\<lambda>_.
         andthen (update (modify_fiber f (\<lambda>r. r\<lparr>fb_activation_sealed := False,
            fb_disposal := (fb_disposal r)\<lparr>fd_phase := TasksPhase, fd_supervisor := True\<rparr>\<rparr>))) (\<lambda>_. pass True))))))"

section \<open>The worker\<close>

definition gate_word :: "gate_ref \<Rightarrow> runtime \<Rightarrow> usize" where
  "gate_word g s = ge_word (cg_execution (gs_gate (rt_gates s) g))"

text \<open>\<open>drain_until\<close> on the Runtime: one reading of the word per wake-up, and one before the deadline.\<close>

fun drain_wait :: "gate_ref \<Rightarrow> (runtime \<Rightarrow> runtime) list \<Rightarrow> drain_outcome run" where
  "drain_wait g [] = reads (\<lambda>s. drain_loop (gate_word g s) [])"
| "drain_wait g (wake # wakes) = andthen (reads (gate_word g)) (\<lambda>word.
     if execution_inflight word = 0 then pass DrainedOutcome else andthen (update wake) (\<lambda>_. drain_wait g wakes))"

text \<open>
  The drain of the generation: \<open>None\<close> when it drained, \<open>Some remaining\<close> when the grace elapsed and the
  disposal is not persistent. A persistent one starts over; with no call left it keeps waiting.
\<close>

fun drain_generation :: "fiber_id \<Rightarrow> gate_ref \<Rightarrow> (runtime \<Rightarrow> runtime) list list \<Rightarrow> usize option run" where
  "drain_generation f g [] = (\<lambda>_. None)"
| "drain_generation f g (wakes # calls) = andthen (in_gates (gate_begin_draining g)) (\<lambda>_.
     andthen (drain_wait g wakes) (\<lambda>out. case out of
         DrainedOutcome \<Rightarrow> pass None
       | TimedOut remaining \<Rightarrow> andthen (reads (\<lambda>s. case fiber f s of
             None \<Rightarrow> False | Some r \<Rightarrow> fd_persistent_drain (fb_disposal r))) (\<lambda>persistent.
           if persistent then drain_generation f g calls else pass (Some remaining))))"

text \<open>
  \<open>while let Some(x) = with_mut(fiber, |record| record.list.pop())\<close>, with a step for each element; the
  loop ends when the Fiber is gone or its list is empty.
\<close>

partial_function (option) pop_loop ::
  "(fiber_record \<Rightarrow> 'x list) \<Rightarrow> ('x list \<Rightarrow> fiber_record \<Rightarrow> fiber_record) \<Rightarrow> ('x \<Rightarrow> 'acc \<Rightarrow> 'acc run)
    \<Rightarrow> fiber_id \<Rightarrow> 'acc \<Rightarrow> runtime \<Rightarrow> ('acc cres \<times> runtime) option" where
  "pop_loop get put step f acc s = (case fiber f s of
      None \<Rightarrow> Some (Ok acc, s)
    | Some r \<Rightarrow>
        if get r = [] then Some (Ok acc, s)
        else (case step (last (get r)) acc (modify_fiber f (\<lambda>r. put (butlast (get r)) r) s) of
            None \<Rightarrow> None
          | Some (Ok acc', t) \<Rightarrow> pop_loop get put step f acc' t
          | Some (Err e, t) \<Rightarrow> Some (Err e, t)
          | Some (Panicked p, t) \<Rightarrow> Some (Panicked p, t)))"

text \<open>Child scopes: the last one is disposed first and removed from the list afterwards.\<close>

partial_function (option) dispose_children ::
  "(scope_id \<Rightarrow> unit run) \<Rightarrow> fiber_id \<Rightarrow> runtime \<Rightarrow> (unit cres \<times> runtime) option" where
  "dispose_children child f s = (case fiber f s of
      None \<Rightarrow> Some (Ok (), s)
    | Some r \<Rightarrow>
        if fb_child_scopes r = [] then Some (Ok (), s)
        else (let c = last (fb_child_scopes r) in
          case recording f ChildScopeCleanup (child c) s of
            None \<Rightarrow> None
          | Some (Ok _, t) \<Rightarrow> dispose_children child f
              (modify_fiber f (\<lambda>r. r\<lparr>fb_child_scopes := filter (\<lambda>i. i \<noteq> c) (fb_child_scopes r)\<rparr>) t)
          | Some (Err e, t) \<Rightarrow> Some (Err e, t)
          | Some (Panicked p, t) \<Rightarrow> Some (Panicked p, t)))"

definition remove_event_handler :: "handler_id \<Rightarrow> unit \<Rightarrow> unit run" where
  "remove_event_handler h _ = update (\<lambda>s. s\<lparr>rt_events := snd (bus_remove h (rt_events s))\<rparr>)"

definition remove_invocation_handler :: "invocation_handler_id \<Rightarrow> unit \<Rightarrow> unit run" where
  "remove_invocation_handler h _ = update (\<lambda>s. s\<lparr>rt_invocations := snd (remove_handler h (rt_invocations s))\<rparr>)"

definition remove_invocation_middleware :: "invocation_middleware_id \<Rightarrow> unit \<Rightarrow> unit run" where
  "remove_invocation_middleware m _ = update (\<lambda>s. s\<lparr>rt_invocations := snd (remove_middleware m (rt_invocations s))\<rparr>)"

text \<open>A service is withdrawn only while the Fiber still owns the entry (a reload moves it on).\<close>

definition withdraw_service :: "fiber_id \<Rightarrow> scope_id \<Rightarrow> service_key \<Rightarrow> service_symbol list \<Rightarrow> service_symbol list run" where
  "withdraw_service f scope key removed = andthen (intern_symbol key) (\<lambda>symbol.
     andthen (reads (\<lambda>s. service_get scope symbol (rt_services s))) (\<lambda>entry.
       if \<exists>e. entry = Some e \<and> se_owner e = f
       then andthen (update (\<lambda>s. s\<lparr>rt_services := snd (service_remove scope symbol (rt_services s))\<rparr>))
              (\<lambda>_. pass (removed @ [symbol]))
       else pass removed))"

definition dispose_effect :: "teardown \<Rightarrow> fiber_id \<Rightarrow> effect_ref \<Rightarrow> unit \<Rightarrow> unit run" where
  "dispose_effect td f e _ = settle (td_effect td e) (\<lambda>r. case r of
      Ok _ \<Rightarrow> pass ()
    | Err error \<Rightarrow> push_disposal_error f EffectCleanup error
    | Panicked p \<Rightarrow> push_disposal_error f EffectCleanup (PluginDisposeFailed (Lit p)))"

definition errors_result :: "cleanup_issue list \<Rightarrow> unit cres" where
  "errors_result errors = (case errors of
      [] \<Rightarrow> Ok ()
    | [issue] \<Rightarrow> Err (case ci_cause issue of Some e \<Rightarrow> e | None \<Rightarrow> PluginDisposeFailed (ci_message issue))
    | _ \<Rightarrow> Err (PluginDisposeFailed (joined (map issue_text errors))))"

definition disposal_result :: "fiber_id \<Rightarrow> runtime \<Rightarrow> unit cres" where
  "disposal_result f s = (case fiber f s of
      None \<Rightarrow> Err (DisposalWorkerTerminated (Lit ''fiber disappeared after cleanup''))
    | Some r \<Rightarrow> errors_result (fd_errors (fb_disposal r)))"

type_synonym worker_end = "unit cres \<times> fiber_state option \<times> bool"

text \<open>From the registrations on: everything the Fiber registered is removed, then dependents follow.\<close>

definition withdraw_registrations :: "teardown \<Rightarrow> fiber_id \<Rightarrow> worker_end run" where
  "withdraw_registrations td f =
     andthen (set_disposal_phase f Handlers) (\<lambda>_.
     andthen (pop_loop fb_handlers (\<lambda>xs r. r\<lparr>fb_handlers := xs\<rparr>) remove_event_handler f ()) (\<lambda>_.
     andthen (pop_loop fb_invocation_handlers (\<lambda>xs r. r\<lparr>fb_invocation_handlers := xs\<rparr>) remove_invocation_handler f ()) (\<lambda>_.
     andthen (pop_loop fb_invocation_middleware (\<lambda>xs r. r\<lparr>fb_invocation_middleware := xs\<rparr>) remove_invocation_middleware f ()) (\<lambda>_.
     andthen (set_disposal_phase f Services) (\<lambda>_.
     andthen (reads (fiber f)) (\<lambda>owner. case owner of
         None \<Rightarrow> pass (Err (DisposalWorkerTerminated (ErrText FiberNotFound)), None, True)
       | Some owner \<Rightarrow>
           andthen (pop_loop fb_provided (\<lambda>xs r. r\<lparr>fb_provided := xs\<rparr>) (withdraw_service f (fb_scope owner)) f []) (\<lambda>removed.
           andthen bump_service_epoch (\<lambda>_.
           andthen (set_disposal_phase f Effects) (\<lambda>_.
           andthen (pop_loop fb_effects (\<lambda>xs r. r\<lparr>fb_effects := xs\<rparr>) (dispose_effect td f) f ()) (\<lambda>_.
           andthen (set_disposal_phase f Reconciling) (\<lambda>_.
           andthen (reads (\<lambda>s. case fiber f s of None \<Rightarrow> False | Some r \<Rightarrow> fd_wait_for_dependencies (fb_disposal r))) (\<lambda>wait.
           andthen (if removed = [] then pass ()
                    else settle ensure_event_admitted (\<lambda>open. case open of
                      Ok _ \<Rightarrow> recording f DependencyCleanup (td_reconcile td removed) | _ \<Rightarrow> pass ())) (\<lambda>_.
           andthen (reads (disposal_result f)) (\<lambda>result.
             pass (result, Some (if wait then WaitingDependencies else Disposed), False)))))))))))))))"

text \<open>The part after the drain.\<close>

definition teardown_phase :: "teardown \<Rightarrow> fiber_id \<Rightarrow> worker_end run" where
  "teardown_phase td f = andthen (set_disposal_phase f ChildScopes) (\<lambda>_.
     andthen (dispose_children (td_child td) f) (\<lambda>_. withdraw_registrations td f))"

text \<open>The part under the lifecycle lock; \<open>r\<close> is the record when the lock was taken.\<close>

definition stop_and_teardown :: "teardown \<Rightarrow> fiber_id \<Rightarrow> fiber_record \<Rightarrow> worker_end run" where
  "stop_and_teardown td f r =
     andthen (update (modify_fiber f (\<lambda>r. r\<lparr>fb_tasks := [], fb_cancelled := True\<rparr>))) (\<lambda>_.
     andthen (recording f TaskDrain (in_tasks (cancel_all (td_now td) (td_order td) (td_join td) (fb_tasks r)))) (\<lambda>_.
     andthen (set_disposal_phase f DrainingPhase) (\<lambda>_.
     andthen (drain_generation f (fb_capabilities r) (td_drains td)) (\<lambda>stuck. case stuck of
         None \<Rightarrow> teardown_phase td f
       | Some remaining \<Rightarrow> pass (Err (CleanupFailed (Cat [Lit ''generation drain timed out with '', NumText remaining,
           Lit '' provider executions''])), None, True)))))"

definition run_fiber_disposal_body :: "teardown \<Rightarrow> fiber_id \<Rightarrow> worker_end run" where
  "run_fiber_disposal_body td f = andthen (reads (fiber f)) (\<lambda>cell. case cell of
      None \<Rightarrow> pass (Err (DisposalWorkerTerminated (Lit ''fiber disappeared before lifecycle serialization'')), None, True)
    | Some before \<Rightarrow> andthen (update (td_lock td)) (\<lambda>_.
        andthen (reads (\<lambda>s. case fiber f s of None \<Rightarrow> before | Some r \<Rightarrow> r)) (stop_and_teardown td f)))"

section \<open>The supervisor\<close>

text \<open>
  How the worker's task ends: with its result, with the panic that escaped it, or dropped by the
  executor (the code tests only the kind of the join error).
\<close>

definition worker_outcome :: "teardown \<Rightarrow> fiber_id \<Rightarrow> worker_end run" where
  "worker_outcome td f = (case td_abort td of
      Some partial \<Rightarrow> andthen (update partial) (\<lambda>_. pass (Err DisposalWorkerCancelled, None, True))
    | None \<Rightarrow> settle (run_fiber_disposal_body td f) (\<lambda>r. case r of
          Panicked p \<Rightarrow> pass (Err (DisposalWorkerPanicked (Lit p)), None, True)
        | r \<Rightarrow> give r))"

text \<open>
  \<open>finalize_fiber_disposal\<close>. The first block computes a \<open>terminated\<close> of its own, which decides whether the
  indexes are cleaned; the second block uses the argument.
\<close>

definition worker_error :: "unit cres \<Rightarrow> bool" where
  "worker_error r \<longleftrightarrow> (case r of
      Err (DisposalWorkerPanicked _) \<Rightarrow> True | Err DisposalWorkerCancelled \<Rightarrow> True
    | Err (DisposalWorkerTerminated _) \<Rightarrow> True | _ \<Rightarrow> False)"

definition clean_indexes :: "fiber_id \<Rightarrow> fiber_record \<Rightarrow> unit run" where
  "clean_indexes f r =
     andthen (each (\<lambda>key. andthen (intern_symbol key) (\<lambda>symbol.
         update (\<lambda>s. s\<lparr>rt_dependencies := remove_dependency symbol f (rt_dependencies s)\<rparr>))) (pd_dependencies (fb_descriptor r))) (\<lambda>_.
     andthen (each (\<lambda>key. andthen (intern_symbol key) (\<lambda>symbol.
         update (\<lambda>s. s\<lparr>rt_dependencies := remove_provider (fb_scope r) symbol f (rt_dependencies s)\<rparr>))) (pd_provisions (fb_descriptor r))) (\<lambda>_.
       update (\<lambda>s. s\<lparr>rt_scopes := amod (fb_scope r) (\<lambda>sc. sc\<lparr>sc_fibers := filter (\<lambda>i. i \<noteq> f) (sc_fibers sc)\<rparr>) (rt_scopes s)\<rparr>)))"

definition publish_disposal :: "fiber_id \<Rightarrow> unit cres \<Rightarrow> fiber_state option \<Rightarrow> bool \<Rightarrow> unit run" where
  "publish_disposal f result target terminated = andthen (reads (fiber f)) (\<lambda>cell. case cell of
      None \<Rightarrow> give (Err (DisposalWorkerTerminated (Lit ''fiber disappeared during finalization'')))
    | Some r \<Rightarrow>
        let terminal = (if terminated then Incomplete (case result of Err e \<Rightarrow> e
              | _ \<Rightarrow> DisposalWorkerTerminated (Lit ''disposal terminated'')) else Committed);
            obs = \<lparr>do_legacy_result = result, do_terminal = terminal, do_issues = fd_errors (fb_disposal r)\<rparr>;
            (published, slot) = completion_publish obs (fd_completion (fb_disposal r))
        in andthen (update (modify_fiber f (\<lambda>r. r\<lparr>
               fb_state := (case target of Some t \<Rightarrow> if terminated then fb_state r else t | None \<Rightarrow> fb_state r),
               fb_disposal := (fb_disposal r)\<lparr>fd_result := Some result,
                 fd_phase := (if terminated then TerminatedPhase else Complete),
                 fd_supervisor := False, fd_completion := slot\<rparr>\<rparr>))) (\<lambda>_. give published))"

definition finalize_fiber_disposal :: "fiber_id \<Rightarrow> unit cres \<Rightarrow> fiber_state option \<Rightarrow> bool \<Rightarrow> unit run" where
  "finalize_fiber_disposal f result target terminated = andthen (reads (fiber f)) (\<lambda>cell. case cell of
      None \<Rightarrow> give (Err (DisposalWorkerTerminated (Lit ''fiber disappeared before finalization'')))
    | Some r \<Rightarrow>
        let result = (case target of
              Some t \<Rightarrow> if can_transition_to (fb_state r) t then result
                else Err (DisposalWorkerTerminated (Cat [Lit ''invalid final state transition: '', StateText (fb_state r),
                  Lit '' -> '', StateText t]))
            | None \<Rightarrow> result);
            stopped = terminated \<or> worker_error result
        in andthen (set_disposal_phase f Finalizing) (\<lambda>_.
           andthen (if target = Some Disposed \<and> \<not> stopped then clean_indexes f r else pass ()) (\<lambda>_.
           andthen (publish_disposal f result target terminated) (\<lambda>_.
           andthen request_gc (\<lambda>_. give result)))))"

definition disposal_worker :: "teardown \<Rightarrow> fiber_id \<Rightarrow> unit run" where
  "disposal_worker td f = andthen (worker_outcome td f) (\<lambda>(result, target, terminated).
     settle (finalize_fiber_disposal f result target terminated) (\<lambda>_. pass ()))"

section \<open>Callers\<close>

text \<open>A waiter that finds no observation keeps waiting.\<close>

definition wait_for_fiber_disposal :: "fiber_id \<Rightarrow> disposal_observation run" where
  "wait_for_fiber_disposal f s = (case fiber f s of
      None \<Rightarrow> None
    | Some r \<Rightarrow> (case completion_observation (fd_completion (fb_disposal r)) of
          None \<Rightarrow> None | Some obs \<Rightarrow> Some (Ok obs, s)))"

definition dispose_fiber_observation :: "teardown \<Rightarrow> fiber_id \<Rightarrow> bool \<Rightarrow> bool \<Rightarrow> bool \<Rightarrow> disposal_observation run" where
  "dispose_fiber_observation td f wait persistent allow =
     andthen (begin_disposal f wait persistent allow) (\<lambda>started.
     andthen (if started then disposal_worker td f
              else andthen (reads (\<lambda>s. map_option (\<lambda>r. fd_completion (fb_disposal r)) (fiber f s))) (\<lambda>slot.
                if slot = Some None then update (td_other td) else pass ())) (\<lambda>_.
       wait_for_fiber_disposal f))"

definition legacy :: "disposal_observation run \<Rightarrow> unit run" where
  "legacy m = andthen m (\<lambda>obs. give (do_legacy_result obs))"

definition dispose_fiber :: "teardown \<Rightarrow> fiber_id \<Rightarrow> bool \<Rightarrow> unit run" where
  "dispose_fiber td f wait = legacy (dispose_fiber_observation td f wait False False)"

definition dispose_fiber_detailed :: "teardown \<Rightarrow> fiber_id \<Rightarrow> bool \<Rightarrow> dispose_outcome run" where
  "dispose_fiber_detailed td f wait = settle (dispose_fiber_observation td f wait False False) (\<lambda>r. case r of
      Ok obs \<Rightarrow> pass (fiber_outcome obs)
    | Err primary \<Rightarrow> pass (OutcomeIncomplete primary [])
    | Panicked p \<Rightarrow> give (Panicked p))"

definition dispose_reload_owned_fiber :: "teardown \<Rightarrow> fiber_id \<Rightarrow> unit run" where
  "dispose_reload_owned_fiber td f = legacy (dispose_fiber_observation td f False False True)"

definition dispose_reload_owned_fiber_persistently :: "teardown \<Rightarrow> fiber_id \<Rightarrow> unit run" where
  "dispose_reload_owned_fiber_persistently td f = legacy (dispose_fiber_observation td f False True True)"

definition dispose_reload_owned_fiber_observation :: "teardown \<Rightarrow> fiber_id \<Rightarrow> disposal_observation run" where
  "dispose_reload_owned_fiber_observation td f = dispose_fiber_observation td f False False True"

definition dispose_fiber_persistently :: "teardown \<Rightarrow> fiber_id \<Rightarrow> bool \<Rightarrow> unit run" where
  "dispose_fiber_persistently td f wait = legacy (dispose_fiber_observation td f wait True False)"

end
