(* ===== verification/Disposal_Properties.thy ===== *)
theory Disposal_Properties
  imports Fiber_Disposal
begin

text \<open>
  What the disposal of a Fiber guarantees: beginning it revokes the generation and starts one worker,
  the teardown waits for the generation to drain, and a worker that reaches its end has withdrawn
  every registration of the Fiber.
\<close>

section \<open>Loops\<close>

definition pop_step ::
  "(fiber_record \<Rightarrow> 'x list) \<Rightarrow> ('x list \<Rightarrow> fiber_record \<Rightarrow> fiber_record) \<Rightarrow> ('x \<Rightarrow> 'acc \<Rightarrow> 'acc run) \<Rightarrow> fiber_id
    \<Rightarrow> ('acc \<Rightarrow> runtime \<Rightarrow> bool) \<Rightarrow> (runtime \<Rightarrow> bool) \<Rightarrow> bool" where
  "pop_step get put step f I E \<longleftrightarrow> (\<forall>acc s r. I acc s \<longrightarrow> fiber f s = Some r \<longrightarrow> get r \<noteq> [] \<longrightarrow>
      (case step (last (get r)) acc (modify_fiber f (\<lambda>r. put (butlast (get r)) r) s) of
         None \<Rightarrow> True | Some (Ok acc', t) \<Rightarrow> I acc' t | Some (_, t) \<Rightarrow> E t))"

lemma pop_loop_partial:
  "pop_loop get put step f acc s = Some y \<Longrightarrow> pop_step get put step f I E \<Longrightarrow> I acc s \<Longrightarrow>
   (case y of (Ok acc', t) \<Rightarrow> I acc' t \<and> (\<forall>r. fiber f t = Some r \<longrightarrow> get r = []) | (_, t) \<Rightarrow> E t)"
proof (induction rule: pop_loop.raw_induct [rotated, consumes 1, case_names 1])
  case (1 loop get put step f acc s y)
  show ?case
  proof (cases "fiber f s")
    case (Some r)
    show ?thesis
    proof (cases "get r = []")
      case False
      let ?m = "step (last (get r)) acc (modify_fiber f (\<lambda>r. put (butlast (get r)) r) s)"
      have m: "case ?m of None \<Rightarrow> True | Some (Ok acc', t) \<Rightarrow> I acc' t | Some (_, t) \<Rightarrow> E t"
        using 1(3,4) Some False unfolding pop_step_def by blast
      obtain r0 t where rt: "?m = Some (r0, t)" using 1(2) Some False by (auto split: option.splits)
      show ?thesis
      proof (cases r0)
        case (Ok acc')
        then have "loop get put step f acc' t = Some y" using 1(2) Some False rt by simp
        moreover have "I acc' t" using m rt Ok by simp
        ultimately show ?thesis using 1(1) [OF _ 1(3)] by blast
      qed (use 1(2) Some False rt m in auto)
    qed (use 1 Some in auto)
  qed (use 1 in auto)
qed

lemma triple_pop_loop:
  assumes "pop_step get put step f I E"
  shows "triple (I acc) (pop_loop get put step f acc) (\<lambda>acc s. I acc s \<and> (\<forall>r. fiber f s = Some r \<longrightarrow> get r = [])) E"
  unfolding triple_def
proof (intro allI impI)
  fix s r t
  assume "I acc s" "pop_loop get put step f acc s = Some (r, t)"
  from pop_loop_partial [OF this(2) assms this(1)]
  show "case r of Ok acc \<Rightarrow> I acc t \<and> (\<forall>r. fiber f t = Some r \<longrightarrow> get r = []) | _ \<Rightarrow> E t"
    by (cases r) simp_all
qed

lemma kept_children_partial:
  "dispose_children child f s = Some y \<Longrightarrow> (\<And>c. kept I (recording f ChildScopeCleanup (child c))) \<Longrightarrow>
   (\<And>c s. I s \<Longrightarrow> I (modify_fiber f (\<lambda>r. r\<lparr>fb_child_scopes := filter (\<lambda>i. i \<noteq> c) (fb_child_scopes r)\<rparr>) s)) \<Longrightarrow>
   I s \<Longrightarrow> I (snd y) \<and> (is_ok (fst y) \<longrightarrow> (\<forall>r. fiber f (snd y) = Some r \<longrightarrow> fb_child_scopes r = []))"
proof (induction rule: dispose_children.raw_induct [rotated, consumes 1, case_names 1])
  case (1 loop child f s y)
  show ?case
  proof (cases "fiber f s")
    case (Some r)
    show ?thesis
    proof (cases "fb_child_scopes r = []")
      case False
      let ?c = "last (fb_child_scopes r)"
      obtain r0 t where rt: "recording f ChildScopeCleanup (child ?c) s = Some (r0, t)"
        using 1(2) Some False by (auto simp: Let_def split: option.splits)
      have I: "I t" by (rule keptD [OF 1(3) 1(5) rt])
      show ?thesis
      proof (cases r0)
        case (Ok u)
        then have "loop child f (modify_fiber f (\<lambda>r. r\<lparr>fb_child_scopes := filter (\<lambda>i. i \<noteq> ?c) (fb_child_scopes r)\<rparr>) t) = Some y"
          using 1(2) Some False rt by (simp add: Let_def)
        from 1(1) [OF this 1(3) 1(4) 1(4) [OF I]] show ?thesis by blast
      qed (use 1(2) Some False rt I in \<open>auto simp: Let_def is_ok_def\<close>)
    qed (use 1 Some in auto)
  qed (use 1 in auto)
qed

section \<open>Withdrawal\<close>

text \<open>\<open>f\<close> is the owner of what the interned symbol of \<open>key\<close> names in \<open>scope\<close>.\<close>

definition provides :: "fiber_id \<Rightarrow> scope_id \<Rightarrow> service_key \<Rightarrow> runtime \<Rightarrow> bool" where
  "provides f scope key s \<longleftrightarrow> (\<exists>symbol e. lookup_symbol key s = Some symbol \<and>
     service_get scope symbol (rt_services s) = Some e \<and> se_owner e = f)"

text \<open>Of the registrations \<open>A\<close>, those no longer listed are gone from their registry.\<close>

definition listed_or_gone :: "'x list \<Rightarrow> 'x list \<Rightarrow> ('x \<Rightarrow> bool) \<Rightarrow> bool" where
  "listed_or_gone A listed gone \<longleftrightarrow> (\<forall>x \<in> set A. x \<in> set listed \<or> gone x)"

lemma listed_or_gone_pop:
  assumes "listed_or_gone A xs gone" "xs \<noteq> []" and "\<And>x. x = last xs \<or> gone x \<Longrightarrow> gone' x"
  shows "listed_or_gone A (butlast xs) gone'"
proof -
  have "set xs = insert (last xs) (set (butlast xs))"
    using assms(2) by (cases xs rule: rev_cases) simp_all
  with assms(1,3) show ?thesis unfolding listed_or_gone_def by blast
qed

text \<open>The Fiber was recorded as \<open>r0\<close>; the first \<open>n\<close> kinds of registrations are off its lists.\<close>

definition withdrawal :: "nat \<Rightarrow> fiber_id \<Rightarrow> fiber_record \<Rightarrow> runtime \<Rightarrow> bool" where
  "withdrawal n f r0 s \<longleftrightarrow> (\<exists>r. fiber f s = Some r \<and> fb_scope r = fb_scope r0 \<and> fb_capabilities r = fb_capabilities r0 \<and>
     listed_or_gone (fb_handlers r0) (fb_handlers r) (\<lambda>h. aget (eb_handlers (rt_events s)) h = None) \<and>
     listed_or_gone (fb_invocation_handlers r0) (fb_invocation_handlers r) (\<lambda>h. aget (ir_handlers (rt_invocations s)) h = None) \<and>
     listed_or_gone (fb_invocation_middleware r0) (fb_invocation_middleware r)
       (\<lambda>m. aget (ir_middleware (rt_invocations s)) m = None) \<and>
     listed_or_gone (fb_provided r0) (fb_provided r) (\<lambda>key. \<not> provides f (fb_scope r0) key s) \<and>
     (1 \<le> n \<longrightarrow> fb_handlers r = []) \<and> (2 \<le> n \<longrightarrow> fb_invocation_handlers r = []) \<and>
     (3 \<le> n \<longrightarrow> fb_invocation_middleware r = []) \<and> (4 \<le> n \<longrightarrow> fb_provided r = []) \<and> (5 \<le> n \<longrightarrow> fb_effects r = []))"

lemma modify_others [simp]:
  "rt_events (modify_fiber f h s) = rt_events s" "rt_invocations (modify_fiber f h s) = rt_invocations s"
  "rt_dependencies (modify_fiber f h s) = rt_dependencies s" "rt_admission (modify_fiber f h s) = rt_admission s"
  "rt_barriers (modify_fiber f h s) = rt_barriers s" "rt_plugins (modify_fiber f h s) = rt_plugins s"
  "rt_workers (modify_fiber f h s) = rt_workers s" "rt_root (modify_fiber f h s) = rt_root s"
  "rt_tasks (modify_fiber f h s) = rt_tasks s" "rt_diagnostics (modify_fiber f h s) = rt_diagnostics s"
  by (simp_all add: modify_fiber_def)

lemma provides_cong: "rt_services t = rt_services s \<Longrightarrow> provides f scope key t = provides f scope key s"
  by (simp add: provides_def lookup_symbol_def)

text \<open>A change of the Fiber that leaves the lists and the scope.\<close>

lemma withdrawal_modify:
  assumes "withdrawal n f r0 s" and "\<And>r. fb_scope (h r) = fb_scope r \<and> fb_capabilities (h r) = fb_capabilities r \<and> fb_handlers (h r) = fb_handlers r \<and>
      fb_invocation_handlers (h r) = fb_invocation_handlers r \<and> fb_invocation_middleware (h r) = fb_invocation_middleware r \<and>
      fb_provided (h r) = fb_provided r \<and> fb_effects (h r) = fb_effects r"
  shows "withdrawal n f r0 (modify_fiber f h s)"
  using assms by (auto simp: withdrawal_def provides_cong [of "modify_fiber f h s" s])

lemma bus_remove_handlers: "eb_handlers (snd (bus_remove i b)) = adel i (eb_handlers b)"
proof (cases "aget (eb_handlers b) i")
  case None
  then have "adel i (eb_handlers b) = eb_handlers b" by (simp add: aget_None_iff delete_id)
  with None show ?thesis by (simp add: bus_remove_def)
next
  case (Some entry)
  have "eb_handlers (snd (bus_slot (he_event entry) b)) = eb_handlers b"
    by (auto simp: bus_slot_def split: option.split)
  with Some show ?thesis by (simp add: bus_remove_def Let_def split_beta)
qed

lemma withdrawal_disposal: "kept (withdrawal n f r0) (set_disposal_phase f phase)"
  unfolding set_disposal_phase_def by (rule kept_update) (simp add: withdrawal_modify)

lemma withdrawal_error: "kept (withdrawal n f r0) (push_disposal_error f phase e)"
  unfolding push_disposal_error_def by (rule kept_update) (simp add: withdrawal_modify)

lemma withdrawal_epoch: "kept (withdrawal n f r0) bump_service_epoch"
  unfolding bump_service_epoch_def
  by (rule kept_update) (simp add: withdrawal_def provides_def lookup_symbol_def service_lookup_def service_get_def
      bump_epoch_def bump_def)

lemma step_handlers:
  "pop_step fb_handlers (\<lambda>xs r. r\<lparr>fb_handlers := xs\<rparr>) remove_event_handler f (\<lambda>_. withdrawal 0 f r0) E"
  unfolding pop_step_def
  by (auto simp: remove_event_handler_def update_def withdrawal_def bus_remove_handlers provides_def lookup_symbol_def
      elim: listed_or_gone_pop)

lemma step_invocation_handlers:
  "pop_step fb_invocation_handlers (\<lambda>xs r. r\<lparr>fb_invocation_handlers := xs\<rparr>) remove_invocation_handler f
     (\<lambda>_. withdrawal 1 f r0) E"
  unfolding pop_step_def
  by (auto simp: remove_invocation_handler_def update_def withdrawal_def remove_handler_def provides_def lookup_symbol_def
      elim: listed_or_gone_pop)

lemma step_middleware:
  "pop_step fb_invocation_middleware (\<lambda>xs r. r\<lparr>fb_invocation_middleware := xs\<rparr>) remove_invocation_middleware f
     (\<lambda>_. withdrawal 2 f r0) E"
  unfolding pop_step_def
  by (auto simp: remove_invocation_middleware_def update_def withdrawal_def remove_middleware_def provides_def lookup_symbol_def
      elim: listed_or_gone_pop)

lemma provides_remove:
  "provides f scope key (s\<lparr>rt_services := snd (service_remove scope symbol (rt_services s))\<rparr>) \<longleftrightarrow>
     provides f scope key s \<and> lookup_symbol key s \<noteq> Some symbol"
  by (auto simp: provides_def lookup_symbol_def service_remove_def service_lookup_def service_get_def Let_def bump_def)

lemma step_services:
  "pop_step fb_provided (\<lambda>xs r. r\<lparr>fb_provided := xs\<rparr>) (withdraw_service f (fb_scope r0)) f (\<lambda>_. withdrawal 3 f r0) (\<lambda>_. True)"
  unfolding pop_step_def
proof (intro allI impI)
  fix acc :: "service_symbol list" and s r
  assume s: "withdrawal 3 f r0 s" "fiber f s = Some r" "fb_provided r \<noteq> []"
  let ?key = "last (fb_provided r)" and ?u = "modify_fiber f (\<lambda>r. r\<lparr>fb_provided := butlast (fb_provided r)\<rparr>) s"
  show "case withdraw_service f (fb_scope r0) ?key acc ?u of None \<Rightarrow> True | Some (Ok acc', t) \<Rightarrow> withdrawal 3 f r0 t
      | Some (_, t) \<Rightarrow> True"
  proof (cases "lookup_symbol ?key s")
    case None
    then show ?thesis
      by (simp add: withdraw_service_def intern_symbol_def intern_def lookup_symbol_def andthen_def)
  next
    case (Some symbol)
    define v where "v = (if \<exists>e. service_get (fb_scope r0) symbol (rt_services s) = Some e \<and> se_owner e = f
      then ?u\<lparr>rt_services := snd (service_remove (fb_scope r0) symbol (rt_services s))\<rparr> else ?u)"
    have v: "fiber f v = Some (r\<lparr>fb_provided := butlast (fb_provided r)\<rparr>)" "rt_events v = rt_events s" "rt_invocations v = rt_invocations s"
      using s(2) by (auto simp: v_def)
    have run: "\<exists>acc'. withdraw_service f (fb_scope r0) ?key acc ?u = Some (Ok acc', v)"
      using Some by (auto simp: withdraw_service_def intern_symbol_def intern_def lookup_symbol_def andthen_def reads_def
          update_def pass_def v_def)
    have gone: "\<not> provides f (fb_scope r0) k v" if "k = ?key \<or> \<not> provides f (fb_scope r0) k s" for k
    proof (cases "\<exists>e. service_get (fb_scope r0) symbol (rt_services s) = Some e \<and> se_owner e = f")
      case True
      with that Some show ?thesis
        using provides_remove [where s = ?u] by (auto simp: v_def provides_cong [of ?u s] lookup_symbol_def)
    next
      case False
      then have "v = ?u" unfolding v_def by (rule if_not_P)
      with False that Some show ?thesis by (auto simp: provides_def lookup_symbol_def)
    qed
    have "listed_or_gone (fb_provided r0) (butlast (fb_provided r)) (\<lambda>k. \<not> provides f (fb_scope r0) k v)"
      using s by (intro listed_or_gone_pop [OF _ s(3) gone]) (auto simp: withdrawal_def)
    with s v have "withdrawal 3 f r0 v" by (auto simp: withdrawal_def)
    with run show ?thesis by auto
  qed
qed

text \<open>User code and reconciliation that put nothing back.\<close>

definition puts_nothing_back :: "teardown \<Rightarrow> fiber_id \<Rightarrow> fiber_record \<Rightarrow> bool" where
  "puts_nothing_back td f r0 \<longleftrightarrow> (\<forall>n. (\<forall>e. kept (withdrawal n f r0) (td_effect td e)) \<and>
     (\<forall>symbols. kept (withdrawal n f r0) (td_reconcile td symbols)) \<and> (\<forall>c. kept (withdrawal n f r0) (td_child td c)) \<and>
     env_keeps (withdrawal n f r0) (td_lock td) \<and>
     (\<forall>wakes \<in> set (td_drains td). \<forall>wake \<in> set wakes. env_keeps (withdrawal n f r0) wake))"

lemma step_effects:
  assumes "puts_nothing_back td f r0"
  shows "pop_step fb_effects (\<lambda>xs r. r\<lparr>fb_effects := xs\<rparr>) (dispose_effect td f) f (\<lambda>_. withdrawal 4 f r0) (\<lambda>_. True)"
  unfolding pop_step_def
proof (intro allI impI)
  fix acc :: unit and s r
  assume s: "withdrawal 4 f r0 s" "fiber f s = Some r" "fb_effects r \<noteq> []"
  let ?u = "modify_fiber f (\<lambda>r. r\<lparr>fb_effects := butlast (fb_effects r)\<rparr>) s"
  have u: "withdrawal 4 f r0 ?u"
    using s(1,2) by (auto simp: withdrawal_def provides_cong [of ?u s])
  have "kept (withdrawal 4 f r0) (td_effect td e)" for e
    using assms by (simp add: puts_nothing_back_def)
  then have "kept (withdrawal 4 f r0) (dispose_effect td f (last (fb_effects r)) acc)"
    unfolding dispose_effect_def
    by (rule kept_settle) (simp add: kept_pass withdrawal_error split: res.split)
  from keptD [OF this u]
  show "case dispose_effect td f (last (fb_effects r)) acc ?u of None \<Rightarrow> True | Some (Ok acc', t) \<Rightarrow> withdrawal 4 f r0 t
      | Some (_, t) \<Rightarrow> True"
    by (auto split: option.split res.split)
qed

lemma withdrawal_advance:
  "withdrawal 0 f r0 s \<Longrightarrow> \<forall>r. fiber f s = Some r \<longrightarrow> fb_handlers r = [] \<Longrightarrow> withdrawal 1 f r0 s"
  "withdrawal 1 f r0 s \<Longrightarrow> \<forall>r. fiber f s = Some r \<longrightarrow> fb_invocation_handlers r = [] \<Longrightarrow> withdrawal 2 f r0 s"
  "withdrawal 2 f r0 s \<Longrightarrow> \<forall>r. fiber f s = Some r \<longrightarrow> fb_invocation_middleware r = [] \<Longrightarrow> withdrawal 3 f r0 s"
  "withdrawal 3 f r0 s \<Longrightarrow> \<forall>r. fiber f s = Some r \<longrightarrow> fb_provided r = [] \<Longrightarrow> withdrawal 4 f r0 s"
  "withdrawal 4 f r0 s \<Longrightarrow> \<forall>r. fiber f s = Some r \<longrightarrow> fb_effects r = [] \<Longrightarrow> withdrawal 5 f r0 s"
  by (auto simp: withdrawal_def)

lemma triple_pure: "(b \<Longrightarrow> triple P m Q E) \<Longrightarrow> triple (\<lambda>s. P s \<and> b) m Q E"
  by (cases b) (simp_all add: triple_def)

lemma stage_kept: "kept I m \<Longrightarrow> triple I m (\<lambda>_. I) (\<lambda>_. True)"
  unfolding kept_def by (erule triple_weaken) auto

lemma stage_pop:
  assumes "pop_step get put step f (\<lambda>_. I) (\<lambda>_. True)"
    and "\<And>s. I s \<Longrightarrow> \<forall>r. fiber f s = Some r \<longrightarrow> get r = [] \<Longrightarrow> J s"
  shows "triple I (pop_loop get put step f acc) (\<lambda>_. J) (\<lambda>_. True)"
  by (rule triple_weaken [OF triple_pop_loop [OF assms(1)]]) (auto intro: assms(2))

lemma kept_open: "(\<And>s g. I s \<Longrightarrow> I (s\<lparr>rt_admission := g\<rparr>)) \<Longrightarrow> kept I ensure_event_admitted"
  unfolding ensure_event_admitted_def by (rule kept_with_admission [OF kept_pass])

lemma withdrawal_admission: "withdrawal n f r0 s \<Longrightarrow> withdrawal n f r0 (s\<lparr>rt_admission := g\<rparr>)"
  by (simp add: withdrawal_def provides_def lookup_symbol_def)

lemma withdraw_registrations_withdraws:
  assumes "puts_nothing_back td f r0"
  shows "triple (withdrawal 0 f r0) (withdraw_registrations td f) (\<lambda>(_, _, terminated) s. terminated \<or> withdrawal 5 f r0 s) (\<lambda>_. True)"
proof -
  let ?W = "\<lambda>n. withdrawal n f r0"
  note phase = stage_kept [OF withdrawal_disposal]
  have rec: "kept (?W 5) (if removed = [] then pass ()
       else settle ensure_event_admitted (\<lambda>open. case open of
         Ok _ \<Rightarrow> recording f DependencyCleanup (td_reconcile td removed) | _ \<Rightarrow> pass ()))" for removed
  proof -
    have r: "kept (?W 5) (recording f DependencyCleanup (td_reconcile td removed))"
      unfolding recording_def using assms
      by (intro kept_settle) (auto simp: puts_nothing_back_def kept_pass withdrawal_error kept_give split: res.split)
    show ?thesis
      by (auto intro!: kept_pass kept_settle kept_open withdrawal_admission r split: res.split)
  qed
  have tail: "triple (?W 4) (andthen bump_service_epoch (\<lambda>_.
           andthen (set_disposal_phase f Effects) (\<lambda>_.
           andthen (pop_loop fb_effects (\<lambda>xs r. r\<lparr>fb_effects := xs\<rparr>) (dispose_effect td f) f ()) (\<lambda>_.
           andthen (set_disposal_phase f Reconciling) (\<lambda>_.
           andthen (reads (\<lambda>s. case fiber f s of None \<Rightarrow> False | Some r \<Rightarrow> fd_wait_for_dependencies (fb_disposal r))) (\<lambda>wait.
           andthen (if removed = [] then pass ()
                    else settle ensure_event_admitted (\<lambda>open. case open of
                      Ok _ \<Rightarrow> recording f DependencyCleanup (td_reconcile td removed) | _ \<Rightarrow> pass ())) (\<lambda>_.
           andthen (reads (disposal_result f)) (\<lambda>result.
             pass (result, Some (if wait then WaitingDependencies else Disposed), False))))))))) 
      (\<lambda>(_, _, terminated) s. terminated \<or> ?W 5 s) (\<lambda>_. True)" for removed
    by (rule triple_andthen [OF stage_kept [OF withdrawal_epoch]] triple_andthen [OF phase]
          triple_andthen [OF stage_pop [OF step_effects [OF assms] withdrawal_advance(5)]]
          triple_andthen [where R = "\<lambda>_. ?W 5", OF triple_reads] triple_andthen [OF stage_kept [OF rec]] triple_pass | assumption | simp)+
  have services: "triple (\<lambda>s. ?W 3 s \<and> fiber f s = Some owner)
      (andthen (pop_loop fb_provided (\<lambda>xs r. r\<lparr>fb_provided := xs\<rparr>) (withdraw_service f (fb_scope owner)) f []) rest) Q (\<lambda>_. True)"
    if "\<And>removed. triple (?W 4) (rest removed) Q (\<lambda>_. True)" for owner Q and rest :: "service_symbol list \<Rightarrow> worker_end run"
  proof (cases "fb_scope owner = fb_scope r0")
    case True
    have "triple (?W 3) (pop_loop fb_provided (\<lambda>xs r. r\<lparr>fb_provided := xs\<rparr>) (withdraw_service f (fb_scope owner)) f [])
        (\<lambda>_. ?W 4) (\<lambda>_. True)"
      unfolding True by (rule stage_pop [OF step_services withdrawal_advance(4)])
    then show ?thesis by (rule triple_andthen [OF triple_weaken that]) simp_all
  qed (auto simp: triple_def withdrawal_def)
  show ?thesis
    unfolding withdraw_registrations_def
    by (rule triple_andthen [OF phase] triple_andthen [OF stage_pop [OF step_handlers withdrawal_advance(1)]]
          triple_andthen [OF stage_pop [OF step_invocation_handlers withdrawal_advance(2)]]
          triple_andthen [OF stage_pop [OF step_middleware withdrawal_advance(3)]]
          triple_andthen [where R = "\<lambda>cell s. ?W 3 s \<and> fiber f s = cell", OF triple_reads] triple_option triple_pass
          services tail | assumption | simp)+
qed

section \<open>The whole worker\<close>

lemma aget_map_pairs: "aget (map (\<lambda>(k, c). (k, g k c)) m) k = map_option (g k) (aget m k)"
  by (induction m) auto

lemma fiber_in_tasks:
  assumes "in_tasks op s = Some (r, t)"
  shows "\<exists>g. fiber f t = map_option (\<lambda>r. r\<lparr>fb_tasks := g r\<rparr>) (fiber f s) \<and> rt_events t = rt_events s \<and>
    rt_invocations t = rt_invocations s \<and> rt_services t = rt_services s \<and> rt_gates t = rt_gates s"
proof -
  obtain r' w where w: "op \<lparr>tw_supervisor = (rt_tasks s)\<lparr>tp_diagnostics := rt_diagnostics s\<rparr>,
      tw_owners = \<lambda>f. map_option fb_tasks (fiber f s)\<rparr> = (r', w)" by force
  have "fiber f t = map_option (\<lambda>r. r\<lparr>fb_tasks := (case tw_owners w f of None \<Rightarrow> fb_tasks r | Some ts \<Rightarrow> ts)\<rparr>) (fiber f s)"
    using assms w by (cases "tw_owners w f") (auto simp: in_tasks_def Let_def fiber_def aget_map_pairs option.map_comp comp_def)
  moreover have "rt_events t = rt_events s \<and> rt_invocations t = rt_invocations s \<and> rt_services t = rt_services s \<and>
      rt_gates t = rt_gates s"
    using assms w by (auto simp: in_tasks_def Let_def)
  ultimately show ?thesis
    by (intro exI [of _ "\<lambda>r. case tw_owners w f of None \<Rightarrow> fb_tasks r | Some ts \<Rightarrow> ts"]) blast
qed

lemma withdrawal_tasks: "kept (withdrawal n f r0) (in_tasks op)"
proof (rule keptI)
  fix s r t
  assume s: "withdrawal n f r0 s" "in_tasks op s = Some (r, t)"
  from fiber_in_tasks [OF s(2), of f] obtain g where
    "fiber f t = map_option (\<lambda>r. r\<lparr>fb_tasks := g r\<rparr>) (fiber f s)" "rt_events t = rt_events s"
    "rt_invocations t = rt_invocations s" "rt_services t = rt_services s" by blast
  with s(1) show "withdrawal n f r0 t" by (auto simp: withdrawal_def provides_cong [of t s])
qed

lemma withdrawal_gates: "kept (withdrawal n f r0) (in_gates op)"
  by (rule kept_in_gates) (simp add: withdrawal_def provides_def lookup_symbol_def)

lemma kept_recording:
  "kept (withdrawal n f r0) m \<Longrightarrow> kept (withdrawal n f r0) (recording f phase m)"
  unfolding recording_def by (intro kept_settle) (auto simp: kept_pass withdrawal_error kept_give split: res.split)

lemma drain_wait_quiet:
  assumes "\<And>wake. wake \<in> set wakes \<Longrightarrow> env_keeps I wake"
  shows "triple I (drain_wait g wakes) (\<lambda>out s. I s \<and> (out = DrainedOutcome \<longrightarrow> execution_inflight (gate_word g s) = 0)) I"
  using assms
proof (induction wakes)
  case Nil
  show ?case by (auto simp: triple_def reads_def Let_def)
next
  case (Cons wake wakes)
  have "triple I (update wake) (\<lambda>_. I) I"
    using Cons.prems by (intro triple_update) (simp add: env_keeps_def)
  from triple_andthen [OF this] Cons have "triple I (andthen (update wake) (\<lambda>_. drain_wait g wakes))
      (\<lambda>out s. I s \<and> (out = DrainedOutcome \<longrightarrow> execution_inflight (gate_word g s) = 0)) I" by simp
  then show ?case
    by (simp, intro triple_andthen [where R = "\<lambda>w s. I s \<and> gate_word g s = w", OF triple_reads])
       (auto intro: triple_pass triple_weaken)
qed

lemma drain_quiet:
  assumes "\<And>wakes wake. wakes \<in> set calls \<Longrightarrow> wake \<in> set wakes \<Longrightarrow> env_keeps I wake" and "\<And>s g. I s \<Longrightarrow> I (s\<lparr>rt_gates := g\<rparr>)"
  shows "triple I (drain_generation f g calls) (\<lambda>out s. I s \<and> (out = None \<longrightarrow> execution_inflight (gate_word g s) = 0)) I"
  using assms(1)
proof (induction calls)
  case Nil
  show ?case by (simp add: triple_diverge)
next
  case (Cons wakes calls)
  have revoke: "triple I (in_gates (gate_begin_draining g)) (\<lambda>_. I) I"
    using kept_in_gates [of I, OF assms(2)] by (simp add: kept_def)
  have wait: "triple I (drain_wait g wakes) (\<lambda>out s. I s \<and> (out = DrainedOutcome \<longrightarrow> execution_inflight (gate_word g s) = 0)) I"
    using Cons.prems by (intro drain_wait_quiet) auto
  have rec: "triple I (drain_generation f g calls) (\<lambda>out s. I s \<and> (out = None \<longrightarrow> execution_inflight (gate_word g s) = 0)) I"
    using Cons by auto
  show ?case
    by (simp, rule triple_andthen [OF revoke], rule triple_andthen [OF wait])
       (auto split: drain_outcome.split intro!: triple_pass triple_andthen [where R = "\<lambda>_. I", OF triple_reads] rec)
qed

lemma teardown_phase_withdraws:
  assumes "puts_nothing_back td f r0"
  shows "triple (withdrawal 0 f r0) (teardown_phase td f) (\<lambda>(_, _, terminated) s. terminated \<or> withdrawal 5 f r0 s) (\<lambda>_. True)"
proof -
  have rec: "kept (withdrawal 0 f r0) (recording f ChildScopeCleanup (td_child td c))" for c
    using assms by (intro kept_recording) (simp add: puts_nothing_back_def)
  have "kept (withdrawal 0 f r0) (dispose_children (td_child td) f)"
    by (rule keptI) (use kept_children_partial [OF _ rec] in \<open>auto simp: withdrawal_modify\<close>)
  note children = stage_kept [OF this]
  show ?thesis
    unfolding teardown_phase_def
    by (rule triple_andthen [OF stage_kept [OF withdrawal_disposal]], rule triple_andthen [OF children],
        rule withdraw_registrations_withdraws [OF assms])
qed

lemma worker_reaches_teardown:
  assumes "puts_nothing_back td f r0"
  shows "triple (withdrawal 0 f r0) (run_fiber_disposal_body td f)
    (\<lambda>(result, target, terminated) t. terminated \<or> (\<exists>u. withdrawal 0 f r0 u \<and> execution_inflight (gate_word (fb_capabilities r0) u) = 0 \<and>
       teardown_phase td f u = Some (Ok (result, target, terminated), t))) (\<lambda>_. True)"
proof -
  let ?W = "withdrawal 0 f r0" and ?g = "fb_capabilities r0"
  let ?Q = "\<lambda>(result, target, terminated) t. terminated \<or> (\<exists>u. ?W u \<and> execution_inflight (gate_word ?g u) = 0 \<and>
       teardown_phase td f u = Some (Ok (result, target, terminated), t))"
  have td: "env_keeps ?W (td_lock td)" "\<And>wakes wake. wakes \<in> set (td_drains td) \<Longrightarrow> wake \<in> set wakes \<Longrightarrow> env_keeps ?W wake"
    using assms by (simp_all add: puts_nothing_back_def)
  have last: "triple (\<lambda>s. ?W s \<and> execution_inflight (gate_word ?g s) = 0) (teardown_phase td f) ?Q (\<lambda>_. True)"
    by (auto simp: triple_def split: res.split)
  have drain: "triple ?W (drain_generation f ?g (td_drains td)) (\<lambda>out s. ?W s \<and> (out = None \<longrightarrow> execution_inflight (gate_word ?g s) = 0)) (\<lambda>_. True)"
    by (rule triple_weaken [OF drain_quiet [where I = ?W]]) (use td in \<open>auto simp: withdrawal_def provides_def lookup_symbol_def\<close>)
  have rest: "triple (\<lambda>s. ?W s \<and> fb_capabilities r = ?g) (stop_and_teardown td f r) ?Q (\<lambda>_. True)" for r
  proof (rule triple_pure)
    assume r: "fb_capabilities r = ?g"
    show "triple ?W (stop_and_teardown td f r) ?Q (\<lambda>_. True)"
      unfolding stop_and_teardown_def r
      by (rule triple_andthen [OF stage_kept [OF kept_update]] triple_andthen [OF stage_kept [OF kept_recording [OF withdrawal_tasks]]]
          triple_andthen [OF stage_kept [OF withdrawal_disposal]] triple_andthen [OF drain] triple_option triple_pass
          withdrawal_modify triple_weaken [OF last] | assumption | simp)+
  qed
  show ?thesis
    unfolding run_fiber_disposal_body_def
    by (rule triple_andthen [where R = "\<lambda>_. ?W", OF triple_reads], assumption, rule triple_option, rule triple_pass, simp,
        rule triple_andthen [OF stage_kept [OF kept_env [OF td(1)]]],
        rule triple_andthen [where R = "\<lambda>r s. ?W s \<and> fb_capabilities r = ?g", OF triple_reads], rule conjI, assumption,
        (auto simp: withdrawal_def)[1], rule rest)
qed

section \<open>Properties\<close>

text \<open>
  C17. When the worker of a disposal reaches its end, the generation had drained before any registration
  was torn down, and then nothing is left: every list of the Fiber is empty, and of what it had
  registered no event handler, invocation handler or middleware is in its registry and no service
  it provided is still served by it - provided the effects, the disposal of child scopes, the
  reconciliation and other threads put nothing back.
\<close>

theorem disposal_withdraws_everything:
  assumes "fiber f s = Some r" and "puts_nothing_back td f r"
    and "run_fiber_disposal_body td f s = Some (Ok (result, target, False), t)"
  shows "(\<exists>r'. fiber f t = Some r' \<and> fb_handlers r' = [] \<and> fb_invocation_handlers r' = [] \<and>
      fb_invocation_middleware r' = [] \<and> fb_provided r' = [] \<and> fb_effects r' = []) \<and>
    (\<forall>h \<in> set (fb_handlers r). aget (eb_handlers (rt_events t)) h = None) \<and>
    (\<forall>h \<in> set (fb_invocation_handlers r). aget (ir_handlers (rt_invocations t)) h = None) \<and>
    (\<forall>m \<in> set (fb_invocation_middleware r). aget (ir_middleware (rt_invocations t)) m = None) \<and>
    (\<forall>key \<in> set (fb_provided r). \<not> provides f (fb_scope r) key t) \<and>
    (\<exists>u. execution_inflight (gate_word (fb_capabilities r) u) = 0 \<and>
      teardown_phase td f u = Some (Ok (result, target, False), t))"
proof -
  have "withdrawal 0 f r s" using assms(1) by (auto simp: withdrawal_def listed_or_gone_def)
  from tripleD_Ok [OF worker_reaches_teardown [OF assms(2)] this assms(3)]
  obtain u where u: "withdrawal 0 f r u" "execution_inflight (gate_word (fb_capabilities r) u) = 0"
      "teardown_phase td f u = Some (Ok (result, target, False), t)" by auto
  from tripleD_Ok [OF teardown_phase_withdraws [OF assms(2)] u(1,3)] have "withdrawal 5 f r t" by simp
  with u show ?thesis by (auto simp: withdrawal_def listed_or_gone_def)
qed

text \<open>The executor and user code that do nothing.\<close>

definition quiet_teardown :: teardown where
  "quiet_teardown = \<lparr>td_now = 0, td_order = (\<lambda>xs. xs), td_join = (\<lambda>_. JoinErr False), td_drains = [[]],
     td_effect = (\<lambda>_. pass ()), td_child = (\<lambda>_. pass ()), td_reconcile = (\<lambda>_. pass ()), td_abort = None,
     td_lock = (\<lambda>s. s), td_other = (\<lambda>s. s)\<rparr>"

lemma quiet_sel [simp]:
  "td_now quiet_teardown = 0" "td_order quiet_teardown = (\<lambda>xs. xs)" "td_join quiet_teardown = (\<lambda>_. JoinErr False)"
  "td_drains quiet_teardown = [[]]" "td_effect quiet_teardown = (\<lambda>_. pass ())" "td_child quiet_teardown = (\<lambda>_. pass ())"
  "td_reconcile quiet_teardown = (\<lambda>_. pass ())" "td_abort quiet_teardown = None" "td_lock quiet_teardown = (\<lambda>s. s)"
  "td_other quiet_teardown = (\<lambda>s. s)"
  by (simp_all add: quiet_teardown_def)

lemma quiet_puts_nothing_back: "puts_nothing_back quiet_teardown f r"
  by (simp add: puts_nothing_back_def kept_pass env_keeps_def)

lemma pop_loop_empty: "fiber f s = Some r \<Longrightarrow> get r = [] \<Longrightarrow> pop_loop get put step f acc s = Some (Ok acc, s)"
  by (subst pop_loop.simps) simp

section \<open>Begin\<close>

lemma drop_activation_spec:
  "\<exists>t. drop_activation f s = Some (Ok (), t) \<and> fiber f t = map_option (\<lambda>r. r\<lparr>fb_activation := None\<rparr>) (fiber f s) \<and>
     rt_gates t = rt_gates s"
  by (cases "fiber f s") (auto simp: drop_activation_def andthen_def reads_def pass_def update_def fiber_def modify_fiber_def
      split: option.split)

text \<open>
  C19. Beginning a disposal revokes the Fiber at once: it is \<open>Disposing\<close> and cancelled, its activation barrier
  is gone, the gate of its generation refuses, so that every operation through any Context of the
  Fiber is refused, and no other caller can start a second worker.
\<close>

theorem begin_disposal_revokes:
  assumes "wf_gates (rt_gates s)" and "begin_disposal f wait persistent allow s = Some (Ok True, t)"
  shows "(\<exists>r. fiber f t = Some r \<and> fb_state r = Disposing \<and> fb_cancelled r \<and> fb_activation r = None \<and>
      fd_phase (fb_disposal r) = TasksPhase \<and> \<not> gate_accepting (rt_gates t) (fb_capabilities r) \<and>
      (\<forall>cx body. cx_fiber cx = f \<longrightarrow> with_context (\<lambda>s. s) cx body t =
        Some (Err (StaleContextGeneration f (cx_generation cx) (fb_generation r)), t))) \<and>
    (\<forall>wait persistent allow u. begin_disposal f wait persistent allow t \<noteq> Some (Ok True, u))"
proof -
  obtain r where r1: "fiber f s = Some r"
    using assms(2) by (cases "fiber f s") (simp_all add: begin_disposal_def andthen_def get_fiber_def)
  have r2: "\<not> (fb_reload_owned r \<and> \<not> allow)"
    using assms(2) r1 by (rule_tac notI) (simp add: begin_disposal_def andthen_def get_fiber_def give_def)
  have r3: "fd_phase (fb_disposal r) = Idle"
    using assms(2) r1 r2 by (rule_tac ccontr) (simp add: begin_disposal_def andthen_def get_fiber_def update_def pass_def)
  have r4: "\<not> (fb_state r \<noteq> Disposing \<and> \<not> can_transition_to (fb_state r) Disposing)"
    using assms(2) r1 r2 r3 by (rule_tac notI) (simp add: begin_disposal_def andthen_def get_fiber_def update_def give_def)
  note r = r1 r2 r3 r4
  let ?g = "fb_capabilities r"
  obtain gs where gs: "gate_close ?g (rt_gates s) = (Ok (), gs)" "wf_gates gs" "gate_accepting gs = (gate_accepting (rt_gates s))(?g := False)"
    using gate_close_spec [OF assms(1), of ?g] by auto
  let ?h1 = "\<lambda>r. r\<lparr>fb_reload_owned := fb_reload_owned r \<and> \<not> allow, fb_disposal := (fb_disposal r)\<lparr>
       fd_wait_for_dependencies := fd_wait_for_dependencies (fb_disposal r) \<and> wait,
       fd_persistent_drain := fd_persistent_drain (fb_disposal r) \<or> persistent\<rparr>\<rparr>"
  let ?s1 = "(modify_fiber f (\<lambda>r. r\<lparr>fb_state := Disposing, fb_cancelled := True\<rparr>) (modify_fiber f ?h1 s))\<lparr>rt_gates := gs\<rparr>"
  obtain s2 where s2: "drop_activation f ?s1 = Some (Ok (), s2)"
      "fiber f s2 = map_option (\<lambda>r. r\<lparr>fb_activation := None\<rparr>) (fiber f ?s1)" "rt_gates s2 = gs"
    using drop_activation_spec [of f ?s1] by auto
  have "t = modify_fiber f (\<lambda>r. r\<lparr>fb_activation_sealed := False,
            fb_disposal := (fb_disposal r)\<lparr>fd_phase := TasksPhase, fd_supervisor := True\<rparr>\<rparr>) s2"
    using assms(2) r gs(1) s2(1)
    by (auto simp: begin_disposal_def andthen_def get_fiber_def update_def pass_def within_def split: if_splits)
  with r(1) s2 obtain r' where t: "fiber f t = Some r'" "fb_state r' = Disposing" "fb_cancelled r'" "fb_activation r' = None"
      "fd_phase (fb_disposal r') = TasksPhase" "fb_capabilities r' = ?g" "rt_gates t = gs"
    by auto
  have "with_context (\<lambda>s. s) cx body t = Some (Err (StaleContextGeneration f (cx_generation cx) (fb_generation r')), t)"
    if "cx_fiber cx = f" for cx and body :: "context_admission \<Rightarrow> 'a run"
    using admit_core_stale [of cx t r' "\<lambda>s. s"] t gs that by (auto simp: with_context_def andthen_def)
  moreover have "begin_disposal f wait persistent allow t \<noteq> Some (Ok True, u)" for wait persistent allow u
    using t by (auto simp: begin_disposal_def andthen_def get_fiber_def give_def update_def pass_def)
  ultimately show ?thesis using t gs by auto
qed

lemma example_begin:
  "\<exists>t. begin_disposal 4 False False False example_runtime = Some (Ok True, t)"
proof -
  obtain gs where gs: "gate_close 0 example_gates = (Ok (), gs)"
    using gate_close_spec [OF example_gates_wf, of 0] by auto
  then show ?thesis
    by (simp add: begin_disposal_def andthen_def get_fiber_def update_def pass_def within_def example_runtime_sel reads_def
        example_runtime_fiber example_fiber_def fiber_disposal_default_def can_transition_to_def drop_activation_def)
qed

lemma example_idle: "gate_inflight example_gates g = 0" "gate_handles example_gates g = 0"
  by (simp_all add: gate_inflight_def gate_handles_def exec_inflight_def unat_inflight example_gates_def staged_def
      generation_execution_default_def EXECUTION_ACCEPTING_def)

theorem begin_disposal_revokes_witness:
  "\<exists>t r. begin_disposal 4 False False False example_runtime = Some (Ok True, t) \<and> fiber 4 t = Some r \<and> fb_state r = Disposing"
proof -
  obtain t where t: "begin_disposal 4 False False False example_runtime = Some (Ok True, t)" using example_begin by blast
  have "wf_gates (rt_gates example_runtime)" by (simp add: example_runtime_sel example_gates_wf)
  from begin_disposal_revokes [OF this t] t show ?thesis by blast
qed

text \<open>Fiber 4 with an event handler and an effect.\<close>

definition busy_runtime :: runtime where
  "busy_runtime = modify_fiber 4 (\<lambda>r. r\<lparr>fb_handlers := [3], fb_effects := [7]\<rparr>) example_runtime"

lemma busy_fiber: "fiber 4 busy_runtime = Some ((example_fiber Active)\<lparr>fb_handlers := [3], fb_effects := [7]\<rparr>)"
  by (simp add: busy_runtime_def example_runtime_fiber)

lemma busy_gates: "rt_gates busy_runtime = example_gates"
  by (simp add: busy_runtime_def example_runtime_sel)

lemma busy_teardown:
  assumes "fiber 4 u = Some r" "fb_child_scopes r = []" "fb_handlers r = [3]" "fb_invocation_handlers r = []"
    "fb_invocation_middleware r = []" "fb_provided r = []" "fb_effects r = [7]" "fd_wait_for_dependencies (fb_disposal r)"
    "fd_errors (fb_disposal r) = []"
  shows "\<exists>t. teardown_phase quiet_teardown 4 u = Some (Ok (Ok (), Some WaitingDependencies, False), t)"
  using assms
  by (simp add: teardown_phase_def andthen_def set_disposal_phase_def update_def dispose_children.simps withdraw_registrations_def
      pop_loop.simps remove_event_handler_def reads_def bump_service_epoch_def dispose_effect_def settle_def
      pass_def disposal_result_def errors_result_def)

lemma busy_disposal:
  assumes f: "fiber 4 s = Some ((example_fiber Active)\<lparr>fb_handlers := [3], fb_effects := [7]\<rparr>)" and b: "rt_gates s = example_gates"
  shows "\<exists>t. run_fiber_disposal_body quiet_teardown 4 s = Some (Ok (Ok (), Some WaitingDependencies, False), t)"
proof -
  obtain gs where gs: "gate_begin_draining 0 example_gates = (Ok (), gs)" "gate_inflight gs 0 = 0"
    using gate_begin_draining_spec [OF example_gates_wf, of 0] by (auto simp: example_idle)
  let ?s = "modify_fiber 4 (\<lambda>r. r\<lparr>fb_tasks := [], fb_cancelled := True\<rparr>) s"
  obtain u where u: "in_tasks (cancel_all 0 (\<lambda>xs. xs) (\<lambda>_. JoinErr False) []) ?s = Some (Ok (), u)"
    by (simp add: in_tasks_def cancel_all_def Let_def)
  obtain g where g: "fiber 4 u = map_option (\<lambda>r. r\<lparr>fb_tasks := g r\<rparr>) (fiber 4 ?s)" "rt_gates u = rt_gates ?s"
    using fiber_in_tasks [OF u, of 4] by auto
  have quiet: "execution_inflight (gate_word 0 (v\<lparr>rt_gates := gs\<rparr>)) = 0" for v
    using gs(2) by (simp add: gate_word_def gate_inflight_def exec_inflight_def unat_eq_0)
  let ?v = "(modify_fiber 4 (\<lambda>r. r\<lparr>fb_disposal := (fb_disposal r)\<lparr>fd_phase := DrainingPhase\<rparr>\<rparr>) u)\<lparr>rt_gates := gs\<rparr>"
  obtain t where "teardown_phase quiet_teardown 4 ?v = Some (Ok (Ok (), Some WaitingDependencies, False), t)"
    using busy_teardown [of ?v] g f by (auto simp: example_fiber_def fiber_disposal_default_def)
  then show ?thesis
    using u g gs(1) quiet
    by (simp add: run_fiber_disposal_body_def andthen_def reads_def f b update_def stop_and_teardown_def
        example_fiber_def recording_def settle_def pass_def set_disposal_phase_def within_def)
qed

theorem disposal_withdraws_everything_witness:
  "\<exists>t r. run_fiber_disposal_body quiet_teardown 4 busy_runtime = Some (Ok (Ok (), Some WaitingDependencies, False), t) \<and>
     fiber 4 t = Some r \<and> fb_handlers r = [] \<and> fb_effects r = []"
proof -
  obtain t where t: "run_fiber_disposal_body quiet_teardown 4 busy_runtime = Some (Ok (Ok (), Some WaitingDependencies, False), t)"
    using busy_disposal [OF busy_fiber busy_gates] ..
  from disposal_withdraws_everything [OF busy_fiber quiet_puts_nothing_back t] t show ?thesis by blast
qed

section \<open>Finalization\<close>

lemma request_gc_spec:
  "\<exists>t. request_gc s = Some (Ok (), t) \<and> rt_fibers t = rt_fibers s \<and> rt_dependencies t = rt_dependencies s \<and> rt_scopes t = rt_scopes s"
  by (auto simp: request_gc_def settle_def with_admission_def andthen_def within_def admission_enter_def cas_def spawn_worker_def
      worker_spawn_def pass_def give_def update_def Let_def split: prod.splits)

lemma fiber_cong: "rt_fibers t = rt_fibers s \<Longrightarrow> fiber f t = fiber f s"
  by (simp add: fiber_def)

lemma finalize_forbidden:
  assumes "fiber f s = Some r" and "\<not> can_transition_to (fb_state r) target" and "fd_completion (fb_disposal r) = None"
  shows "\<exists>e t r' obs. finalize_fiber_disposal f result (Some target) False s = Some (Err (DisposalWorkerTerminated e), t) \<and>
    rt_dependencies t = rt_dependencies s \<and> rt_scopes t = rt_scopes s \<and> fiber f t = Some r' \<and>
    fb_state r' = target \<and> fd_phase (fb_disposal r') = Complete \<and> fd_completion (fb_disposal r') = Some obs \<and>
    do_terminal obs = Committed"
proof -
  let ?e = "Cat [Lit ''invalid final state transition: '', StateText (fb_state r), Lit '' -> '', StateText target]"
  obtain u r' obs where u: "andthen (set_disposal_phase f Finalizing) (\<lambda>_. publish_disposal f (Err (DisposalWorkerTerminated ?e))
      (Some target) False) s = Some (Ok (), u)" "rt_dependencies u = rt_dependencies s" "rt_scopes u = rt_scopes s"
      "fiber f u = Some r'" "fb_state r' = target" "fd_phase (fb_disposal r') = Complete" "fd_completion (fb_disposal r') = Some obs"
      "do_terminal obs = Committed"
    using assms(1,3)
    by (auto simp: set_disposal_phase_def publish_disposal_def andthen_def update_def reads_def give_def Let_def completion_publish_def)
  obtain t where t: "request_gc u = Some (Ok (), t)" "rt_fibers t = rt_fibers u" "rt_dependencies t = rt_dependencies u"
      "rt_scopes t = rt_scopes u" using request_gc_spec [of u] by blast
  have "finalize_fiber_disposal f result (Some target) False s = Some (Err (DisposalWorkerTerminated ?e), t)"
    using assms(1,2) u(1) t(1)
    by (auto simp: finalize_fiber_disposal_def andthen_def reads_def worker_error_def pass_def give_def Let_def
        split: option.splits res.splits)
  with u t fiber_cong [OF t(2), of f] show ?thesis by auto
qed

text \<open>
  C21. A final transition that the lifecycle forbids is reported to the worker's supervisor as
  \<open>DisposalWorkerTerminated\<close>, and the indexes are left as they were, but the second block of the
  finalization does not see it: it writes the forbidden state, marks the disposal complete and
  publishes it as committed.
\<close>

theorem forbidden_final_state_is_written:
  assumes "fiber f s = Some r" and "\<not> can_transition_to (fb_state r) target" and "fd_completion (fb_disposal r) = None"
  shows "\<exists>e t r' obs. finalize_fiber_disposal f result (Some target) False s = Some (Err (DisposalWorkerTerminated e), t) \<and>
    rt_dependencies t = rt_dependencies s \<and> rt_scopes t = rt_scopes s \<and> fiber f t = Some r' \<and>
    fb_state r' = target \<and> fd_phase (fb_disposal r') = Complete \<and> fd_completion (fb_disposal r') = Some obs \<and>
    do_terminal obs = Committed"
  by (rule finalize_forbidden [OF assms])

text \<open>A staged Fiber whose start wrote \<open>Active\<close> over the \<open>Disposing\<close> of a disposal in progress.\<close>

theorem forbidden_final_state_is_written_witness:
  "\<exists>e t r' obs. finalize_fiber_disposal 4 (Ok ()) (Some Disposed) False example_runtime = Some (Err (DisposalWorkerTerminated e), t) \<and>
    rt_dependencies t = rt_dependencies example_runtime \<and> rt_scopes t = rt_scopes example_runtime \<and> fiber 4 t = Some r' \<and>
    fb_state r' = Disposed \<and> fd_phase (fb_disposal r') = Complete \<and> fd_completion (fb_disposal r') = Some obs \<and>
    do_terminal obs = Committed"
  by (rule forbidden_final_state_is_written [where r = "example_fiber Active"])
     (simp_all add: example_runtime_fiber example_fiber_def can_transition_to_def fiber_disposal_default_def completion_default_def)

lemma triple_each_grow:
  assumes "\<And>x D. triple (I D) (g x) (\<lambda>_. I (insert x D)) E"
  shows "triple (I D) (each g xs) (\<lambda>_. I (D \<union> set xs)) E"
proof (induction xs arbitrary: D)
  case Nil
  show ?case by (simp add: triple_pass)
next
  case (Cons x xs)
  from triple_andthen [OF assms Cons.IH] show ?case by simp
qed

text \<open>\<open>f\<close> is no dependent of the keys \<open>D\<close> and no declared provider of the keys \<open>P\<close> in \<open>scope\<close>.\<close>

definition unindexed :: "fiber_id \<Rightarrow> scope_id \<Rightarrow> runtime \<Rightarrow> service_key set \<Rightarrow> service_key set \<Rightarrow> runtime \<Rightarrow> bool" where
  "unindexed f scope s0 D P s \<longleftrightarrow> rt_services s = rt_services s0 \<and> rt_fibers s = rt_fibers s0 \<and>
     (\<forall>key \<in> D. \<forall>symbol. lookup_symbol key s0 = Some symbol \<longrightarrow> f \<notin> set (dependents symbol (rt_dependencies s))) \<and>
     (\<forall>key \<in> P. \<forall>symbol. lookup_symbol key s0 = Some symbol \<longrightarrow> f \<notin> set (providers scope symbol (rt_dependencies s)))"

lemma unindexed_intern:
  "triple (unindexed f scope s0 D P) (intern_symbol key) (\<lambda>symbol s. unindexed f scope s0 D P s \<and> lookup_symbol key s0 = Some symbol) (\<lambda>_. True)"
  by (auto simp: triple_def intern_symbol_def intern_def lookup_symbol_def unindexed_def split: option.splits)

lemma dependents_removed:
  "dependents symbol (remove_dependency symbol' f g) =
     (if symbol = symbol' then filter (\<lambda>x. x \<noteq> f) (dependents symbol g) else dependents symbol g)"
  "dependents symbol (remove_provider scope symbol' f g) = dependents symbol g"
  "providers scope symbol (remove_dependency symbol' f g) = providers scope symbol g"
  "providers scope symbol (remove_provider scope' symbol' f g) =
     (if scope = scope' \<and> symbol = symbol' then filter (\<lambda>x. x \<noteq> f) (providers scope symbol g) else providers scope symbol g)"
  by (auto simp: dependents_def providers_def remove_dependency_def remove_provider_def fibers_at_def split: option.splits)

lemma clean_indexes_spec:
  "triple (\<lambda>s. s = s0) (clean_indexes f r) (\<lambda>_ s. unindexed f (fb_scope r) s0 (set (pd_dependencies (fb_descriptor r)))
       (set (pd_provisions (fb_descriptor r))) s \<and>
     (\<forall>sc. aget (rt_scopes s) (fb_scope r) = Some sc \<longrightarrow> f \<notin> set (sc_fibers sc))) (\<lambda>_. True)"
proof -
  let ?U = "unindexed f (fb_scope r) s0"
  have deps: "triple (?U D P) (andthen (intern_symbol key) (\<lambda>symbol.
        update (\<lambda>s. s\<lparr>rt_dependencies := remove_dependency symbol f (rt_dependencies s)\<rparr>))) (\<lambda>_. ?U (insert key D) P) (\<lambda>_. True)" for key D P
    by (rule triple_andthen [OF unindexed_intern], rule triple_update) (auto simp: unindexed_def dependents_removed)
  have provs: "triple (?U D P) (andthen (intern_symbol key) (\<lambda>symbol.
        update (\<lambda>s. s\<lparr>rt_dependencies := remove_provider (fb_scope r) symbol f (rt_dependencies s)\<rparr>))) (\<lambda>_. ?U D (insert key P)) (\<lambda>_. True)" for key D P
    by (rule triple_andthen [OF unindexed_intern], rule triple_update) (auto simp: unindexed_def dependents_removed)
  have start: "triple (\<lambda>s. s = s0) (each (\<lambda>key. andthen (intern_symbol key) (\<lambda>symbol.
        update (\<lambda>s. s\<lparr>rt_dependencies := remove_dependency symbol f (rt_dependencies s)\<rparr>))) (pd_dependencies (fb_descriptor r)))
      (\<lambda>_. ?U (set (pd_dependencies (fb_descriptor r))) {}) (\<lambda>_. True)"
    by (rule triple_weaken [OF triple_each_grow [where I = "\<lambda>D. ?U D {}" and D = "{}", OF deps]]) (simp_all add: unindexed_def)
  show ?thesis
    unfolding clean_indexes_def
    by (rule triple_andthen [OF start], rule triple_andthen [OF triple_each_grow [where D = "{}" and I = "?U D" for D, OF provs]],
        rule triple_update) (auto simp: unindexed_def)
qed

lemma each_total:
  assumes "\<And>x s. x \<in> set xs \<Longrightarrow> I s \<Longrightarrow> \<exists>t. g x s = Some (Ok (), t) \<and> I t"
  shows "I s \<Longrightarrow> \<exists>t. each g xs s = Some (Ok (), t) \<and> I t"
  using assms
proof (induction xs arbitrary: s)
  case Nil
  then show ?case by (simp add: pass_def)
next
  case (Cons x xs)
  obtain t where t: "g x s = Some (Ok (), t)" "I t" using Cons.prems by fastforce
  with Cons.IH [OF t(2)] Cons.prems(2) show ?case by (simp add: andthen_def)
qed

definition keys_interned :: "plugin_descriptor \<Rightarrow> runtime \<Rightarrow> bool" where
  "keys_interned d s \<longleftrightarrow> (\<forall>key \<in> set (pd_dependencies d) \<union> set (pd_provisions d). lookup_symbol key s \<noteq> None)"

lemma clean_indexes_total:
  assumes "keys_interned (fb_descriptor r) s"
  shows "\<exists>t. clean_indexes f r s = Some (Ok (), t)"
proof -
  let ?I = "keys_interned (fb_descriptor r)"
  have one: "\<exists>t. andthen (intern_symbol key) (\<lambda>symbol. update (\<lambda>s. s\<lparr>rt_dependencies := h symbol (rt_dependencies s)\<rparr>)) u = Some (Ok (), t) \<and> ?I t"
    if k: "key \<in> set (pd_dependencies (fb_descriptor r)) \<union> set (pd_provisions (fb_descriptor r))" "?I u" for key u
      and h :: "service_symbol \<Rightarrow> graph_state \<Rightarrow> graph_state"
  proof -
    obtain symbol where "service_lookup key (rt_services u) = Some symbol"
      using k unfolding keys_interned_def lookup_symbol_def by blast
    then have "andthen (intern_symbol key) (\<lambda>symbol. update (\<lambda>s. s\<lparr>rt_dependencies := h symbol (rt_dependencies s)\<rparr>)) u
        = Some (Ok (), u\<lparr>rt_dependencies := h symbol (rt_dependencies u)\<rparr>)"
      by (simp add: intern_symbol_def intern_def andthen_def update_def)
    moreover have "?I (u\<lparr>rt_dependencies := h symbol (rt_dependencies u)\<rparr>)"
      using k(2) by (simp add: keys_interned_def lookup_symbol_def)
    ultimately show ?thesis by blast
  qed
  obtain t1 where t1: "each (\<lambda>key. andthen (intern_symbol key) (\<lambda>symbol.
      update (\<lambda>s. s\<lparr>rt_dependencies := remove_dependency symbol f (rt_dependencies s)\<rparr>))) (pd_dependencies (fb_descriptor r)) s = Some (Ok (), t1)" "?I t1"
    by (atomize_elim, rule each_total [where I = ?I], rule one, simp, assumption, rule assms)
  obtain t2 where "each (\<lambda>key. andthen (intern_symbol key) (\<lambda>symbol.
      update (\<lambda>s. s\<lparr>rt_dependencies := remove_provider (fb_scope r) symbol f (rt_dependencies s)\<rparr>))) (pd_provisions (fb_descriptor r)) t1 = Some (Ok (), t2) \<and> ?I t2"
    by (atomize_elim, rule each_total [where I = ?I], rule one, simp, assumption, rule t1(2))
  with t1 show ?thesis by (simp add: clean_indexes_def andthen_def update_def)
qed

text \<open>
  C20. A disposal whose worker ended normally commits: from \<open>Disposing\<close> the Fiber reaches its target, the
  disposal is complete, one observation carrying every recorded issue is published as committed, and
  a disposed Fiber is out of its scope and out of the dependency graph.
\<close>

theorem finalization_commits:
  assumes "fiber f s = Some r" and "fb_state r = Disposing" and "target \<in> {Disposed, WaitingDependencies}"
    and "fd_completion (fb_disposal r) = None" and "\<not> worker_error result" and "keys_interned (fb_descriptor r) s"
  shows "\<exists>t r'. finalize_fiber_disposal f result (Some target) False s = Some (result, t) \<and>
    fiber f t = Some r' \<and> fb_state r' = target \<and> fd_phase (fb_disposal r') = Complete \<and>
    fd_completion (fb_disposal r') = Some \<lparr>do_legacy_result = result, do_terminal = Committed, do_issues = fd_errors (fb_disposal r)\<rparr> \<and>
    (target = Disposed \<longrightarrow> (\<forall>sc. aget (rt_scopes t) (fb_scope r) = Some sc \<longrightarrow> f \<notin> set (sc_fibers sc)) \<and>
      (\<forall>key \<in> set (pd_dependencies (fb_descriptor r)). \<forall>symbol. lookup_symbol key s = Some symbol \<longrightarrow>
        f \<notin> set (dependents symbol (rt_dependencies t))) \<and>
      (\<forall>key \<in> set (pd_provisions (fb_descriptor r)). \<forall>symbol. lookup_symbol key s = Some symbol \<longrightarrow>
        f \<notin> set (providers (fb_scope r) symbol (rt_dependencies t))))"
proof -
  let ?s = "modify_fiber f (\<lambda>r. r\<lparr>fb_disposal := (fb_disposal r)\<lparr>fd_phase := Finalizing\<rparr>\<rparr>) s"
  let ?r = "r\<lparr>fb_disposal := (fb_disposal r)\<lparr>fd_phase := Finalizing\<rparr>\<rparr>"
  let ?clean = "if target = Disposed then clean_indexes f r else pass ()"
  have can: "can_transition_to (fb_state r) target" using assms(2,3) by (auto simp: can_transition_to_def)
  have keys: "lookup_symbol key ?s = lookup_symbol key s" for key by (simp add: lookup_symbol_def)
  obtain u where u: "?clean ?s = Some (Ok (), u)" "rt_fibers u = rt_fibers ?s"
      "target = Disposed \<longrightarrow> (\<forall>sc. aget (rt_scopes u) (fb_scope r) = Some sc \<longrightarrow> f \<notin> set (sc_fibers sc)) \<and>
         unindexed f (fb_scope r) ?s (set (pd_dependencies (fb_descriptor r))) (set (pd_provisions (fb_descriptor r))) u"
  proof (cases "target = Disposed")
    case True
    obtain u where u: "clean_indexes f r ?s = Some (Ok (), u)"
      using clean_indexes_total [of r ?s f] assms(6) by (auto simp: keys_interned_def keys)
    from tripleD_Ok [OF clean_indexes_spec refl u] have
      "unindexed f (fb_scope r) ?s (set (pd_dependencies (fb_descriptor r))) (set (pd_provisions (fb_descriptor r))) u"
      "\<forall>sc. aget (rt_scopes u) (fb_scope r) = Some sc \<longrightarrow> f \<notin> set (sc_fibers sc)" by simp_all
    with u True that show ?thesis by (simp add: unindexed_def)
  qed (use that in \<open>simp add: pass_def\<close>)
  have fu: "fiber f u = Some ?r" using fiber_cong [OF u(2), of f] assms(1) by simp
  obtain v r' where v: "publish_disposal f result (Some target) False u = Some (Ok (), v)" "rt_scopes v = rt_scopes u"
      "rt_dependencies v = rt_dependencies u" "fiber f v = Some r'" "fb_state r' = target" "fd_phase (fb_disposal r') = Complete"
      "fd_completion (fb_disposal r') = Some \<lparr>do_legacy_result = result, do_terminal = Committed, do_issues = fd_errors (fb_disposal r)\<rparr>"
    using fu assms(4) by (auto simp: publish_disposal_def andthen_def update_def reads_def give_def Let_def completion_publish_def)
  obtain t where t: "request_gc v = Some (Ok (), t)" "rt_fibers t = rt_fibers v" "rt_dependencies t = rt_dependencies v"
      "rt_scopes t = rt_scopes v" using request_gc_spec [of v] by blast
  have "finalize_fiber_disposal f result (Some target) False s = Some (result, t)"
    using assms(1,5) can u(1) v(1) t(1)
    by (simp add: finalize_fiber_disposal_def andthen_def reads_def Let_def set_disposal_phase_def update_def give_def)
  with v t u(3) fiber_cong [OF t(2), of f] keys show ?thesis
    unfolding unindexed_def by (intro exI [of _ t] exI [of _ r']) auto
qed

theorem finalization_commits_witness:
  "\<exists>t r'. finalize_fiber_disposal 4 (Ok ()) (Some Disposed) False
      (modify_fiber 4 (\<lambda>r. r\<lparr>fb_state := Disposing\<rparr>) example_runtime) = Some (Ok (), t) \<and>
     fiber 4 t = Some r' \<and> fb_state r' = Disposed"
proof -
  let ?s = "modify_fiber 4 (\<lambda>r. r\<lparr>fb_state := Disposing\<rparr>) example_runtime" and ?r = "(example_fiber Active)\<lparr>fb_state := Disposing\<rparr>"
  have "fiber 4 ?s = Some ?r" "fb_state ?r = Disposing" "Disposed \<in> {Disposed, WaitingDependencies}"
      "fd_completion (fb_disposal ?r) = None" "\<not> worker_error (Ok ())" "keys_interned (fb_descriptor ?r) ?s"
    by (simp_all add: example_runtime_fiber example_fiber_def fiber_disposal_default_def completion_default_def worker_error_def
        keys_interned_def)
  from finalization_commits [OF this] show ?thesis by blast
qed

end
