(* ===== verification/Activation.thy ===== *)
theory Activation
  imports Disposal_Properties
begin

text \<open>
  Installation and activation of a Fiber (\<^verbatim>\<open>runtime/fiber.rs\<close>, \<^verbatim>\<open>runtime/dependency.rs\<close>): a record is entered in
  every registry, the plugin's start runs against a Context of a staged generation, and one
  publication of that generation makes everything the start registered visible at once.

  The plugin's start is user code; the disposal of a failed activation and the reconciliation of
  dependents are parameters, tied in the theory \<open>Lifecycle\<close>.
\<close>

record activation =
  ac_start :: "plugin_ref \<Rightarrow> context_handle \<Rightarrow> unit run"
  ac_lock :: "runtime \<Rightarrow> runtime"  \<comment> \<open>what happens while the activation waits for the lifecycle lock\<close>
  ac_interrupt :: "(runtime \<Rightarrow> runtime) option"  \<comment> \<open>\<open>Some\<close>: cancellation wins over the start after this effect\<close>
  ac_gap :: "runtime \<Rightarrow> runtime"  \<comment> \<open>other threads, between two critical sections\<close>
  ac_gate :: gate_ref  \<comment> \<open>the gate allocated when a disposed Fiber starts again\<close>
  ac_barrier :: barrier_ref
  ac_dispose :: "fiber_id \<Rightarrow> disposal_observation run"  \<comment> \<open>\<open>dispose_reload_owned_fiber_observation\<close>\<close>
  ac_reconcile :: "service_symbol list \<Rightarrow> unit run"  \<comment> \<open>\<open>reconcile_symbols\<close>\<close>

text \<open>A test or a lookup that may fail.\<close>

definition asks :: "(runtime \<Rightarrow> 'a cres) \<Rightarrow> 'a run" where
  "asks f s = Some (f s, s)"

lemma andthen_asks: "andthen (asks f) g s = (case f s of
    Ok a \<Rightarrow> g a s | Err e \<Rightarrow> Some (Err e, s) | Panicked p \<Rightarrow> Some (Panicked p, s))"
  by (simp add: andthen_def asks_def)

section \<open>Failure\<close>

definition activation_failure :: "cordis_error \<Rightarrow> cordis_error list \<Rightarrow> cordis_error" where
  "activation_failure primary cleanup = (if cleanup = [] then primary else ActivationFailed primary cleanup)"

definition issue_error :: "cleanup_issue \<Rightarrow> cordis_error" where
  "issue_error i = (case ci_cause i of Some e \<Rightarrow> e | None \<Rightarrow> PluginDisposeFailed (issue_text i))"

definition activation_cleanup :: "disposal_observation cres \<Rightarrow> cordis_error list" where
  "activation_cleanup result =
     (let (issues, terminal, legacy_error) = (case result of
          Ok obs \<Rightarrow> (do_issues obs, do_terminal obs, case do_legacy_result obs of Err e \<Rightarrow> [e] | _ \<Rightarrow> [])
        | Err e \<Rightarrow> ([], Incomplete e, [e])
        | Panicked _ \<Rightarrow> ([], Committed, []));
          cleanup = map issue_error issues
      in if cleanup = [] \<or> terminal \<noteq> Committed then cleanup @ legacy_error else cleanup)"

definition fail_activation :: "fiber_id \<Rightarrow> unit run" where
  "fail_activation f = andthen (drop_activation f) (\<lambda>_. update (modify_fiber f (\<lambda>r. r\<lparr>
     fb_state := (if fb_state r = Starting then Failed else fb_state r),
     fb_activation_sealed := True, fb_cancelled := True\<rparr>)))"

definition converge_failed_activation :: "activation \<Rightarrow> fiber_id \<Rightarrow> cordis_error \<Rightarrow> unit run" where
  "converge_failed_activation ac f primary = andthen (fail_activation f) (\<lambda>_.
     settle (ac_dispose ac f) (\<lambda>r. case r of
         Panicked p \<Rightarrow> give (Panicked p)
       | r \<Rightarrow> give (Err (activation_failure primary (activation_cleanup r)))))"

section \<open>Validation and commit\<close>

definition validate_staged_revision :: "fiber_id \<Rightarrow> unit run" where
  "validate_staged_revision f = andthen (get_fiber f) (\<lambda>r.
     if set (pd_provisions (fb_descriptor r)) \<noteq> set (fb_provided r)
     then give (Err (RevisionValidationFailed (Cat [Lit ''declared provisions '',
       KeysText (remdups (pd_provisions (fb_descriptor r))), Lit '' do not match actual services '', KeysText (remdups (fb_provided r))])))
     else pass ())"

fun lookup_symbols :: "service_key list \<Rightarrow> runtime \<Rightarrow> service_symbol list cres" where
  "lookup_symbols [] s = Ok []"
| "lookup_symbols (key # keys) s = (case lookup_symbol key s of
      None \<Rightarrow> Err (Invariant (Lit ''provided service was not interned''))
    | Some symbol \<Rightarrow> rbind (lookup_symbols keys s) (\<lambda>symbols. Ok (symbol # symbols)))"

fun check_owned :: "scope_id \<Rightarrow> fiber_id \<Rightarrow> service_symbol list \<Rightarrow> service_registry \<Rightarrow> unit cres" where
  "check_owned scope f [] s = Ok ()"
| "check_owned scope f (symbol # symbols) s = (case service_get scope symbol s of
      None \<Rightarrow> Err (Invariant (Lit ''activation service disappeared''))
    | Some entry \<Rightarrow> if se_owner entry \<noteq> f then Err (Invariant (Lit ''activation service owner changed''))
        else check_owned scope f symbols s)"

definition open_activation :: "fiber_id \<Rightarrow> runtime \<Rightarrow> runtime" where
  "open_activation f s = (case fiber f s of
      None \<Rightarrow> s
    | Some r \<Rightarrow> modify_fiber f (\<lambda>r. r\<lparr>fb_activation := None\<rparr>)
        (case fb_activation r of None \<Rightarrow> s | Some b \<Rightarrow> s\<lparr>rt_barriers := (rt_barriers s)(b := BarrierOpened)\<rparr>))"

text \<open>The part of \<open>commit_activation\<close> under the Fiber's write lock.\<close>

definition publish_activation :: "fiber_id \<Rightarrow> unit run" where
  "publish_activation f = andthen (get_fiber f) (\<lambda>r.
     if fb_state r \<noteq> Starting \<or> \<not> fb_activation_sealed r then give (Err (InvalidFiberState f (fb_state r) Active))
     else andthen (reads rt_gates) (\<lambda>gates.
       if \<not> is_staged gates (fb_capabilities r) then give (Err (CapabilityPublicationFailed f))
       else andthen (in_gates (\<lambda>g. case publish (fb_capabilities r) g of (ok, g') \<Rightarrow> (Ok ok, g'))) (\<lambda>published.
         if \<not> published then give (Err (CapabilityPublicationFailed f))
         else andthen (update (modify_fiber f (\<lambda>r. r\<lparr>fb_staged := False, fb_state := Active, fb_activation_sealed := False\<rparr>))) (\<lambda>_.
           andthen bump_service_epoch (\<lambda>_. update (open_activation f))))))"

definition commit_activation :: "activation \<Rightarrow> fiber_id \<Rightarrow> service_symbol list run" where
  "commit_activation ac f = andthen (get_fiber f) (\<lambda>r.
     andthen (asks (lookup_symbols (fb_provided r))) (\<lambda>symbols.
     with_admission (
       andthen (asks (\<lambda>s. check_owned (fb_scope r) f symbols (rt_services s))) (\<lambda>_.
       andthen (asks (\<lambda>s. validate_activation (rt_gates s) (fb_invocation_handlers r) (fb_invocation_middleware r)
                  (rt_invocations s))) (\<lambda>_.
       andthen (update (ac_gap ac)) (\<lambda>_.
       andthen (publish_activation f) (\<lambda>_. pass symbols)))))))"

section \<open>The activation\<close>

text \<open>
  The first critical section. A Fiber that was disposed to wait for its dependencies starts again with
  a fresh generation; its disposal record is reset before the generation is allocated.
\<close>

definition renew_generation :: "activation \<Rightarrow> fiber_id \<Rightarrow> plugin_id \<Rightarrow> unit run" where
  "renew_generation ac f p =
     andthen (update (modify_fiber f (\<lambda>r. r\<lparr>fb_disposal := fiber_disposal_default, fb_cancelled := False\<rparr>))) (\<lambda>_.
     andthen (in_plugins (allocate_generation p)) (\<lambda>(generation, selector).
       update (\<lambda>s. modify_fiber f (\<lambda>r. r\<lparr>fb_generation := generation, fb_capabilities := ac_gate ac\<rparr>)
         (s\<lparr>rt_gates := (rt_gates s)\<lparr>gs_gate := (gs_gate (rt_gates s))(ac_gate ac := staged selector generation)\<rparr>\<rparr>))))"

definition begin_activation :: "activation \<Rightarrow> fiber_id \<Rightarrow> plugin_id \<Rightarrow> unit run" where
  "begin_activation ac f p = with_admission (andthen (get_fiber f) (\<lambda>r.
     if fb_state r \<notin> {Created, WaitingDependencies} then give (Err (InvalidFiberState f (fb_state r) Starting))
     else andthen (if fb_state r = WaitingDependencies \<and> fd_phase (fb_disposal r) = Complete then renew_generation ac f p else pass ()) (\<lambda>_.
       andthen (drop_activation f) (\<lambda>_.
       update (\<lambda>s. modify_fiber f (\<lambda>r. r\<lparr>fb_state := Starting, fb_activation_sealed := False, fb_activation := Some (ac_barrier ac)\<rparr>)
         (s\<lparr>rt_barriers := (rt_barriers s)(ac_barrier ac := BarrierPending)\<rparr>))))))"

text \<open>The start under the biased \<open>select\<close>: a cancelled Fiber's start is not polled.\<close>

definition start_plugin :: "activation \<Rightarrow> fiber_id \<Rightarrow> fiber_record \<Rightarrow> unit run" where
  "start_plugin ac f r = andthen (reads (\<lambda>s. case fiber f s of None \<Rightarrow> fb_cancelled r | Some r \<Rightarrow> fb_cancelled r)) (\<lambda>cancelled.
     if cancelled then give (Err TaskCancelled)
     else (case ac_interrupt ac of
         Some partial \<Rightarrow> andthen (update partial) (\<lambda>_. give (Err TaskCancelled))
       | None \<Rightarrow> settle (ac_start ac (fb_plugin r) \<lparr>cx_scope = fb_scope r, cx_fiber = f, cx_generation = fb_generation r\<rparr>)
           (\<lambda>out. give (case out of Panicked p \<Rightarrow> Err (PluginPanicked (Lit p)) | out \<Rightarrow> out))))"

definition seal_activation :: "fiber_id \<Rightarrow> bool run" where
  "seal_activation f = settle (with_admission (andthen (reads (fiber f)) (\<lambda>r.
     if map_option fb_state r = Some Starting
     then andthen (update (modify_fiber f (\<lambda>r. r\<lparr>fb_activation_sealed := True\<rparr>))) (\<lambda>_. pass True)
     else pass False))) (\<lambda>r. case r of Ok sealed \<Rightarrow> pass sealed | _ \<Rightarrow> pass False)"

text \<open>
  After the seal: a staged activation writes \<open>Active\<close> and leaves the publication to its reload; any
  other one commits, and an error of the reconciliation that follows is only logged.
\<close>

definition finish_activation :: "activation \<Rightarrow> fiber_id \<Rightarrow> unit run" where
  "finish_activation ac f = andthen (reads (\<lambda>s. case fiber f s of None \<Rightarrow> False | Some r \<Rightarrow> fb_staged r)) (\<lambda>deferred.
     if deferred then update (modify_fiber f (\<lambda>r. r\<lparr>fb_state := Active\<rparr>))
     else settle (commit_activation ac f) (\<lambda>committed. case committed of
         Ok symbols \<Rightarrow> if symbols = [] then pass ()
           else settle (ac_reconcile ac symbols) (\<lambda>r. case r of Panicked p \<Rightarrow> give (Panicked p) | _ \<Rightarrow> pass ())
       | Err primary \<Rightarrow> converge_failed_activation ac f primary
       | Panicked p \<Rightarrow> give (Panicked p)))"

definition start_error :: "cordis_error \<Rightarrow> cordis_error" where
  "start_error e = (case e of Host _ \<Rightarrow> e | RemoteDomain _ \<Rightarrow> e | _ \<Rightarrow> PluginStartFailed (ErrText e))"

definition after_start :: "activation \<Rightarrow> fiber_id \<Rightarrow> unit cres \<Rightarrow> unit run" where
  "after_start ac f result = (case result of
      Ok _ \<Rightarrow> andthen (seal_activation f) (\<lambda>sealed.
        if \<not> sealed then converge_failed_activation ac f RuntimeShuttingDown
        else settle (validate_staged_revision f) (\<lambda>valid. case valid of
            Ok _ \<Rightarrow> andthen (update (ac_gap ac)) (\<lambda>_. finish_activation ac f)
          | Err e \<Rightarrow> converge_failed_activation ac f e
          | Panicked p \<Rightarrow> give (Panicked p)))
    | Err e \<Rightarrow> converge_failed_activation ac f (start_error e)
    | Panicked p \<Rightarrow> give (Panicked p))"

definition activate_body :: "activation \<Rightarrow> fiber_id \<Rightarrow> unit run" where
  "activate_body ac f = andthen (asks (\<lambda>s. ok_or FiberNotFound (aget (rt_fibers s) f))) (\<lambda>cell.
     andthen (update (ac_lock ac)) (\<lambda>_.
     andthen (begin_activation ac f (fc_plugin_id cell)) (\<lambda>_.
     andthen (get_fiber f) (\<lambda>r.
       settle (start_plugin ac f r) (after_start ac f)))))"

definition activate :: "activation \<Rightarrow> fiber_id \<Rightarrow> unit run" where
  "activate ac f = settle (activate_body ac f) (\<lambda>r. case r of
      Panicked p \<Rightarrow> converge_failed_activation ac f (PluginPanicked (Cat [Lit ''activation worker: '', Lit p]))
    | r \<Rightarrow> give r)"

section \<open>The dependency graph of the installed Fibers\<close>

text \<open>
  The provider of a dependency: the nearest scope, from the Fiber's own to the root, with a visible
  service or with declared providers.
\<close>

partial_function (option) find_providers ::
  "runtime \<Rightarrow> service_symbol \<Rightarrow> scope_id option \<Rightarrow> fiber_id list option" where
  "find_providers s symbol cursor = (case cursor of
      None \<Rightarrow> Some []
    | Some scope \<Rightarrow>
        (case (case service_get scope symbol (rt_services s) of
             Some e \<Rightarrow> if is_visible (rt_gates s) (se_gate e) then Some (se_owner e) else None | None \<Rightarrow> None) of
           Some owner \<Rightarrow> Some [owner]
         | None \<Rightarrow>
             if providers scope symbol (rt_dependencies s) \<noteq> [] then Some (providers scope symbol (rt_dependencies s))
             else find_providers s symbol (case aget (rt_scopes s) scope of None \<Rightarrow> None | Some r \<Rightarrow> sc_parent r)))"

fun fiber_edges :: "fiber_id \<Rightarrow> fiber_record \<Rightarrow> service_key list \<Rightarrow> edges \<Rightarrow> edges run" where
  "fiber_edges f r [] edges = pass edges"
| "fiber_edges f r (key # keys) edges = andthen (intern_symbol key) (\<lambda>symbol s.
     case find_providers s symbol (Some (fb_scope r)) of
       None \<Rightarrow> None
     | Some found \<Rightarrow> fiber_edges f r keys
         (aput f ((case aget edges f of None \<Rightarrow> [] | Some targets \<Rightarrow> targets) @ found) edges) s)"

fun graph_edges :: "(fiber_id \<times> fiber_cell) list \<Rightarrow> edges \<Rightarrow> edges run" where
  "graph_edges [] edges = pass edges"
| "graph_edges ((f, c) # cells) edges =
     (if fb_state (fc_inner c) = Disposed then graph_edges cells edges
      else andthen (fiber_edges f (fc_inner c) (pd_dependencies (fb_descriptor (fc_inner c))) edges) (graph_edges cells))"

definition validate_dependency_graph :: "unit run" where
  "validate_dependency_graph = andthen (reads rt_fibers) (\<lambda>cells. andthen (graph_edges cells []) (\<lambda>edges s.
     case validate_cycles edges of None \<Rightarrow> None | Some r \<Rightarrow> Some (r, s)))"

definition remove_unstarted_fiber :: "fiber_id \<Rightarrow> unit run" where
  "remove_unstarted_fiber f = andthen (reads (\<lambda>s. aget (rt_fibers s) f)) (\<lambda>cell. case cell of
      None \<Rightarrow> pass ()
    | Some c \<Rightarrow>
        andthen (update (\<lambda>s. s\<lparr>rt_fibers := adel f (rt_fibers s),
          rt_scopes := amod (fb_scope (fc_inner c)) (\<lambda>sc. sc\<lparr>sc_fibers := filter (\<lambda>i. i \<noteq> f) (sc_fibers sc)\<rparr>) (rt_scopes s)\<rparr>)) (\<lambda>_.
        andthen (each (\<lambda>key. andthen (intern_symbol key) (\<lambda>symbol.
          update (\<lambda>s. s\<lparr>rt_dependencies := remove_dependency symbol f (rt_dependencies s)\<rparr>)))
          (pd_dependencies (fb_descriptor (fc_inner c)))) (\<lambda>_.
        andthen (each (\<lambda>key. andthen (intern_symbol key) (\<lambda>symbol.
          update (\<lambda>s. s\<lparr>rt_dependencies := remove_provider (fb_scope (fc_inner c)) symbol f (rt_dependencies s)\<rparr>)))
          (pd_provisions (fb_descriptor (fc_inner c)))) (\<lambda>_.
        andthen (settle (in_plugins (detach_fiber (fc_plugin_id c))) (\<lambda>_. pass ())) (\<lambda>_.
          update (\<lambda>s. s\<lparr>rt_plugins := snd (reclaim_if_dead (rt_gates s) (fc_plugin_id c) (rt_plugins s))\<rparr>))))))"

section \<open>Installation\<close>

text \<open>The handles the arenas allocate, and the descriptor the plugin returns.\<close>

record installation =
  in_descriptor :: plugin_descriptor
  in_panics :: "string option"  \<comment> \<open>\<open>Some\<close>: the plugin's \<open>descriptor()\<close> panics\<close>
  in_plugin :: plugin_ref
  in_fiber :: fiber_id
  in_logical :: plugin_id
  in_selector :: selector_ref
  in_gate :: gate_ref

definition fiber_record_new ::
  "scope_id \<Rightarrow> plugin_descriptor \<Rightarrow> plugin_ref \<Rightarrow> gate_ref \<Rightarrow> generation_id \<Rightarrow> bool \<Rightarrow> fiber_record" where
  "fiber_record_new scope descriptor plugin gate generation staged_flag = \<lparr>fb_scope = scope, fb_descriptor = descriptor,
     fb_state = Created, fb_plugin = plugin, fb_effects = [], fb_tasks = [], fb_handlers = [], fb_invocation_handlers = [],
     fb_invocation_middleware = [], fb_provided = [], fb_child_scopes = [], fb_host_processes = [], fb_cancelled = False,
     fb_activation = None, fb_activation_sealed = False, fb_capabilities = gate, fb_generation = generation,
     fb_staged = staged_flag, fb_reload_owned = staged_flag, fb_disposal = fiber_disposal_default\<rparr>"

text \<open>The part of \<open>install_arc\<close> under the scope lock.\<close>

definition enter_fiber :: "installation \<Rightarrow> scope_id \<Rightarrow> bool \<Rightarrow> plugin_id option \<Rightarrow> unit run" where
  "enter_fiber i scope staged_flag logical = andthen (reads (\<lambda>s. aget (rt_scopes s) scope)) (\<lambda>sc. case sc of
      None \<Rightarrow> give (Err ScopeNotFound)
    | Some sc \<Rightarrow>
        if sc_state sc \<noteq> ScopeActive then give (Err (ScopeDisposed scope))
        else andthen (case logical of
            Some p \<Rightarrow> pass p
          | None \<Rightarrow> andthen (update (\<lambda>s. case plugin_create (in_logical i) (in_selector i) (rt_plugins s, rt_gates s) of
                (_, plugins, gates) \<Rightarrow> s\<lparr>rt_plugins := plugins, rt_gates := gates\<rparr>)) (\<lambda>_. pass (in_logical i))) (\<lambda>p.
          andthen (in_plugins (allocate_generation p)) (\<lambda>(generation, selector).
          andthen (in_plugins (attach_fiber p)) (\<lambda>_.
            update (\<lambda>s. s\<lparr>
              rt_fibers := aput (in_fiber i) \<lparr>fc_plugin_id = p, fc_inner = fiber_record_new scope (in_descriptor i)
                 (in_plugin i) (in_gate i) generation staged_flag\<rparr> (rt_fibers s),
              rt_gates := (rt_gates s)\<lparr>gs_gate := (gs_gate (rt_gates s))(in_gate i := staged selector generation)\<rparr>,
              rt_scopes := amod scope (\<lambda>sc. sc\<lparr>sc_fibers := sc_fibers sc @ [in_fiber i]\<rparr>) (rt_scopes s)\<rparr>)))))"

definition index_fiber :: "fiber_id \<Rightarrow> scope_id \<Rightarrow> plugin_descriptor \<Rightarrow> unit run" where
  "index_fiber f scope d =
     andthen (each (\<lambda>key. andthen (intern_symbol key) (\<lambda>symbol.
       update (\<lambda>s. s\<lparr>rt_dependencies := add_dependency symbol f (rt_dependencies s)\<rparr>))) (pd_dependencies d)) (\<lambda>_.
     each (\<lambda>key. andthen (intern_symbol key) (\<lambda>symbol.
       update (\<lambda>s. s\<lparr>rt_dependencies := add_provider scope symbol f (rt_dependencies s)\<rparr>))) (pd_provisions d))"

definition register_fiber :: "nat \<Rightarrow> installation \<Rightarrow> scope_id \<Rightarrow> bool \<Rightarrow> plugin_id option \<Rightarrow> unit run" where
  "register_fiber now i scope staged_flag logical = with_admission (
     andthen (each (\<lambda>key. andthen (intern_service key) (\<lambda>_. pass ()))
       (pd_dependencies (in_descriptor i) @ pd_provisions (in_descriptor i))) (\<lambda>_.
     andthen (reads (\<lambda>s. unat (max_fibers (rt_config s)) \<le> length (rt_fibers s))) (\<lambda>full.
     if full then andthen (reads rt_config) (\<lambda>c. quota_error now Fibers (max_fibers c) (Some scope) None)
     else andthen (enter_fiber i scope staged_flag logical) (\<lambda>_. index_fiber (in_fiber i) scope (in_descriptor i)))))"

definition install_arc :: "nat \<Rightarrow> activation \<Rightarrow> installation \<Rightarrow> scope_id \<Rightarrow> bool \<Rightarrow> plugin_id option \<Rightarrow> fiber_id run" where
  "install_arc now ac i scope staged_flag logical =
     andthen (update (\<lambda>s. if unat (max_fibers (rt_config s)) \<le> length (rt_fibers s) then snd (collect_garbage s) else s)) (\<lambda>_.
     andthen (case in_panics i of None \<Rightarrow> pass () | Some p \<Rightarrow> give (Panicked p)) (\<lambda>_.
     andthen (register_fiber now i scope staged_flag logical) (\<lambda>_.
     andthen (update (ac_gap ac)) (\<lambda>_.
     settle validate_dependency_graph (\<lambda>valid. case valid of
         Err e \<Rightarrow> andthen (remove_unstarted_fiber (in_fiber i)) (\<lambda>_. give (Err e))
       | Panicked p \<Rightarrow> give (Panicked p)
       | Ok _ \<Rightarrow> andthen (dependencies_met scope (pd_dependencies (in_descriptor i))) (\<lambda>met.
           andthen (if met then activate ac (in_fiber i) else transition (in_fiber i) WaitingDependencies)
             (\<lambda>_. pass (in_fiber i))))))))"

text \<open>
  \<open>install_owned\<close> and \<open>reconcile_symbols\<close>. The install worker takes the admission gate only to be
  accepted; the caller observes its outcome.
\<close>

definition install_owned :: "nat \<Rightarrow> activation \<Rightarrow> installation \<Rightarrow> scope_id \<Rightarrow> fiber_id run" where
  "install_owned now ac i scope = andthen (with_admission (spawn_worker InstallWorker True)) (\<lambda>_.
     install_arc now ac i scope False None)"

fun reconcile_each :: "(fiber_id \<Rightarrow> bool \<Rightarrow> unit run) \<Rightarrow> (fiber_id \<Rightarrow> unit run) \<Rightarrow> fiber_id list \<Rightarrow> unit run" where
  "reconcile_each dispose activate_one [] = pass ()"
| "reconcile_each dispose activate_one (f # fs) = andthen (reads (fiber f)) (\<lambda>candidate. case candidate of
      None \<Rightarrow> reconcile_each dispose activate_one fs
    | Some r \<Rightarrow> andthen (dependencies_met (fb_scope r) (pd_dependencies (fb_descriptor r))) (\<lambda>satisfied.
        andthen (if fb_state r = Active \<and> \<not> satisfied
                 then dispose f (pd_dependency_policy (fb_descriptor r) = Restart)
                 else if fb_state r = WaitingDependencies \<and> satisfied then activate_one f else pass ()) (\<lambda>_.
          reconcile_each dispose activate_one fs)))"

text \<open>\<open>order\<close> is the iteration order of the \<open>HashSet\<close> of candidates.\<close>

definition reconcile_symbols ::
  "(fiber_id \<Rightarrow> bool \<Rightarrow> unit run) \<Rightarrow> (fiber_id \<Rightarrow> unit run) \<Rightarrow> (fiber_id list \<Rightarrow> fiber_id list) \<Rightarrow> service_symbol list \<Rightarrow> unit run" where
  "reconcile_symbols dispose activate_one order symbols =
     andthen (reads (\<lambda>s. order (remdups (concat (map (\<lambda>symbol. dependents symbol (rt_dependencies s)) symbols)))))
       (reconcile_each dispose activate_one)"

end
