(* ===== verification/Activation_Properties.thy ===== *)
theory Activation_Properties
  imports Activation
begin

text \<open>
  What installation and activation guarantee: publication is the only commit point, a rejected
  installation leaves no trace, and where a staged activation can overwrite a disposal.
\<close>

lemma fiber_upd_others [simp]:
  "fiber f (s\<lparr>rt_barriers := b\<rparr>) = fiber f s" "fiber f (s\<lparr>rt_dependencies := d\<rparr>) = fiber f s"
  "fiber f (s\<lparr>rt_plugins := p\<rparr>) = fiber f s" "fiber f (s\<lparr>rt_workers := w\<rparr>) = fiber f s"
  by (simp_all add: fiber_def)

section \<open>Publication\<close>

definition entered :: "runtime \<Rightarrow> runtime" where
  "entered s = s\<lparr>rt_admission := snd (admission_enter (rt_admission s))\<rparr>"

definition left :: "runtime \<Rightarrow> runtime" where
  "left s = s\<lparr>rt_admission := admission_leave (rt_admission s)\<rparr>"

lemma with_admission_cases:
  assumes "with_admission body s = Some (res, t)"
  shows "(res = Err RuntimeShuttingDown \<and> t = s) \<or>
    (ag_state (rt_admission s) = RUNNING \<and> (\<exists>u. body (entered s) = Some (res, u) \<and> t = left u))"
  using assms
  by (auto simp: with_admission_def andthen_def within_def settle_def update_def give_def admission_enter_def entered_def left_def
      split: option.splits prod.splits res.splits if_splits)

lemma left_entered: "left (entered s) = s \<or> ag_state (rt_admission s) \<noteq> RUNNING"
  by (simp add: left_def entered_def admission_leave_def admission_enter_def)

lemma left_sel [simp]: "rt_gates (left s) = rt_gates s" "fiber f (left s) = fiber f s" "rt_barriers (left s) = rt_barriers s"
  "rt_services (left s) = rt_services s" "rt_invocations (left s) = rt_invocations s"
  by (simp_all add: left_def)

lemma entered_sel [simp]: "rt_gates (entered s) = rt_gates s" "fiber f (entered s) = fiber f s" "rt_services (entered s) = rt_services s"
  "rt_invocations (entered s) = rt_invocations s" "rt_barriers (entered s) = rt_barriers s"
  by (simp_all add: entered_def)

definition published_fiber :: "fiber_id \<Rightarrow> fiber_record \<Rightarrow> runtime \<Rightarrow> bool" where
  "published_fiber f r t \<longleftrightarrow> is_visible (rt_gates t) (fb_capabilities r) \<and>
     (\<exists>r'. fiber f t = Some r' \<and> fb_state r' = Active \<and> \<not> fb_staged r' \<and> fb_activation r' = None \<and> \<not> fb_activation_sealed r') \<and>
     (\<forall>b. fb_activation r = Some b \<longrightarrow> rt_barriers t b = BarrierOpened)"

text \<open>The locked part either changes nothing or publishes.\<close>

lemma publish_activation_cases:
  assumes "publish_activation f s = Some (res, t)"
  shows "(\<exists>e. res = Err e \<and> t = s) \<or> (\<exists>r. res = Ok () \<and> fiber f s = Some r \<and> fb_state r = Starting \<and> fb_activation_sealed r \<and>
    published_fiber f r t)"
proof (cases "fiber f s")
  case None
  with assms show ?thesis by (auto simp: publish_activation_def andthen_def get_fiber_def)
next
  case (Some r)
  show ?thesis
  proof (cases "fb_state r = Starting \<and> fb_activation_sealed r \<and> is_staged (rt_gates s) (fb_capabilities r)")
    case False
    with assms Some show ?thesis
      by (auto simp: publish_activation_def andthen_def get_fiber_def give_def reads_def split: if_splits)
  next
    case True
    obtain ok g where p: "publish (fb_capabilities r) (rt_gates s) = (ok, g)" by force
    show ?thesis
    proof (cases ok)
      case False
      with p publish_False have "g = rt_gates s" by metis
      with assms Some True False p show ?thesis
        by (auto simp: publish_activation_def andthen_def get_fiber_def give_def reads_def within_def)
    next
      case True
      then have v: "is_visible g (fb_capabilities r)" using p publish_True(1) by simp
      let ?u = "modify_fiber f (\<lambda>r. r\<lparr>fb_staged := False, fb_state := Active, fb_activation_sealed := False\<rparr>) (s\<lparr>rt_gates := g\<rparr>)"
      have "res = Ok () \<and> t = open_activation f (?u\<lparr>rt_services := bump_epoch (rt_services ?u)\<rparr>)"
        using assms Some \<open>fb_state r = Starting \<and> fb_activation_sealed r \<and> is_staged (rt_gates s) (fb_capabilities r)\<close> p True
        by (auto simp: publish_activation_def andthen_def get_fiber_def give_def reads_def within_def update_def bump_service_epoch_def)
      with Some v \<open>fb_state r = Starting \<and> fb_activation_sealed r \<and> is_staged (rt_gates s) (fb_capabilities r)\<close> show ?thesis
        by (auto simp: published_fiber_def open_activation_def split: option.split)
    qed
  qed
qed

lemma lookup_symbols_Ok:
  "lookup_symbols keys s = Ok symbols \<Longrightarrow> map (\<lambda>key. lookup_symbol key s) keys = map Some symbols"
  by (induction keys arbitrary: symbols) (auto simp: rbind_Ok_iff split: option.splits)

lemma lookup_symbols_no_panic: "lookup_symbols keys s \<noteq> Panicked p"
proof (induction keys)
  case (Cons key keys)
  then show ?case by (cases "lookup_symbols keys s") (auto split: option.split)
qed simp

lemma check_owned_Ok: "check_owned scope f symbols s = Ok () \<longleftrightarrow>
   (\<forall>symbol \<in> set symbols. \<exists>e. service_get scope symbol s = Some e \<and> se_owner e = f)"
  by (induction symbols) (auto split: option.split)

lemma check_owned_no_panic: "check_owned scope f symbols s \<noteq> Panicked p"
  by (induction symbols) (auto split: option.split)

lemma validate_handler_ids_no_panic: "validate_handler_ids g r all ids \<noteq> Panicked p"
  by (induction ids) (auto split: option.split)

lemma validate_activation_no_panic: "validate_activation g hs ms r \<noteq> Panicked p"
  using validate_handler_ids_no_panic [of g r hs hs p]
  by (cases "validate_handler_ids g r hs hs") (auto simp: validate_activation_def)

text \<open>
  C22. Publication is the only commit point of an activation. \<open>commit_activation\<close> never panics; an error
  proves that nothing was published: the state is as it was, or as other threads left it; success
  means that every service the Fiber provided is owned by it, its generation is visible, the Fiber is
  \<open>Active\<close> and its tasks' barrier is open.
\<close>

theorem activation_commits_or_changes_nothing:
  assumes "fiber f s = Some r" and "commit_activation ac f s = Some (res, t)"
  shows "case res of
      Panicked _ \<Rightarrow> False
    | Err _ \<Rightarrow> t = s \<or> t = left (ac_gap ac (entered s))
    | Ok symbols \<Rightarrow> map (\<lambda>key. lookup_symbol key s) (fb_provided r) = map Some symbols \<and>
        (\<forall>symbol \<in> set symbols. \<exists>e. service_get (fb_scope r) symbol (rt_services s) = Some e \<and> se_owner e = f) \<and>
        (\<exists>r'. fiber f (ac_gap ac (entered s)) = Some r' \<and> fb_state r' = Starting \<and> fb_activation_sealed r' \<and> published_fiber f r' t)"
proof -
  let ?body = "\<lambda>symbols. andthen (asks (\<lambda>s. check_owned (fb_scope r) f symbols (rt_services s))) (\<lambda>_.
       andthen (asks (\<lambda>s. validate_activation (rt_gates s) (fb_invocation_handlers r) (fb_invocation_middleware r)
                  (rt_invocations s))) (\<lambda>_.
       andthen (update (ac_gap ac)) (\<lambda>_. andthen (publish_activation f) (\<lambda>_. pass symbols))))"
  have main: "(case lookup_symbols (fb_provided r) s of Ok symbols \<Rightarrow> with_admission (?body symbols) s
      | Err e \<Rightarrow> Some (Err e, s) | Panicked p \<Rightarrow> Some (Panicked p, s)) = Some (res, t)"
    using assms by (simp add: commit_activation_def andthen_def [of "get_fiber f"] get_fiber_def andthen_asks)
  show ?thesis
  proof (cases "lookup_symbols (fb_provided r) s")
    case (Ok symbols)
    with main have "with_admission (?body symbols) s = Some (res, t)" by simp
    from with_admission_cases [OF this] show ?thesis
    proof (elim disjE conjE exE)
      fix u
      assume run: "ag_state (rt_admission s) = RUNNING" "?body symbols (entered s) = Some (res, u)" "t = left u"
      then have same: "left (entered s) = s" using left_entered [of s] by simp
      show ?thesis
      proof (cases "check_owned (fb_scope r) f symbols (rt_services s) = Ok () \<and>
          validate_activation (rt_gates s) (fb_invocation_handlers r) (fb_invocation_middleware r) (rt_invocations s) = Ok ()")
        case False
        with run same show ?thesis
          by (cases "check_owned (fb_scope r) f symbols (rt_services s)";
              cases "validate_activation (rt_gates s) (fb_invocation_handlers r) (fb_invocation_middleware r) (rt_invocations s)")
             (auto simp: andthen_asks check_owned_no_panic validate_activation_no_panic)
      next
        case True
        with run obtain res' where p: "publish_activation f (ac_gap ac (entered s)) = Some (res', u)"
            "res = (case res' of Ok _ \<Rightarrow> Ok symbols | Err e \<Rightarrow> Err e | Panicked p \<Rightarrow> Panicked p)"
          by (auto simp: asks_def andthen_def update_def pass_def split: option.splits res.splits)
        from publish_activation_cases [OF p(1)] show ?thesis
        proof (elim disjE exE conjE)
          fix r'
          assume "res' = Ok ()" "fiber f (ac_gap ac (entered s)) = Some r'" "fb_state r' = Starting" "fb_activation_sealed r'"
            "published_fiber f r' u"
          with p(2) run(3) True lookup_symbols_Ok [OF Ok] check_owned_Ok show ?thesis by (auto simp: published_fiber_def)
        qed (use p(2) run(3) in auto)
      qed
    qed simp
  qed (use main lookup_symbols_no_panic in \<open>auto split: res.splits\<close>)
qed

text \<open>Fiber 4 at the end of its start, and gates of which none is published.\<close>

definition starting_runtime :: runtime where
  "starting_runtime = modify_fiber 4 (\<lambda>r. r\<lparr>fb_state := Starting, fb_activation_sealed := True, fb_activation := Some 2\<rparr>)
     (example_runtime\<lparr>rt_gates := example_gates\<lparr>gs_selector := (\<lambda>_. GEN_NONE)\<rparr>\<rparr>)"

definition quiet_activation :: activation where
  "quiet_activation = \<lparr>ac_start = (\<lambda>_ _. pass ()), ac_lock = (\<lambda>s. s), ac_interrupt = None, ac_gap = (\<lambda>s. s), ac_gate = 11,
     ac_barrier = 12, ac_dispose = (\<lambda>_. give (Err FiberNotFound)), ac_reconcile = (\<lambda>_. pass ())\<rparr>"

theorem activation_commits_or_changes_nothing_witness:
  "\<exists>t r. commit_activation quiet_activation 4 starting_runtime = Some (Ok [], t) \<and> fiber 4 starting_runtime = Some r \<and>
     published_fiber 4 r t"
proof -
  let ?r = "(example_fiber Active)\<lparr>fb_state := Starting, fb_activation_sealed := True, fb_activation := Some 2\<rparr>"
  have f: "fiber 4 starting_runtime = Some ?r" by (simp add: starting_runtime_def example_runtime_fiber)
  have sel: "rt_gates starting_runtime = example_gates\<lparr>gs_selector := (\<lambda>_. GEN_NONE)\<rparr>" "ag_state (rt_admission starting_runtime) = RUNNING"
    by (simp_all add: starting_runtime_def example_runtime_sel admission_default_def)
  have "\<exists>t. commit_activation quiet_activation 4 starting_runtime = Some (Ok [], t)"
    using f sel by (auto simp: commit_activation_def andthen_def get_fiber_def asks_def example_fiber_def with_admission_def within_def
        admission_enter_def settle_def validate_activation_def update_def quiet_activation_def publish_activation_def reads_def
        is_staged_def publish_def GEN_NONE_def selector_switch_def selector_active_def example_gates_def staged_def pass_def give_def
        bump_service_epoch_def)
  then obtain t where t: "commit_activation quiet_activation 4 starting_runtime = Some (Ok [], t)" ..
  have gap: "ac_gap quiet_activation = (\<lambda>s. s)" by (simp add: quiet_activation_def)
  from activation_commits_or_changes_nothing [OF f t] f t show ?thesis by (auto simp: gap)
qed

section \<open>A staged activation and a disposal\<close>

text \<open>
  C23. A staged activation does not look at the state again after its seal: when a disposal (a shutdown
  or the disposal of the staging scope) has meanwhile moved the Fiber to \<open>Disposing\<close>, it writes \<open>Active\<close>
  over it. The disposal worker, which waited for the activation, then finds its final transition
  forbidden, and the Fiber is \<open>Disposed\<close> and committed without its indexes having been cleaned.
\<close>

theorem staged_activation_overwrites_disposal:
  assumes "fiber f s = Some r" and "fb_staged r" and "fb_state r = Disposing" and "fd_completion (fb_disposal r) = None"
  shows "\<exists>t r1. finish_activation ac f s = Some (Ok (), t) \<and> fiber f t = Some r1 \<and> fb_state r1 = Active \<and>
    \<not> can_transition_to Disposing Active \<and>
    (\<exists>e u r2. finalize_fiber_disposal f result (Some Disposed) False t = Some (Err (DisposalWorkerTerminated e), u) \<and>
      fiber f u = Some r2 \<and> fb_state r2 = Disposed \<and> rt_scopes u = rt_scopes t \<and> rt_dependencies u = rt_dependencies t)"
proof -
  let ?t = "modify_fiber f (\<lambda>r. r\<lparr>fb_state := Active\<rparr>) s" and ?r1 = "r\<lparr>fb_state := Active\<rparr>"
  have "finish_activation ac f s = Some (Ok (), ?t)"
    using assms by (simp add: finish_activation_def andthen_def reads_def update_def)
  moreover have t: "fiber f ?t = Some ?r1" using assms(1) by simp
  moreover have "\<not> can_transition_to (fb_state ?r1) Disposed" "fd_completion (fb_disposal ?r1) = None"
    using assms(4) by (simp_all add: can_transition_to_def)
  from finalize_forbidden [OF t this, of result]
  obtain e u r2 where "finalize_fiber_disposal f result (Some Disposed) False ?t = Some (Err (DisposalWorkerTerminated e), u)"
      "rt_dependencies u = rt_dependencies ?t" "rt_scopes u = rt_scopes ?t" "fiber f u = Some r2" "fb_state r2 = Disposed" by blast
  ultimately show ?thesis by (intro exI [of _ ?t] exI [of _ ?r1]) (auto simp: can_transition_to_def)
qed

theorem staged_activation_overwrites_disposal_witness:
  "\<exists>t r. finish_activation quiet_activation 4 (modify_fiber 4 (\<lambda>r. r\<lparr>fb_staged := True, fb_state := Disposing\<rparr>) example_runtime)
     = Some (Ok (), t) \<and> fiber 4 t = Some r \<and> fb_state r = Active"
proof -
  let ?s = "modify_fiber 4 (\<lambda>r. r\<lparr>fb_staged := True, fb_state := Disposing\<rparr>) example_runtime"
  have "fiber 4 ?s = Some ((example_fiber Active)\<lparr>fb_staged := True, fb_state := Disposing\<rparr>)"
    by (simp add: example_runtime_fiber)
  from staged_activation_overwrites_disposal [where ac = quiet_activation and result = "Ok ()", OF this] show ?thesis
    by (auto simp: example_fiber_def fiber_disposal_default_def completion_default_def)
qed

end
