(* ===== verification/Installation.thy ===== *)
theory Installation
  imports Activation_Properties
begin

text \<open>
  A rejected installation leaves no trace: what \<open>register_fiber\<close> enters in the Fiber, scope, plugin and
  dependency registries, \<open>remove_unstarted_fiber\<close> takes out again.
\<close>

section \<open>The dependency indexes\<close>

text \<open>
  Without the Fiber \<open>f\<close>, the indexes are those of \<open>s0\<close>; \<open>f\<close> is in them only for the keys \<open>D\<close> and \<open>P\<close>, all of
  whose symbols are interned.
\<close>

definition indexed :: "fiber_id \<Rightarrow> scope_id \<Rightarrow> service_registry \<Rightarrow> graph_state \<Rightarrow> service_key set \<Rightarrow> service_key set \<Rightarrow> graph_state \<Rightarrow> bool" where
  "indexed f scope sv g0 D P g \<longleftrightarrow>
     (\<forall>symbol. filter (\<lambda>x. x \<noteq> f) (dependents symbol g) = dependents symbol g0 \<and>
        (f \<in> set (dependents symbol g) \<longrightarrow> (\<exists>key \<in> D. service_lookup key sv = Some symbol))) \<and>
     (\<forall>sc symbol. filter (\<lambda>x. x \<noteq> f) (providers sc symbol g) = providers sc symbol g0 \<and>
        (f \<in> set (providers sc symbol g) \<longrightarrow> sc = scope \<and> (\<exists>key \<in> P. service_lookup key sv = Some symbol)))"

lemma dependents_added:
  "dependents symbol (add_dependency symbol' f g) = (if symbol = symbol' then dependents symbol g @ [f] else dependents symbol g)"
  "dependents symbol (add_provider sc symbol' f g) = dependents symbol g"
  "providers sc symbol (add_dependency symbol' f g) = providers sc symbol g"
  by (simp_all add: dependents_def add_dependency_def add_provider_def providers_def)

lemma indexed_add_dependency:
  "indexed f scope sv g0 D P g \<Longrightarrow> service_lookup key sv = Some symbol \<Longrightarrow>
   indexed f scope sv g0 (insert key D) P (add_dependency symbol f g)"
  by (auto simp: indexed_def dependents_added)

lemma indexed_add_provider:
  "indexed f scope sv g0 D P g \<Longrightarrow> service_lookup key sv = Some symbol \<Longrightarrow>
   indexed f scope sv g0 D (insert key P) (add_provider scope symbol f g)"
  unfolding indexed_def by (auto simp: dependents_added)

lemma indexed_fresh:
  assumes "indexed f scope sv g0 D P g"
  shows "filter (\<lambda>x. x \<noteq> f) (dependents symbol g0) = dependents symbol g0" and "f \<notin> set (dependents symbol g0)"
    and "filter (\<lambda>x. x \<noteq> f) (providers sc symbol g0) = providers sc symbol g0" and "f \<notin> set (providers sc symbol g0)"
proof -
  have 1: "filter (\<lambda>x. x \<noteq> f) (dependents symbol g) = dependents symbol g0"
      "filter (\<lambda>x. x \<noteq> f) (providers sc symbol g) = providers sc symbol g0"
    using assms by (simp_all add: indexed_def)
  show "filter (\<lambda>x. x \<noteq> f) (dependents symbol g0) = dependents symbol g0" "f \<notin> set (dependents symbol g0)"
    "filter (\<lambda>x. x \<noteq> f) (providers sc symbol g0) = providers sc symbol g0" "f \<notin> set (providers sc symbol g0)"
    by (simp_all flip: 1)
qed

lemma indexed_remove:
  assumes "indexed f scope sv g0 D P g"
  shows "indexed f scope sv g0 D P (remove_dependency symbol f g)" and "indexed f scope sv g0 D P (remove_provider scope symbol f g)"
  using assms indexed_fresh [OF assms] by (auto simp: indexed_def dependents_removed)

text \<open>Once \<open>f\<close> is out of the indexes of all its keys, they are the indexes of \<open>s0\<close>.\<close>

lemma indexed_clean:
  assumes "indexed f scope sv g0 D P g"
    and "\<forall>key \<in> D. \<forall>symbol. service_lookup key sv = Some symbol \<longrightarrow> f \<notin> set (dependents symbol g)"
    and "\<forall>key \<in> P. \<forall>symbol. service_lookup key sv = Some symbol \<longrightarrow> f \<notin> set (providers scope symbol g)"
  shows "dependents symbol g = dependents symbol g0" and "providers sc symbol g = providers sc symbol g0"
proof -
  have "f \<notin> set (dependents symbol g)" using assms(1,2) by (auto simp: indexed_def)
  then have "filter (\<lambda>x. x \<noteq> f) (dependents symbol g) = dependents symbol g" by (auto simp: filter_id_conv)
  with assms(1) show "dependents symbol g = dependents symbol g0" by (simp add: indexed_def)
  have "f \<notin> set (providers sc symbol g)" using assms(1,3) unfolding indexed_def by blast
  then have "filter (\<lambda>x. x \<noteq> f) (providers sc symbol g) = providers sc symbol g" by (auto simp: filter_id_conv)
  with assms(1) show "providers sc symbol g = providers sc symbol g0" by (simp add: indexed_def)
qed

section \<open>Entering\<close>

text \<open>What an installation has entered in \<open>s\<close>, with the indexes so far.\<close>

definition installed :: "installation \<Rightarrow> scope_id \<Rightarrow> runtime \<Rightarrow> service_key set \<Rightarrow> service_key set \<Rightarrow> runtime \<Rightarrow> bool" where
  "installed i scope s D P u \<longleftrightarrow>
     (\<exists>cell slot. rt_fibers u = aput (in_fiber i) cell (rt_fibers s) \<and> fc_plugin_id cell = in_logical i \<and>
        fb_scope (fc_inner cell) = scope \<and> fb_descriptor (fc_inner cell) = in_descriptor i \<and>
        rt_scopes u = amod scope (\<lambda>sc. sc\<lparr>sc_fibers := sc_fibers sc @ [in_fiber i]\<rparr>) (rt_scopes s) \<and>
        aget (rt_plugins u) = (aget (rt_plugins s))(in_logical i \<mapsto> slot) \<and> ps_fiber_count slot = 1 \<and>
        gs_selector (rt_gates u) (ps_selector slot) = GEN_NONE) \<and>
     indexed (in_fiber i) scope (rt_services u) (rt_dependencies s) D P (rt_dependencies u) \<and>
     (\<forall>key \<in> set (pd_dependencies (in_descriptor i)) \<union> set (pd_provisions (in_descriptor i)). lookup_symbol key u \<noteq> None)"

text \<open>The handles are fresh.\<close>

definition fresh_installation :: "installation \<Rightarrow> runtime \<Rightarrow> bool" where
  "fresh_installation i s \<longleftrightarrow> aget (rt_fibers s) (in_fiber i) = None \<and> aget (rt_plugins s) (in_logical i) = None \<and>
     (\<forall>symbol. in_fiber i \<notin> set (dependents symbol (rt_dependencies s))) \<and>
     (\<forall>sc symbol. in_fiber i \<notin> set (providers sc symbol (rt_dependencies s))) \<and>
     (\<forall>scope sc. aget (rt_scopes s) scope = Some sc \<longrightarrow> in_fiber i \<notin> set (sc_fibers sc))"

definition only_services :: "runtime \<Rightarrow> service_key set \<Rightarrow> runtime \<Rightarrow> bool" where
  "only_services s K u \<longleftrightarrow> (\<exists>sv. u = s\<lparr>rt_services := sv\<rparr>) \<and> (\<forall>key \<in> K. lookup_symbol key u \<noteq> None)"

lemma intern_all:
  "triple (only_services s {}) (each (\<lambda>key. andthen (intern_service key) (\<lambda>_. pass ())) keys) (\<lambda>_. only_services s (set keys)) (\<lambda>_. True)"
proof -
  have one: "triple (only_services s K) (andthen (intern_service key) (\<lambda>_. pass ())) (\<lambda>_. only_services s (insert key K)) (\<lambda>_. True)"
    for key K
    by (auto simp: triple_def andthen_def intern_service_def within_def pass_def only_services_def lookup_symbol_def
        split: prod.splits res.splits dest: try_intern_result(1) try_intern_keeps)
  from triple_each_grow [where I = "only_services s" and D = "{}", OF one] show ?thesis by simp
qed

lemma enter_fiber_new:
  assumes "aget (rt_scopes u) scope = Some sc" and "sc_state sc = ScopeActive"
  shows "enter_fiber i scope flag None u = Some (Ok (), u\<lparr>
      rt_plugins := aput (in_logical i) \<lparr>ps_selector = in_selector i, ps_next_generation = 2, ps_fiber_count = 1\<rparr> (rt_plugins u),
      rt_fibers := aput (in_fiber i) \<lparr>fc_plugin_id = in_logical i,
        fc_inner = fiber_record_new scope (in_descriptor i) (in_plugin i) (in_gate i) 1 flag\<rparr> (rt_fibers u),
      rt_gates := (rt_gates u)\<lparr>gs_selector := (gs_selector (rt_gates u))(in_selector i := GEN_NONE),
        gs_gate := (gs_gate (rt_gates u))(in_gate i := staged (in_selector i) 1)\<rparr>,
      rt_scopes := amod scope (\<lambda>sc. sc\<lparr>sc_fibers := sc_fibers sc @ [in_fiber i]\<rparr>) (rt_scopes u)\<rparr>)"
  using assms
  by (simp add: enter_fiber_def andthen_def reads_def update_def plugin_create_def pass_def within_def allocate_generation_def
      attach_fiber_def Let_def)

lemma enter_installs:
  assumes "fresh_installation i s"
  shows "triple (only_services s (set (pd_dependencies (in_descriptor i) @ pd_provisions (in_descriptor i))))
    (enter_fiber i scope flag None) (\<lambda>_. installed i scope s {} {}) (\<lambda>_. True)"
  unfolding triple_def
proof (intro allI impI)
  fix u res t
  assume u: "only_services s (set (pd_dependencies (in_descriptor i) @ pd_provisions (in_descriptor i))) u"
    and run: "enter_fiber i scope flag None u = Some (res, t)"
  from u obtain sv where sv: "u = s\<lparr>rt_services := sv\<rparr>" by (auto simp: only_services_def)
  have keys: "\<forall>key \<in> set (pd_dependencies (in_descriptor i)) \<union> set (pd_provisions (in_descriptor i)). lookup_symbol key u \<noteq> None"
    using u by (auto simp: only_services_def)
  have idx: "indexed (in_fiber i) scope sv (rt_dependencies s) {} {} (rt_dependencies s)"
    using assms by (auto simp: indexed_def fresh_installation_def filter_id_conv)
  show "case res of Ok _ \<Rightarrow> installed i scope s {} {} t | _ \<Rightarrow> True"
  proof (cases res)
    case (Ok x)
    obtain sc where sc: "aget (rt_scopes s) scope = Some sc" "sc_state sc = ScopeActive"
      using run Ok sv by (auto simp: enter_fiber_def andthen_def reads_def give_def split: option.splits if_splits)
    define cell where "cell = \<lparr>fc_plugin_id = in_logical i, fc_inner = fiber_record_new scope (in_descriptor i)
                 (in_plugin i) (in_gate i) 1 flag\<rparr>"
    have scu: "aget (rt_scopes u) scope = Some sc" using sc(1) sv by simp
    note t = enter_fiber_new [OF scu sc(2), of i flag, unfolded run cell_def [symmetric]]
    have "fc_plugin_id cell = in_logical i" "fb_scope (fc_inner cell) = scope" "fb_descriptor (fc_inner cell) = in_descriptor i"
      by (simp_all add: cell_def fiber_record_new_def)
    moreover let ?slot = "\<lparr>ps_selector = in_selector i, ps_next_generation = 2, ps_fiber_count = 1\<rparr>"
    have "aget (rt_plugins t) = (aget (rt_plugins s))(in_logical i \<mapsto> ?slot)" using t sv by (simp add: fun_eq_iff)
    ultimately have "installed i scope s {} {} t"
      using t sv idx keys
      unfolding installed_def by (intro conjI exI [of _ cell] exI [of _ ?slot]) (simp_all add: lookup_symbol_def fun_eq_iff)
    with Ok show ?thesis by simp
  qed simp_all
qed

lemma intern_installed:
  "triple (installed i scope s D P) (intern_symbol key)
     (\<lambda>symbol u. installed i scope s D P u \<and> service_lookup key (rt_services u) = Some symbol) (\<lambda>_. True)"
  by (auto simp: triple_def intern_symbol_def intern_def split: option.splits)

lemma index_installs:
  "triple (installed i scope s {} {}) (index_fiber (in_fiber i) scope (in_descriptor i))
     (\<lambda>_. installed i scope s (set (pd_dependencies (in_descriptor i))) (set (pd_provisions (in_descriptor i)))) (\<lambda>_. True)"
proof -
  have deps: "triple (installed i scope s D P) (andthen (intern_symbol key) (\<lambda>symbol.
       update (\<lambda>s. s\<lparr>rt_dependencies := add_dependency symbol (in_fiber i) (rt_dependencies s)\<rparr>)))
       (\<lambda>_. installed i scope s (insert key D) P) (\<lambda>_. True)" for key D P
    by (rule triple_andthen [OF intern_installed], rule triple_update)
       (auto simp: installed_def lookup_symbol_def indexed_add_dependency)
  have provs: "triple (installed i scope s D P) (andthen (intern_symbol key) (\<lambda>symbol.
       update (\<lambda>s. s\<lparr>rt_dependencies := add_provider scope symbol (in_fiber i) (rt_dependencies s)\<rparr>)))
       (\<lambda>_. installed i scope s D (insert key P)) (\<lambda>_. True)" for key D P
    by (rule triple_andthen [OF intern_installed], rule triple_update)
       (auto simp: installed_def lookup_symbol_def indexed_add_provider)
  have 1: "triple (installed i scope s {} {}) (each (\<lambda>key. andthen (intern_symbol key) (\<lambda>symbol.
       update (\<lambda>s. s\<lparr>rt_dependencies := add_dependency symbol (in_fiber i) (rt_dependencies s)\<rparr>))) (pd_dependencies (in_descriptor i)))
      (\<lambda>_. installed i scope s (set (pd_dependencies (in_descriptor i))) {}) (\<lambda>_. True)"
    using triple_each_grow [where I = "\<lambda>D. installed i scope s D {}" and D = "{}", OF deps] by simp
  have 2: "triple (installed i scope s D {}) (each (\<lambda>key. andthen (intern_symbol key) (\<lambda>symbol.
       update (\<lambda>s. s\<lparr>rt_dependencies := add_provider scope symbol (in_fiber i) (rt_dependencies s)\<rparr>))) (pd_provisions (in_descriptor i)))
      (\<lambda>_. installed i scope s D (set (pd_provisions (in_descriptor i)))) (\<lambda>_. True)" for D
    using triple_each_grow [where I = "installed i scope s D" and D = "{}", OF provs] by simp
  show ?thesis
    unfolding index_fiber_def by (rule triple_andthen [OF 1 2])
qed

lemma triple_quota: "triple P (quota_error now kind limit scope f) Q (\<lambda>_. True)"
  by (auto simp: triple_def quota_error_def andthen_def reads_def update_def give_def)

lemma register_installs:
  assumes "fresh_installation i s" and "register_fiber now i scope flag None s = Some (Ok (), u)"
  shows "\<exists>v. installed i scope (entered s) (set (pd_dependencies (in_descriptor i))) (set (pd_provisions (in_descriptor i))) v \<and> u = left v"
proof -
  let ?body = "andthen (each (\<lambda>key. andthen (intern_service key) (\<lambda>_. pass ()))
       (pd_dependencies (in_descriptor i) @ pd_provisions (in_descriptor i))) (\<lambda>_.
     andthen (reads (\<lambda>s. unat (max_fibers (rt_config s)) \<le> length (rt_fibers s))) (\<lambda>full.
     if full then andthen (reads rt_config) (\<lambda>c. quota_error now Fibers (max_fibers c) (Some scope) None)
     else andthen (enter_fiber i scope flag None) (\<lambda>_. index_fiber (in_fiber i) scope (in_descriptor i))))"
  have f: "fresh_installation i (entered s)"
    using assms(1) by (simp add: fresh_installation_def entered_def)
  let ?K = "set (pd_dependencies (in_descriptor i) @ pd_provisions (in_descriptor i))"
    and ?Q = "\<lambda>_::unit. installed i scope (entered s) (set (pd_dependencies (in_descriptor i))) (set (pd_provisions (in_descriptor i)))"
  have enter: "triple (only_services (entered s) ?K)
      (andthen (enter_fiber i scope flag None) (\<lambda>_. index_fiber (in_fiber i) scope (in_descriptor i))) ?Q (\<lambda>_. True)"
    by (rule triple_andthen [OF enter_installs [OF f] index_installs])
  have full: "triple (only_services (entered s) ?K)
      (andthen (reads rt_config) (\<lambda>c. quota_error now Fibers (max_fibers c) (Some scope) None)) ?Q (\<lambda>_. True)"
    by (rule triple_andthen [where R = "\<lambda>_ _. True"], rule triple_reads, rule TrueI, rule triple_quota)
  have T: "triple (only_services (entered s) {}) ?body ?Q (\<lambda>_. True)"
  proof (rule triple_andthen [OF intern_all])
    show "triple (only_services (entered s) ?K)
      (andthen (reads (\<lambda>s. unat (max_fibers (rt_config s)) \<le> length (rt_fibers s))) (\<lambda>full.
       if full then andthen (reads rt_config) (\<lambda>c. quota_error now Fibers (max_fibers c) (Some scope) None)
       else andthen (enter_fiber i scope flag None) (\<lambda>_. index_fiber (in_fiber i) scope (in_descriptor i)))) ?Q (\<lambda>_. True)"
      by (rule triple_andthen [where R = "\<lambda>_. only_services (entered s) ?K"], rule triple_reads, assumption, rule triple_if,
          rule full, rule enter)
  qed
  have S: "only_services (entered s) {} (entered s)"
    unfolding only_services_def by (rule conjI, rule exI [of _ "rt_services (entered s)"]) simp_all
  obtain v where v: "?body (entered s) = Some (Ok (), v)" "u = left v"
    using with_admission_cases [OF assms(2) [unfolded register_fiber_def]] by auto
  from tripleD_Ok [OF T S v(1)] v(2) show ?thesis by blast
qed

lemma each_total_grow:
  assumes "\<And>x K s. x \<in> set xs \<Longrightarrow> I K s \<Longrightarrow> \<exists>t. g x s = Some (Ok (), t) \<and> I (insert x K) t"
  shows "I K s \<Longrightarrow> \<exists>t. each g xs s = Some (Ok (), t) \<and> I (K \<union> set xs) t"
  using assms
proof (induction xs arbitrary: K s)
  case Nil
  then show ?case by (simp add: pass_def)
next
  case (Cons x xs)
  obtain t where t: "g x s = Some (Ok (), t)" "I (insert x K) t" using Cons.prems by fastforce
  with Cons.IH [OF t(2)] Cons.prems(2) show ?case by (simp add: andthen_def)
qed

section \<open>Taking out\<close>

text \<open>The registries of \<open>s\<close>, whatever keys have been interned meanwhile.\<close>

definition same_registries :: "runtime \<Rightarrow> runtime \<Rightarrow> bool" where
  "same_registries s t \<longleftrightarrow> aget (rt_fibers t) = aget (rt_fibers s) \<and> aget (rt_scopes t) = aget (rt_scopes s) \<and>
     aget (rt_plugins t) = aget (rt_plugins s) \<and>
     (\<forall>symbol. dependents symbol (rt_dependencies t) = dependents symbol (rt_dependencies s)) \<and>
     (\<forall>sc symbol. providers sc symbol (rt_dependencies t) = providers sc symbol (rt_dependencies s))"

lemma remove_restores:
  assumes fresh: "fresh_installation i s"
    and inst: "installed i scope s (set (pd_dependencies (in_descriptor i))) (set (pd_provisions (in_descriptor i))) u"
  shows "\<exists>t. remove_unstarted_fiber (in_fiber i) u = Some (Ok (), t) \<and> same_registries s t"
proof -
  let ?f = "in_fiber i" and ?D = "set (pd_dependencies (in_descriptor i))" and ?P = "set (pd_provisions (in_descriptor i))"
  from inst obtain cell slot where u: "rt_fibers u = aput ?f cell (rt_fibers s)" "fc_plugin_id cell = in_logical i"
      "fb_scope (fc_inner cell) = scope" "fb_descriptor (fc_inner cell) = in_descriptor i"
      "rt_scopes u = amod scope (\<lambda>sc. sc\<lparr>sc_fibers := sc_fibers sc @ [?f]\<rparr>) (rt_scopes s)"
      "aget (rt_plugins u) = (aget (rt_plugins s))(in_logical i \<mapsto> slot)" "ps_fiber_count slot = 1"
      "gs_selector (rt_gates u) (ps_selector slot) = GEN_NONE"
      "indexed ?f scope (rt_services u) (rt_dependencies s) ?D ?P (rt_dependencies u)"
      "\<forall>key \<in> ?D \<union> ?P. lookup_symbol key u \<noteq> None"
    unfolding installed_def by blast
  define u1 where "u1 = u\<lparr>rt_fibers := adel ?f (rt_fibers u),
      rt_scopes := amod scope (\<lambda>sc. sc\<lparr>sc_fibers := filter (\<lambda>i. i \<noteq> ?f) (sc_fibers sc)\<rparr>) (rt_scopes u)\<rparr>"
  define at where "at key = the (service_lookup key (rt_services u))" for key
  define I where "I K L v \<longleftrightarrow> (\<exists>g. v = u1\<lparr>rt_dependencies := g\<rparr> \<and>
      indexed ?f scope (rt_services u) (rt_dependencies s) ?D ?P g \<and>
      (\<forall>key \<in> K. ?f \<notin> set (dependents (at key) g)) \<and> (\<forall>key \<in> L. ?f \<notin> set (providers scope (at key) g)))" for K L v
  have u1: "rt_services u1 = rt_services u" by (simp add: u1_def)
  have sym: "intern_symbol key (u1\<lparr>rt_dependencies := g\<rparr>) = Some (Ok (at key), u1\<lparr>rt_dependencies := g\<rparr>)"
    if "key \<in> ?D \<union> ?P" for key g
    using bspec [OF u(10) that] by (auto simp: intern_symbol_def intern_def at_def u1 lookup_symbol_def)
  have dep: "\<exists>w. andthen (intern_symbol key) (\<lambda>symbol. update (\<lambda>s. s\<lparr>rt_dependencies := remove_dependency symbol ?f (rt_dependencies s)\<rparr>)) v
      = Some (Ok (), w) \<and> I (insert key K) L w" if k: "key \<in> ?D" "I K L v" for key K L v
  proof -
    from k(2) obtain g where g: "v = u1\<lparr>rt_dependencies := g\<rparr>" "indexed ?f scope (rt_services u) (rt_dependencies s) ?D ?P g"
        "\<forall>key \<in> K. ?f \<notin> set (dependents (at key) g)" "\<forall>key \<in> L. ?f \<notin> set (providers scope (at key) g)" unfolding I_def by blast
    have "I (insert key K) L (u1\<lparr>rt_dependencies := remove_dependency (at key) ?f g\<rparr>)"
      unfolding I_def by (rule exI, rule conjI [OF refl], rule conjI [OF indexed_remove(1) [OF g(2)]])
        (use g(3,4) in \<open>simp add: dependents_removed\<close>)
    with sym [of key g] k(1) g(1) show ?thesis by (simp add: andthen_def update_def)
  qed
  have prov: "\<exists>w. andthen (intern_symbol key) (\<lambda>symbol. update (\<lambda>s. s\<lparr>rt_dependencies := remove_provider scope symbol ?f (rt_dependencies s)\<rparr>)) v
      = Some (Ok (), w) \<and> I K (insert key L) w" if k: "key \<in> ?P" "I K L v" for key K L v
  proof -
    from k(2) obtain g where g: "v = u1\<lparr>rt_dependencies := g\<rparr>" "indexed ?f scope (rt_services u) (rt_dependencies s) ?D ?P g"
        "\<forall>key \<in> K. ?f \<notin> set (dependents (at key) g)" "\<forall>key \<in> L. ?f \<notin> set (providers scope (at key) g)" unfolding I_def by blast
    have "I K (insert key L) (u1\<lparr>rt_dependencies := remove_provider scope (at key) ?f g\<rparr>)"
      unfolding I_def by (rule exI, rule conjI [OF refl], rule conjI [OF indexed_remove(2) [OF g(2)]])
        (use g(3,4) in \<open>simp add: dependents_removed\<close>)
    with sym [of key g] k(1) g(1) show ?thesis by (simp add: andthen_def update_def)
  qed
  have "u1 = u1\<lparr>rt_dependencies := rt_dependencies u\<rparr>" by (simp add: u1_def)
  then have I0: "I {} {} u1" using u(9) unfolding I_def by (intro exI [of _ "rt_dependencies u"]) simp
  obtain v1 where v1: "each (\<lambda>key. andthen (intern_symbol key) (\<lambda>symbol.
      update (\<lambda>s. s\<lparr>rt_dependencies := remove_dependency symbol ?f (rt_dependencies s)\<rparr>))) (pd_dependencies (in_descriptor i)) u1 = Some (Ok (), v1)"
      "I ?D {} v1"
    using each_total_grow [where I = "\<lambda>K. I K {}" and K = "{}" and s = u1 and xs = "pd_dependencies (in_descriptor i)" and
      g = "\<lambda>key. andthen (intern_symbol key) (\<lambda>symbol. update (\<lambda>s. s\<lparr>rt_dependencies := remove_dependency symbol ?f (rt_dependencies s)\<rparr>))"]
      dep I0 unfolding Un_empty_left by blast
  obtain v2 where v2: "each (\<lambda>key. andthen (intern_symbol key) (\<lambda>symbol.
      update (\<lambda>s. s\<lparr>rt_dependencies := remove_provider scope symbol ?f (rt_dependencies s)\<rparr>))) (pd_provisions (in_descriptor i)) v1 = Some (Ok (), v2)"
      "I ?D ?P v2"
    using each_total_grow [where I = "\<lambda>L. I ?D L" and K = "{}" and s = v1 and xs = "pd_provisions (in_descriptor i)" and
      g = "\<lambda>key. andthen (intern_symbol key) (\<lambda>symbol. update (\<lambda>s. s\<lparr>rt_dependencies := remove_provider scope symbol ?f (rt_dependencies s)\<rparr>))"]
      prov v1(2) unfolding Un_empty_left by blast
  from v2(2) obtain g where g: "v2 = u1\<lparr>rt_dependencies := g\<rparr>" "indexed ?f scope (rt_services u) (rt_dependencies s) ?D ?P g"
      "\<forall>key \<in> ?D. ?f \<notin> set (dependents (at key) g)" "\<forall>key \<in> ?P. ?f \<notin> set (providers scope (at key) g)" unfolding I_def by blast
  have clean: "dependents symbol g = dependents symbol (rt_dependencies s)" "providers sc symbol g = providers sc symbol (rt_dependencies s)"
    for sc symbol
    by (rule indexed_clean [OF g(2)], use g(3,4) in \<open>force simp: at_def\<close>, use g(3,4) in \<open>force simp: at_def\<close>)+
  let ?q = "aput (in_logical i) (slot\<lparr>ps_fiber_count := 0\<rparr>) (rt_plugins u)"
  define t where "t = v2\<lparr>rt_plugins := adel (in_logical i) ?q\<rparr>"
  have det: "detach_fiber (in_logical i) (rt_plugins v2) = (Ok (), ?q)"
    using u(6,7) by (simp add: detach_fiber_def g(1) u1_def)
  have rec: "snd (reclaim_if_dead (rt_gates (v2\<lparr>rt_plugins := ?q\<rparr>)) (in_logical i) ?q) = adel (in_logical i) ?q"
    using u(8) by (simp add: reclaim_if_dead_def selector_active_def g(1) u1_def)
  have cell: "aget (rt_fibers u) ?f = Some cell" by (simp add: u(1))
  have "remove_unstarted_fiber ?f u = Some (Ok (), t)"
    using v1(1) v2(1) det rec
    by (simp add: remove_unstarted_fiber_def andthen_def reads_def update_def cell u(2,3,4) u1_def [symmetric] settle_def within_def pass_def t_def)
  moreover have "same_registries s t"
    unfolding same_registries_def
  proof (intro conjI allI ext)
    show "aget (rt_fibers t) x = aget (rt_fibers s) x" for x
      using fresh by (simp add: t_def g(1) u1_def u(1) fresh_installation_def)
    show "aget (rt_plugins t) x = aget (rt_plugins s) x" for x
      using fresh by (simp add: t_def u(6) fresh_installation_def)
    show "aget (rt_scopes t) x = aget (rt_scopes s) x" for x
    proof (cases "aget (rt_scopes s) x")
      case (Some sc)
      then have "?f \<notin> set (sc_fibers sc)" using fresh by (simp add: fresh_installation_def)
      then have "filter (\<lambda>j. j \<noteq> ?f) (sc_fibers sc) = sc_fibers sc" by (auto simp: filter_id_conv)
      with Some show ?thesis by (auto simp: t_def g(1) u1_def u(5))
    qed (auto simp: t_def g(1) u1_def u(5))
    show "dependents symbol (rt_dependencies t) = dependents symbol (rt_dependencies s)" for symbol
      by (simp add: t_def g(1) clean)
    show "providers sc symbol (rt_dependencies t) = providers sc symbol (rt_dependencies s)" for sc symbol
      by (simp add: t_def g(1) clean)
  qed
  ultimately show ?thesis by blast
qed

section \<open>A rejected installation\<close>

lemma intern_symbol_state: "intern_symbol key s = Some (r, t) \<Longrightarrow> t = s"
  by (auto simp: intern_symbol_def)

lemma fiber_edges_state: "fiber_edges f r keys edges s = Some (res, t) \<Longrightarrow> t = s"
  by (induction keys arbitrary: edges)
     (auto simp: pass_def andthen_def dest: intern_symbol_state split: option.splits prod.splits res.splits)

lemma graph_edges_state: "graph_edges cells edges s = Some (res, t) \<Longrightarrow> t = s"
  by (induction cells edges rule: graph_edges.induct)
     (auto simp: pass_def andthen_def dest: fiber_edges_state split: option.splits prod.splits res.splits if_splits)

lemma validate_graph_state: "validate_dependency_graph s = Some (r, t) \<Longrightarrow> t = s"
  by (auto simp: validate_dependency_graph_def andthen_def reads_def dest: graph_edges_state split: option.splits prod.splits res.splits)

lemma installed_admission: "installed i scope (entered s) D P v \<Longrightarrow> installed i scope s D P (left v)"
  by (simp add: installed_def entered_def left_def lookup_symbol_def)

text \<open>
  C24. An installation that the cycle check rejects returns the error of the check and leaves the Fiber,
  scope, plugin and dependency registries as they were: the record, the scope's member, the indexes
  under every dependency and provision, and the fresh plugin slot are all taken out again. Only the
  interned keys stay.
\<close>

theorem rejected_installation_leaves_no_trace:
  assumes "fresh_installation i s" and "length (rt_fibers s) < unat (max_fibers (rt_config s))" and "ac_gap ac = (\<lambda>u. u)"
    and "in_panics i = None"
    and entered: "register_fiber now i scope flag None s = Some (Ok (), u)"
    and rejected: "validate_dependency_graph u = Some (Err e, u')"
  shows "\<exists>t. install_arc now ac i scope flag None s = Some (Err e, t) \<and> same_registries s t"
proof -
  obtain v where v: "installed i scope s (set (pd_dependencies (in_descriptor i))) (set (pd_provisions (in_descriptor i))) u"
    using register_installs [OF assms(1) entered] installed_admission by blast
  obtain t where t: "remove_unstarted_fiber (in_fiber i) u = Some (Ok (), t)" "same_registries s t"
    using remove_restores [OF assms(1) v] by blast
  have "install_arc now ac i scope flag None s = Some (Err e, t)"
    using assms(2,3,4) entered rejected validate_graph_state [OF rejected] t(1)
    by (simp add: install_arc_def andthen_def update_def settle_def give_def)
  with t(2) show ?thesis by blast
qed

text \<open>A plugin that depends on the service it provides itself is rejected as a cycle.\<close>

definition cyclic_installation :: installation where
  "cyclic_installation = \<lparr>in_descriptor = \<lparr>pd_name = ''cyclic'', pd_dependencies = [example_key ''a''], pd_provisions = [example_key ''a''],
      pd_dependency_policy = Restart, pd_revision = 1\<rparr>, in_panics = None, in_plugin = 7, in_fiber = 9, in_logical = 12, in_selector = 9, in_gate = 9\<rparr>"

lemma cyclic_fresh: "fresh_installation cyclic_installation example_runtime"
  by (auto simp: fresh_installation_def cyclic_installation_def example_runtime_def empty_runtime_def runtime_with_config_def
      config_default_valid graph_default_def dependents_def providers_def fibers_at_def root_record_def split: if_splits)

lemma entered_kept: "rt_config (entered s) = rt_config s" "rt_scopes (entered s) = rt_scopes s" "rt_plugins (entered s) = rt_plugins s"
    "rt_fibers (entered s) = rt_fibers s" "rt_dependencies (entered s) = rt_dependencies s"
  by (simp_all add: entered_def)

lemma cyclic_registers:
  "\<exists>u. register_fiber 0 cyclic_installation 0 False None example_runtime = Some (Ok (), u) \<and>
     rt_fibers u = rt_fibers example_runtime @ [(9, \<lparr>fc_plugin_id = 12, fc_inner = fiber_record_new 0 (in_descriptor cyclic_installation) 7 9 1 False\<rparr>)] \<and>
     providers 0 (from_index 0) (rt_dependencies u) = [9] \<and> service_get 0 (from_index 0) (rt_services u) = None \<and>
     intern (example_key ''a'') (rt_services u) = Ok (from_index 0)"
proof -
  let ?e = "entered example_runtime" and ?d = "in_descriptor cyclic_installation"
    and ?new = "service_registry_new (max_interned_symbols config_default) (max_resolution_cache_entries config_default)"
  have e: "rt_services example_runtime = ?new" "rt_config example_runtime = config_default" "aget (rt_scopes example_runtime) 0 = Some (root_record\<lparr>sc_fibers := [4, 5]\<rparr>)"
      "rt_dependencies example_runtime = graph_default" "length (rt_fibers example_runtime) = 2"
      "aput 9 c (rt_fibers example_runtime) = rt_fibers example_runtime @ [(9, c)]" for c
    by (simp_all add: entered_def example_runtime_def empty_runtime_def runtime_with_config_def config_default_valid)
  obtain sv where sv: "try_intern (example_key ''a'') ?new = (Ok (from_index 0), sv)"
      "try_intern (example_key ''a'') sv = (Ok (from_index 0), sv)" "service_lookup (example_key ''a'') sv = Some (from_index 0)"
      "sr_entries sv = []"
    by (auto simp: try_intern_def service_registry_new_def service_lookup_def config_default_def Let_def)
  have d: "pd_dependencies ?d = [example_key ''a'']" "pd_provisions ?d = [example_key ''a'']"
    by (simp_all add: cyclic_installation_def)
  have cyclic_handle: "in_fiber cyclic_installation = 9" by (simp add: cyclic_installation_def)
  have admission: "ag_state (rt_admission example_runtime) = RUNNING"
    by (simp add: example_runtime_sel admission_default_def)
  have room: "\<not> unat (max_fibers config_default) \<le> 2" by (simp add: config_default_def)
  have index: "\<exists>u. index_fiber 9 0 ?d s = Some (Ok (), u) \<and> rt_fibers u = rt_fibers s \<and> rt_services u = sv \<and>
      providers 0 (from_index 0) (rt_dependencies u) = [9]" if "rt_dependencies s = graph_default" "rt_services s = sv" for s
    using that by (simp add: index_fiber_def d andthen_def intern_symbol_def intern_def sv(3) update_def pass_def
        add_provider_def add_dependency_def providers_def fibers_at_def push_at_def graph_default_def)
  have each: "each (\<lambda>key. andthen (intern_service key) (\<lambda>_. pass ())) (pd_dependencies ?d @ pd_provisions ?d) ?e
      = Some (Ok (), ?e\<lparr>rt_services := sv\<rparr>)"
    by (simp add: d andthen_def intern_service_def within_def e(1) sv(1,2) pass_def)
  define v where "v = the (map_option snd (enter_fiber cyclic_installation 0 False None (?e\<lparr>rt_services := sv\<rparr>)))"
  have v: "enter_fiber cyclic_installation 0 False None (?e\<lparr>rt_services := sv\<rparr>) = Some (Ok (), v)"
      "rt_fibers v = rt_fibers example_runtime @ [(9, \<lparr>fc_plugin_id = 12, fc_inner = fiber_record_new 0 ?d 7 9 1 False\<rparr>)]"
      "rt_services v = sv" "rt_dependencies v = graph_default"
    using enter_fiber_new [where scope = 0 and u = "?e\<lparr>rt_services := sv\<rparr>" and i = cyclic_installation and flag = False
        and sc = "root_record\<lparr>sc_fibers := [4, 5]\<rparr>"] e
    by (simp_all add: v_def root_record_def cyclic_installation_def entered_kept)
  obtain u where u: "index_fiber 9 0 ?d v = Some (Ok (), u)" "rt_fibers u = rt_fibers v" "rt_services u = sv"
      "providers 0 (from_index 0) (rt_dependencies u) = [9]"
    using index [OF v(4,3)] by blast
  have "register_fiber 0 cyclic_installation 0 False None example_runtime = Some (Ok (), left u)"
    using admission each v(1) u(1) room e(2,5)
    by (simp add: register_fiber_def with_admission_def andthen_def within_def admission_enter_def settle_def update_def give_def reads_def
       entered_def left_def cyclic_handle)
  with u v(2) sv(3,4) show ?thesis
    by (intro exI [of _ "left u"]) (simp add: left_def service_get_def intern_def)
qed

lemma length_example: "length (rt_fibers example_runtime) = 2"
  by (simp add: example_runtime_def)

lemma quiet_gap: "ac_gap quiet_activation = (\<lambda>u. u)"
  by (simp add: quiet_activation_def)

theorem rejected_installation_leaves_no_trace_witness:
  "\<exists>p t. install_arc 0 quiet_activation cyclic_installation 0 False None example_runtime = Some (Err (DependencyCycle (Dbg p)), t) \<and>
     same_registries example_runtime t"
proof -
  obtain u where u: "register_fiber 0 cyclic_installation 0 False None example_runtime = Some (Ok (), u)"
     "rt_fibers u = rt_fibers example_runtime @ [(9, \<lparr>fc_plugin_id = 12, fc_inner = fiber_record_new 0 (in_descriptor cyclic_installation) 7 9 1 False\<rparr>)]"
     "providers 0 (from_index 0) (rt_dependencies u) = [9]" "service_get 0 (from_index 0) (rt_services u) = None"
     "intern (example_key ''a'') (rt_services u) = Ok (from_index 0)"
    using cyclic_registers by blast
  have found: "find_providers u (from_index 0) (Some 0) = Some [9]"
    by (subst find_providers.simps) (simp add: u(3,4))
  have edges: "graph_edges (rt_fibers u) [] u = Some (Ok [(9, [9])], u)"
    by (simp add: u(2) example_runtime_def example_fiber_def fiber_record_new_def cyclic_installation_def pass_def andthen_def
        intern_symbol_def u(5) found)
  have "\<exists>p. validate_cycles [(9, [9])] = Some (Err (DependencyCycle (Dbg p)))"
    by (simp add: validate_cycles_def graph_nodes_def)
  then obtain p where "validate_dependency_graph u = Some (Err (DependencyCycle (Dbg p)), u)"
    by (auto simp: validate_dependency_graph_def andthen_def reads_def edges)
  from rejected_installation_leaves_no_trace [where ac = quiet_activation, OF cyclic_fresh _ _ _ u(1) this] show ?thesis
    by (auto simp: example_runtime_sel config_default_def length_example quiet_gap cyclic_installation_def)
qed

end
