(* ===== verification/Scope_Disposal.thy ===== *)
theory Scope_Disposal
  imports Disposal_Properties
begin

text \<open>
  Creation and disposal of scopes by the Runtime (\<^verbatim>\<open>runtime/scope.rs\<close>). The disposal of a scope goes through
  its child scopes and then its Fibers, the last first, attempts every one of them, and publishes one
  observation; a member that did not commit makes the scope \<open>Terminated\<close>.

  The disposals of the members are parameters (\<open>scope_teardown\<close>), tied in the theory \<open>Lifecycle\<close>.
\<close>

definition create_scope_internal :: "nat \<Rightarrow> scope_id \<Rightarrow> scope_id \<Rightarrow> string \<Rightarrow> bool \<Rightarrow> scope_id run" where
  "create_scope_internal now fresh parent name hidden = with_admission (
     andthen (update (\<lambda>s. if length (rt_scopes s) \<ge> unat (max_scopes (rt_config s)) then snd (collect_garbage s) else s)) (\<lambda>_ s.
     case create_scope_locked (rt_config s) fresh parent name hidden (rt_scopes s) of
         None \<Rightarrow> None
       | Some (Err (ResourceLimitExceeded kind limit), _) \<Rightarrow> quota_error now kind limit (Some parent) None s
       | Some (r, scopes) \<Rightarrow> Some (r, s\<lparr>rt_scopes := scopes\<rparr>)))"

section \<open>Disposal\<close>

record scope_teardown =
  sx_child :: "scope_id \<Rightarrow> bool \<Rightarrow> disposal_observation run"  \<comment> \<open>\<open>dispose_scope_observation\<close>\<close>
  sx_fiber :: "fiber_id \<Rightarrow> bool \<Rightarrow> unit run"  \<comment> \<open>\<open>dispose_reload_owned_fiber\<close>, persistently or not\<close>
  sx_abort :: "(runtime \<Rightarrow> runtime) option"  \<comment> \<open>\<open>Some\<close>: the executor drops the body after this effect\<close>
  sx_other :: "runtime \<Rightarrow> runtime"  \<comment> \<open>what the body does while a later caller waits\<close>

abbreviation modify_scope :: "scope_id \<Rightarrow> (scope_record \<Rightarrow> scope_record) \<Rightarrow> runtime \<Rightarrow> runtime" where
  "modify_scope scope g s \<equiv> s\<lparr>rt_scopes := amod scope g (rt_scopes s)\<rparr>"

text \<open>The errors so far, and whether a member failed to commit.\<close>

type_synonym scope_issues = "cleanup_issue list \<times> bool"

definition add_issue :: "cleanup_phase \<Rightarrow> string \<Rightarrow> nat \<Rightarrow> cordis_error \<Rightarrow> bool \<Rightarrow> scope_issues \<Rightarrow> scope_issues" where
  "add_issue phase kind i e committed acc =
     (fst acc @ [\<lparr>ci_phase = phase, ci_message = Cat [Lit kind, Dbg [i], Lit '': '', ErrText e], ci_cause = Some e\<rparr>],
      snd acc \<or> \<not> committed \<or> is_terminal_cleanup_error e)"

fun dispose_child_scopes :: "scope_teardown \<Rightarrow> bool \<Rightarrow> scope_id list \<Rightarrow> scope_issues \<Rightarrow> scope_issues run" where
  "dispose_child_scopes sx persistent [] acc = pass acc"
| "dispose_child_scopes sx persistent (c # cs) acc = settle (legacy (sx_child sx c persistent)) (\<lambda>r. case r of
      Ok _ \<Rightarrow> dispose_child_scopes sx persistent cs acc
    | Panicked p \<Rightarrow> give (Panicked p)
    | Err e \<Rightarrow> andthen (reads (\<lambda>s. case aget (rt_scopes s) c of None \<Rightarrow> False | Some sc \<Rightarrow> sc_state sc = ScopeDisposedState)) (\<lambda>committed.
        dispose_child_scopes sx persistent cs (add_issue ChildScopeCleanup ''child scope '' c e committed acc)))"

fun dispose_scope_fibers :: "scope_teardown \<Rightarrow> bool \<Rightarrow> fiber_id list \<Rightarrow> scope_issues \<Rightarrow> scope_issues run" where
  "dispose_scope_fibers sx persistent [] acc = pass acc"
| "dispose_scope_fibers sx persistent (f # fs) acc = andthen (reads (\<lambda>s. map_option fb_state (fiber f s))) (\<lambda>state.
     if state = None \<or> state = Some Disposed then dispose_scope_fibers sx persistent fs acc
     else settle (sx_fiber sx f persistent) (\<lambda>r. case r of
         Ok _ \<Rightarrow> dispose_scope_fibers sx persistent fs acc
       | Panicked p \<Rightarrow> give (Panicked p)
       | Err e \<Rightarrow> andthen (reads (\<lambda>s. case fiber f s of None \<Rightarrow> False | Some r \<Rightarrow> fb_state r \<in> {Disposed, WaitingDependencies})) (\<lambda>committed.
           dispose_scope_fibers sx persistent fs (add_issue FiberDetach ''fiber '' f e committed acc))))"

definition issues_result :: "cleanup_issue list \<Rightarrow> unit cres" where
  "issues_result issues = (if issues = [] then Ok () else Err (CleanupFailed (joined (map issue_text issues))))"

definition dispose_scope_body :: "scope_teardown \<Rightarrow> scope_id \<Rightarrow> (unit cres \<times> bool) run" where
  "dispose_scope_body sx scope = andthen (reads (\<lambda>s. aget (rt_scopes s) scope)) (\<lambda>sc. case sc of
      None \<Rightarrow> pass (Err (ScopeDisposalTerminated (Lit ''scope disappeared during traversal'')), True)
    | Some sc \<Rightarrow>
        andthen (dispose_child_scopes sx (sd_persistent (sc_disposal sc)) (rev (sc_children sc)) ([], False)) (\<lambda>acc.
        andthen (dispose_scope_fibers sx (sd_persistent (sc_disposal sc)) (rev (sc_fibers sc)) acc) (\<lambda>(issues, terminated).
        andthen (update (modify_scope scope (\<lambda>r. r\<lparr>sc_disposal := (sc_disposal r)\<lparr>sd_issues := issues\<rparr>\<rparr>))) (\<lambda>_.
          pass (issues_result issues, terminated)))))"

text \<open>How the supervisor sees the body end.\<close>

definition scope_outcome_of :: "scope_teardown \<Rightarrow> scope_id \<Rightarrow> (unit cres \<times> bool) run" where
  "scope_outcome_of sx scope = (case sx_abort sx of
      Some partial \<Rightarrow> andthen (update partial) (\<lambda>_. pass (Err ScopeDisposalCancelled, True))
    | None \<Rightarrow> settle (dispose_scope_body sx scope) (\<lambda>r. case r of
          Panicked p \<Rightarrow> pass (Err (ScopeDisposalPanicked (Lit p)), True) | r \<Rightarrow> give r))"

definition final_scope_result :: "unit cres \<Rightarrow> bool \<Rightarrow> unit cres" where
  "final_scope_result result terminated =
     (if terminated \<and> (case result of Err (ScopeDisposalPanicked _) \<Rightarrow> False | Err ScopeDisposalCancelled \<Rightarrow> False
          | Err (ScopeDisposalTerminated _) \<Rightarrow> False | _ \<Rightarrow> True)
      then Err (ScopeDisposalTerminated (case result of Err e \<Rightarrow> ErrText e | _ \<Rightarrow> Lit ''descendant cleanup terminated''))
      else result)"

definition finalize_scope_disposal :: "scope_id \<Rightarrow> unit cres \<Rightarrow> bool \<Rightarrow> unit run" where
  "finalize_scope_disposal scope result0 terminated =
     (let result = final_scope_result result0 terminated in
      andthen (reads (\<lambda>s. aget (rt_scopes s) scope)) (\<lambda>sc. case sc of
        None \<Rightarrow> give (Err ScopeNotFound)
      | Some sc \<Rightarrow>
          let obs = \<lparr>do_legacy_result = result,
                do_terminal = (if terminated then Incomplete (case result of Err e \<Rightarrow> e
                   | _ \<Rightarrow> ScopeDisposalTerminated (Lit ''scope disposal terminated'')) else Committed),
                do_issues = sd_issues (sc_disposal sc)\<rparr>;
              (published, slot) = completion_publish obs (sd_completion (sc_disposal sc))
          in andthen (update (modify_scope scope (\<lambda>r. r\<lparr>sc_state := (if terminated then ScopeTerminated else ScopeDisposedState),
                sc_disposal := (sc_disposal r)\<lparr>sd_result := Some result, sd_supervisor := False\<rparr>\<rparr>))) (\<lambda>_.
             andthen (if terminated then pass () else case sc_parent sc of None \<Rightarrow> pass ()
               | Some parent \<Rightarrow> update (modify_scope parent (\<lambda>r. r\<lparr>sc_children := filter (\<lambda>i. i \<noteq> scope) (sc_children r)\<rparr>))) (\<lambda>_.
             andthen (update (modify_scope scope (\<lambda>r. r\<lparr>sc_disposal := (sc_disposal r)\<lparr>sd_completion := slot\<rparr>\<rparr>))) (\<lambda>_.
             andthen (give published) (\<lambda>_. andthen request_gc (\<lambda>_. give result)))))))"

text \<open>The critical section of \<open>dispose_scope_observation\<close>; \<open>True\<close>: this caller started the body.\<close>

definition begin_scope_disposal :: "scope_id \<Rightarrow> bool \<Rightarrow> bool run" where
  "begin_scope_disposal scope persistent = andthen (reads (\<lambda>s. aget (rt_scopes s) scope)) (\<lambda>sc. case sc of
      None \<Rightarrow> give (Err ScopeNotFound)
    | Some sc \<Rightarrow> andthen (update (modify_scope scope (\<lambda>r. r\<lparr>sc_disposal := (sc_disposal r)\<lparr>sd_persistent := sd_persistent (sc_disposal r) \<or> persistent\<rparr>\<rparr>))) (\<lambda>_.
        if sc_state sc = ScopeActive
        then andthen (update (modify_scope scope (\<lambda>r. r\<lparr>sc_state := ScopeDisposing, sc_disposal := (sc_disposal r)\<lparr>sd_supervisor := True\<rparr>\<rparr>))) (\<lambda>_. pass True)
        else pass False))"

text \<open>A waiter holds the completion itself; with no observation it keeps waiting.\<close>

definition wait_for_completion :: "scope_id \<Rightarrow> disposal_observation run" where
  "wait_for_completion scope s = (case aget (rt_scopes s) scope of
      None \<Rightarrow> None
    | Some sc \<Rightarrow> (case completion_observation (sd_completion (sc_disposal sc)) of None \<Rightarrow> None | Some obs \<Rightarrow> Some (Ok obs, s)))"

definition dispose_scope_observation :: "scope_teardown \<Rightarrow> scope_id \<Rightarrow> bool \<Rightarrow> disposal_observation run" where
  "dispose_scope_observation sx scope persistent = andthen (begin_scope_disposal scope persistent) (\<lambda>started.
     andthen (if started
        then andthen (scope_outcome_of sx scope) (\<lambda>(result, terminated).
          settle (finalize_scope_disposal scope result terminated) (\<lambda>_. pass ()))
        else andthen (reads (\<lambda>s. map_option (\<lambda>r. sd_completion (sc_disposal r)) (aget (rt_scopes s) scope))) (\<lambda>slot.
          if slot = Some None then update (sx_other sx) else pass ())) (\<lambda>_.
     wait_for_completion scope))"

definition dispose_scope :: "scope_teardown \<Rightarrow> scope_id \<Rightarrow> unit run" where
  "dispose_scope sx scope = legacy (dispose_scope_observation sx scope False)"

definition dispose_scope_detailed :: "scope_teardown \<Rightarrow> scope_id \<Rightarrow> scope_dispose_outcome run" where
  "dispose_scope_detailed sx scope = settle (dispose_scope_observation sx scope False) (\<lambda>r. case r of
      Ok obs \<Rightarrow> pass (scope_outcome obs)
    | Err primary \<Rightarrow> pass (ScopeOutcomeIncomplete primary [])
    | Panicked p \<Rightarrow> give (Panicked p))"

definition dispose_scope_for_shutdown :: "scope_teardown \<Rightarrow> scope_id \<Rightarrow> disposal_observation run" where
  "dispose_scope_for_shutdown sx scope = dispose_scope_observation sx scope True"

end
