(* ===== verification/Reload.thy ===== *)
theory Reload
  imports Activation_Properties Scope_Disposal
begin

text \<open>
  Transactional reload (\<^verbatim>\<open>runtime/fiber.rs\<close>): a new generation of a plugin is installed and started in a
  hidden staging scope; the prepared revisions of dependencies, scopes, invocations and services are
  committed together with the generation cutover, or rolled back, and the old Fiber is disposed or
  made active again.

  The disposals are parameters, tied in the theory \<open>Lifecycle\<close>.
\<close>

record reload =
  rl_now :: nat
  rl_activation :: activation
  rl_installation :: installation
  rl_staging :: scope_id  \<comment> \<open>the key of the staging scope\<close>
  rl_timed_out :: bool  \<comment> \<open>the disposal of the old Fiber outlasts \<open>task_grace\<close>\<close>
  rl_gap :: "runtime \<Rightarrow> runtime"  \<comment> \<open>other threads, between the preparation and the commit\<close>
  rl_lock :: "runtime \<Rightarrow> runtime"  \<comment> \<open>what happens while the transaction waits for the lifecycle lock\<close>
  rl_dispose_old :: "fiber_id \<Rightarrow> unit run"  \<comment> \<open>\<open>dispose_fiber_persistently\<close>\<close>
  rl_dispose_staged :: "fiber_id \<Rightarrow> unit run"  \<comment> \<open>\<open>dispose_reload_owned_fiber\<close>\<close>
  rl_dispose_scope :: "scope_id \<Rightarrow> unit run"  \<comment> \<open>\<open>dispose_scope\<close>\<close>

datatype reload_outcome =
    ReloadCompleted fiber_id
  | CommittedWithCleanupPending fiber_id fiber_id  \<comment> \<open>new Fiber, old Fiber\<close>

definition legacy_reload_result :: "reload_outcome \<Rightarrow> fiber_id cres" where
  "legacy_reload_result out = (case out of
      ReloadCompleted new \<Rightarrow> Ok new
    | CommittedWithCleanupPending new old \<Rightarrow>
        Err (ReloadCommitted new (CleanupFailed (Lit ''old-generation cleanup continues in a Runtime-owned worker''))))"

section \<open>The revisions\<close>

record prepared_dependency_revision =
  pd_symbols :: "service_symbol list"
  pd_from :: scope_id
  pd_to :: scope_id
  pd_staged :: fiber_id

definition dependency_commit :: "prepared_dependency_revision \<Rightarrow> unit run" where
  "dependency_commit p = in_dependencies (move_providers (pd_from p) (pd_to p) (pd_symbols p) (pd_staged p))"

definition dependency_rollback :: "prepared_dependency_revision \<Rightarrow> unit run" where
  "dependency_rollback p = in_dependencies (move_providers (pd_to p) (pd_from p) (pd_symbols p) (pd_staged p))"

text \<open>\<open>.err().into_iter()\<close>\<close>

definition errs :: "unit cres \<Rightarrow> cordis_error list" where
  "errs r = (case r of Err e \<Rightarrow> [e] | _ \<Rightarrow> [])"

text \<open>Run a step whose error is collected; a panic goes on.\<close>

definition collecting :: "unit run \<Rightarrow> cordis_error list run" where
  "collecting m = settle m (\<lambda>r. case r of Panicked p \<Rightarrow> give (Panicked p) | r \<Rightarrow> pass (errs r))"

fun intern_symbols :: "service_key list \<Rightarrow> service_symbol list run" where
  "intern_symbols [] = pass []"
| "intern_symbols (key # keys) =
     andthen (intern_symbol key) (\<lambda>symbol. andthen (intern_symbols keys) (\<lambda>symbols. pass (symbol # symbols)))"

fun check_targets :: "fiber_id \<Rightarrow> scope_id \<Rightarrow> (service_key \<times> service_symbol) list \<Rightarrow> service_registry \<Rightarrow> unit cres" where
  "check_targets old target [] s = Ok ()"
| "check_targets old target ((key, symbol) # slots) s = (case service_get target symbol s of
      None \<Rightarrow> check_targets old target slots s
    | Some entry \<Rightarrow> if se_owner entry \<noteq> old then Err (DuplicateService key) else check_targets old target slots s)"

definition move_invocations :: "fiber_record \<Rightarrow> scope_id \<Rightarrow> unit run" where
  "move_invocations r scope = update (\<lambda>s. s\<lparr>rt_invocations :=
     commit_invocation_revision (fb_invocation_handlers r) (fb_invocation_middleware r) scope (rt_invocations s)\<rparr>)"

definition publish_revision :: "prepared_service_revision \<Rightarrow> gate_ref \<Rightarrow> gate_ref \<Rightarrow> unit run" where
  "publish_revision p new old s = (case commit_revision_and_publish p new old (rt_services s, rt_gates s) of
      (r, services, gates) \<Rightarrow> Some (r, s\<lparr>rt_services := services, rt_gates := gates\<rparr>))"

section \<open>The commit\<close>

text \<open>The staged Fiber is bound to the target scope, and its activation barrier opens.\<close>

definition bind_staged :: "fiber_id \<Rightarrow> scope_id \<Rightarrow> unit run" where
  "bind_staged f target = andthen (update (modify_fiber f (\<lambda>r. r\<lparr>fb_scope := target, fb_staged := False,
     fb_reload_owned := False, fb_activation_sealed := False\<rparr>))) (\<lambda>_. update (open_activation f))"

text \<open>
  The part under the scope lock. \<open>r\<close> is the staged record as it was read before, \<open>new\<close> and \<open>old\<close> are the
  gates of the two generations.
\<close>

definition cutover_scopes ::
  "prepared_dependency_revision \<Rightarrow> prepared_scope_revision \<Rightarrow> prepared_service_revision \<Rightarrow> fiber_record \<Rightarrow> gate_ref \<Rightarrow> gate_ref \<Rightarrow> unit run" where
  "cutover_scopes dr sr vr r new old =
     settle (in_scopes (commit_locked sr)) (\<lambda>committed. case committed of
         Panicked p \<Rightarrow> give (Panicked p)
       | Err e \<Rightarrow> andthen (collecting (dependency_rollback dr)) (\<lambda>cleanup. give (Err (ReloadFailed e cleanup)))
       | Ok _ \<Rightarrow> andthen (move_invocations r (pr_target sr)) (\<lambda>_.
           settle (publish_revision vr new old) (\<lambda>published. case published of
               Panicked p \<Rightarrow> give (Panicked p)
             | Ok _ \<Rightarrow> bind_staged (pr_staged sr) (pr_target sr)
             | Err e \<Rightarrow> andthen (move_invocations r (pr_staging sr)) (\<lambda>_.
                 andthen (collecting (in_scopes (rollback_locked sr))) (\<lambda>c1.
                 andthen (collecting (dependency_rollback dr)) (\<lambda>c2. give (Err (ReloadFailed e (c1 @ c2)))))))))"

text \<open>The part under the write lock of the staged Fiber.\<close>

definition commit_prepared ::
  "fiber_id \<Rightarrow> prepared_dependency_revision \<Rightarrow> prepared_scope_revision \<Rightarrow> prepared_service_revision \<Rightarrow> fiber_record \<Rightarrow> gate_ref \<Rightarrow> unit run" where
  "commit_prepared staged_fiber dr sr vr r old_gate = andthen (get_fiber staged_fiber) (\<lambda>now.
     andthen (reads rt_gates) (\<lambda>gates.
     if fb_state now \<noteq> Active \<or> \<not> is_staged gates (fb_capabilities now)
     then give (Err (CapabilityPublicationFailed staged_fiber))
     else andthen (dependency_commit dr) (\<lambda>_. cutover_scopes dr sr vr r (fb_capabilities now) old_gate)))"

text \<open>The validations in front; \<open>r\<close> and \<open>previous\<close> are the records of the staged and of the old Fiber.\<close>

definition prepare_revisions ::
  "fiber_id \<Rightarrow> fiber_id \<Rightarrow> scope_id \<Rightarrow> scope_id \<Rightarrow> fiber_record \<Rightarrow> fiber_record
    \<Rightarrow> (prepared_dependency_revision \<times> prepared_scope_revision \<times> prepared_service_revision) run" where
  "prepare_revisions old staged_fiber staging target r previous =
     andthen (asks (\<lambda>s. validate_invocation_revision (rt_gates s) (fb_invocation_handlers previous)
                (fb_invocation_handlers r) target (rt_invocations s))) (\<lambda>_.
     andthen (intern_symbols (fb_provided r)) (\<lambda>symbols.
     andthen (asks (\<lambda>s. check_targets old target (zip (fb_provided r) symbols) (rt_services s))) (\<lambda>_.
     andthen (asks (\<lambda>s. prepare_revision staging target symbols old staged_fiber (rt_services s))) (\<lambda>vr.
     andthen (intern_symbols (pd_provisions (fb_descriptor r))) (\<lambda>provisions.
     andthen (asks (\<lambda>s. prepare_scope_revision staging target staged_fiber old (fb_child_scopes r) (rt_scopes s))) (\<lambda>sr.
       pass (\<lparr>pd_symbols = provisions, pd_from = staging, pd_to = target, pd_staged = staged_fiber\<rparr>, sr, vr)))))))"

definition commit_staged_revision ::
  "(runtime \<Rightarrow> runtime) \<Rightarrow> fiber_id \<Rightarrow> fiber_id \<Rightarrow> scope_id \<Rightarrow> scope_id \<Rightarrow> handler_id list run" where
  "commit_staged_revision gap old staged_fiber staging target = with_admission (
     andthen (get_fiber old) (\<lambda>previous. andthen (get_fiber staged_fiber) (\<lambda>r.
     if fb_state previous \<noteq> Reloading then give (Err (InvalidFiberState old (fb_state previous) Active))
     else andthen (reads rt_gates) (\<lambda>gates.
     if fb_state r \<noteq> Active \<or> \<not> is_staged gates (fb_capabilities r) then give (Err (CapabilityPublicationFailed staged_fiber))
     else andthen (prepare_revisions old staged_fiber staging target r previous) (\<lambda>(dr, sr, vr).
     andthen (update gap) (\<lambda>_.
     andthen (commit_prepared staged_fiber dr sr vr r (fb_capabilities previous)) (\<lambda>_. pass (fb_handlers r))))))))"

section \<open>The transaction\<close>

text \<open>The error handed to the caller; every cleanup is attempted.\<close>

definition rollback_reload :: "reload \<Rightarrow> fiber_id \<Rightarrow> fiber_id option \<Rightarrow> scope_id option \<Rightarrow> cordis_error \<Rightarrow> cordis_error run" where
  "rollback_reload rl old staged_fiber staging primary =
     andthen (case staged_fiber of None \<Rightarrow> pass [] | Some f \<Rightarrow> collecting (rl_dispose_staged rl f)) (\<lambda>c1.
     andthen (case staging of None \<Rightarrow> pass [] | Some scope \<Rightarrow> collecting (rl_dispose_scope rl scope)) (\<lambda>c2.
     andthen (collecting (transition old Active)) (\<lambda>c3.
       pass (ReloadFailed primary (c1 @ c2 @ c3)))))"

definition combine_reload_cleanup :: "unit cres \<Rightarrow> unit cres \<Rightarrow> unit cres" where
  "combine_reload_cleanup disposal scope = (case errs disposal @ errs scope of
      [] \<Rightarrow> Ok ()
    | [Host e] \<Rightarrow> Err (Host e)
    | [RemoteDomain e] \<Rightarrow> Err (RemoteDomain e)
    | issues \<Rightarrow> Err (CleanupFailed (joined (map ErrText issues))))"

text \<open>The end of the transaction: what the caller is sent, and the result of the worker.\<close>

type_synonym reload_end = "reload_outcome cres \<times> unit cres"

definition refuse :: "cordis_error \<Rightarrow> reload_end run" where
  "refuse e = pass (Err e, Err e)"

definition fail_reload :: "reload \<Rightarrow> fiber_id \<Rightarrow> fiber_id option \<Rightarrow> scope_id option \<Rightarrow> cordis_error \<Rightarrow> reload_end run" where
  "fail_reload rl old staged_fiber staging primary = andthen (rollback_reload rl old staged_fiber staging primary) refuse"

text \<open>Continue with a value, or fail the reload with the error.\<close>

definition or_fail :: "'a run \<Rightarrow> (cordis_error \<Rightarrow> reload_end run) \<Rightarrow> ('a \<Rightarrow> reload_end run) \<Rightarrow> reload_end run" where
  "or_fail m fail go = settle m (\<lambda>r. case r of Ok a \<Rightarrow> go a | Err e \<Rightarrow> fail e | Panicked p \<Rightarrow> give (Panicked p))"

definition clean_up_old :: "reload \<Rightarrow> fiber_id \<Rightarrow> fiber_id \<Rightarrow> reload_end run" where
  "clean_up_old rl old new =
     (let cleanup = settle (rl_dispose_old rl old) (\<lambda>disposal. settle (rl_dispose_scope rl (rl_staging rl)) (\<lambda>scope.
            case (disposal, scope) of
              (Panicked p, _) \<Rightarrow> give (Panicked p)
            | (_, Panicked p) \<Rightarrow> give (Panicked p)
            | _ \<Rightarrow> pass (combine_reload_cleanup disposal scope)))
      in if rl_timed_out rl
         then andthen (update (\<lambda>s. s\<lparr>rt_reload_cleanup_pending := rt_reload_cleanup_pending s + 1\<rparr>)) (\<lambda>_.
              settle cleanup (\<lambda>result. andthen (update (\<lambda>s. s\<lparr>rt_reload_cleanup_pending := rt_reload_cleanup_pending s - 1\<rparr>)) (\<lambda>_.
                case result of Ok r \<Rightarrow> pass (Ok (CommittedWithCleanupPending new old), r) | Err e \<Rightarrow> give (Err e) | Panicked p \<Rightarrow> give (Panicked p))))
         else andthen cleanup (\<lambda>result. case result of
             Err e \<Rightarrow> refuse (ReloadCommitted new e)
           | _ \<Rightarrow> pass (Ok (ReloadCompleted new), Ok ())))"

definition stage_and_commit :: "reload \<Rightarrow> fiber_id \<Rightarrow> scope_id \<Rightarrow> plugin_id \<Rightarrow> reload_end run" where
  "stage_and_commit rl old target p =
     or_fail (create_scope_internal (rl_now rl) (rl_staging rl) target ''hmr-staging'' True) (fail_reload rl old None None) (\<lambda>staging.
     or_fail (install_arc (rl_now rl) (rl_activation rl) (rl_installation rl) staging True (Some p))
       (fail_reload rl old None (Some staging)) (\<lambda>new.
     or_fail (validate_staged_revision new) (fail_reload rl old (Some new) (Some staging)) (\<lambda>_.
     or_fail (commit_staged_revision (rl_gap rl) old new staging target) (fail_reload rl old (Some new) (Some staging)) (\<lambda>_.
       clean_up_old rl old new))))"

definition run_reload_transaction :: "reload \<Rightarrow> fiber_id \<Rightarrow> reload_end run" where
  "run_reload_transaction rl old =
     or_fail (with_admission (asks (\<lambda>s. ok_or FiberNotFound (aget (rt_fibers s) old)))) refuse (\<lambda>_.
     andthen (update (rl_lock rl)) (\<lambda>_.
     or_fail (asks (\<lambda>s. ok_or FiberNotFound (aget (rt_fibers s) old))) refuse (\<lambda>cell.
     if fb_state (fc_inner cell) \<noteq> Active then refuse (InvalidFiberState old (fb_state (fc_inner cell)) Reloading)
     else or_fail (transition old Reloading) refuse (\<lambda>_.
       stage_and_commit rl old (fb_scope (fc_inner cell)) (fc_plugin_id cell)))))"

text \<open>
  \<open>reload_owned\<close>. The transaction is a cleanup worker of the Runtime; \<open>ReloadActivity\<close> counts it. When it
  panics, the sender is dropped and the caller gets an error of its own.
\<close>

definition reload_owned :: "reload \<Rightarrow> fiber_id \<Rightarrow> reload_outcome run" where
  "reload_owned rl old =
     andthen (with_admission (andthen (get_fiber old) (\<lambda>r.
       if fb_reload_owned r then give (Err (FiberLifecycleOwned old)) else pass ()))) (\<lambda>_.
     andthen (update (\<lambda>s. s\<lparr>rt_active_reloads := rt_active_reloads s + 1\<rparr>)) (\<lambda>_.
     andthen (spawn_worker ReloadTransactionWorker True) (\<lambda>_.
     settle (run_reload_transaction rl old) (\<lambda>out.
     andthen (update (\<lambda>s. s\<lparr>rt_active_reloads := rt_active_reloads s - 1\<rparr>)) (\<lambda>_.
       give (case out of Ok (sent, _) \<Rightarrow> sent
           | _ \<Rightarrow> Err (Invariant (Lit ''reload worker ended without an outcome''))))))))"

end
