(* ===== verification/Reload_Properties.thy ===== *)
theory Reload_Properties
  imports Reload
begin

text \<open>
  What a reload guarantees: the revisions and the cutover commit together or are all undone, a failed
  reload leaves the old Fiber active, and where a panic strands the old Fiber.
\<close>

section \<open>The revisions\<close>

lemma dependents_move_all [simp]: "dependents symbol (move_all from to f symbols g) = dependents symbol g"
  by (induction symbols arbitrary: g) (simp_all add: dependents_def add_provider_def remove_provider_def)

lemma dependents_move: "move_providers from to symbols f g = (res, g1) \<Longrightarrow> dependents symbol g1 = dependents symbol g"
  by (auto simp: move_providers_def split: if_splits)

definition entries_at :: "('i, 'e) amap \<Rightarrow> ('e \<Rightarrow> scope_id) \<Rightarrow> scope_id \<Rightarrow> 'i list \<Rightarrow> bool" where
  "entries_at m at scope ids \<longleftrightarrow> (\<forall>i \<in> set ids. \<forall>e. aget m i = Some e \<longrightarrow> at e = scope)"

text \<open>Everything the staged Fiber registered is at the staging scope.\<close>

definition registered_at :: "fiber_record \<Rightarrow> scope_id \<Rightarrow> (nat, nat) invocation_registry \<Rightarrow> bool" where
  "registered_at r scope reg \<longleftrightarrow> entries_at (ir_handlers reg) ih_scope scope (fb_invocation_handlers r) \<and>
     entries_at (ir_middleware reg) mw_scope scope (fb_invocation_middleware r)"

definition same_invocations :: "(nat, nat) invocation_registry \<Rightarrow> (nat, nat) invocation_registry \<Rightarrow> bool" where
  "same_invocations x y \<longleftrightarrow> aget (ir_handlers y) = aget (ir_handlers x) \<and> aget (ir_middleware y) = aget (ir_middleware x) \<and>
     ir_next_order y = ir_next_order x"

lemma same_invocations_refl [simp]: "same_invocations x x"
  by (simp add: same_invocations_def)

lemma invocations_moved:
  "registered_at r to (commit_invocation_revision (fb_invocation_handlers r) (fb_invocation_middleware r) to reg)"
  by (auto simp: registered_at_def entries_at_def commit_invocation_revision_def aget_fold_amod)

lemma invocations_back:
  assumes "registered_at r staging reg"
  shows "same_invocations reg (commit_invocation_revision (fb_invocation_handlers r) (fb_invocation_middleware r) staging
     (commit_invocation_revision (fb_invocation_handlers r) (fb_invocation_middleware r) target reg))"
  using assms
  by (auto simp: registered_at_def entries_at_def same_invocations_def commit_invocation_revision_def aget_fold_amod fun_eq_iff
      option.map_comp comp_def intro!: option.map_ident_strong)

text \<open>\<open>t\<close> is \<open>u\<close> up to the order of the members of scopes and of provider lists.\<close>

definition undone :: "runtime \<Rightarrow> runtime \<Rightarrow> bool" where
  "undone u t \<longleftrightarrow> (\<exists>d sc reg. t = u\<lparr>rt_dependencies := d, rt_scopes := sc, rt_invocations := reg\<rparr> \<and>
     (\<forall>i. same_members (aget (rt_scopes u) i) (aget sc i)) \<and> same_invocations (rt_invocations u) reg \<and>
     (\<forall>symbol. dependents symbol d = dependents symbol (rt_dependencies u)) \<and>
     (\<forall>scope symbol. mset (providers scope symbol d) = mset (providers scope symbol (rt_dependencies u))))"

lemma same_members_refl [simp]: "same_members x x"
  by (cases x) (simp_all add: same_members_def)

lemma undone_refl: "undone u u"
  unfolding undone_def by (intro exI [of _ "rt_dependencies u"] exI [of _ "rt_scopes u"] exI [of _ "rt_invocations u"]) simp

text \<open>The new generation is in the place of the old one.\<close>

definition replaced ::
  "prepared_dependency_revision \<Rightarrow> prepared_scope_revision \<Rightarrow> prepared_service_revision \<Rightarrow> fiber_record \<Rightarrow> gate_ref \<Rightarrow> gate_ref
    \<Rightarrow> runtime \<Rightarrow> runtime \<Rightarrow> bool" where
  "replaced dr sr vr r new old u t \<longleftrightarrow>
     is_visible (rt_gates t) new \<and> \<not> is_visible (rt_gates t) old \<and> gate_inflight (rt_gates t) = gate_inflight (rt_gates u) \<and>
     (\<forall>scope symbol. aget (sr_entries (rt_services t)) (scope, symbol) = revised_entry vr (sr_entries (rt_services u)) scope symbol) \<and>
     sr_cache (rt_services t) = [] \<and>
     rt_scopes t = move_bundle (pr_staging sr) (pr_target sr) sr (rt_scopes u) \<and>
     move_providers (pd_from dr) (pd_to dr) (pd_symbols dr) (pd_staged dr) (rt_dependencies u) = (Ok (), rt_dependencies t) \<and>
     registered_at r (pr_target sr) (rt_invocations t) \<and>
     (\<exists>r'. fiber (pr_staged sr) t = Some r' \<and> fb_scope r' = pr_target sr \<and> \<not> fb_staged r' \<and> \<not> fb_reload_owned r')"

section \<open>The commit\<close>

lemma bind_staged_spec:
  assumes "bind_staged f target s = Some (res, t)"
  shows "res = Ok () \<and> rt_gates t = rt_gates s \<and> rt_services t = rt_services s \<and> rt_scopes t = rt_scopes s \<and>
    rt_dependencies t = rt_dependencies s \<and> rt_invocations t = rt_invocations s \<and>
    fiber f t = map_option (\<lambda>r. r\<lparr>fb_scope := target, fb_staged := False, fb_reload_owned := False, fb_activation_sealed := False,
       fb_activation := None\<rparr>) (fiber f s)"
  using assms
  by (cases "fiber f s") (auto simp: bind_staged_def andthen_def update_def open_activation_def split: option.splits)

lemma collecting_ok: "m s = Some (Ok (), t) \<Longrightarrow> collecting m s = Some (Ok [], t)"
  by (simp add: collecting_def settle_def pass_def errs_def)

lemma cutover_scopes_spec:
  assumes moved: "move_providers (pd_from dr) (pd_to dr) (pd_symbols dr) (pd_staged dr) (rt_dependencies u) = (Ok (), d)"
    and wf: "distinct (akeys (gr_declared (rt_dependencies u)))" "distinct (akeys (rt_scopes u))" "distinct (pr_children sr)"
      "\<And>r. aget (rt_scopes u) (pr_staging sr) = Some r \<Longrightarrow> distinct (sc_children r)"
    and gates: "wf_gates (rt_gates u)" "distinct (pv_symbols vr)"
      "cg_generation (gs_gate (rt_gates u) new) \<noteq> cg_generation (gs_gate (rt_gates u) old)"
    and reg: "registered_at r (pr_staging sr) (rt_invocations u)"
    and f: "fiber (pr_staged sr) u \<noteq> None"
    and run: "cutover_scopes dr sr vr r new old (u\<lparr>rt_dependencies := d\<rparr>) = Some (res, t)"
  shows "(\<exists>e. res = Err (ReloadFailed e []) \<and> undone u t) \<or> (res = Ok () \<and> replaced dr sr vr r new old u t)"
proof -
  obtain d2 where d2: "move_providers (pd_to dr) (pd_from dr) (pd_symbols dr) (pd_staged dr) d = (Ok (), d2)"
      "\<forall>scope symbol. mset (providers scope symbol d2) = mset (providers scope symbol (rt_dependencies u))"
    using move_back [OF wf(1) moved] by blast
  have dep: "dependents symbol d2 = dependents symbol (rt_dependencies u)" for symbol
    using dependents_move [OF d2(1)] dependents_move [OF moved] by simp
  have rb: "dependency_rollback dr v = Some (Ok (), v\<lparr>rt_dependencies := d2\<rparr>)" if "rt_dependencies v = d" for v
    using that by (simp add: dependency_rollback_def within_def d2(1))
  consider (refused) e where "commit_locked sr (rt_scopes u) = (Err e, rt_scopes u)"
    | (placed) s1 s2 where "commit_locked sr (rt_scopes u) = (Ok (), s1)" "rollback_locked sr s1 = (Ok (), s2)"
        "\<forall>i. same_members (aget (rt_scopes u) i) (aget s2 i)"
    using scope_commit_reversible [OF wf(2,3,4)] by blast
  then show ?thesis
  proof cases
    case refused
    have "cutover_scopes dr sr vr r new old (u\<lparr>rt_dependencies := d\<rparr>) = Some (Err (ReloadFailed e []), u\<lparr>rt_dependencies := d2\<rparr>)"
      by (simp add: cutover_scopes_def settle_def within_def refused andthen_def give_def collecting_def rb pass_def errs_def)
    moreover have "undone u (u\<lparr>rt_dependencies := d2\<rparr>)"
      unfolding undone_def using dep d2(2)
      by (intro exI [of _ d2] exI [of _ "rt_scopes u"] exI [of _ "rt_invocations u"]) simp
    ultimately show ?thesis using run by auto
  next
    case placed
    let ?moved_reg = "commit_invocation_revision (fb_invocation_handlers r) (fb_invocation_middleware r) (pr_target sr) (rt_invocations u)"
    let ?v = "u\<lparr>rt_dependencies := d, rt_scopes := s1, rt_invocations := ?moved_reg\<rparr>"
    obtain q sv g where q: "commit_revision_and_publish vr new old (rt_services u, rt_gates u) = (q, sv, g)" by (metis prod_cases3)
    note spec = commit_revision_spec [OF gates, of "rt_services u", unfolded q]
    let ?restored = "commit_invocation_revision (fb_invocation_handlers r) (fb_invocation_middleware r) (pr_staging sr) ?moved_reg"
    have pub: "publish_revision vr new old ?v = Some (q, ?v\<lparr>rt_services := sv, rt_gates := g\<rparr>)"
      by (simp add: publish_revision_def q)
    have restore: "andthen (move_invocations r (pr_staging sr)) (\<lambda>_. andthen (collecting (in_scopes (rollback_locked sr))) (\<lambda>c1.
        andthen (collecting (dependency_rollback dr)) (\<lambda>c2. give (Err (ReloadFailed e (c1 @ c2)))))) (?v\<lparr>rt_services := sv, rt_gates := g\<rparr>)
      = Some (Err (ReloadFailed e []), u\<lparr>rt_dependencies := d2, rt_scopes := s2, rt_invocations := ?restored, rt_services := sv, rt_gates := g\<rparr>)" for e
      by (simp add: move_invocations_def andthen_def update_def collecting_def settle_def within_def placed(2) rb pass_def errs_def give_def)
    have main: "cutover_scopes dr sr vr r new old (u\<lparr>rt_dependencies := d\<rparr>) = (case q of
        Panicked p \<Rightarrow> Some (Panicked p, ?v\<lparr>rt_services := sv, rt_gates := g\<rparr>)
      | Ok _ \<Rightarrow> bind_staged (pr_staged sr) (pr_target sr) (?v\<lparr>rt_services := sv, rt_gates := g\<rparr>)
      | Err e \<Rightarrow> Some (Err (ReloadFailed e []),
          u\<lparr>rt_dependencies := d2, rt_scopes := s2, rt_invocations := ?restored, rt_services := sv, rt_gates := g\<rparr>))"
      using pub restore
      by (cases q) (simp_all add: cutover_scopes_def settle_def within_def placed(1) move_invocations_def andthen_def update_def give_def)
    show ?thesis
    proof (cases "q = Ok ()")
      case False
      then obtain e where e: "q = Err e" "sv = rt_services u" "g = rt_gates u" using spec by auto
      have "undone u (u\<lparr>rt_dependencies := d2, rt_scopes := s2, rt_invocations := ?restored\<rparr>)"
        unfolding undone_def using dep d2(2) placed(3) invocations_back [OF reg]
        by (intro exI [of _ d2] exI [of _ s2] exI [of _ ?restored]) simp
      moreover have "t = u\<lparr>rt_dependencies := d2, rt_scopes := s2, rt_invocations := ?restored\<rparr>" "res = Err (ReloadFailed e [])"
        using run main e by simp_all
      ultimately show ?thesis by blast
    next
      case True
      then have v: "is_visible g new" "\<not> is_visible g old" "gate_inflight g = gate_inflight (rt_gates u)" "sr_cache sv = []"
          "\<forall>scope symbol. aget (sr_entries sv) (scope, symbol) = revised_entry vr (sr_entries (rt_services u)) scope symbol"
        using spec by simp_all
      have b: "bind_staged (pr_staged sr) (pr_target sr) (?v\<lparr>rt_services := sv, rt_gates := g\<rparr>) = Some (res, t)"
        using run main True by simp
      have s1: "s1 = move_bundle (pr_staging sr) (pr_target sr) sr (rt_scopes u)"
        using placed(1) by (simp add: commit_locked_def split: if_splits)
      have "replaced dr sr vr r new old u t"
        unfolding replaced_def using bind_staged_spec [OF b] v s1 moved invocations_moved f by (auto simp: fiber_def)
      with bind_staged_spec [OF b] show ?thesis by blast
    qed
  qed
qed

section \<open>The preparation\<close>

lemma intern_symbols_spec:
  "intern_symbols keys s = Some (res, t) \<Longrightarrow> t = s \<and>
     (\<forall>symbols. res = Ok symbols \<longrightarrow> map (\<lambda>key. lookup_symbol key s) keys = map Some symbols)"
proof (induction keys arbitrary: res t)
  case (Cons key keys)
  then show ?case
    by (fastforce simp: andthen_def intern_symbol_def intern_def lookup_symbol_def pass_def split: option.splits prod.splits res.splits)
qed (simp add: pass_def)

lemma interned_distinct:
  assumes "wf_symbols (rt_services s)" and "distinct keys" and "map (\<lambda>key. lookup_symbol key s) keys = map Some symbols"
  shows "distinct symbols"
proof -
  have "inj_on (\<lambda>key. lookup_symbol key s) (set keys)"
  proof (rule inj_onI)
    fix k k'
    assume "k \<in> set keys" "lookup_symbol k s = lookup_symbol k' s"
    have "lookup_symbol k s \<in> set (map (\<lambda>key. lookup_symbol key s) keys)" using \<open>k \<in> set keys\<close> by simp
    then obtain v where "lookup_symbol k s = Some v" unfolding assms(3) by auto
    with \<open>lookup_symbol k s = lookup_symbol k' s\<close> show "k = k'"
      using wf_symbols_inj [OF assms(1)] by (simp add: lookup_symbol_def service_lookup_def)
  qed
  then have "distinct (map (\<lambda>key. lookup_symbol key s) keys)" using assms(2) by (simp add: distinct_map)
  then show ?thesis unfolding assms(3) by (simp add: distinct_map)
qed

definition revisions_for ::
  "fiber_id \<Rightarrow> fiber_id \<Rightarrow> scope_id \<Rightarrow> scope_id \<Rightarrow> fiber_record \<Rightarrow> runtime
    \<Rightarrow> prepared_dependency_revision \<Rightarrow> prepared_scope_revision \<Rightarrow> prepared_service_revision \<Rightarrow> bool" where
  "revisions_for old f staging target r s dr sr vr \<longleftrightarrow>
     dr = \<lparr>pd_symbols = pd_symbols dr, pd_from = staging, pd_to = target, pd_staged = f\<rparr> \<and>
     map (\<lambda>key. lookup_symbol key s) (pd_provisions (fb_descriptor r)) = map Some (pd_symbols dr) \<and>
     sr = \<lparr>pr_staging = staging, pr_target = target, pr_staged = f, pr_old = old, pr_children = fb_child_scopes r\<rparr> \<and>
     vr = \<lparr>pv_from = staging, pv_to = target, pv_symbols = pv_symbols vr, pv_old_owner = old, pv_staged_owner = f\<rparr> \<and>
     map (\<lambda>key. lookup_symbol key s) (fb_provided r) = map Some (pv_symbols vr)"

lemma prepare_revision_Ok: "prepare_revision from to symbols old_owner staged_owner reg = Ok vr \<Longrightarrow>
   vr = \<lparr>pv_from = from, pv_to = to, pv_symbols = symbols, pv_old_owner = old_owner, pv_staged_owner = staged_owner\<rparr>"
  by (simp add: prepare_revision_def Let_def rbind_Ok_iff)

lemma prepare_revisions_spec:
  assumes "prepare_revisions old f staging target r previous s = Some (res, t)"
  shows "t = s \<and> (\<forall>dr sr vr. res = Ok (dr, sr, vr) \<longrightarrow> revisions_for old f staging target r s dr sr vr)"
  using assms
  by (auto simp: prepare_revisions_def andthen_asks andthen_def [of "intern_symbols _"] pass_def revisions_for_def
      prepare_scope_revision_def
      split: res.splits option.splits prod.splits if_splits dest!: intern_symbols_spec prepare_revision_Ok)

section \<open>The commit of a reload\<close>

text \<open>What the commit relies on, of the state in which it takes its locks.\<close>

definition reload_ready :: "fiber_id \<Rightarrow> fiber_record \<Rightarrow> fiber_record \<Rightarrow> scope_id \<Rightarrow> runtime \<Rightarrow> bool" where
  "reload_ready f r previous staging u \<longleftrightarrow>
     fiber f u = Some r \<and> wf_gates (rt_gates u) \<and>
     cg_generation (gs_gate (rt_gates u) (fb_capabilities r)) \<noteq> cg_generation (gs_gate (rt_gates u) (fb_capabilities previous)) \<and>
     distinct (akeys (gr_declared (rt_dependencies u))) \<and> distinct (akeys (rt_scopes u)) \<and> distinct (fb_child_scopes r) \<and>
     (\<forall>sc. aget (rt_scopes u) staging = Some sc \<longrightarrow> distinct (sc_children sc)) \<and>
     registered_at r staging (rt_invocations u)"

lemma commit_prepared_spec:
  assumes ready: "reload_ready f r previous staging u" and "distinct (pv_symbols vr)"
    and rev: "revisions_for old f staging target r s dr sr vr"
    and run: "commit_prepared f dr sr vr r (fb_capabilities previous) u = Some (res, t)"
  shows "(\<exists>e. res = Err e \<and> undone u t) \<or>
    (res = Ok () \<and> replaced dr sr vr r (fb_capabilities r) (fb_capabilities previous) u t)"
proof (cases "fb_state r \<noteq> Active \<or> \<not> is_staged (rt_gates u) (fb_capabilities r)")
  case True
  with ready run show ?thesis
    by (auto simp: commit_prepared_def andthen_def get_fiber_def reads_def give_def reload_ready_def intro: undone_refl)
next
  case False
  obtain m d where m: "move_providers (pd_from dr) (pd_to dr) (pd_symbols dr) (pd_staged dr) (rt_dependencies u) = (m, d)" by force
  have run': "andthen (dependency_commit dr) (\<lambda>_. cutover_scopes dr sr vr r (fb_capabilities r) (fb_capabilities previous)) u = Some (res, t)"
    using run False ready by (simp add: commit_prepared_def andthen_def [of "get_fiber f"] andthen_def [of "reads _"] get_fiber_def reads_def reload_ready_def)
  show ?thesis
  proof (cases "m = Ok ()")
    case True
    have p: "pr_staged sr = f" "pr_staging sr = staging" "pr_children sr = fb_child_scopes r"
      using rev by (simp_all add: revisions_for_def)
    have "cutover_scopes dr sr vr r (fb_capabilities r) (fb_capabilities previous) (u\<lparr>rt_dependencies := d\<rparr>) = Some (res, t)"
      using run' m True by (simp add: andthen_def dependency_commit_def within_def)
    from cutover_scopes_spec [OF m [unfolded True] _ _ _ _ _ assms(2) _ _ _ this] ready p show ?thesis
      by (auto simp: reload_ready_def)
  next
    case False
    with m have "d = rt_dependencies u" "\<exists>e. m = Err e" by (auto simp: move_providers_def split: if_splits)
    with run' m have "\<exists>e. res = Err e" "t = u" by (auto simp: andthen_def dependency_commit_def within_def)
    then show ?thesis using undone_refl by blast
  qed
qed

lemma replaced_left: "replaced dr sr vr r new old u (left v) = replaced dr sr vr r new old u v"
  by (simp add: replaced_def) (simp add: left_def)

text \<open>Either the commit was refused before it took its locks, or the prepared revisions were committed.\<close>

lemma commit_staged_cases:
  assumes run: "commit_staged_revision gap old f staging target s = Some (res, t)"
    and r: "fiber f s = Some r" and previous: "fiber old s = Some previous"
    and keys: "wf_symbols (rt_services s)" "distinct (fb_provided r)"
  obtains (refused) "\<forall>handlers. res \<noteq> Ok handlers" "t = s \<or> t = left (entered s)"
    | (committed) dr sr vr cres v where "revisions_for old f staging target r s dr sr vr" "distinct (pv_symbols vr)"
      "commit_prepared f dr sr vr r (fb_capabilities previous) (gap (entered s)) = Some (cres, v)" "t = left v"
      "res = (case cres of Ok _ \<Rightarrow> Ok (fb_handlers r) | Err e \<Rightarrow> Err e | Panicked p \<Rightarrow> Panicked p)"
proof -
  consider (closed) "res = Err RuntimeShuttingDown" "t = s"
    | (open_gate) u where "t = left u" "(if fb_state previous \<noteq> Reloading then give (Err (InvalidFiberState old (fb_state previous) Active))
        else andthen (reads rt_gates) (\<lambda>gates.
        if fb_state r \<noteq> Active \<or> \<not> is_staged gates (fb_capabilities r) then give (Err (CapabilityPublicationFailed f))
        else andthen (prepare_revisions old f staging target r previous) (\<lambda>(dr, sr, vr).
        andthen (update gap) (\<lambda>_.
        andthen (commit_prepared f dr sr vr r (fb_capabilities previous)) (\<lambda>_. pass (fb_handlers r)))))) (entered s) = Some (res, u)"
    using with_admission_cases [OF run [unfolded commit_staged_revision_def]] r previous
    by (auto simp: andthen_def [of "get_fiber _"] get_fiber_def)
  then show ?thesis
  proof cases
    case open_gate
    show ?thesis
    proof (cases "fb_state previous \<noteq> Reloading \<or> fb_state r \<noteq> Active \<or> \<not> is_staged (rt_gates s) (fb_capabilities r)")
      case True
      with open_gate show ?thesis by (intro refused) (auto simp: give_def andthen_def reads_def split: if_splits)
    next
      case False
      obtain out st where "prepare_revisions old f staging target r previous (entered s) = Some (out, st)"
        using open_gate(2) False by (fastforce simp: andthen_def reads_def split: option.splits)
      moreover from prepare_revisions_spec [OF this] have "st = entered s" by simp
      ultimately have out: "prepare_revisions old f staging target r previous (entered s) = Some (out, entered s)" by simp
      show ?thesis
      proof (cases out)
        case (Ok revs)
        obtain dr sr vr where revs: "revs = (dr, sr, vr)" by (metis prod_cases3)
        have rev: "revisions_for old f staging target r s dr sr vr"
          using prepare_revisions_spec [OF out] Ok revs by (simp add: revisions_for_def lookup_symbol_def)
        then have dist: "distinct (pv_symbols vr)" using interned_distinct [OF keys] by (simp add: revisions_for_def)
        obtain cres v where c: "commit_prepared f dr sr vr r (fb_capabilities previous) (gap (entered s)) = Some (cres, v)"
          using open_gate(2) False out Ok revs by (fastforce simp: andthen_def reads_def update_def split: option.splits)
        have "res = (case cres of Ok _ \<Rightarrow> Ok (fb_handlers r) | Err e \<Rightarrow> Err e | Panicked p \<Rightarrow> Panicked p)" "u = v"
          using open_gate(2) False out Ok revs c by (auto simp: andthen_def reads_def update_def pass_def split: res.splits)
        with committed [OF rev dist c] open_gate(1) show ?thesis by blast
      qed (use open_gate False out in \<open>auto intro!: refused simp: andthen_def reads_def\<close>)
    qed
  qed (rule refused; simp)
qed

text \<open>
  C12. The commit of a reload is all or nothing. On success the new generation is visible and the old one is
  not, with no lease lost: the staged services, the providers, the scope's members and children, the
  invocation handlers and middleware and the Fiber itself are all at the target scope, and no stale
  resolution is left. On an error or a panic the state is the one of the moment the locks were taken, up
  to the order of the members of scopes and of providers.
\<close>

theorem reload_commits_or_undoes:
  assumes run: "commit_staged_revision gap old f staging target s = Some (res, t)"
    and r: "fiber f s = Some r" and previous: "fiber old s = Some previous"
    and ready: "reload_ready f r previous staging (gap (entered s))"
    and keys: "wf_symbols (rt_services s)" "distinct (fb_provided r)"
  shows "case res of
      Ok handlers \<Rightarrow> handlers = fb_handlers r \<and> (\<exists>dr sr vr. revisions_for old f staging target r s dr sr vr \<and>
        replaced dr sr vr r (fb_capabilities r) (fb_capabilities previous) (gap (entered s)) t)
    | _ \<Rightarrow> t = s \<or> t = left (entered s) \<or> (\<exists>u. undone (gap (entered s)) u \<and> t = left u)"
  using run r previous keys
proof (cases rule: commit_staged_cases)
  case (committed dr sr vr cres v)
  from commit_prepared_spec [OF ready committed(2,1,3)] committed show ?thesis
    by (auto simp: replaced_left) blast
qed (cases res; auto)

section \<open>The transaction\<close>

text \<open>The old Fiber during the transaction, before the commit.\<close>

definition reloading :: "fiber_id \<Rightarrow> runtime \<Rightarrow> bool" where
  "reloading old s \<longleftrightarrow> distinct (akeys (rt_fibers s)) \<and> map_option fb_state (fiber old s) = Some Reloading"

text \<open>The fields that do not matter to it.\<close>

lemma reloading_free [simp]:
  "reloading old (s\<lparr>rt_admission := a\<rparr>) = reloading old s" "reloading old (s\<lparr>rt_gates := g\<rparr>) = reloading old s"
  "reloading old (s\<lparr>rt_scopes := sc\<rparr>) = reloading old s" "reloading old (s\<lparr>rt_dependencies := d\<rparr>) = reloading old s"
  "reloading old (s\<lparr>rt_invocations := v\<rparr>) = reloading old s" "reloading old (s\<lparr>rt_services := p\<rparr>) = reloading old s"
  "reloading old (s\<lparr>rt_diagnostics := h\<rparr>) = reloading old s" "reloading old (s\<lparr>rt_barriers := b\<rparr>) = reloading old s"
  by (simp_all add: reloading_def fiber_def)

lemma modify_fiber_keys: "akeys (rt_fibers (modify_fiber f g s)) = akeys (rt_fibers s)"
  by (simp add: modify_fiber_def)

lemma reloading_modify: "(\<And>r. fb_state (g r) = fb_state r) \<Longrightarrow> reloading old s \<Longrightarrow> reloading old (modify_fiber f g s)"
  unfolding reloading_def by (auto simp: modify_fiber_keys)

lemma reloading_collect: "reloading old s \<Longrightarrow> reloading old (snd (collect_garbage s))"
proof -
  assume r: "reloading old s"
  then obtain c where c: "aget (rt_fibers s) old = Some c" "fb_state (fc_inner c) = Reloading"
    by (auto simp: reloading_def fiber_def)
  have d: "distinct (akeys (rt_fibers s))" using r by (simp add: reloading_def)
  have "distinct (akeys (filter (\<lambda>(f, c). fb_state (fc_inner c) \<noteq> Disposed) (rt_fibers s)))"
    using d by (simp add: distinct_map_filter)
  with c d show ?thesis by (simp add: reloading_def fiber_def collect_fibers aget_filter_values)
qed

lemma kept_asks: "kept I (asks f)"
  by (auto simp: kept_def triple_def asks_def split: res.splits)

lemma kept_collecting: "kept I m \<Longrightarrow> kept I (collecting m)"
  unfolding collecting_def by (rule kept_settle) (auto intro: kept_give kept_pass split: res.split)

lemma kept_dependency:
  "kept (reloading old) (dependency_commit dr)" "kept (reloading old) (dependency_rollback dr)"
  by (simp_all add: kept_def dependency_commit_def dependency_rollback_def triple_def within_def split: prod.splits res.splits)

lemma kept_scopes: "kept (reloading old) (in_scopes m)"
  by (simp add: kept_def triple_def within_def split: prod.splits res.splits)

lemma kept_bind_staged: "kept (reloading old) (bind_staged f target)"
proof -
  have "reloading old (open_activation f s)" if "reloading old s" for s
    using that by (auto simp: open_activation_def intro!: reloading_modify split: option.split)
  then show ?thesis
    unfolding bind_staged_def by (intro kept_andthen kept_update) (auto intro: reloading_modify)
qed

lemma kept_cutover_scopes: "kept (reloading old) (cutover_scopes dr sr vr r new old_gate)"
proof -
  have "kept (reloading old) (publish_revision vr new old_gate)"
    by (auto simp: kept_def triple_def publish_revision_def split: prod.splits res.splits)
  moreover have "kept (reloading old) (move_invocations r scope)" for scope
    unfolding move_invocations_def by (rule kept_update) simp
  ultimately show ?thesis
    unfolding cutover_scopes_def
    by (auto intro!: kept_settle kept_andthen kept_give kept_scopes kept_collecting kept_dependency kept_bind_staged split: res.split)
qed

lemma kept_prepare_revisions: "kept (reloading old) (prepare_revisions o1 f staging target r previous)"
  by (rule keptI) (use prepare_revisions_spec in metis)

lemma kept_commit_staged:
  assumes "\<And>s. reloading old s \<Longrightarrow> reloading old (gap s)"
  shows "kept (reloading old) (commit_staged_revision gap o1 f staging target)"
  unfolding commit_staged_revision_def commit_prepared_def
  by (auto intro!: kept_with_admission kept_andthen kept_get_fiber kept_give kept_reads kept_prepare_revisions kept_update assms
      kept_dependency kept_cutover_scopes kept_pass)

lemma kept_create_internal: "kept (reloading old) (create_scope_internal now fresh parent name hidden)"
proof -
  have "kept (reloading old) (\<lambda>s. case create_scope_locked (rt_config s) fresh parent name hidden (rt_scopes s) of
         None \<Rightarrow> None
       | Some (Err (ResourceLimitExceeded kind limit), _) \<Rightarrow> quota_error now kind limit (Some parent) None s
       | Some (r, scopes) \<Rightarrow> Some (r, s\<lparr>rt_scopes := scopes\<rparr>))"
    by (rule keptI) (auto simp: quota_error_def andthen_def update_def give_def split: option.splits prod.splits res.splits cordis_error.splits)
  then show ?thesis
    unfolding create_scope_internal_def
    by (intro kept_with_admission kept_andthen kept_update) (auto simp: reloading_collect)
qed

text \<open>A failure that the caller is told as \<open>ReloadFailed\<close> comes with an active old Fiber.\<close>

definition told :: "fiber_id \<Rightarrow> reload_end \<Rightarrow> runtime \<Rightarrow> bool" where
  "told old out t \<longleftrightarrow> (\<forall>primary cleanup. fst out = Err (ReloadFailed primary cleanup) \<longrightarrow>
     snd out = Err (ReloadFailed primary cleanup) \<and> map_option fb_state (fiber old t) = Some Active)"

lemma triple_or_fail:
  assumes "kept I m" and "\<And>e. triple I (fail e) Q (\<lambda>_. True)" and "\<And>a. triple I (go a) Q (\<lambda>_. True)"
  shows "triple I (or_fail m fail go) Q (\<lambda>_. True)"
  unfolding or_fail_def
  by (rule triple_settle [OF assms(1) [unfolded kept_def]]) (auto split: res.split intro: assms(2,3) triple_give)

lemma rollback_restores:
  assumes "\<And>f. kept (reloading old) (rl_dispose_staged rl f)" and "\<And>scope. kept (reloading old) (rl_dispose_scope rl scope)"
  shows "triple (reloading old) (rollback_reload rl old staged_fiber staging primary)
    (\<lambda>e t. map_option fb_state (fiber old t) = Some Active) (\<lambda>_. True)"
proof -
  have step: "triple (reloading old) m (\<lambda>_. reloading old) (\<lambda>_. True)" if "kept (reloading old) m" for m :: "'a run"
    using that by (auto simp: kept_def intro: triple_weaken)
  have "triple (reloading old) (collecting (transition old Active)) (\<lambda>_ t. map_option fb_state (fiber old t) = Some Active) (\<lambda>_. True)"
    by (auto simp: triple_def collecting_def settle_def transition_def andthen_def get_fiber_def update_def reloading_def
        can_transition_to_def pass_def)
  then show ?thesis
    unfolding rollback_reload_def
    by (intro triple_andthen [OF step] triple_andthen [where R = "\<lambda>_ t. map_option fb_state (fiber old t) = Some Active"] triple_pass)
       (auto intro!: kept_collecting kept_pass assms split: option.split)
qed

lemma fail_reload_told:
  assumes "\<And>f. kept (reloading old) (rl_dispose_staged rl f)" and "\<And>scope. kept (reloading old) (rl_dispose_scope rl scope)"
  shows "triple (reloading old) (fail_reload rl old staged_fiber staging primary) (told old) (\<lambda>_. True)"
  unfolding fail_reload_def refuse_def
  by (rule triple_andthen [OF rollback_restores [OF assms]], rule triple_pass) (simp add: told_def)

lemma clean_up_told: "triple I (clean_up_old rl old new) (told old) (\<lambda>_. True)"
  by (auto simp: triple_def clean_up_old_def Let_def told_def andthen_def settle_def update_def refuse_def pass_def give_def
      split: option.splits prod.splits res.splits if_splits)

lemma stage_and_commit_told:
  assumes "\<And>f. kept (reloading old) (rl_dispose_staged rl f)" and "\<And>scope. kept (reloading old) (rl_dispose_scope rl scope)"
    and "\<And>scope. kept (reloading old) (install_arc (rl_now rl) (rl_activation rl) (rl_installation rl) scope True (Some p))"
    and "\<And>s. reloading old s \<Longrightarrow> reloading old (rl_gap rl s)"
  shows "triple (reloading old) (stage_and_commit rl old target p) (told old) (\<lambda>_. True)"
proof -
  have valid: "kept (reloading old) (validate_staged_revision new)" for new
    unfolding validate_staged_revision_def by (auto intro!: kept_andthen kept_get_fiber kept_give kept_pass)
  show ?thesis
    unfolding stage_and_commit_def
    by (intro triple_or_fail kept_create_internal fail_reload_told clean_up_told kept_commit_staged assms valid)
qed

lemma or_fail_cases:
  assumes "or_fail m fail go s = Some (res, t)"
  shows "(\<exists>a u. m s = Some (Ok a, u) \<and> go a u = Some (res, t)) \<or> (\<exists>e u. m s = Some (Err e, u) \<and> fail e u = Some (res, t)) \<or>
    (\<exists>p. m s = Some (Panicked p, t) \<and> res = Panicked p)"
  using assms by (auto simp: or_fail_def settle_def give_def split: option.splits res.splits)


section \<open>A panic of the new plugin's descriptor\<close>

text \<open>
  \<open>install_arc\<close> calls the plugin's \<open>descriptor()\<close> outside every \<open>catch_unwind\<close>. When it panics inside a reload,
  the worker unwinds after the old Fiber became \<open>Reloading\<close> and the staging scope was created, and nothing
  runs the rollback: the old Fiber stays \<open>Reloading\<close>.
\<close>

theorem panicking_descriptor_strands_old:
  assumes "in_panics (rl_installation rl) = Some p" and "rl_lock rl = (\<lambda>s. s)"
    and "ag_state (rt_admission s) = RUNNING" and "distinct (akeys (rt_fibers s))"
    and old: "fiber old s = Some r" "fb_state r = Active"
    and staging: "create_scope_internal (rl_now rl) (rl_staging rl) (fb_scope r) ''hmr-staging'' True
      (modify_fiber old (\<lambda>r. r\<lparr>fb_state := Reloading\<rparr>) s) = Some (Ok scope, u)"
  shows "\<exists>t. run_reload_transaction rl old s = Some (Panicked p, t) \<and> map_option fb_state (fiber old t) = Some Reloading"
proof -
  let ?w = "modify_fiber old (\<lambda>r. r\<lparr>fb_state := Reloading\<rparr>) s"
    and ?t = "if unat (max_fibers (rt_config u)) \<le> length (rt_fibers u) then snd (collect_garbage u) else u"
  obtain cell where cell: "aget (rt_fibers s) old = Some cell" "fc_inner cell = r"
    using old(1) by (auto simp: fiber_def)
  have "reloading old ?w" using assms(4) old by (simp add: reloading_def modify_fiber_keys)
  then have u: "reloading old u" using keptD [OF kept_create_internal _ staging] by blast
  then have t: "reloading old ?t" using reloading_collect by auto
  have enter: "with_admission (asks (\<lambda>s. ok_or FiberNotFound (aget (rt_fibers s) old))) s = Some (Ok cell, s)"
    using assms(3) cell(1) left_entered [of s]
    by (simp add: with_admission_def andthen_def within_def admission_enter_def settle_def asks_def update_def give_def entered_def left_def)
  have install: "install_arc (rl_now rl) (rl_activation rl) (rl_installation rl) scope' True (Some q) u = Some (Panicked p, ?t)" for scope' q
    by (simp add: install_arc_def andthen_def update_def assms(1) give_def)
  have "run_reload_transaction rl old s = Some (Panicked p, ?t)"
    using enter cell old(2) staging install
    by (simp add: run_reload_transaction_def or_fail_def settle_def andthen_def update_def assms(2) asks_def transition_def
        get_fiber_def old(1) can_transition_to_def stage_and_commit_def give_def)
  with t show ?thesis by (auto simp: reloading_def)
qed

section \<open>Examples\<close>

text \<open>Fiber 4 is being reloaded; Fiber 5 has started at the staging scope 1, with the next generation.\<close>

definition staged_example :: fiber_record where
  "staged_example = (example_fiber Active)\<lparr>fb_scope := 1, fb_capabilities := 1, fb_generation := 2, fb_staged := True,
     fb_reload_owned := True, fb_child_scopes := [2], fb_activation := Some 3\<rparr>"

definition reload_runtime :: runtime where
  "reload_runtime = example_runtime\<lparr>rt_fibers := [(4, \<lparr>fc_plugin_id = 9, fc_inner = example_fiber Reloading\<rparr>),
     (5, \<lparr>fc_plugin_id = 9, fc_inner = staged_example\<rparr>)], rt_scopes := example_reload_scopes\<rparr>"

lemma reload_runtime_sel:
  "fiber 4 reload_runtime = Some (example_fiber Reloading)" "fiber 5 reload_runtime = Some staged_example"
  "rt_gates reload_runtime = example_gates" "rt_scopes reload_runtime = example_reload_scopes"
  "rt_invocations reload_runtime = invocation_registry_default" "rt_admission reload_runtime = admission_default"
  "rt_dependencies reload_runtime = graph_default" "rt_services reload_runtime = service_registry_new (max_interned_symbols config_default) (max_resolution_cache_entries config_default)"
  by (auto simp: reload_runtime_def fiber_def example_runtime_sel)
    (simp_all add: example_runtime_def empty_runtime_def runtime_with_config_def config_default_valid)

lemma with_admission_runs:
  assumes "ag_state (rt_admission s) = RUNNING" and "body (entered s) = Some (res, v)"
  shows "with_admission body s = Some (res, left v)"
  using assms by (simp add: with_admission_def andthen_def within_def admission_enter_def settle_def update_def give_def entered_def left_def)

text \<open>
  The commit of this reload, in any state with these two Fibers: the new plugin may declare provisions that
  it has not provided.
\<close>

lemma example_commit:
  fixes d :: plugin_descriptor and ps :: "service_symbol list"
  defines "r \<equiv> staged_example\<lparr>fb_descriptor := d\<rparr>"
    and "dr \<equiv> \<lparr>pd_symbols = ps, pd_from = 1, pd_to = 0, pd_staged = 5\<rparr>"
    and "sr \<equiv> \<lparr>pr_staging = 1, pr_target = 0, pr_staged = 5, pr_old = 4, pr_children = [2]\<rparr>"
    and "vr \<equiv> \<lparr>pv_from = 1, pv_to = 0, pv_symbols = [], pv_old_owner = 4, pv_staged_owner = 5\<rparr>"
  assumes sel: "fiber 4 s = Some (example_fiber Reloading)" "fiber 5 s = Some r" "rt_gates s = example_gates"
      "rt_scopes s = example_reload_scopes" "ag_state (rt_admission s) = RUNNING"
    and interned: "intern_symbols (pd_provisions d) (entered s) = Some (Ok ps, entered s)"
    and moved: "move_providers 1 0 ps 5 (rt_dependencies s) = (Ok (), dg)"
  shows "\<exists>t. commit_staged_revision (\<lambda>s. s) 4 5 1 0 s = Some (Ok [], left t) \<and>
    cutover_scopes dr sr vr r 1 0 ((entered s)\<lparr>rt_dependencies := dg\<rparr>) = Some (Ok (), t)"
proof -
  have "fst (cutover_from 1 0 example_gates) = Ok True"
    by (simp add: cutover_from_def selector_switch_def example_gates_def staged_def sbind_def
        gate_begin_draining_def begin_draining_def drain_body_def generation_execution_default_def
        execution_state_unat EXECUTION_ACCEPTING_def Let_def)
  then obtain g where g: "cutover_from 1 0 example_gates = (Ok True, g)" by (cases "cutover_from 1 0 example_gates") simp
  have e: "fiber f (entered s) = fiber f s" "rt_scopes (entered s) = example_reload_scopes" "rt_gates (entered s) = example_gates"
      "rt_dependencies (entered s) = rt_dependencies s" for f
    by (simp_all add: entered_def sel)
  have fields: "fb_state r = Active" "fb_capabilities r = 1" "fb_handlers r = []" "fb_invocation_handlers r = []"
      "fb_provided r = []" "fb_child_scopes r = [2]" "fb_descriptor r = d"
      "fb_state (example_fiber Reloading) = Reloading" "fb_capabilities (example_fiber Reloading) = 0"
    by (simp_all add: r_def staged_example_def example_fiber_def)
  have prep: "prepare_revisions 4 5 1 0 r (example_fiber Reloading) (entered s) = Some (Ok (dr, sr, vr), entered s)"
    by (simp del: One_nat_def add: prepare_revisions_def asks_def fields validate_invocation_revision_def interned
        prepare_revision_def prepare_scope_revision_def e example_reload_scopes_def root_record_def pass_def andthen_def dr_def sr_def vr_def)
  have valid: "commit_valid sr example_reload_scopes"
    by (simp add: sr_def commit_valid_def example_reload_scopes_def root_record_def occurs_once_def)
  have is_staged: "is_staged example_gates 1"
    by (simp add: is_staged_def example_gates_def selector_active_def staged_def)
  have dep: "dependency_commit dr (entered s) = Some (Ok (), (entered s)\<lparr>rt_dependencies := dg\<rparr>)"
    using moved by (simp del: One_nat_def add: dependency_commit_def within_def e dr_def)
  have bind: "\<exists>t. bind_staged f scope s = Some (Ok (), t)" for f scope s
    by (simp add: bind_staged_def andthen_def update_def)
  have published: "publish_revision vr 1 0 x = Some (Ok (), x\<lparr>rt_services := bump (rt_services x), rt_gates := g\<rparr>)"
    if "rt_gates x = example_gates" for x
    using g that by (simp del: One_nat_def add: publish_revision_def commit_revision_and_publish_def vr_def)
  have "\<exists>t. cutover_scopes dr sr vr r 1 0 ((entered s)\<lparr>rt_dependencies := dg\<rparr>) = Some (Ok (), t)"
    using valid
    by (simp del: One_nat_def add: cutover_scopes_def settle_def within_def e commit_locked_def andthen_def move_invocations_def update_def
       published sel(3) bind)
  then obtain t where t: "cutover_scopes dr sr vr r 1 0 ((entered s)\<lparr>rt_dependencies := dg\<rparr>) = Some (Ok (), t)" ..
  have prepared: "commit_prepared 5 dr sr vr r 0 (entered s) = Some (Ok (), t)"
    by (simp del: One_nat_def add: commit_prepared_def andthen_def get_fiber_def reads_def e sel fields is_staged dep t)
  have "commit_staged_revision (\<lambda>s. s) 4 5 1 0 s = Some (Ok [], left t)"
    unfolding commit_staged_revision_def
    by (rule with_admission_runs [OF sel(5)])
       (simp del: One_nat_def add: andthen_def get_fiber_def e sel fields reads_def is_staged prep update_def prepared pass_def)
  with t show ?thesis by blast
qed

lemma reload_commits: "\<exists>t. commit_staged_revision (\<lambda>s. s) 4 5 1 0 reload_runtime = Some (Ok [], t)"
proof -
  have "staged_example\<lparr>fb_descriptor := fb_descriptor staged_example\<rparr> = staged_example" by simp
  moreover have "pd_provisions (fb_descriptor staged_example) = []" by (simp add: staged_example_def example_fiber_def)
  ultimately show ?thesis
    using example_commit [of reload_runtime "fb_descriptor staged_example" "[]" graph_default]
    by (auto simp: reload_runtime_sel admission_default_def move_providers_def pass_def)
qed

theorem reload_commits_or_undoes_witness:
  "\<exists>t r. commit_staged_revision (\<lambda>s. s) 4 5 1 0 reload_runtime = Some (Ok [], t) \<and> is_visible (rt_gates t) 1 \<and> \<not> is_visible (rt_gates t) 0 \<and>
     fiber 5 t = Some r \<and> fb_scope r = 0"
proof -
  note sv = reload_runtime_sel(8)
  have ready: "reload_ready 5 staged_example (example_fiber Reloading) 1 (entered reload_runtime)"
    using example_gates_wf
    by (simp add: reload_ready_def reload_runtime_sel registered_at_def entries_at_def invocation_registry_default_def)
       (simp add: entered_def reload_runtime_sel graph_default_def example_reload_scopes_def staged_example_def example_fiber_def
          example_gates_def staged_def root_record_def)
  note reload_commits
  then obtain t where t: "commit_staged_revision (\<lambda>s. s) 4 5 1 0 reload_runtime = Some (Ok [], t)" ..
  have keys: "wf_symbols (rt_services reload_runtime)" "distinct (fb_provided staged_example)"
    by (simp_all add: sv wf_symbols_new staged_example_def example_fiber_def)
  from reload_commits_or_undoes [OF t reload_runtime_sel(2,1) ready keys] t show ?thesis
    by (auto simp: replaced_def revisions_for_def staged_example_def example_fiber_def)
qed

text \<open>A reload of Fiber 4 whose new plugin panics when its descriptor is read.\<close>

definition panicking_reload :: reload where
  "panicking_reload = \<lparr>rl_now = 0, rl_activation = quiet_activation,
     rl_installation = \<lparr>in_descriptor = \<lparr>pd_name = ''bad'', pd_dependencies = [], pd_provisions = [], pd_dependency_policy = Restart,
       pd_revision = 2\<rparr>, in_panics = Some ''boom'', in_plugin = 7, in_fiber = 9, in_logical = 12, in_selector = 9, in_gate = 9\<rparr>,
     rl_staging = 6, rl_timed_out = False, rl_gap = (\<lambda>s. s), rl_lock = (\<lambda>s. s), rl_dispose_old = (\<lambda>_. pass ()),
     rl_dispose_staged = (\<lambda>_. pass ()), rl_dispose_scope = (\<lambda>_. pass ())\<rparr>"

lemma example_depth: "depth_loop [(0, root_record\<lparr>sc_fibers := fs\<rparr>)] (Some 0) d = Some d"
  by (subst depth_loop.simps, subst depth_loop.simps) (simp add: root_record_def)

lemma example_keys: "distinct (akeys (rt_fibers example_runtime))"
  by (simp add: example_runtime_def)

theorem panicking_descriptor_strands_old_witness:
  "\<exists>t. run_reload_transaction panicking_reload 4 example_runtime = Some (Panicked ''boom'', t) \<and> map_option fb_state (fiber 4 t) = Some Reloading"
proof -
  let ?w = "modify_fiber 4 (\<lambda>r. r\<lparr>fb_state := Reloading\<rparr>) example_runtime"
  have w: "rt_scopes ?w = [(0, root_record\<lparr>sc_fibers := [4, 5]\<rparr>)]" "rt_config ?w = config_default" "rt_admission ?w = admission_default"
    by (simp_all add: modify_fiber_def example_runtime_sel)
  have f: "fiber 4 example_runtime = Some (example_fiber Active)" "fb_state (example_fiber Active) = Active" "fb_scope (example_fiber Active) = 0"
    by (simp_all add: example_runtime_fiber example_fiber_def)
  obtain scopes where c: "create_scope_locked config_default 6 0 ''hmr-staging'' True [(0, root_record\<lparr>sc_fibers := [4, 5]\<rparr>)] = Some (Ok 6, scopes)"
    by (simp add: create_scope_locked_def example_depth config_default_def) (simp add: root_record_def)
  have room: "\<not> unat (max_scopes config_default) \<le> Suc 0" by (simp add: config_default_def)
  obtain u where "create_scope_internal 0 6 0 ''hmr-staging'' True ?w = Some (Ok 6, u)"
    by (simp add: create_scope_internal_def with_admission_def andthen_def within_def w admission_enter_def admission_default_def
        settle_def update_def give_def c room example_runtime_sel)
  then show ?thesis
    using panicking_descriptor_strands_old [where rl = panicking_reload and s = example_runtime and old = 4, OF _ _ _ example_keys f(1,2)]
    by (simp add: panicking_reload_def f(3) example_runtime_sel admission_default_def)
qed

text \<open>The same reload when the scope of Fiber 4 is being disposed: no staging scope can be created.\<close>

definition closing_runtime :: runtime where
  "closing_runtime = example_runtime\<lparr>rt_scopes := [(0, root_record\<lparr>sc_fibers := [4, 5], sc_state := ScopeDisposing\<rparr>)]\<rparr>"


end
