(* ===== verification/Ownership.thy ===== *)
theory Ownership
  imports Installation Reload_Properties
begin

text \<open>
  Who owns what is registered. Every event handler, invocation handler, middleware and service of the
  Runtime's registries is listed by a Fiber, in the scope and under the generation of that Fiber; a
  Fiber that has not started, waits or is disposed lists nothing. Disposal walks the lists of the Fiber, so
  what no list carries would never be withdrawn: the invariant is what makes the lists complete.
\<close>

section \<open>The invariant\<close>

definition carried ::
  "('i \<Rightarrow> 'e option) \<Rightarrow> ('e \<Rightarrow> fiber_record \<Rightarrow> bool) \<Rightarrow> (fiber_record \<Rightarrow> 'i list) \<Rightarrow> runtime \<Rightarrow> bool" where
  "carried entries bound get s \<longleftrightarrow>
     (\<forall>i e. entries i = Some e \<longrightarrow> (\<exists>f r. fiber f s = Some r \<and> i \<in> set (get r) \<and> bound e r))"

definition event_bound :: "nat handler_entry \<Rightarrow> fiber_record \<Rightarrow> bool" where
  "event_bound e r \<longleftrightarrow> he_gate e = fb_capabilities r"

definition handler_bound :: "nat inv_handler \<Rightarrow> fiber_record \<Rightarrow> bool" where
  "handler_bound e r \<longleftrightarrow> ih_gate e = fb_capabilities r \<and> ih_scope e = fb_scope r"

definition middleware_bound :: "nat inv_middleware \<Rightarrow> fiber_record \<Rightarrow> bool" where
  "middleware_bound e r \<longleftrightarrow> mw_gate e = fb_capabilities r \<and> mw_scope e = fb_scope r"

definition services_carried :: "runtime \<Rightarrow> bool" where
  "services_carried s \<longleftrightarrow> (\<forall>scope symbol e. service_get scope symbol (rt_services s) = Some e \<longrightarrow>
     (\<exists>r key. fiber (se_owner e) s = Some r \<and> fb_scope r = scope \<and> se_gate e = fb_capabilities r \<and>
        key \<in> set (fb_provided r) \<and> lookup_symbol key s = Some symbol))"

definition empty_handed :: "fiber_record \<Rightarrow> bool" where
  "empty_handed r \<longleftrightarrow> fb_handlers r = [] \<and> fb_invocation_handlers r = [] \<and> fb_invocation_middleware r = [] \<and> fb_provided r = []"

definition resting :: "fiber_record \<Rightarrow> bool" where
  "resting r \<longleftrightarrow> fb_state r \<in> {Created, WaitingDependencies, Disposed}"

definition owned :: "runtime \<Rightarrow> bool" where
  "owned s \<longleftrightarrow> carried (aget (eb_handlers (rt_events s))) event_bound fb_handlers s \<and>
     carried (aget (ir_handlers (rt_invocations s))) handler_bound fb_invocation_handlers s \<and>
     carried (aget (ir_middleware (rt_invocations s))) middleware_bound fb_invocation_middleware s \<and>
     services_carried s \<and> (\<forall>f r. fiber f s = Some r \<longrightarrow> resting r \<longrightarrow> empty_handed r) \<and> distinct (akeys (rt_fibers s))"

text \<open>What the registries see of a Fiber.\<close>

definition holdings :: "fiber_record \<Rightarrow>
    scope_id \<times> gate_ref \<times> handler_id list \<times> invocation_handler_id list \<times> invocation_middleware_id list \<times> service_key list" where
  "holdings r = (fb_scope r, fb_capabilities r, fb_handlers r, fb_invocation_handlers r, fb_invocation_middleware r, fb_provided r)"

section \<open>Frames\<close>

text \<open>The registrations of \<open>t\<close> are among those of \<open>s\<close>.\<close>

definition no_new_registration :: "runtime \<Rightarrow> runtime \<Rightarrow> bool" where
  "no_new_registration s t \<longleftrightarrow>
     aget (eb_handlers (rt_events t)) \<subseteq>\<^sub>m aget (eb_handlers (rt_events s)) \<and>
     aget (ir_handlers (rt_invocations t)) \<subseteq>\<^sub>m aget (ir_handlers (rt_invocations s)) \<and>
     aget (ir_middleware (rt_invocations t)) \<subseteq>\<^sub>m aget (ir_middleware (rt_invocations s)) \<and>
     aget (sr_entries (rt_services t)) \<subseteq>\<^sub>m aget (sr_entries (rt_services s)) \<and>
     aget (sr_by_key (rt_services s)) \<subseteq>\<^sub>m aget (sr_by_key (rt_services t))"

lemma map_leD: "m \<subseteq>\<^sub>m n \<Longrightarrow> m k = Some v \<Longrightarrow> n k = Some v"
  by (metis domI map_le_def)

lemma carried_mono:
  assumes "carried entries bound get s" and "entries' \<subseteq>\<^sub>m entries"
    and "\<And>f r i e. fiber f s = Some r \<Longrightarrow> entries' i = Some e \<Longrightarrow> i \<in> set (get r) \<Longrightarrow> bound e r \<Longrightarrow>
      \<exists>r'. fiber f t = Some r' \<and> i \<in> set (get r') \<and> bound e r'"
  shows "carried entries' bound get t"
  unfolding carried_def
proof (intro allI impI)
  fix i e
  assume e: "entries' i = Some e"
  then have "entries i = Some e" by (rule map_leD [OF assms(2)])
  then obtain f r where r: "fiber f s = Some r" "i \<in> set (get r)" "bound e r"
    using assms(1) unfolding carried_def by blast
  from assms(3) [OF r(1) e r(2,3)] show "\<exists>f r. fiber f t = Some r \<and> i \<in> set (get r) \<and> bound e r" by blast
qed

text \<open>Fibers that list something keep their holdings; a Fiber that comes to rest lists nothing.\<close>

lemma owned_frame:
  assumes "owned s" and "no_new_registration s t"
    and keep: "\<And>f r. fiber f s = Some r \<Longrightarrow> \<not> empty_handed r \<Longrightarrow> \<exists>r'. fiber f t = Some r' \<and> holdings r' = holdings r"
    and rest: "\<And>f r. fiber f t = Some r \<Longrightarrow> resting r \<Longrightarrow> empty_handed r"
    and keys: "distinct (akeys (rt_fibers t))"
  shows "owned t"
proof -
  have regs: "aget (eb_handlers (rt_events t)) \<subseteq>\<^sub>m aget (eb_handlers (rt_events s))"
     "aget (ir_handlers (rt_invocations t)) \<subseteq>\<^sub>m aget (ir_handlers (rt_invocations s))"
     "aget (ir_middleware (rt_invocations t)) \<subseteq>\<^sub>m aget (ir_middleware (rt_invocations s))"
     "aget (sr_entries (rt_services t)) \<subseteq>\<^sub>m aget (sr_entries (rt_services s))"
     "aget (sr_by_key (rt_services s)) \<subseteq>\<^sub>m aget (sr_by_key (rt_services t))"
    using assms(2) by (simp_all add: no_new_registration_def)
  have c: "carried (aget (eb_handlers (rt_events s))) event_bound fb_handlers s"
     "carried (aget (ir_handlers (rt_invocations s))) handler_bound fb_invocation_handlers s"
     "carried (aget (ir_middleware (rt_invocations s))) middleware_bound fb_invocation_middleware s" "services_carried s"
    using assms(1) by (simp_all add: owned_def)
  have "carried (aget (eb_handlers (rt_events t))) event_bound fb_handlers t"
    by (rule carried_mono [OF c(1) regs(1)]) (use keep in \<open>force simp: holdings_def event_bound_def empty_handed_def\<close>)
  moreover have "carried (aget (ir_handlers (rt_invocations t))) handler_bound fb_invocation_handlers t"
    by (rule carried_mono [OF c(2) regs(2)]) (use keep in \<open>force simp: holdings_def handler_bound_def empty_handed_def\<close>)
  moreover have "carried (aget (ir_middleware (rt_invocations t))) middleware_bound fb_invocation_middleware t"
    by (rule carried_mono [OF c(3) regs(3)]) (use keep in \<open>force simp: holdings_def middleware_bound_def empty_handed_def\<close>)
  moreover have "services_carried t"
    unfolding services_carried_def
  proof (intro allI impI)
    fix scope symbol e
    assume "service_get scope symbol (rt_services t) = Some e"
    then have "service_get scope symbol (rt_services s) = Some e"
      using regs(4) by (auto simp: service_get_def dest: map_leD)
    then obtain r key where r: "fiber (se_owner e) s = Some r" "fb_scope r = scope" "se_gate e = fb_capabilities r"
        "key \<in> set (fb_provided r)" "lookup_symbol key s = Some symbol"
      using c(4) unfolding services_carried_def by blast
    have "\<not> empty_handed r" using r(4) by (auto simp: empty_handed_def)
    then obtain r' where "fiber (se_owner e) t = Some r'" "holdings r' = holdings r"
      using keep [OF r(1)] by blast
    moreover have "lookup_symbol key t = Some symbol"
      using r(5) regs(5) by (auto simp: lookup_symbol_def service_lookup_def dest: map_leD)
    ultimately show "\<exists>r key. fiber (se_owner e) t = Some r \<and> fb_scope r = scope \<and> se_gate e = fb_capabilities r \<and>
        key \<in> set (fb_provided r) \<and> lookup_symbol key t = Some symbol"
      using r by (auto simp: holdings_def)
  qed
  ultimately show ?thesis using rest keys by (simp add: owned_def)
qed

lemma no_new_refl [simp]: "no_new_registration s s"
  by (simp add: no_new_registration_def)

text \<open>A change of one Fiber that the registries do not see.\<close>

lemma owned_modify:
  assumes "owned s"
    and "\<And>r. fiber f s = Some r \<Longrightarrow> empty_handed r \<or> holdings (h r) = holdings r"
    and "\<And>r. fiber f s = Some r \<Longrightarrow> resting (h r) \<Longrightarrow> empty_handed (h r)"
  shows "owned (modify_fiber f h s)"
proof (rule owned_frame [OF assms(1)])
  show "no_new_registration s (modify_fiber f h s)" by (simp add: no_new_registration_def)
  show "distinct (akeys (rt_fibers (modify_fiber f h s)))" unfolding modify_fiber_keys using assms(1) by (simp add: owned_def)
qed (use assms in \<open>auto simp: owned_def split: if_splits\<close>)

lemma owned_other:
  assumes "owned s" and "rt_fibers t = rt_fibers s" "rt_events t = rt_events s" "rt_invocations t = rt_invocations s"
    "aget (sr_entries (rt_services t)) \<subseteq>\<^sub>m aget (sr_entries (rt_services s))"
    "aget (sr_by_key (rt_services s)) \<subseteq>\<^sub>m aget (sr_by_key (rt_services t))"
  shows "owned t"
proof (rule owned_frame [OF assms(1)])
  show "no_new_registration s t" using assms by (simp add: no_new_registration_def)
qed (use assms(1,2) in \<open>auto simp: owned_def fiber_cong [OF assms(2)]\<close>)

lemma owned_cong:
  assumes "rt_fibers t = rt_fibers s" "rt_events t = rt_events s" "rt_invocations t = rt_invocations s" "rt_services t = rt_services s"
  shows "owned t = owned s"
  by (rule iffI) (erule owned_other; simp add: assms)+

lemma owned_upd [simp]:
  "owned (s\<lparr>rt_gates := g\<rparr>) = owned s" "owned (s\<lparr>rt_admission := a\<rparr>) = owned s"
  "owned (s\<lparr>rt_diagnostics := d\<rparr>) = owned s" "owned (s\<lparr>rt_scopes := sc\<rparr>) = owned s"
  "owned (s\<lparr>rt_tasks := ts\<rparr>) = owned s" "owned (s\<lparr>rt_workers := w\<rparr>) = owned s"
  "owned (s\<lparr>rt_dependencies := dg\<rparr>) = owned s" "owned (s\<lparr>rt_plugins := p\<rparr>) = owned s"
  "owned (s\<lparr>rt_barriers := b\<rparr>) = owned s" "owned (s\<lparr>rt_gc_state := n\<rparr>) = owned s"
  "owned (s\<lparr>rt_pending_activations := pa\<rparr>) = owned s" "owned (s\<lparr>rt_processes := pr\<rparr>) = owned s"
  by (rule owned_cong; simp)+

lemma owned_guard_free: "guard_free owned"
  by (simp add: guard_free_def)

section \<open>Registration\<close>

text \<open>A Fiber of \<open>t\<close> lists at least what it listed in \<open>s\<close>, in the same scope and generation.\<close>

definition lists_grow :: "runtime \<Rightarrow> runtime \<Rightarrow> bool" where
  "lists_grow s t \<longleftrightarrow> (\<forall>f r. fiber f s = Some r \<longrightarrow> (\<exists>r'. fiber f t = Some r' \<and> fb_scope r' = fb_scope r \<and>
     fb_capabilities r' = fb_capabilities r \<and> set (fb_handlers r) \<subseteq> set (fb_handlers r') \<and>
     set (fb_invocation_handlers r) \<subseteq> set (fb_invocation_handlers r') \<and>
     set (fb_invocation_middleware r) \<subseteq> set (fb_invocation_middleware r') \<and> set (fb_provided r) \<subseteq> set (fb_provided r')))"

lemma lists_growE:
  assumes "lists_grow s t" and "fiber f s = Some r"
  obtains r' where "fiber f t = Some r'" "fb_scope r' = fb_scope r" "fb_capabilities r' = fb_capabilities r"
    "set (fb_handlers r) \<subseteq> set (fb_handlers r')" "set (fb_invocation_handlers r) \<subseteq> set (fb_invocation_handlers r')"
    "set (fb_invocation_middleware r) \<subseteq> set (fb_invocation_middleware r')" "set (fb_provided r) \<subseteq> set (fb_provided r')"
  using assms unfolding lists_grow_def by blast

lemma grow_modify:
  assumes "fiber f s = Some r0" and "fb_scope (h r0) = fb_scope r0" "fb_capabilities (h r0) = fb_capabilities r0"
    "set (fb_handlers r0) \<subseteq> set (fb_handlers (h r0))" "set (fb_invocation_handlers r0) \<subseteq> set (fb_invocation_handlers (h r0))"
    "set (fb_invocation_middleware r0) \<subseteq> set (fb_invocation_middleware (h r0))" "set (fb_provided r0) \<subseteq> set (fb_provided (h r0))"
  shows "lists_grow s (modify_fiber f h s)"
  using assms by (simp add: lists_grow_def)

lemma grow_cong: "lists_grow s t \<Longrightarrow> rt_fibers u = rt_fibers t \<Longrightarrow> lists_grow s u"
  by (simp add: lists_grow_def fiber_def)

text \<open>Every registration of \<open>t\<close> is one of \<open>s\<close> or is listed by a Fiber of \<open>t\<close>.\<close>

lemma carried_grow:
  assumes "carried entries bound get s"
    and "\<And>i e. entries' i = Some e \<Longrightarrow> entries i = Some e \<or> (\<exists>f r. fiber f t = Some r \<and> i \<in> set (get r) \<and> bound e r)"
    and "\<And>f r i e. fiber f s = Some r \<Longrightarrow> i \<in> set (get r) \<Longrightarrow> bound e r \<Longrightarrow>
      \<exists>r'. fiber f t = Some r' \<and> i \<in> set (get r') \<and> bound e r'"
  shows "carried entries' bound get t"
  using assms unfolding carried_def by metis

definition service_listed :: "runtime \<Rightarrow> scope_id \<Rightarrow> service_symbol \<Rightarrow> service_entry \<Rightarrow> bool" where
  "service_listed s scope symbol e \<longleftrightarrow> (\<exists>r key. fiber (se_owner e) s = Some r \<and> fb_scope r = scope \<and>
     se_gate e = fb_capabilities r \<and> key \<in> set (fb_provided r) \<and> lookup_symbol key s = Some symbol)"

lemma services_carried_iff:
  "services_carried s \<longleftrightarrow> (\<forall>scope symbol e. service_get scope symbol (rt_services s) = Some e \<longrightarrow> service_listed s scope symbol e)"
  by (simp add: services_carried_def service_listed_def)

lemma service_listed_grow:
  assumes "service_listed s scope symbol e" "lists_grow s t" "aget (sr_by_key (rt_services s)) \<subseteq>\<^sub>m aget (sr_by_key (rt_services t))"
  shows "service_listed t scope symbol e"
proof -
  obtain r key where r: "fiber (se_owner e) s = Some r" "fb_scope r = scope" "se_gate e = fb_capabilities r"
      "key \<in> set (fb_provided r)" "lookup_symbol key s = Some symbol"
    using assms(1) by (auto simp: service_listed_def)
  have "lookup_symbol key t = Some symbol"
    using r(5) assms(3) by (auto simp: lookup_symbol_def service_lookup_def dest: map_leD)
  then show ?thesis
    unfolding service_listed_def
    by (rule_tac lists_growE [OF assms(2) r(1)], rule_tac x = r' in exI, rule_tac x = key in exI) (use r in auto)
qed

lemma owned_grow:
  assumes o: "owned s" and g: "lists_grow s t" and k: "aget (sr_by_key (rt_services s)) \<subseteq>\<^sub>m aget (sr_by_key (rt_services t))"
    and events: "\<And>i e. aget (eb_handlers (rt_events t)) i = Some e \<Longrightarrow>
      aget (eb_handlers (rt_events s)) i = Some e \<or> (\<exists>f r. fiber f t = Some r \<and> i \<in> set (fb_handlers r) \<and> event_bound e r)"
    and handlers: "\<And>i e. aget (ir_handlers (rt_invocations t)) i = Some e \<Longrightarrow>
      aget (ir_handlers (rt_invocations s)) i = Some e \<or> (\<exists>f r. fiber f t = Some r \<and> i \<in> set (fb_invocation_handlers r) \<and> handler_bound e r)"
    and middleware: "\<And>i e. aget (ir_middleware (rt_invocations t)) i = Some e \<Longrightarrow>
      aget (ir_middleware (rt_invocations s)) i = Some e \<or> (\<exists>f r. fiber f t = Some r \<and> i \<in> set (fb_invocation_middleware r) \<and> middleware_bound e r)"
    and services: "\<And>scope symbol e. service_get scope symbol (rt_services t) = Some e \<Longrightarrow>
      service_get scope symbol (rt_services s) = Some e \<or> service_listed t scope symbol e"
    and rest: "\<And>f r. fiber f t = Some r \<Longrightarrow> resting r \<Longrightarrow> empty_handed r"
    and keys: "distinct (akeys (rt_fibers t))"
  shows "owned t"
proof -
  have c: "carried (aget (eb_handlers (rt_events s))) event_bound fb_handlers s"
    "carried (aget (ir_handlers (rt_invocations s))) handler_bound fb_invocation_handlers s"
    "carried (aget (ir_middleware (rt_invocations s))) middleware_bound fb_invocation_middleware s" "services_carried s"
    using o by (simp_all add: owned_def)
  have "carried (aget (eb_handlers (rt_events t))) event_bound fb_handlers t"
    by (rule carried_grow [OF c(1) events], assumption) (auto simp: event_bound_def elim!: lists_growE [OF g])
  moreover have "carried (aget (ir_handlers (rt_invocations t))) handler_bound fb_invocation_handlers t"
    by (rule carried_grow [OF c(2) handlers], assumption) (auto simp: handler_bound_def elim!: lists_growE [OF g])
  moreover have "carried (aget (ir_middleware (rt_invocations t))) middleware_bound fb_invocation_middleware t"
    by (rule carried_grow [OF c(3) middleware], assumption) (auto simp: middleware_bound_def elim!: lists_growE [OF g])
  moreover have "services_carried t"
    using c(4) services service_listed_grow [OF _ g k] unfolding services_carried_iff by blast
  ultimately show ?thesis using rest keys by (simp add: owned_def)
qed

text \<open>The caller's Fiber is in the scope and the generation it was admitted under.\<close>

definition admitted :: "context_admission \<Rightarrow> fiber_id \<Rightarrow> runtime \<Rightarrow> bool" where
  "admitted adm f s \<longleftrightarrow> owned s \<and>
     (\<forall>r. fiber f s = Some r \<longrightarrow> fb_scope r = ca_scope adm \<and> fb_capabilities r = ca_gate adm)"

text \<open>And it may still register.\<close>

definition may_register :: "context_admission \<Rightarrow> fiber_id \<Rightarrow> runtime \<Rightarrow> bool" where
  "may_register adm f s \<longleftrightarrow> owned s \<and> (\<exists>r. fiber f s = Some r \<and> \<not> resting r \<and>
     fb_scope r = ca_scope adm \<and> fb_capabilities r = ca_gate adm)"

lemma may_register_owned: "may_register adm f s \<Longrightarrow> owned s"
  by (simp add: may_register_def)

lemma may_register_upd [simp]:
  "may_register adm f (s\<lparr>rt_diagnostics := d\<rparr>) = may_register adm f s"
  by (simp add: may_register_def)

text \<open>The four registrations, by the Fiber that may register.\<close>

lemma owned_add:
  assumes r: "may_register adm f s"
    and t: "rt_fibers t = rt_fibers (modify_fiber f h s)" "sr_by_key (rt_services t) = sr_by_key (rt_services s)"
    and h: "\<And>r. fb_scope (h r) = fb_scope r \<and> fb_capabilities (h r) = fb_capabilities r \<and> fb_state (h r) = fb_state r \<and>
      set (fb_handlers r) \<subseteq> set (fb_handlers (h r)) \<and> set (fb_invocation_handlers r) \<subseteq> set (fb_invocation_handlers (h r)) \<and>
      set (fb_invocation_middleware r) \<subseteq> set (fb_invocation_middleware (h r)) \<and> set (fb_provided r) \<subseteq> set (fb_provided (h r))"
    and new: "\<And>r. fiber f t = Some (h r) \<Longrightarrow> fb_scope r = ca_scope adm \<Longrightarrow> fb_capabilities r = ca_gate adm \<Longrightarrow>
      (\<forall>i e. aget (eb_handlers (rt_events t)) i = Some e \<longrightarrow>
        aget (eb_handlers (rt_events s)) i = Some e \<or> i \<in> set (fb_handlers (h r)) \<and> event_bound e (h r)) \<and>
      (\<forall>i e. aget (ir_handlers (rt_invocations t)) i = Some e \<longrightarrow>
        aget (ir_handlers (rt_invocations s)) i = Some e \<or> i \<in> set (fb_invocation_handlers (h r)) \<and> handler_bound e (h r)) \<and>
      (\<forall>i e. aget (ir_middleware (rt_invocations t)) i = Some e \<longrightarrow>
        aget (ir_middleware (rt_invocations s)) i = Some e \<or> i \<in> set (fb_invocation_middleware (h r)) \<and> middleware_bound e (h r)) \<and>
      (\<forall>scope symbol e. service_get scope symbol (rt_services t) = Some e \<longrightarrow>
        service_get scope symbol (rt_services s) = Some e \<or> service_listed t scope symbol e)"
  shows "owned t"
proof -
  obtain r where r: "owned s" "fiber f s = Some r" "\<not> resting r" "fb_scope r = ca_scope adm" "fb_capabilities r = ca_gate adm"
    using r by (auto simp: may_register_def)
  have ft: "fiber g t = fiber g (modify_fiber f h s)" for g by (rule fiber_cong [OF t(1)])
  then have f: "fiber f t = Some (h r)" using r(2) by simp
  note new = new [OF f r(4,5)]
  show ?thesis
  proof (rule owned_grow [OF r(1)])
    show "lists_grow s t" by (rule grow_cong [OF grow_modify [OF r(2), of h] t(1)]) (use h in auto)
    show "empty_handed u" if "fiber g t = Some u" "resting u" for g u
      using that ft r h by (auto simp: owned_def resting_def split: if_splits)
    show "aget (sr_by_key (rt_services s)) \<subseteq>\<^sub>m aget (sr_by_key (rt_services t))" by (simp add: t(2))
    show "distinct (akeys (rt_fibers t))" unfolding t(1) modify_fiber_keys using r(1) by (simp add: owned_def)
  qed (use new f in blast)+
qed

lemma owned_add_event:
  "may_register adm f s \<Longrightarrow> owned (modify_fiber f (\<lambda>r. r\<lparr>fb_handlers := fb_handlers r @ [i]\<rparr>)
    (s\<lparr>rt_events := snd (register_gated i event handler (ca_gate adm) (rt_events s))\<rparr>))"
  by (erule owned_add [where h = "\<lambda>r. r\<lparr>fb_handlers := fb_handlers r @ [i]\<rparr>"])
     (auto simp: modify_fiber_def event_bound_def register_spec(2) [OF surjective_pairing] split: if_splits)

lemma owned_add_handler:
  "may_register adm f s \<Longrightarrow> owned (modify_fiber f (\<lambda>r. r\<lparr>fb_invocation_handlers := fb_invocation_handlers r @ [i]\<rparr>)
    (s\<lparr>rt_invocations := (rt_invocations s)\<lparr>ir_handlers := aput i
        \<lparr>ih_scope = ca_scope adm, ih_key = key, ih_handler = handler, ih_gate = ca_gate adm\<rparr> (ir_handlers (rt_invocations s))\<rparr>\<rparr>))"
  by (erule owned_add [where h = "\<lambda>r. r\<lparr>fb_invocation_handlers := fb_invocation_handlers r @ [i]\<rparr>"])
     (auto simp: modify_fiber_def handler_bound_def split: if_splits)

lemma owned_add_middleware:
  "may_register adm f s \<Longrightarrow> owned (modify_fiber f (\<lambda>r. r\<lparr>fb_invocation_middleware := fb_invocation_middleware r @ [i]\<rparr>)
    (s\<lparr>rt_invocations := snd (register_middleware i (ca_scope adm) key mw (ca_gate adm) (rt_invocations s))\<rparr>))"
  by (erule owned_add [where h = "\<lambda>r. r\<lparr>fb_invocation_middleware := fb_invocation_middleware r @ [i]\<rparr>"])
     (auto simp: modify_fiber_def middleware_bound_def register_middleware_def split: if_splits)

lemma owned_add_service:
  "may_register adm f s \<Longrightarrow> lookup_symbol key s = Some symbol \<Longrightarrow>
   owned (modify_fiber f (\<lambda>r. r\<lparr>fb_provided := fb_provided r @ [key]\<rparr>)
    (s\<lparr>rt_services := service_insert (ca_scope adm) symbol \<lparr>se_owner = f, se_scope = ca_scope adm, se_value = v,
        se_gate = ca_gate adm\<rparr> (rt_services s)\<rparr>))"
  by (erule owned_add [where h = "\<lambda>r. r\<lparr>fb_provided := fb_provided r @ [key]\<rparr>"])
     (auto simp: modify_fiber_def service_insert_def bump_def service_get_def service_listed_def lookup_symbol_def
        service_lookup_def fiber_def split: if_splits)

section \<open>Operations that register nothing\<close>

lemma evict_keeps:
  "evict_loop limit s = Some t \<Longrightarrow> sr_entries t = sr_entries s \<and> sr_by_key t = sr_by_key s"
proof (induction rule: evict_loop.raw_induct [rotated, consumes 1, case_names 1])
  case (1 loop limit s t)
  show ?case
  proof (cases "unat (sr_max_cache_entries s) \<le> 0")
    case True
    with 1(2) show ?thesis by (force split: if_splits list.splits dest: 1(1))
  qed (use 1(2) in \<open>force split: if_splits list.splits dest: 1(1)\<close>)
qed

lemma resolve_keeps:
  assumes "resolve g requested xs symbol s = Some (e, t)"
  shows "sr_entries t = sr_entries s" and "sr_by_key t = sr_by_key s"
  using assms
  by (auto simp: resolve_def resolve_write_def Let_def split: cache_lookup.splits if_splits option.splits dest!: evict_keeps)

lemma owned_services:
  "owned s \<Longrightarrow> sr_entries sv = sr_entries (rt_services s) \<Longrightarrow> sr_by_key sv = sr_by_key (rt_services s) \<Longrightarrow> owned (s\<lparr>rt_services := sv\<rparr>)"
  by (erule owned_other) simp_all

text \<open>Predicates that see the Fibers and the registries only; they survive whatever waking a dependent does.\<close>

definition sees_registrations :: "(runtime \<Rightarrow> bool) \<Rightarrow> bool" where
  "sees_registrations I \<longleftrightarrow> (\<forall>s t. I s \<longrightarrow> rt_fibers t = rt_fibers s \<longrightarrow> rt_events t = rt_events s \<longrightarrow>
     rt_invocations t = rt_invocations s \<longrightarrow> sr_entries (rt_services t) = sr_entries (rt_services s) \<longrightarrow>
     sr_by_key (rt_services t) = sr_by_key (rt_services s) \<longrightarrow> I t)"

lemma owned_sees: "sees_registrations owned"
  by (auto simp: sees_registrations_def elim!: owned_other)

lemma seesD:
  assumes "sees_registrations I" and "I s" and "rt_fibers t = rt_fibers s" "rt_events t = rt_events s"
    "rt_invocations t = rt_invocations s" "sr_entries (rt_services t) = sr_entries (rt_services s)"
    "sr_by_key (rt_services t) = sr_by_key (rt_services s)"
  shows "I t"
  using assms unfolding sees_registrations_def by blast

lemma sees_resolve:
  assumes "sees_registrations I"
  shows "kept I (resolve_symbol scope symbol)"
proof (rule keptI)
  fix s r t
  assume s: "I s" "resolve_symbol scope symbol s = Some (r, t)"
  then show "I t"
    by (auto simp: resolve_symbol_def scope_ancestry_def andthen_def split: option.splits prod.splits res.splits
        elim!: seesD [OF assms] dest: resolve_keeps)
qed

lemma kept_intern_symbol: "kept I (intern_symbol key)"
  by (rule keptI) (simp add: intern_symbol_def)

lemma sees_dependencies_met:
  assumes "sees_registrations I"
  shows "kept I (dependencies_met scope keys)"
  by (induction keys) (auto intro!: kept_pass kept_andthen kept_intern_symbol sees_resolve [OF assms])

lemma sees_spawn_worker: "sees_registrations I \<Longrightarrow> kept I (spawn_worker kind cleanup)"
  by (rule keptI) (auto simp: spawn_worker_def within_def elim!: seesD split: prod.splits)

lemma sees_guard_free: "sees_registrations I \<Longrightarrow> guard_free I"
  by (auto simp: guard_free_def elim!: seesD)

lemma kept_owned_admission: "kept owned body \<Longrightarrow> kept owned (with_admission body)"
  by (rule kept_admission [OF owned_guard_free])

lemma kept_owned_gates: "kept owned (in_gates op)"
  by (rule kept_gates [OF owned_guard_free])

lemma sees_epoch: "sees_registrations I \<Longrightarrow> kept I bump_service_epoch"
  unfolding bump_service_epoch_def by (rule kept_update) (auto simp: bump_epoch_def bump_def elim!: seesD)

lemma sees_schedule:
  assumes "sees_registrations I"
  shows "kept I (schedule_activation f)"
proof -
  have "kept I (\<lambda>s. case aget (rt_pending_activations s) f of
       Some _ \<Rightarrow> Some (Ok (), s\<lparr>rt_pending_activations := aput f True (rt_pending_activations s)\<rparr>)
     | None \<Rightarrow> andthen (spawn_worker DependencyReconcileWorker False) (\<lambda>_. pass ())
         (s\<lparr>rt_pending_activations := aput f False (rt_pending_activations s)\<rparr>))"
    by (rule keptI)
       (auto split: option.splits elim!: seesD [OF assms]
          dest!: keptD [OF kept_andthen [OF sees_spawn_worker [OF assms] kept_pass], rotated 1])
  then show ?thesis
    unfolding schedule_activation_def by (intro kept_settle kept_admission [OF sees_guard_free [OF assms]] kept_pass)
qed

lemma sees_wake:
  assumes "sees_registrations I"
  shows "kept I (wake_dependent f)"
proof (rule keptI)
  fix s r t
  assume s: "I s" "wake_dependent f s = Some (r, t)"
  show "I t"
  proof (cases "\<exists>r. fiber f s = Some r \<and> fb_state r = WaitingDependencies")
    case True
    then obtain r0 where "fiber f s = Some r0" "fb_state r0 = WaitingDependencies" by blast
    with s(2) have run: "andthen (dependencies_met (fb_scope r0) (pd_dependencies (fb_descriptor r0)))
        (\<lambda>met. if met then schedule_activation f else pass ()) s = Some (r, t)"
      by (simp add: wake_dependent_def)
    have "kept I (andthen (dependencies_met (fb_scope r0) (pd_dependencies (fb_descriptor r0)))
        (\<lambda>met. if met then schedule_activation f else pass ()))"
      by (auto intro!: kept_andthen sees_dependencies_met [OF assms] sees_schedule [OF assms] kept_pass)
    from keptD [OF this s(1) run] show ?thesis .
  qed (use s in \<open>auto simp: wake_dependent_def split: option.splits if_splits\<close>)
qed

lemma sees_wake_dependents:
  assumes "sees_registrations I"
  shows "kept I (if b then andthen bump_service_epoch (\<lambda>_. andthen (reads (\<lambda>s. dependents symbol (rt_dependencies s)))
      (each wake_dependent)) else pass ())"
  by (auto intro!: kept_andthen sees_epoch [OF assms] kept_reads kept_each sees_wake [OF assms] kept_pass)

lemmas kept_resolve = sees_resolve [OF owned_sees]
  and kept_spawn_worker = sees_spawn_worker [OF owned_sees]
  and kept_epoch = sees_epoch [OF owned_sees]
  and kept_wake_dependents = sees_wake_dependents [OF owned_sees]

lemma kept_quota_owned: "kept owned (quota_error now resource limit sc f)"
  unfolding quota_error_def by (intro kept_andthen kept_update kept_give) simp

section \<open>The operations of a Context\<close>

text \<open>Between the reading of the Fiber and the lease, other threads leave its scope and its generation.\<close>

definition env_binds :: "fiber_id \<Rightarrow> (runtime \<Rightarrow> runtime) \<Rightarrow> bool" where
  "env_binds f env \<longleftrightarrow> (\<forall>s r r'. fiber f s = Some r \<longrightarrow> fiber f (env s) = Some r' \<longrightarrow>
     fb_scope r' = fb_scope r \<and> fb_capabilities r' = fb_capabilities r)"

lemma admitted_upd [simp]:
  "admitted adm f (s\<lparr>rt_gates := g\<rparr>) = admitted adm f s" "admitted adm f (s\<lparr>rt_admission := a\<rparr>) = admitted adm f s"
  by (simp_all add: admitted_def)

lemma triple_raise: "(\<And>s. P s \<Longrightarrow> E s) \<Longrightarrow> triple P (give (Err e)) Q E"
  by (rule triple_give) simp_all

lemma triple_admit:
  assumes "env_keeps owned env" and "env_binds (cx_fiber cx) env"
  shows "triple owned (admit_core env cx) (\<lambda>adm. admitted adm (cx_fiber cx)) owned"
proof -
  let ?f = "cx_fiber cx"
  let ?R = "\<lambda>r s. owned s \<and> fiber ?f s = Some r"
    and ?S = "\<lambda>r s. owned s \<and> (\<forall>r'. fiber ?f s = Some r' \<longrightarrow> fb_scope r' = fb_scope r \<and> fb_capabilities r' = fb_capabilities r)"
  have env: "triple (?R r) (update env) (\<lambda>_. ?S r) owned" for r
    using assms by (intro triple_update) (auto simp: env_keeps_def env_binds_def)
  have gate: "triple (?S r) (in_gates op) (\<lambda>_. ?S r) owned" for r and op :: "gate_store \<Rightarrow> bool cres \<times> gate_store"
    by (rule triple_within) (auto split: res.split)
  have drop: "triple (?S r) (andthen (in_gates op) (\<lambda>_. give (Err e))) Q owned"
    for r and op :: "gate_store \<Rightarrow> unit cres \<times> gate_store" and e and Q :: "context_admission \<Rightarrow> runtime \<Rightarrow> bool"
    by (rule triple_andthen [where R = "\<lambda>_. owned"], rule triple_within) (auto split: res.split intro: triple_raise)
  have leased: "triple (?S r) (if \<not> granted then give (Err e)
       else if \<not> lifecycle_admitted r then andthen (in_gates op) (\<lambda>_. give (Err e'))
       else pass \<lparr>ca_fiber = r, ca_scope = fb_scope r, ca_gate = fb_capabilities r, ca_cancelled = fb_cancelled r\<rparr>)
      (\<lambda>adm. admitted adm ?f) owned"
    for r e e' granted and op :: "gate_store \<Rightarrow> unit cres \<times> gate_store"
    by (rule triple_if, rule triple_raise, erule conjunct1, rule triple_if, rule drop, rule triple_pass)
       (simp only: admitted_def context_admission.simps, blast)
  show ?thesis
    unfolding admit_core_def
    by (rule triple_andthen [where R = ?R, OF triple_get_fiber], erule (1) conjI, assumption, rule triple_if, rule triple_raise,
        erule conjunct1, rule triple_andthen [OF env], rule triple_andthen [OF gate leased])
qed

lemma owned_with_context:
  assumes "env_keeps owned env" "env_binds (cx_fiber cx) env"
    and "\<And>adm. triple (admitted adm (cx_fiber cx)) (body adm) (\<lambda>_. owned) owned"
  shows "kept owned (with_context env cx body)"
proof -
  have "kept owned (andthen (in_gates op) (\<lambda>_. give r))" for op :: "gate_store \<Rightarrow> unit cres \<times> gate_store" and r :: "'a cres"
    by (intro kept_andthen kept_owned_gates kept_give)
  then have "triple (admitted adm (cx_fiber cx)) (settle (body adm) (\<lambda>r. andthen (in_gates op) (\<lambda>_. give r))) (\<lambda>_. owned) owned"
    for adm and op :: "gate_store \<Rightarrow> unit cres \<times> gate_store"
    by (intro triple_settle [OF assms(3)]) (simp add: kept_def)
  then show ?thesis
    unfolding with_context_def kept_def by (intro triple_andthen [OF triple_admit [OF assms(1,2)]])
qed

lemma triple_mutable_register:
  "triple (admitted adm f) (mutable_fiber f) (\<lambda>_. may_register adm f) owned"
proof -
  have "triple (\<lambda>s. admitted adm f s \<and> fiber f s = Some r) (andthen (give (ensure_mutable r f)) (\<lambda>_. pass r))
      (\<lambda>_. may_register adm f) owned" for r
    by (auto simp: triple_def andthen_def give_def pass_def ensure_mutable_def admitted_def may_register_def resting_def split: if_splits)
  then show ?thesis
    unfolding mutable_fiber_def
    by (intro triple_andthen [where R = "\<lambda>r s. admitted adm f s \<and> fiber f s = Some r", OF triple_get_fiber])
       (auto simp: admitted_def)
qed

lemma triple_ownedI: "kept owned m \<Longrightarrow> (\<And>s. P s \<Longrightarrow> owned s) \<Longrightarrow> triple P m (\<lambda>_. owned) owned"
  by (rule triple_kept)

text \<open>The operations, one by one.\<close>

lemma triple_read: "(\<And>a. triple P (f a) Q E) \<Longrightarrow> triple P (andthen (reads g) f) Q E"
  by (rule triple_andthen [where R = "\<lambda>_. P", OF triple_reads])

lemma triple_read_as: "(\<And>a. triple (\<lambda>s. P s \<and> g s = a) (f a) Q E) \<Longrightarrow> triple P (andthen (reads g) f) Q E"
  by (rule triple_andthen [where R = "\<lambda>a s. P s \<and> g s = a", OF triple_reads]) simp_all

lemma owned_registering:
  assumes "env_keeps owned env" "env_binds (cx_fiber cx) env"
    and "\<And>adm. triple (may_register adm (cx_fiber cx)) (body adm) (\<lambda>_. owned) owned"
  shows "kept owned (registering now env cx body)"
  unfolding registering_def
proof (intro kept_owned_admission owned_with_context assms(1,2))
  fix adm
  have quota: "triple (may_register adm (cx_fiber cx)) (ensure_handler_quota now r (cx_fiber cx))
      (\<lambda>_. may_register adm (cx_fiber cx)) owned" for r
    unfolding ensure_handler_quota_def quota_error_def
    by (rule triple_read, rule triple_if, rule triple_andthen [where R = "\<lambda>_. owned"], rule triple_update)
       (auto simp: may_register_owned intro!: triple_raise triple_pass)
  show "triple (admitted adm (cx_fiber cx)) (andthen (mutable_fiber (cx_fiber cx)) (\<lambda>r.
      andthen (ensure_handler_quota now r (cx_fiber cx)) (\<lambda>_. body adm))) (\<lambda>_. owned) owned"
    by (rule triple_andthen [OF triple_mutable_register], rule triple_andthen [OF quota], rule assms(3))
qed

lemma owned_on_event:
  assumes "env_keeps owned env" "env_binds (cx_fiber cx) env"
  shows "kept owned (on_event now env fresh cx event handler)"
  unfolding on_event_def
  by (rule owned_registering [OF assms], rule triple_andthen [where R = "\<lambda>_. owned"], rule triple_update)
     (auto intro: owned_add_event triple_pass)

lemma owned_middleware:
  assumes "env_keeps owned env" "env_binds (cx_fiber cx) env"
  shows "kept owned (invocation_middleware now env fresh cx key middleware)"
  unfolding invocation_middleware_def
  by (rule owned_registering [OF assms], rule triple_andthen [where R = "\<lambda>_. owned"], rule triple_update)
     (auto intro: owned_add_middleware triple_pass)

text \<open>The handler enters its registry in one step, and the list of its Fiber in the next.\<close>

definition entering_handler :: "context_admission \<Rightarrow> fiber_id \<Rightarrow> invocation_handler_id \<Rightarrow> runtime \<Rightarrow> bool" where
  "entering_handler adm f i t \<longleftrightarrow> (\<exists>s e. may_register adm f s \<and> handler_bound e (the (fiber f s)) \<and>
     t = s\<lparr>rt_invocations := (rt_invocations s)\<lparr>ir_handlers := aput i e (ir_handlers (rt_invocations s))\<rparr>\<rparr>)"

lemma entering_listed:
  assumes "entering_handler adm f i t"
  shows "owned (modify_fiber f (\<lambda>r. r\<lparr>fb_invocation_handlers := fb_invocation_handlers r @ [i]\<rparr>) t)"
proof -
  obtain s e where s: "may_register adm f s" "handler_bound e (the (fiber f s))"
      "t = s\<lparr>rt_invocations := (rt_invocations s)\<lparr>ir_handlers := aput i e (ir_handlers (rt_invocations s))\<rparr>\<rparr>"
    using assms by (auto simp: entering_handler_def)
  obtain r where r: "fiber f s = Some r" "fb_scope r = ca_scope adm" "fb_capabilities r = ca_gate adm"
    using s(1) by (auto simp: may_register_def)
  have e: "e = \<lparr>ih_scope = ca_scope adm, ih_key = ih_key e, ih_handler = ih_handler e, ih_gate = ca_gate adm\<rparr>"
    using s(2) r by (simp add: handler_bound_def)
  show ?thesis unfolding s(3) by (subst e) (rule owned_add_handler [OF s(1)])
qed

lemma owned_handle_invocation:
  assumes "env_keeps owned env" "env_binds (cx_fiber cx) env"
  shows "kept owned (handle_invocation now env fresh cx key handler)"
proof -
  have enter: "triple (may_register adm (cx_fiber cx)) (in_invocations (register_handler fresh (ca_scope adm) key handler (ca_gate adm) gates))
      (entering_handler adm (cx_fiber cx)) owned" for adm gates
  proof (rule triple_within)
    fix s r p
    assume s: "may_register adm (cx_fiber cx) s"
      and run: "register_handler fresh (ca_scope adm) key handler (ca_gate adm) gates (rt_invocations s) = (r, p)"
    let ?e = "\<lparr>ih_scope = ca_scope adm, ih_key = key, ih_handler = handler, ih_gate = ca_gate adm\<rparr>"
    have "handler_bound ?e (the (fiber (cx_fiber cx) s))" using s by (auto simp: may_register_def handler_bound_def)
    with s have "entering_handler adm (cx_fiber cx) fresh
        (s\<lparr>rt_invocations := (rt_invocations s)\<lparr>ir_handlers := aput fresh ?e (ir_handlers (rt_invocations s))\<rparr>\<rparr>)"
      unfolding entering_handler_def by blast
    with may_register_owned [OF s] run
    show "case r of Ok i \<Rightarrow> entering_handler adm (cx_fiber cx) i (s\<lparr>rt_invocations := p\<rparr>) | _ \<Rightarrow> owned (s\<lparr>rt_invocations := p\<rparr>)"
      by (auto simp: register_handler_def split: if_splits)
  qed
  show ?thesis
    unfolding handle_invocation_def
    by (rule owned_registering [OF assms], rule triple_read, rule triple_andthen [OF enter], rule triple_andthen [where R = "\<lambda>_. owned"], rule triple_update)
       (auto intro: entering_listed triple_pass)
qed

lemma owned_provide:
  assumes "env_keeps owned env" "env_binds (cx_fiber cx) env"
  shows "kept owned (provide env cx key v)"
proof -
  have insert: "triple (\<lambda>s. may_register adm (cx_fiber cx) s \<and> lookup_symbol key s = Some symbol)
      (andthen (update (\<lambda>s. modify_fiber (cx_fiber cx) (\<lambda>r. r\<lparr>fb_provided := fb_provided r @ [key]\<rparr>)
         (s\<lparr>rt_services := service_insert (ca_scope adm) symbol \<lparr>se_owner = cx_fiber cx, se_scope = ca_scope adm,
             se_value = ServiceNative v, se_gate = ca_gate adm\<rparr> (rt_services s)\<rparr>)))
       (\<lambda>_. if b then andthen bump_service_epoch (\<lambda>_. andthen (reads (\<lambda>s. dependents symbol (rt_dependencies s)))
            (each wake_dependent)) else pass ())) (\<lambda>_. owned) owned" for adm b symbol
    by (rule triple_andthen [OF _ kept_wake_dependents [unfolded kept_def]], rule triple_update) (auto intro: owned_add_service)
  show ?thesis
    unfolding provide_def
    by (rule kept_owned_admission, rule owned_with_context [OF assms], rule triple_andthen [OF triple_mutable_register],
        rule triple_if, rule triple_raise, erule may_register_owned, rule triple_read_as, rule triple_option,
        rule triple_raise, erule may_register_owned [OF conjunct1], rule triple_read, rule triple_if, rule triple_raise,
        erule may_register_owned [OF conjunct1], rule triple_weaken [OF insert]) auto
qed

text \<open>Effects, tasks and child scopes are the Fiber's alone.\<close>

lemma kept_list:
  assumes "\<And>r. holdings (h r) = holdings r" "\<And>r. fb_state (h r) = fb_state r"
    and "owned s"
  shows "owned (modify_fiber f h s)"
proof (rule owned_modify [OF assms(3)])
  have "empty_handed (h r) = empty_handed r" "resting (h r) = resting r" for r
    using assms(1) [of r] assms(2) [of r] by (simp_all add: empty_handed_def resting_def holdings_def)
  then show "empty_handed (h r)" if "fiber f s = Some r" "resting (h r)" for r
    using that assms(3) by (simp add: owned_def)
qed (simp add: assms)

lemma kept_update_list:
  "(\<And>r. holdings (h r) = holdings r) \<Longrightarrow> (\<And>r. fb_state (h r) = fb_state r) \<Longrightarrow> kept owned (update (modify_fiber f h))"
  by (rule kept_update) (rule kept_list)

lemma owned_plain_context:
  assumes "env_keeps owned env" "env_binds (cx_fiber cx) env" and "\<And>adm. kept owned (body adm)"
  shows "kept owned (with_context env cx body)"
  by (rule owned_with_context [OF assms(1,2) triple_kept [OF assms(3)]]) (simp add: admitted_def)

lemma owned_add_effect:
  assumes "env_keeps owned env" "env_binds (cx_fiber cx) env"
  shows "kept owned (add_effect now env cx effect)"
  unfolding add_effect_def
  by (intro kept_owned_admission owned_plain_context [OF assms] kept_andthen kept_mutable kept_reads)
     (auto intro!: kept_quota_owned kept_update kept_list simp: holdings_def)

lemma owned_spawn:
  assumes "env_keeps owned env" "env_binds (cx_fiber cx) env"
  shows "kept owned (context_spawn now env fresh cx)"
  unfolding context_spawn_def
  by (intro kept_owned_admission owned_plain_context [OF assms] kept_andthen kept_get_fiber)
     (auto intro!: kept_give kept_andthen kept_reads kept_quota_owned kept_update kept_pass kept_list simp: holdings_def)

section \<open>Collection\<close>

text \<open>A disposed Fiber lists nothing, so that its record can go.\<close>

lemma owned_collect: "owned s \<Longrightarrow> owned (snd (collect_garbage s))"
proof -
  assume s: "owned s"
  let ?t = "snd (collect_garbage s)"
  have d: "distinct (akeys (rt_fibers s))" using s by (simp add: owned_def)
  have f: "fiber f ?t = (case fiber f s of None \<Rightarrow> None | Some r \<Rightarrow> if fb_state r = Disposed then None else Some r)" for f
    by (simp add: fiber_def collect_fibers [OF d] aget_filter_values [OF d] split: option.split)
  have regs: "rt_events ?t = rt_events s" "rt_invocations ?t = rt_invocations s" "rt_services ?t = rt_services s"
    by (simp_all add: collect_garbage_def Let_def)
  show "owned ?t"
  proof (rule owned_frame [OF s])
    show "no_new_registration s ?t" by (simp add: no_new_registration_def regs)
    show "distinct (akeys (rt_fibers ?t))" unfolding collect_fibers [OF d] using d by (simp add: distinct_map_filter)
  qed (use s in \<open>auto simp: f owned_def resting_def split: option.splits if_splits\<close>)
qed

lemma kept_diverge: "kept I (\<lambda>_. None)"
  by (simp add: kept_def triple_diverge)

lemma owned_create_scope:
  assumes "env_keeps owned env" "env_binds (cx_fiber cx) env"
  shows "kept owned (context_create_scope now env fresh cx name)"
proof -
  have final: "kept owned (andthen (update (\<lambda>s. modify_fiber f (\<lambda>r. r\<lparr>fb_child_scopes := fb_child_scopes r @ [fresh]\<rparr>)
      (s\<lparr>rt_scopes := h s\<rparr>))) (\<lambda>_. pass fresh))" for f h
    by (intro kept_andthen kept_update kept_pass kept_list) (simp_all add: holdings_def)
  show ?thesis
    unfolding context_create_scope_def
    by (intro kept_owned_admission kept_andthen owned_plain_context [OF assms] kept_mutable kept_reads kept_update)
       (auto intro!: kept_quota_owned kept_andthen kept_reads kept_give kept_diverge final owned_collect split: option.split)
qed

text \<open>The six calls by which a plugin makes the Runtime hold something for it.\<close>

lemma owned_context_calls:
  assumes "env_keeps owned env" and "env_binds (cx_fiber cx) env"
  shows "kept owned (on_event now env handler cx event h)" "kept owned (handle_invocation now env server cx key h)"
    "kept owned (invocation_middleware now env middleware cx key h)" "kept owned (provide env cx service v)"
    "kept owned (add_effect now env cx effect)" "kept owned (context_spawn now env task cx)"
    "kept owned (context_create_scope now env scope cx name)"
  by (rule owned_on_event owned_handle_invocation owned_middleware owned_provide owned_add_effect owned_spawn owned_create_scope; fact assms)+

end
