(* ===== verification/Ownership_Lifecycle.thy ===== *)
theory Ownership_Lifecycle
  imports Ownership
begin

text \<open>
  The lifecycle keeps the ownership of registrations: disposal takes a registration off its list and out
  of its registry together, a Fiber comes to rest only with empty lists, an installation that is taken
  back had registered nothing, and the commit of a reload moves the registrations with their Fiber.
\<close>

section \<open>Withdrawal\<close>

text \<open>A Fiber's lists lose what the registries lose.\<close>

lemma owned_drop:
  assumes o: "owned s" and r: "fiber f s = Some r"
    and t: "rt_fibers t = rt_fibers (modify_fiber f h s)" "sr_by_key (rt_services t) = sr_by_key (rt_services s)"
    and h: "fb_scope (h r) = fb_scope r" "fb_capabilities (h r) = fb_capabilities r" "empty_handed r \<Longrightarrow> empty_handed (h r)" "fb_state (h r) = fb_state r"
    and events: "\<And>i e. aget (eb_handlers (rt_events t)) i = Some e \<Longrightarrow>
      aget (eb_handlers (rt_events s)) i = Some e \<and> (i \<in> set (fb_handlers r) \<longrightarrow> i \<in> set (fb_handlers (h r)))"
    and handlers: "\<And>i e. aget (ir_handlers (rt_invocations t)) i = Some e \<Longrightarrow>
      aget (ir_handlers (rt_invocations s)) i = Some e \<and> (i \<in> set (fb_invocation_handlers r) \<longrightarrow> i \<in> set (fb_invocation_handlers (h r)))"
    and middleware: "\<And>i e. aget (ir_middleware (rt_invocations t)) i = Some e \<Longrightarrow>
      aget (ir_middleware (rt_invocations s)) i = Some e \<and> (i \<in> set (fb_invocation_middleware r) \<longrightarrow> i \<in> set (fb_invocation_middleware (h r)))"
    and services: "\<And>scope symbol e. service_get scope symbol (rt_services t) = Some e \<Longrightarrow>
      service_get scope symbol (rt_services s) = Some e \<and> (se_owner e = f \<and> service_listed s scope symbol e \<longrightarrow>
        (\<exists>key. key \<in> set (fb_provided (h r)) \<and> lookup_symbol key s = Some symbol))"
  shows "owned t"
proof -
  have ft: "fiber g t = (if g = f then Some (h r) else fiber g s)" for g
    using fiber_cong [OF t(1), of g] r by simp
  have c: "carried (aget (eb_handlers (rt_events s))) event_bound fb_handlers s"
    "carried (aget (ir_handlers (rt_invocations s))) handler_bound fb_invocation_handlers s"
    "carried (aget (ir_middleware (rt_invocations s))) middleware_bound fb_invocation_middleware s" "services_carried s"
    "\<And>f r. fiber f s = Some r \<Longrightarrow> resting r \<Longrightarrow> empty_handed r" "distinct (akeys (rt_fibers s))"
    using o by (simp_all add: owned_def)
  have "carried (aget (eb_handlers (rt_events t))) event_bound fb_handlers t"
    by (rule carried_mono [OF c(1)]) (use events r h ft in \<open>auto simp: event_bound_def map_le_def\<close>)
  moreover have "carried (aget (ir_handlers (rt_invocations t))) handler_bound fb_invocation_handlers t"
    by (rule carried_mono [OF c(2)]) (use handlers r h ft in \<open>auto simp: handler_bound_def map_le_def\<close>)
  moreover have "carried (aget (ir_middleware (rt_invocations t))) middleware_bound fb_invocation_middleware t"
    by (rule carried_mono [OF c(3)]) (use middleware r h ft in \<open>auto simp: middleware_bound_def map_le_def\<close>)
  moreover have "services_carried t"
    unfolding services_carried_iff
  proof (intro allI impI)
    fix scope symbol e
    assume "service_get scope symbol (rt_services t) = Some e"
    note e = services [OF this]
    then have l: "service_listed s scope symbol e" using c(4) unfolding services_carried_iff by blast
    have lookup: "lookup_symbol key t = lookup_symbol key s" for key by (simp add: lookup_symbol_def service_lookup_def t(2))
    show "service_listed t scope symbol e"
    proof (cases "se_owner e = f")
      case True
      with e l obtain key where "key \<in> set (fb_provided (h r))" "lookup_symbol key s = Some symbol" by blast
      with True l r h(1,2) show ?thesis by (auto simp: service_listed_def ft lookup)
    qed (use l in \<open>auto simp: service_listed_def ft lookup\<close>)
  qed
  moreover have "distinct (akeys (rt_fibers t))" unfolding t(1) modify_fiber_keys by (fact c(6))
  ultimately show ?thesis
    using c(5) [of f r] c(5) h(3,4) r by (auto simp: owned_def ft resting_def)
qed

lemma last_or_butlast: "xs \<noteq> [] \<Longrightarrow> x \<in> set xs \<Longrightarrow> x \<noteq> last xs \<Longrightarrow> x \<in> set (butlast xs)"
  by (cases xs rule: rev_cases) auto

lemma owned_pop:
  assumes "\<And>s r. owned s \<Longrightarrow> fiber f s = Some r \<Longrightarrow> get r \<noteq> [] \<Longrightarrow>
     owned (g (last (get r)) (modify_fiber f (\<lambda>r. put (butlast (get r)) r) s))"
  shows "pop_step get put (\<lambda>x _. update (g x)) f (\<lambda>_. owned) owned"
  using assms by (simp add: pop_step_def update_def)

lemma owned_pop_events:
  "pop_step fb_handlers (\<lambda>xs r. r\<lparr>fb_handlers := xs\<rparr>) remove_event_handler f (\<lambda>_. owned) owned"
  unfolding remove_event_handler_def
proof (rule owned_pop)
  fix s r
  assume s: "owned s" "fiber f s = Some r" "fb_handlers r \<noteq> []"
  show "owned ((\<lambda>s. s\<lparr>rt_events := snd (bus_remove (last (fb_handlers r)) (rt_events s))\<rparr>)
      (modify_fiber f (\<lambda>r. r\<lparr>fb_handlers := butlast (fb_handlers r)\<rparr>) s))"
    by (rule owned_drop [OF s(1,2), where h = "\<lambda>r. r\<lparr>fb_handlers := butlast (fb_handlers r)\<rparr>"])
       (use s(2,3) in \<open>auto simp: bus_remove_handlers empty_handed_def last_or_butlast service_listed_def split: if_splits\<close>)
qed

lemma owned_pop_handlers:
  "pop_step fb_invocation_handlers (\<lambda>xs r. r\<lparr>fb_invocation_handlers := xs\<rparr>) remove_invocation_handler f (\<lambda>_. owned) owned"
  unfolding remove_invocation_handler_def
proof (rule owned_pop)
  fix s r
  assume s: "owned s" "fiber f s = Some r" "fb_invocation_handlers r \<noteq> []"
  show "owned ((\<lambda>s. s\<lparr>rt_invocations := snd (remove_handler (last (fb_invocation_handlers r)) (rt_invocations s))\<rparr>)
      (modify_fiber f (\<lambda>r. r\<lparr>fb_invocation_handlers := butlast (fb_invocation_handlers r)\<rparr>) s))"
    by (rule owned_drop [OF s(1,2), where h = "\<lambda>r. r\<lparr>fb_invocation_handlers := butlast (fb_invocation_handlers r)\<rparr>"])
       (use s(2,3) in \<open>auto simp: remove_handler_def empty_handed_def last_or_butlast service_listed_def split: if_splits\<close>)
qed

lemma owned_pop_middleware:
  "pop_step fb_invocation_middleware (\<lambda>xs r. r\<lparr>fb_invocation_middleware := xs\<rparr>) remove_invocation_middleware f (\<lambda>_. owned) owned"
  unfolding remove_invocation_middleware_def
proof (rule owned_pop)
  fix s r
  assume s: "owned s" "fiber f s = Some r" "fb_invocation_middleware r \<noteq> []"
  show "owned ((\<lambda>s. s\<lparr>rt_invocations := snd (remove_middleware (last (fb_invocation_middleware r)) (rt_invocations s))\<rparr>)
      (modify_fiber f (\<lambda>r. r\<lparr>fb_invocation_middleware := butlast (fb_invocation_middleware r)\<rparr>) s))"
    by (rule owned_drop [OF s(1,2), where h = "\<lambda>r. r\<lparr>fb_invocation_middleware := butlast (fb_invocation_middleware r)\<rparr>"])
       (use s(2,3) in \<open>auto simp: remove_middleware_def empty_handed_def last_or_butlast service_listed_def split: if_splits\<close>)
qed

text \<open>A service is found by the key that was popped, in the scope the loop was started with.\<close>

definition owned_in :: "fiber_id \<Rightarrow> scope_id \<Rightarrow> runtime \<Rightarrow> bool" where
  "owned_in f scope s \<longleftrightarrow> owned s \<and> (\<forall>r. fiber f s = Some r \<longrightarrow> fb_scope r = scope)"

lemma owned_unlist:
  assumes "owned s" "fiber f s = Some r" "fb_provided r \<noteq> []"
    and t: "rt_fibers t = rt_fibers (modify_fiber f (\<lambda>r. r\<lparr>fb_provided := butlast (fb_provided r)\<rparr>) s)"
      "sr_by_key (rt_services t) = sr_by_key (rt_services s)" "rt_events t = rt_events s" "rt_invocations t = rt_invocations s"
    and gone: "\<And>scope symbol e. service_get scope symbol (rt_services t) = Some e \<Longrightarrow> service_get scope symbol (rt_services s) = Some e \<and>
      \<not> (se_owner e = f \<and> scope = fb_scope r \<and> lookup_symbol (last (fb_provided r)) s = Some symbol)"
  shows "owned t"
proof (rule owned_drop [OF assms(1,2) t(1,2)])
  fix scope symbol e
  assume e: "service_get scope symbol (rt_services t) = Some e"
  show "service_get scope symbol (rt_services s) = Some e \<and> (se_owner e = f \<and> service_listed s scope symbol e \<longrightarrow>
      (\<exists>key. key \<in> set (fb_provided (r\<lparr>fb_provided := butlast (fb_provided r)\<rparr>)) \<and> lookup_symbol key s = Some symbol))"
    using gone [OF e] assms(2,3) last_or_butlast [of "fb_provided r"] by (auto simp: service_listed_def) metis
qed (simp_all add: t empty_handed_def)

lemma owned_pop_services:
  "pop_step fb_provided (\<lambda>xs r. r\<lparr>fb_provided := xs\<rparr>) (withdraw_service f scope) f (\<lambda>_. owned_in f scope) owned"
  unfolding pop_step_def
proof (intro allI impI)
  fix acc :: "service_symbol list" and s r
  assume s: "owned_in f scope s" "fiber f s = Some r" "fb_provided r \<noteq> []"
  let ?key = "last (fb_provided r)" and ?u = "modify_fiber f (\<lambda>r. r\<lparr>fb_provided := butlast (fb_provided r)\<rparr>) s"
  have o: "owned s" "fb_scope r = scope" using s by (auto simp: owned_in_def)
  have at: "owned_in f scope t" if "owned t" "rt_fibers t = rt_fibers ?u" for t
    using that s fiber_cong [OF that(2), of f] by (auto simp: owned_in_def)
  show "case withdraw_service f scope ?key acc ?u of None \<Rightarrow> True | Some (Ok acc', t) \<Rightarrow> owned_in f scope t | Some (_, t) \<Rightarrow> owned t"
  proof (cases "lookup_symbol ?key s")
    case None
    have "owned ?u" by (rule owned_unlist [OF o(1) s(2,3)]) (simp_all add: None)
    with None show ?thesis
      by (simp add: withdraw_service_def intern_symbol_def intern_def lookup_symbol_def andthen_def)
  next
    case (Some symbol)
    show ?thesis
    proof (cases "\<exists>e. service_get scope symbol (rt_services s) = Some e \<and> se_owner e = f")
      case True
      let ?t = "?u\<lparr>rt_services := snd (service_remove scope symbol (rt_services s))\<rparr>"
      have "owned ?t"
        by (rule owned_unlist [OF o(1) s(2,3)])
           (auto simp: service_remove_def service_get_def bump_def Let_def Some o(2) split: if_splits)
      with True Some at [of ?t] show ?thesis
        by (auto simp: withdraw_service_def intern_symbol_def intern_def lookup_symbol_def andthen_def reads_def update_def pass_def)
    next
      case False
      have "owned ?u" by (rule owned_unlist [OF o(1) s(2,3)]) (use False Some o(2) in auto)
      with False Some at [of ?u] show ?thesis
        by (auto simp: withdraw_service_def intern_symbol_def intern_def lookup_symbol_def andthen_def reads_def pass_def)
    qed
  qed
qed

section \<open>The worker of a disposal\<close>

text \<open>What the worker calls keeps the invariant, and puts nothing of the Fiber back.\<close>

definition teardown_keeps :: "teardown \<Rightarrow> bool" where
  "teardown_keeps td \<longleftrightarrow> (\<forall>e. kept owned (td_effect td e)) \<and> (\<forall>symbols. kept owned (td_reconcile td symbols)) \<and>
     (\<forall>c. kept owned (td_child td c)) \<and> env_keeps owned (td_lock td) \<and>
     (\<forall>wakes \<in> set (td_drains td). \<forall>wake \<in> set wakes. env_keeps owned wake) \<and>
     (\<forall>partial. td_abort td = Some partial \<longrightarrow> env_keeps owned partial)"

lemma kept_disposal_record: "kept owned (set_disposal_phase f phase)" "kept owned (push_disposal_error f phase' e)"
  unfolding set_disposal_phase_def push_disposal_error_def
  by (rule kept_update, rule kept_list, simp_all add: holdings_def)+

lemma kept_owned_recording: "kept owned m \<Longrightarrow> kept owned (recording f phase m)"
  unfolding recording_def
  by (intro kept_settle) (auto simp: kept_pass kept_disposal_record kept_give split: res.split)

lemma kept_owned_pop:
  "pop_step get put step f (\<lambda>_. owned) owned \<Longrightarrow> kept owned (pop_loop get put step f acc)"
  unfolding kept_def by (rule triple_weaken [OF triple_pop_loop [where I = "\<lambda>_. owned"]]) auto

lemma owned_pop_effects:
  assumes "teardown_keeps td"
  shows "pop_step fb_effects (\<lambda>xs r. r\<lparr>fb_effects := xs\<rparr>) (dispose_effect td f) f (\<lambda>_. owned) owned"
  unfolding pop_step_def
proof (intro allI impI)
  fix acc :: unit and s r
  assume s: "owned s"
  have "owned (modify_fiber f (\<lambda>r. r\<lparr>fb_effects := butlast (fb_effects r)\<rparr>) s)"
    by (rule kept_list [OF _ _ s]) (simp_all add: holdings_def)
  moreover have "kept owned (dispose_effect td f x acc)" for x
    unfolding dispose_effect_def using assms
    by (intro kept_settle) (auto simp: teardown_keeps_def kept_pass kept_disposal_record split: res.split)
  ultimately show "case dispose_effect td f (last (fb_effects r)) acc (modify_fiber f (\<lambda>r. r\<lparr>fb_effects := butlast (fb_effects r)\<rparr>) s) of
      None \<Rightarrow> True | Some (Ok acc', t) \<Rightarrow> owned t | Some (_, t) \<Rightarrow> owned t"
    by (auto split: option.split res.split dest: keptD)
qed

lemma owned_withdraw:
  assumes "teardown_keeps td"
  shows "kept owned (withdraw_registrations td f)"
proof -
  have services: "triple (\<lambda>s. owned s \<and> fiber f s = Some owner)
      (pop_loop fb_provided (\<lambda>xs r. r\<lparr>fb_provided := xs\<rparr>) (withdraw_service f (fb_scope owner)) f []) (\<lambda>_. owned) owned" for owner
    by (rule triple_weaken [OF triple_pop_loop [OF owned_pop_services]]) (auto simp: owned_in_def)
  have reconcile: "kept owned (if b then pass () else settle ensure_event_admitted (\<lambda>open. case open of
      Ok _ \<Rightarrow> recording f DependencyCleanup (td_reconcile td removed) | _ \<Rightarrow> pass ()))" for b removed
  proof -
    have r: "kept owned (recording f DependencyCleanup (td_reconcile td removed))"
      by (rule kept_owned_recording) (use assms in \<open>simp add: teardown_keeps_def\<close>)
    show ?thesis by (auto intro!: kept_pass kept_settle kept_open r split: res.split)
  qed
  have tail: "kept owned (andthen bump_service_epoch (\<lambda>_.
           andthen (set_disposal_phase f Effects) (\<lambda>_.
           andthen (pop_loop fb_effects (\<lambda>xs r. r\<lparr>fb_effects := xs\<rparr>) (dispose_effect td f) f ()) (\<lambda>_.
           andthen (set_disposal_phase f Reconciling) (\<lambda>_.
           andthen (reads (\<lambda>s. case fiber f s of None \<Rightarrow> False | Some r \<Rightarrow> fd_wait_for_dependencies (fb_disposal r))) (\<lambda>wait.
           andthen (if removed = [] then pass ()
                    else settle ensure_event_admitted (\<lambda>open. case open of
                      Ok _ \<Rightarrow> recording f DependencyCleanup (td_reconcile td removed) | _ \<Rightarrow> pass ())) (\<lambda>_.
           andthen (reads (disposal_result f)) (\<lambda>result.
             pass (result, Some (if wait then WaitingDependencies else Disposed), False)))))))))" for removed
    by (intro kept_andthen kept_epoch kept_disposal_record kept_owned_pop [OF owned_pop_effects [OF assms]] kept_reads reconcile kept_pass)
  have owner: "kept owned (andthen (reads (fiber f)) (\<lambda>owner. case owner of
         None \<Rightarrow> pass (Err (DisposalWorkerTerminated (ErrText FiberNotFound)), None, True)
       | Some owner \<Rightarrow> andthen (pop_loop fb_provided (\<lambda>xs r. r\<lparr>fb_provided := xs\<rparr>) (withdraw_service f (fb_scope owner)) f []) rest))" if "\<And>removed. kept owned (rest removed)" for rest :: "service_symbol list \<Rightarrow> worker_end run"
    unfolding kept_def
    by (rule triple_read_as, rule triple_option, rule triple_pass, simp,
        rule triple_andthen [where R = "\<lambda>_. owned", OF triple_weaken [OF services]]) (use that in \<open>auto simp: kept_def\<close>)
  show ?thesis
    unfolding withdraw_registrations_def
    by (rule owner [OF tail] kept_andthen [OF kept_disposal_record(1)] kept_andthen [OF kept_owned_pop [OF owned_pop_events]]
          kept_andthen [OF kept_owned_pop [OF owned_pop_handlers]] kept_andthen [OF kept_owned_pop [OF owned_pop_middleware]])+
qed

lemma owned_tasks: "kept owned (in_tasks op)"
proof (rule keptI)
  fix s r t
  assume s: "owned s" "in_tasks op s = Some (r, t)"
  have f: "\<exists>g. fiber f t = map_option (\<lambda>r. r\<lparr>fb_tasks := g r\<rparr>) (fiber f s)" for f using fiber_in_tasks [OF s(2)] by blast
  have regs: "rt_events t = rt_events s" "rt_invocations t = rt_invocations s" "rt_services t = rt_services s"
    using fiber_in_tasks [OF s(2)] by blast+
  show "owned t"
  proof (rule owned_frame [OF s(1)])
    show "no_new_registration s t" by (simp add: no_new_registration_def regs)
    show "distinct (akeys (rt_fibers t))"
      using s by (auto simp: owned_def in_tasks_def Let_def comp_def split_beta' split: prod.splits)
    show "empty_handed r" if "fiber f t = Some r" "resting r" for f r
    proof -
      obtain g where "fiber f t = map_option (\<lambda>r. r\<lparr>fb_tasks := g r\<rparr>) (fiber f s)" using f by blast
      with that(1) obtain r0 where r0: "fiber f s = Some r0" "r = r0\<lparr>fb_tasks := g r0\<rparr>" by auto
      then have "resting r0" using that(2) by (simp add: resting_def)
      with s(1) r0(1) have "empty_handed r0" by (simp add: owned_def)
      with r0(2) show ?thesis by (simp add: empty_handed_def)
    qed
    show "\<exists>r'. fiber f t = Some r' \<and> holdings r' = holdings r" if "fiber f s = Some r" for f r
      using f [of f] that by (auto simp: holdings_def)
  qed
qed

lemma owned_disposal_body:
  assumes td: "teardown_keeps td"
  shows "kept owned (run_fiber_disposal_body td f)"
proof -
  have wakes: "kept owned (drain_wait g wakes)" if "\<forall>wake \<in> set wakes. env_keeps owned wake" for g wakes
    using that by (induction wakes) (auto intro!: kept_reads kept_andthen kept_pass kept_env)
  have drain: "kept owned (drain_generation f g calls)" if "\<forall>wakes \<in> set calls. \<forall>wake \<in> set wakes. env_keeps owned wake" for g calls
    using that
    by (induction calls) (auto intro!: kept_diverge kept_andthen kept_owned_gates wakes kept_pass kept_reads split: drain_outcome.split)
  have children: "kept owned (dispose_children (td_child td) f)"
  proof (rule keptI)
    fix s r t
    assume s: "owned s" "dispose_children (td_child td) f s = Some (r, t)"
    have "kept owned (recording f ChildScopeCleanup (td_child td c))" for c
      by (rule kept_owned_recording) (use td in \<open>simp add: teardown_keeps_def\<close>)
    moreover have "owned (modify_fiber f (\<lambda>r. r\<lparr>fb_child_scopes := filter (\<lambda>i. i \<noteq> c) (fb_child_scopes r)\<rparr>) s)" if "owned s" for c s
      by (rule kept_list [OF _ _ that]) (simp_all add: holdings_def)
    ultimately have "owned (snd (r, t))" using kept_children_partial [where I = owned, OF s(2) _ _ s(1)] by blast
    then show "owned t" by simp
  qed
  have "kept owned (teardown_phase td f)"
    unfolding teardown_phase_def by (intro kept_andthen kept_disposal_record children owned_withdraw [OF td])
  then have "kept owned (stop_and_teardown td f r)" for r
    unfolding stop_and_teardown_def using td
    by (intro kept_andthen kept_update_list kept_owned_recording owned_tasks kept_disposal_record drain)
       (auto intro: kept_pass simp: holdings_def teardown_keeps_def split: option.split)
  then show ?thesis
    unfolding run_fiber_disposal_body_def using td
    by (auto intro!: kept_andthen kept_reads kept_pass kept_env split: option.split simp: teardown_keeps_def)
qed

section \<open>The end of a disposal\<close>

text \<open>Under the condition \<open>b\<close>, the Fiber lists nothing.\<close>

definition hands_empty :: "bool \<Rightarrow> fiber_id \<Rightarrow> runtime \<Rightarrow> bool" where
  "hands_empty b f s \<longleftrightarrow> owned s \<and> (b \<longrightarrow> (\<forall>r. fiber f s = Some r \<longrightarrow> empty_handed r))"

lemma hands_empty_modify:
  assumes "\<And>r. holdings (h r) = holdings r" "\<And>r. fb_state (h r) = fb_state r" and "hands_empty b f s"
  shows "hands_empty b f (modify_fiber g h s)"
proof -
  have "empty_handed (h r) = empty_handed r" for r using assms(1) [of r] by (simp add: holdings_def empty_handed_def)
  with assms(3) kept_list [OF assms(1,2)] show ?thesis by (auto simp: hands_empty_def)
qed

lemma hands_empty_upd [simp]:
  "hands_empty b f (s\<lparr>rt_dependencies := d\<rparr>) = hands_empty b f s" "hands_empty b f (s\<lparr>rt_scopes := sc\<rparr>) = hands_empty b f s"
  by (simp_all add: hands_empty_def fiber_def)

lemma kept_clean: "(\<And>s d. I s \<Longrightarrow> I (s\<lparr>rt_dependencies := d\<rparr>)) \<Longrightarrow> (\<And>s sc. I s \<Longrightarrow> I (s\<lparr>rt_scopes := sc\<rparr>)) \<Longrightarrow> kept I (clean_indexes f r)"
  unfolding clean_indexes_def by (intro kept_andthen kept_each kept_intern_symbol kept_update) auto

lemma kept_request_gc: "kept owned request_gc"
proof -
  have "kept owned (\<lambda>s. case cas 0 1 (rt_gc_state s) of
       (Inr _, w) \<Rightarrow> andthen (spawn_worker GcReconcileWorker True) (\<lambda>_. pass ()) (s\<lparr>rt_gc_state := w\<rparr>)
     | (Inl seen, w) \<Rightarrow> if seen = 1 then Some (Ok (), s\<lparr>rt_gc_state := snd (cas 1 2 w)\<rparr>) else Some (Ok (), s))"
    by (rule keptI)
       (auto simp: cas_def split: if_splits dest!: keptD [OF kept_andthen [OF kept_spawn_worker kept_pass], rotated 1])
  then show ?thesis
    unfolding request_gc_def by (intro kept_settle kept_owned_admission kept_pass)
qed

lemma owned_publish:
  "triple (hands_empty (\<not> terminated \<and> target \<noteq> None) f) (publish_disposal f result target terminated) (\<lambda>_. owned) owned"
proof -
  let ?P = "hands_empty (\<not> terminated \<and> target \<noteq> None) f"
  let ?h = "\<lambda>d r. r\<lparr>fb_state := (case target of Some t \<Rightarrow> if terminated then fb_state r else t | None \<Rightarrow> fb_state r), fb_disposal := d r\<rparr>"
  have o: "?P s \<Longrightarrow> owned s" for s by (simp add: hands_empty_def)
  have "owned (modify_fiber f (?h d) s)" if "?P s" for d s
  proof (rule owned_modify [OF o [OF that]])
    show "empty_handed (?h d r)" if "fiber f s = Some r" "resting (?h d r)" for r
      using that \<open>?P s\<close> by (auto simp: hands_empty_def owned_def resting_def empty_handed_def split: option.splits if_splits)
  qed (simp add: holdings_def)
  then show ?thesis
    unfolding publish_disposal_def Let_def split_beta'
    by (intro triple_read triple_option triple_raise triple_andthen [OF triple_update triple_give]) (use o in auto)
qed

text \<open>A final state that rests is written only when the Fiber's lists are empty.\<close>

lemma owned_finalize:
  "triple (hands_empty (\<not> terminated \<and> target \<noteq> None) f) (finalize_fiber_disposal f result target terminated) (\<lambda>_. owned) owned"
proof -
  let ?P = "hands_empty (\<not> terminated \<and> target \<noteq> None) f"
  have o: "?P s \<Longrightarrow> owned s" for s by (simp add: hands_empty_def)
  have phase: "triple ?P (set_disposal_phase f Finalizing) (\<lambda>_. ?P) owned"
    unfolding set_disposal_phase_def
    by (rule triple_update, rule hands_empty_modify) (simp_all add: holdings_def)
  have clean: "triple ?P (if b then clean_indexes f r else pass ()) (\<lambda>_. ?P) owned" for b r
  proof -
    have "kept ?P (clean_indexes f r)" by (rule kept_clean) simp_all
    then have "triple ?P (clean_indexes f r) (\<lambda>_. ?P) owned"
      unfolding kept_def by (rule triple_weaken) (auto intro: o)
    then show ?thesis by (auto intro: triple_pass)
  qed
  have gc: "triple owned (andthen request_gc (\<lambda>_. give r)) (\<lambda>_. owned) owned" for r :: "unit cres"
    using kept_andthen [OF kept_request_gc kept_give] by (simp add: kept_def)
  show ?thesis
    unfolding finalize_fiber_disposal_def Let_def
    by (rule triple_read, rule triple_option, rule triple_raise, erule o,
        rule triple_andthen [OF phase], rule triple_andthen [OF clean], rule triple_andthen [OF owned_publish], rule gc)
qed

lemma triple_conj:
  "triple P m Q E \<Longrightarrow> triple P' m Q' E' \<Longrightarrow> triple (\<lambda>s. P s \<and> P' s) m (\<lambda>a s. Q a s \<and> Q' a s) (\<lambda>s. E s \<and> E' s)"
  by (fastforce simp: triple_def split: res.splits)

text \<open>However the worker ends - with its result, with a panic, or dropped by the executor.\<close>

lemma owned_worker:
  assumes td: "teardown_keeps td" "puts_nothing_back td f r"
  shows "triple (\<lambda>s. owned s \<and> withdrawal 0 f r s) (disposal_worker td f) (\<lambda>_. owned) owned"
proof -
  let ?P = "\<lambda>s. owned s \<and> withdrawal 0 f r s"
  let ?finish = "\<lambda>(_ :: unit cres, target :: fiber_state option, terminated) s. hands_empty (\<not> terminated \<and> target \<noteq> None) f s"
  have withdrawn: "triple (withdrawal 0 f r) (run_fiber_disposal_body td f)
      (\<lambda>(_, _, terminated) s. terminated \<or> (\<forall>r. fiber f s = Some r \<longrightarrow> empty_handed r)) (\<lambda>_. True)"
  proof (rule triple_weaken [OF worker_reaches_teardown [OF td(2)]])
    show "(case a of (_, _, terminated) \<Rightarrow> \<lambda>s. terminated \<or> (\<forall>r. fiber f s = Some r \<longrightarrow> empty_handed r)) s"
      if e: "(case a of (result, target, terminated) \<Rightarrow> \<lambda>t. terminated \<or> (\<exists>u. withdrawal 0 f r u \<and> execution_inflight (gate_word (fb_capabilities r) u) = 0 \<and>
       teardown_phase td f u = Some (Ok (result, target, terminated), t))) s" for a s
    proof (cases "snd (snd a)")
      case False
      obtain result target terminated where a: "a = (result, target, terminated)" by (metis prod_cases3)
      with e False obtain u where "withdrawal 0 f r u" "teardown_phase td f u = Some (Ok (result, target, terminated), s)" by auto
      from tripleD_Ok [OF teardown_phase_withdraws [OF td(2)] this] a False show ?thesis
        by (auto simp: withdrawal_def empty_handed_def)
    qed (use e in \<open>auto split: prod.splits\<close>)
  qed simp_all
  have body: "triple ?P (run_fiber_disposal_body td f) ?finish owned"
    using triple_conj [OF owned_disposal_body [OF td(1), of f, unfolded kept_def] withdrawn]
    by (rule triple_weaken) (auto simp: hands_empty_def split: prod.splits)
  have outcome: "triple ?P (worker_outcome td f) ?finish owned"
  proof (cases "td_abort td")
    case None
    have "triple ?P (settle (run_fiber_disposal_body td f) (\<lambda>x. case x of
        Panicked p \<Rightarrow> pass (Err (DisposalWorkerPanicked (Lit p)), None, True) | x \<Rightarrow> give x)) ?finish owned"
      by (rule triple_settle_cases [OF body]) (auto simp: triple_def give_def pass_def hands_empty_def)
    with None show ?thesis by (simp add: worker_outcome_def)
  next
    case (Some partial)
    have "triple ?P (andthen (update partial) (\<lambda>_. pass (Err DisposalWorkerCancelled, None, True))) ?finish owned"
      using td(1) Some
      by (intro triple_andthen [where R = "\<lambda>_. owned", OF triple_update triple_pass])
         (auto simp: teardown_keeps_def env_keeps_def hands_empty_def)
    with Some show ?thesis by (simp add: worker_outcome_def)
  qed
  show ?thesis
    unfolding disposal_worker_def
    by (rule triple_andthen [OF outcome])
       (auto intro!: triple_settle [OF owned_finalize [THEN triple_weaken]] triple_pass)
qed

section \<open>Begin of a disposal, activation, installation\<close>

text \<open>A change of the record that the registries do not see and that does not bring the Fiber to rest.\<close>

lemma kept_holdings:
  assumes "\<And>r. holdings (h r) = holdings r" "\<And>r. resting (h r) \<Longrightarrow> resting r" and "owned s"
  shows "owned (modify_fiber f h s)"
proof (rule owned_modify [OF assms(3)])
  have "empty_handed (h r) = empty_handed r" for r using assms(1) [of r] by (simp add: holdings_def empty_handed_def)
  then show "empty_handed (h r)" if "fiber f s = Some r" "resting (h r)" for r
    using that assms(2,3) by (simp add: owned_def)
qed (simp add: assms)

lemma kept_update_holdings:
  "(\<And>r. holdings (h r) = holdings r) \<Longrightarrow> (\<And>r. resting (h r) \<Longrightarrow> resting r) \<Longrightarrow> kept owned (update (modify_fiber f h))"
  by (rule kept_update) (rule kept_holdings)

lemma kept_drop_activation: "kept owned (drop_activation f)"
proof -
  have "owned (modify_fiber f (\<lambda>r. r\<lparr>fb_activation := None\<rparr>) u)" if "owned u" for u
    by (rule kept_holdings [OF _ _ that]) (simp_all add: holdings_def resting_def)
  then show ?thesis
    unfolding drop_activation_def
    by (auto intro!: kept_andthen kept_reads kept_pass kept_update split: option.split)
qed

lemma owned_begin_disposal: "kept owned (begin_disposal f wait persistent allow)"
  unfolding begin_disposal_def
  by (intro kept_andthen kept_get_fiber kept_if kept_give kept_update_holdings kept_pass kept_owned_gates kept_drop_activation)
     (simp_all add: holdings_def resting_def)

lemma owned_transition: "next \<notin> {WaitingDependencies, Disposed, Created} \<Longrightarrow> kept owned (transition f next)"
  unfolding transition_def
  by (intro kept_andthen kept_get_fiber kept_if kept_give kept_update_holdings) (auto simp: holdings_def resting_def)

text \<open>What the start of the plugin and the parameters of an activation keep.\<close>

definition activation_keeps :: "activation \<Rightarrow> bool" where
  "activation_keeps ac \<longleftrightarrow> (\<forall>p cx. kept owned (ac_start ac p cx)) \<and> env_keeps owned (ac_lock ac) \<and> env_keeps owned (ac_gap ac) \<and>
     (\<forall>partial. ac_interrupt ac = Some partial \<longrightarrow> env_keeps owned partial) \<and> (\<forall>f. kept owned (ac_dispose ac f)) \<and>
     (\<forall>symbols. kept owned (ac_reconcile ac symbols))"

lemma kept_open_activation: "owned s \<Longrightarrow> owned (open_activation f s)"
proof -
  have "owned (modify_fiber f (\<lambda>r. r\<lparr>fb_activation := None\<rparr>) u)" if "owned u" for u
    by (rule kept_holdings [OF _ _ that]) (simp_all add: holdings_def resting_def)
  then show "owned s \<Longrightarrow> ?thesis" by (simp add: open_activation_def split: option.split)
qed

lemma kept_in_plugins: "kept owned (in_plugins op)"
  by (rule keptI) (auto simp: within_def split: prod.splits)

text \<open>A fresh generation is given to a Fiber at rest, which lists nothing.\<close>

definition at_rest :: "fiber_id \<Rightarrow> runtime \<Rightarrow> bool" where
  "at_rest f s \<longleftrightarrow> owned s \<and> (\<forall>r. fiber f s = Some r \<longrightarrow> resting r)"

lemma at_rest_modify:
  "at_rest f s \<Longrightarrow> (\<And>r. fb_state (h r) = fb_state r) \<Longrightarrow> (\<And>r. empty_handed r \<Longrightarrow> empty_handed (h r)) \<Longrightarrow> at_rest f (modify_fiber f h s)"
proof -
  assume s: "at_rest f s" and h: "\<And>r. fb_state (h r) = fb_state r" "\<And>r. empty_handed r \<Longrightarrow> empty_handed (h r)"
  have e: "empty_handed r" if "fiber f s = Some r" for r using s that by (simp add: at_rest_def owned_def)
  have "owned (modify_fiber f h s)" by (rule owned_modify) (use s e h(2) in \<open>auto simp: at_rest_def\<close>)
  then show "at_rest f (modify_fiber f h s)" using s h(1) by (auto simp: at_rest_def resting_def)
qed

lemma at_rest_upd [simp]: "at_rest f (s\<lparr>rt_gates := g\<rparr>) = at_rest f s" "at_rest f (s\<lparr>rt_plugins := p\<rparr>) = at_rest f s"
  by (simp_all add: at_rest_def fiber_def)

lemma owned_renew: "triple (at_rest f) (renew_generation ac f p) (\<lambda>_. owned) owned"
proof -
  have 1: "triple (at_rest f) (update (modify_fiber f (\<lambda>r. r\<lparr>fb_disposal := fiber_disposal_default, fb_cancelled := False\<rparr>)))
      (\<lambda>_. at_rest f) owned"
    by (rule triple_update, erule at_rest_modify) (simp_all add: empty_handed_def)
  have 2: "triple (at_rest f) (in_plugins (allocate_generation p)) (\<lambda>_. at_rest f) owned"
    by (rule triple_within) (auto simp: at_rest_def split: res.split)
  have 3: "owned (modify_fiber f (\<lambda>r. r\<lparr>fb_generation := g, fb_capabilities := c\<rparr>) (s\<lparr>rt_gates := gs\<rparr>))" if "at_rest f s" for g c gs s
  proof -
    have "at_rest f (modify_fiber f (\<lambda>r. r\<lparr>fb_generation := g, fb_capabilities := c\<rparr>) (s\<lparr>rt_gates := gs\<rparr>))"
      by (rule at_rest_modify) (use that in \<open>simp_all add: empty_handed_def\<close>)
    then show ?thesis by (simp only: at_rest_def)
  qed
  show ?thesis
    unfolding renew_generation_def
    by (rule triple_andthen [OF 1], rule triple_andthen [OF 2]) (auto intro!: triple_update 3)
qed

lemma owned_begin_activation: "kept owned (begin_activation ac f p)"
proof -
  have start: "kept owned (update (\<lambda>s. modify_fiber f (\<lambda>r. r\<lparr>fb_state := Starting, fb_activation_sealed := False, fb_activation := Some b\<rparr>)
         (s\<lparr>rt_barriers := h s\<rparr>)))" for b h
    by (rule kept_update, rule kept_holdings) (simp_all add: holdings_def resting_def)
  have tail: "kept owned (andthen (drop_activation f) (\<lambda>_. update (\<lambda>s. modify_fiber f
      (\<lambda>r. r\<lparr>fb_state := Starting, fb_activation_sealed := False, fb_activation := Some b\<rparr>) (s\<lparr>rt_barriers := h s\<rparr>))))" for b h
    by (intro kept_andthen kept_drop_activation start)
  have renew: "triple (\<lambda>s. owned s \<and> fiber f s = Some r) (if c \<and> resting r then renew_generation ac f p else pass ()) (\<lambda>_. owned) owned" for r c
    by (rule triple_if, rule triple_weaken [OF owned_renew]) (auto simp: at_rest_def intro: triple_pass)
  have body: "kept owned (andthen (get_fiber f) (\<lambda>r.
     if fb_state r \<notin> {Created, WaitingDependencies} then give (Err (InvalidFiberState f (fb_state r) Starting))
     else andthen (if fb_state r = WaitingDependencies \<and> fd_phase (fb_disposal r) = Complete then renew_generation ac f p else pass ()) (\<lambda>_.
       andthen (drop_activation f) (\<lambda>_. update (\<lambda>s. modify_fiber f
         (\<lambda>r. r\<lparr>fb_state := Starting, fb_activation_sealed := False, fb_activation := Some b\<rparr>) (s\<lparr>rt_barriers := h s\<rparr>))))))" for b h
  proof -
    have eq: "(fb_state r = WaitingDependencies \<and> c) = ((fb_state r = WaitingDependencies \<and> c) \<and> resting r)" for r c
      by (auto simp: resting_def)
    show ?thesis
      unfolding kept_def
      by (rule triple_andthen [where R = "\<lambda>r s. owned s \<and> fiber f s = Some r", OF triple_get_fiber], erule (1) conjI, assumption,
          rule triple_if, rule triple_raise, erule conjunct1, subst eq, rule triple_andthen [OF renew], rule tail [unfolded kept_def])
  qed
  show ?thesis unfolding begin_activation_def by (intro kept_owned_admission body)
qed

lemma kept_asks_owned: "kept owned (asks g)"
  by (rule kept_asks)

lemma owned_fail: "kept owned (fail_activation f)"
  unfolding fail_activation_def
  by (intro kept_andthen kept_drop_activation kept_update_holdings) (auto simp: holdings_def resting_def split: if_splits)

lemma owned_publish_activation: "kept owned (publish_activation f)"
proof -
  have commit: "kept owned (andthen (update (modify_fiber f (\<lambda>r. r\<lparr>fb_staged := False, fb_state := Active, fb_activation_sealed := False\<rparr>)))
      (\<lambda>_. andthen bump_service_epoch (\<lambda>_. update (open_activation f))))"
    by (intro kept_andthen kept_update_holdings kept_epoch kept_update) (auto simp: holdings_def resting_def kept_open_activation)
  show ?thesis
    unfolding publish_activation_def
    by (intro kept_andthen kept_get_fiber kept_if kept_give kept_reads kept_owned_gates commit)
qed

lemma owned_activate:
  assumes ac: "activation_keeps ac"
  shows "kept owned (activate ac f)"
proof -
  have a: "kept owned (update (ac_gap ac))" "kept owned (update (ac_lock ac))" "\<And>p cx. kept owned (ac_start ac p cx)"
      "\<And>f. kept owned (ac_dispose ac f)" "\<And>symbols. kept owned (ac_reconcile ac symbols)"
      "\<And>partial. ac_interrupt ac = Some partial \<Longrightarrow> kept owned (update partial)"
    using ac by (auto simp: activation_keeps_def intro: kept_env)
  have converge: "kept owned (converge_failed_activation ac f e)" for e
    unfolding converge_failed_activation_def
    by (intro kept_andthen owned_fail kept_settle a) (auto intro: kept_give split: res.split)
  have commit: "kept owned (commit_activation ac f)"
    unfolding commit_activation_def
    by (intro kept_andthen kept_get_fiber kept_asks kept_owned_admission owned_publish_activation a kept_pass)
  have finish: "kept owned (finish_activation ac f)"
    unfolding finish_activation_def
    by (intro kept_andthen kept_reads kept_if kept_update_holdings kept_settle commit)
       (auto simp: holdings_def resting_def intro!: kept_pass kept_settle a converge kept_give split: res.split)
  have seal: "kept owned (seal_activation f)"
    unfolding seal_activation_def
    by (intro kept_settle kept_owned_admission kept_andthen kept_reads kept_if kept_update_list kept_pass)
       (auto simp: holdings_def intro: kept_pass split: res.split)
  have valid: "kept owned (validate_staged_revision f)"
    unfolding validate_staged_revision_def by (intro kept_andthen kept_get_fiber kept_if kept_give kept_pass)
  have after: "kept owned (after_start ac f result)" for result
    unfolding after_start_def
    by (auto intro!: kept_andthen seal converge kept_settle valid a finish kept_give split: res.split)
  have start: "kept owned (start_plugin ac f r)" for r
    unfolding start_plugin_def
    by (auto intro!: kept_andthen kept_reads kept_give kept_settle a split: option.split)
  have "kept owned (activate_body ac f)"
    unfolding activate_body_def
    by (intro kept_andthen kept_asks a owned_begin_activation kept_get_fiber kept_settle start after)
  then show ?thesis
    unfolding activate_def by (rule kept_settle) (auto intro: converge kept_give split: res.split)
qed

text \<open>An installed Fiber has registered nothing until it starts, so that it can be taken out again.\<close>

definition created :: "fiber_id \<Rightarrow> runtime \<Rightarrow> bool" where
  "created f s \<longleftrightarrow> owned s \<and> (\<forall>r. fiber f s = Some r \<longrightarrow> fb_state r = Created)"

definition absent :: "fiber_id \<Rightarrow> runtime \<Rightarrow> bool" where
  "absent f s \<longleftrightarrow> owned s \<and> fiber f s = None"

lemma created_upd [simp]:
  "created f (s\<lparr>rt_dependencies := d\<rparr>) = created f s" "created f (s\<lparr>rt_admission := a\<rparr>) = created f s"
  "created f (s\<lparr>rt_gates := g\<rparr>) = created f s"
  by (simp_all add: created_def fiber_def)

lemma absent_upd [simp]:
  "absent f (s\<lparr>rt_admission := a\<rparr>) = absent f s" "absent f (s\<lparr>rt_plugins := p\<rparr>) = absent f s"
  "absent f (s\<lparr>rt_gates := g\<rparr>) = absent f s" "absent f (s\<lparr>rt_plugins := p, rt_gates := g\<rparr>) = absent f s"
  by (simp_all add: absent_def fiber_def)

lemma absent_intern: "kept (absent f) (intern_service key)"
proof (rule keptI)
  fix s r t
  assume s: "absent f s" "intern_service key s = Some (r, t)"
  then obtain sv where sv: "try_intern key (rt_services s) = (r, sv)" "t = s\<lparr>rt_services := sv\<rparr>"
    by (auto simp: intern_service_def within_def split: prod.splits)
  have "sr_entries sv = sr_entries (rt_services s)" "aget (sr_by_key (rt_services s)) \<subseteq>\<^sub>m aget (sr_by_key sv)"
    using sv(1) by (auto simp: try_intern_def map_le_def Let_def split: option.splits if_splits)
  with s(1) sv(2) show "absent f t"
    by (auto simp: absent_def fiber_def intro!: owned_other [of s])
qed

lemma absent_stage: "kept (absent f) m \<Longrightarrow> triple (absent f) m (\<lambda>_. absent f) owned"
  unfolding kept_def by (erule triple_weaken) (auto simp: absent_def)

lemma created_stage: "kept (created f) m \<Longrightarrow> triple (created f) m (\<lambda>_. created f) owned"
  unfolding kept_def by (erule triple_weaken) (auto simp: created_def)

lemma created_enter:
  assumes "absent f s"
  shows "created f (s\<lparr>rt_fibers := aput f \<lparr>fc_plugin_id = p, fc_inner = fiber_record_new scope d plugin gate g flag\<rparr> (rt_fibers s),
     rt_gates := gs, rt_scopes := sc\<rparr>)" (is "created f ?t")
proof -
  let ?r = "fiber_record_new scope d plugin gate g flag"
  have ft: "fiber k ?t = (if k = f then Some ?r else fiber k s)" for k by (simp add: fiber_def)
  have s: "owned s" "fiber f s = None" using assms by (simp_all add: absent_def)
  have "owned ?t"
  proof (rule owned_frame [OF s(1)])
    show "no_new_registration s ?t" by (simp add: no_new_registration_def)
    show "distinct (akeys (rt_fibers ?t))" using s(1) by (simp add: owned_def distinct_aput del: set_map)
    show "empty_handed u" if "fiber k ?t = Some u" "resting u" for k u
      using that s(1) ft [of k] by (auto simp: owned_def fiber_record_new_def empty_handed_def split: if_splits)
    show "\<exists>r'. fiber k ?t = Some r' \<and> holdings r' = holdings u" if "fiber k s = Some u" for k u
      using that s(2) ft [of k] by auto
  qed
  moreover have "fb_state u = Created" if "fiber f ?t = Some u" for u
    using that unfolding ft by (auto simp: fiber_record_new_def)
  ultimately show ?thesis by (simp only: created_def) blast
qed

lemma triple_prod: "(\<And>a b. triple P (f a b) Q E) \<Longrightarrow> triple P (case x of (a, b) \<Rightarrow> f a b) Q E"
  by (cases x) simp

lemma triple_admission:
  assumes "triple P body Q E" and "\<And>s a. P s \<Longrightarrow> P (s\<lparr>rt_admission := a\<rparr>)" "\<And>s x a. Q x s \<Longrightarrow> Q x (s\<lparr>rt_admission := a\<rparr>)"
    "\<And>s a. E s \<Longrightarrow> E (s\<lparr>rt_admission := a\<rparr>)" "\<And>s. P s \<Longrightarrow> E s"
  shows "triple P (with_admission body) Q E"
  unfolding triple_def
proof (intro allI impI)
  fix s r t
  assume s: "P s" "with_admission body s = Some (r, t)"
  from with_admission_cases [OF s(2)]
  show "case r of Ok a \<Rightarrow> Q a t | _ \<Rightarrow> E t"
  proof (elim disjE conjE exE)
    fix u
    assume u: "body (entered s) = Some (r, u)" "t = left u"
    have "P (entered s)" unfolding entered_def by (rule assms(2) [OF s(1)])
    with assms(1) u(1) have "case r of Ok a \<Rightarrow> Q a u | _ \<Rightarrow> E u" unfolding triple_def by blast
    then show ?thesis using assms(3,4) unfolding u(2) left_def by (cases r) simp_all
  qed (simp add: assms(5) [OF s(1)])
qed

lemma owned_enter: "triple (absent (in_fiber i)) (enter_fiber i scope flag logical) (\<lambda>_. created (in_fiber i)) owned"
proof -
  let ?A = "absent (in_fiber i)"
  have o: "?A s \<Longrightarrow> owned s" for s by (simp add: absent_def)
  have plugins: "triple ?A (in_plugins op) (\<lambda>_. ?A) owned" for op :: "plugin_registry \<Rightarrow> 'b cres \<times> plugin_registry"
    by (rule absent_stage, rule keptI) (auto simp: within_def split: prod.splits)
  have own: "triple ?A (case logical of Some p \<Rightarrow> pass p
      | None \<Rightarrow> andthen (update (\<lambda>s. case plugin_create (in_logical i) (in_selector i) (rt_plugins s, rt_gates s) of
            (_, plugins, gates) \<Rightarrow> s\<lparr>rt_plugins := plugins, rt_gates := gates\<rparr>)) (\<lambda>_. pass (in_logical i))) (\<lambda>_. ?A) owned"
    by (rule absent_stage) (auto intro!: kept_pass kept_andthen kept_update split: option.split prod.split)
  show ?thesis
    unfolding enter_fiber_def
    by (rule triple_read, rule triple_option, rule triple_raise, erule o, rule triple_if, rule triple_raise, erule o,
        rule triple_andthen [OF own], rule triple_andthen [OF plugins], rule triple_prod,
        rule triple_andthen [OF plugins], rule triple_update, erule created_enter)
qed

lemma created_index: "kept (created f) (index_fiber g scope d)"
  unfolding index_fiber_def by (intro kept_andthen kept_each kept_intern_symbol kept_update) simp_all

lemma owned_register: "triple (absent (in_fiber i)) (register_fiber now i scope flag logical) (\<lambda>_. created (in_fiber i)) owned"
proof -
  let ?A = "absent (in_fiber i)"
  have o: "?A s \<Longrightarrow> owned s" for s by (simp add: absent_def)
  have interned: "triple ?A (each (\<lambda>key. andthen (intern_service key) (\<lambda>_. pass ())) keys) (\<lambda>_. ?A) owned" for keys
    by (rule absent_stage) (intro kept_each kept_andthen absent_intern kept_pass)
  have full: "triple ?A (andthen (reads rt_config) (\<lambda>c. quota_error now Fibers (max_fibers c) (Some scope) None)) Q owned"
    for Q :: "unit \<Rightarrow> runtime \<Rightarrow> bool"
    unfolding quota_error_def
    by (rule triple_read, rule triple_andthen [where R = "\<lambda>_. owned"], rule triple_update) (auto simp: o intro: triple_raise)
  have body: "triple ?A (andthen (each (\<lambda>key. andthen (intern_service key) (\<lambda>_. pass ()))
       (pd_dependencies (in_descriptor i) @ pd_provisions (in_descriptor i))) (\<lambda>_.
     andthen (reads (\<lambda>s. unat (max_fibers (rt_config s)) \<le> length (rt_fibers s))) (\<lambda>full.
     if full then andthen (reads rt_config) (\<lambda>c. quota_error now Fibers (max_fibers c) (Some scope) None)
     else andthen (enter_fiber i scope flag logical) (\<lambda>_. index_fiber (in_fiber i) scope (in_descriptor i)))))
     (\<lambda>_. created (in_fiber i)) owned"
    by (rule triple_andthen [OF interned], rule triple_read, rule triple_if, rule full,
        rule triple_andthen [OF owned_enter created_stage [OF created_index]])
  show ?thesis
    unfolding register_fiber_def
    by (rule triple_admission [OF body]) (simp_all add: o)
qed

text \<open>Taking out a Fiber that has not started.\<close>

lemma owned_remove_unstarted: "triple (created f) (remove_unstarted_fiber f) (\<lambda>_. owned) owned"
proof -
  have taken: "owned (s\<lparr>rt_fibers := adel f (rt_fibers s), rt_scopes := sc\<rparr>)" (is "owned ?t") if "created f s" for s sc
  proof (rule owned_frame)
    have s: "owned s" "\<And>r. fiber f s = Some r \<Longrightarrow> empty_handed r"
      using that by (auto simp: created_def owned_def resting_def)
    then show "owned s" by simp
    have ft: "fiber k ?t = (if k = f then None else fiber k s)" for k by (simp add: fiber_def)
    show "no_new_registration s ?t" by (simp add: no_new_registration_def)
    show "distinct (akeys (rt_fibers ?t))" using s(1) by (simp add: owned_def distinct_adel del: set_map)
    show "empty_handed u" if "fiber k ?t = Some u" "resting u" for k u
      using that s(1) unfolding ft by (auto simp: owned_def split: if_splits)
    show "\<exists>r'. fiber k ?t = Some r' \<and> holdings r' = holdings u" if "fiber k s = Some u" "\<not> empty_handed u" for k u
      using that s(2) unfolding ft by auto
  qed
  have tail: "kept owned (andthen (each (\<lambda>key. andthen (intern_symbol key) (\<lambda>symbol.
          update (\<lambda>s. s\<lparr>rt_dependencies := remove_dependency symbol f (rt_dependencies s)\<rparr>))) ds) (\<lambda>_.
        andthen (each (\<lambda>key. andthen (intern_symbol key) (\<lambda>symbol.
          update (\<lambda>s. s\<lparr>rt_dependencies := remove_provider scope symbol f (rt_dependencies s)\<rparr>))) ps) (\<lambda>_.
        andthen (settle (in_plugins (detach_fiber p)) (\<lambda>_. pass ())) (\<lambda>_.
          update (\<lambda>s. s\<lparr>rt_plugins := snd (reclaim_if_dead (rt_gates s) p (rt_plugins s))\<rparr>)))))" for ds ps scope p
    by (intro kept_andthen kept_each kept_intern_symbol kept_update kept_settle kept_in_plugins kept_pass) simp_all
  show ?thesis
    unfolding remove_unstarted_fiber_def
    by (rule triple_read, rule triple_option, rule triple_pass, simp add: created_def,
        rule triple_andthen [where R = "\<lambda>_. owned"], rule triple_update, erule taken, rule tail [unfolded kept_def])
qed

text \<open>What an installation gets from its environment while it has only entered its Fiber.\<close>

definition installation_keeps :: "activation \<Rightarrow> fiber_id \<Rightarrow> bool" where
  "installation_keeps ac f \<longleftrightarrow> activation_keeps ac \<and> env_keeps (created f) (ac_gap ac)"

lemma fiber_edges_reads: "fiber_edges f r keys edges s = Some (res, t) \<Longrightarrow> t = s"
  by (induction keys arbitrary: edges s)
     (auto simp: pass_def andthen_def intern_symbol_def split: option.splits res.splits)

lemma graph_edges_reads: "graph_edges cells edges s = Some (res, t) \<Longrightarrow> t = s"
proof (induction cells arbitrary: edges s)
  case (Cons fc cells)
  then show ?case
    by (cases fc) (auto simp: andthen_def split: option.splits res.splits if_splits dest: fiber_edges_reads)
qed (simp add: pass_def)

lemma validate_reads: "validate_dependency_graph s = Some (res, t) \<Longrightarrow> t = s"
  by (auto simp: validate_dependency_graph_def andthen_def reads_def split: option.splits res.splits prod.splits dest: graph_edges_reads)

lemma created_resolve: "kept (created f) (dependencies_met scope keys)"
proof -
  have "kept (created f) (resolve_symbol sc symbol)" for sc symbol
  proof (rule keptI)
    fix s r t
    assume s: "created f s" "resolve_symbol sc symbol s = Some (r, t)"
    have "rt_fibers t = rt_fibers s"
      using s(2) by (auto simp: resolve_symbol_def scope_ancestry_def andthen_def split: option.splits prod.splits res.splits)
    moreover have "owned t" by (rule keptD [OF kept_resolve _ s(2)]) (use s(1) in \<open>simp add: created_def\<close>)
    ultimately show "created f t" using s(1) fiber_cong [of t s f] by (simp add: created_def)
  qed
  then show ?thesis by (induction keys) (auto intro!: kept_pass kept_andthen kept_intern_symbol)
qed

lemma owned_wait: "triple (created f) (transition f WaitingDependencies) (\<lambda>_. owned) owned"
proof -
  have "owned (modify_fiber f (\<lambda>r. r\<lparr>fb_state := WaitingDependencies\<rparr>) s)" if "created f s" for s
    by (rule owned_modify) (use that in \<open>auto simp: created_def holdings_def owned_def resting_def empty_handed_def\<close>)
  then show ?thesis
    unfolding transition_def
    by (intro triple_andthen [where R = "\<lambda>_. created f", OF triple_get_fiber] triple_if triple_raise triple_update)
       (simp_all add: created_def)
qed

lemma owned_install:
  assumes i: "installation_keeps ac (in_fiber i)" and fresh: "absent (in_fiber i) s"
    and run: "install_arc now ac i scope flag logical s = Some (res, t)"
  shows "owned t"
proof -
  let ?A = "absent (in_fiber i)" and ?C = "created (in_fiber i)"
  have c: "?C s \<Longrightarrow> owned s" and a: "?A s \<Longrightarrow> owned s" for s by (simp_all add: created_def absent_def)
  have collect: "triple ?A (update (\<lambda>s. if unat (max_fibers (rt_config s)) \<le> length (rt_fibers s) then snd (collect_garbage s) else s)) (\<lambda>_. ?A) owned"
  proof (rule triple_update)
    fix s
    assume s: "?A s"
    have "aget (rt_fibers (snd (collect_garbage s))) (in_fiber i) = None"
      using s by (simp add: absent_def fiber_def collect_garbage_def Let_def aget_filter_keys)
    with s owned_collect show "?A (if unat (max_fibers (rt_config s)) \<le> length (rt_fibers s) then snd (collect_garbage s) else s)"
      by (simp add: absent_def fiber_def)
  qed
  have gap: "triple ?C (update (ac_gap ac)) (\<lambda>_. ?C) owned"
    using i by (intro triple_update) (simp add: installation_keeps_def env_keeps_def)
  have activated: "triple ?C (activate ac (in_fiber i)) (\<lambda>_. owned) owned"
    using owned_activate [of ac "in_fiber i"] i by (intro triple_kept) (auto simp: installation_keeps_def c)
  have valid: "triple ?C validate_dependency_graph (\<lambda>_. ?C) ?C"
    by (auto simp: triple_def dest!: validate_reads split: res.splits)
  have last: "triple ?C (andthen (dependencies_met scope keys) (\<lambda>met.
      andthen (if met then activate ac (in_fiber i) else transition (in_fiber i) WaitingDependencies) (\<lambda>_. pass (in_fiber i)))) (\<lambda>_. owned) owned" for keys
    by (rule triple_andthen [OF created_stage [OF created_resolve]], rule triple_andthen [where R = "\<lambda>_. owned"],
        rule triple_if, rule activated, rule owned_wait, rule triple_pass)
  have check: "triple ?C (settle validate_dependency_graph (\<lambda>valid. case valid of
         Err e \<Rightarrow> andthen (remove_unstarted_fiber (in_fiber i)) (\<lambda>_. give (Err e))
       | Panicked p \<Rightarrow> give (Panicked p)
       | Ok _ \<Rightarrow> andthen (dependencies_met scope keys) (\<lambda>met.
           andthen (if met then activate ac (in_fiber i) else transition (in_fiber i) WaitingDependencies)
             (\<lambda>_. pass (in_fiber i))))) (\<lambda>_. owned) owned" for keys
  proof (rule triple_settle_cases [OF valid])
    fix a e p
    show "triple ?C (case Ok a of Err e \<Rightarrow> andthen (remove_unstarted_fiber (in_fiber i)) (\<lambda>_. give (Err e))
       | Panicked p \<Rightarrow> give (Panicked p)
       | Ok _ \<Rightarrow> andthen (dependencies_met scope keys) (\<lambda>met.
           andthen (if met then activate ac (in_fiber i) else transition (in_fiber i) WaitingDependencies)
             (\<lambda>_. pass (in_fiber i)))) (\<lambda>_. owned) owned" using last by simp
  qed (simp_all add: triple_andthen [OF owned_remove_unstarted triple_raise] triple_give c)
  have "triple ?A (install_arc now ac i scope flag logical) (\<lambda>_. owned) owned"
    unfolding install_arc_def
    by (rule triple_andthen [OF collect], rule triple_andthen [where R = "\<lambda>_. ?A"], simp add: triple_pass triple_give a split: option.split,
        rule triple_andthen [OF owned_register], rule triple_andthen [OF gap], rule check)
  with fresh run show ?thesis by (cases res) (auto dest: tripleD_Ok tripleD_Err simp: triple_def)
qed

section \<open>The commit of a reload\<close>

text \<open>What the staged Fiber lists is registered for it, so that the commit moves its own registrations.\<close>

definition own_invocations :: "fiber_record \<Rightarrow> runtime \<Rightarrow> bool" where
  "own_invocations r s \<longleftrightarrow>
     (\<forall>i \<in> set (fb_invocation_handlers r). \<forall>e. aget (ir_handlers (rt_invocations s)) i = Some e \<longrightarrow> handler_bound e r) \<and>
     (\<forall>i \<in> set (fb_invocation_middleware r). \<forall>e. aget (ir_middleware (rt_invocations s)) i = Some e \<longrightarrow> middleware_bound e r)"

lemma owned_undone: "undone u t \<Longrightarrow> owned u \<Longrightarrow> owned t"
proof -
  assume "undone u t" and u: "owned u"
  then obtain d sc reg where t: "t = u\<lparr>rt_dependencies := d, rt_scopes := sc, rt_invocations := reg\<rparr>"
      and reg: "same_invocations (rt_invocations u) reg" by (auto simp: undone_def)
  have f: "fiber f t = fiber f u" for f by (simp add: t fiber_def)
  show "owned t"
  proof (rule owned_frame [OF u])
    show "no_new_registration u t" using reg by (simp add: no_new_registration_def t same_invocations_def)
    show "distinct (akeys (rt_fibers t))" using u by (simp add: t owned_def)
  qed (use u in \<open>auto simp: f owned_def\<close>)
qed

lemma bind_staged_frame:
  assumes "bind_staged f target s = Some (Ok (), t)"
  shows "rt_events t = rt_events s" and "akeys (rt_fibers t) = akeys (rt_fibers s)" and "g \<noteq> f \<Longrightarrow> fiber g t = fiber g s"
proof -
  have "rt_events (open_activation f u) = rt_events u \<and> akeys (rt_fibers (open_activation f u)) = akeys (rt_fibers u) \<and>
      (g \<noteq> f \<longrightarrow> fiber g (open_activation f u) = fiber g u)" for u g
    by (auto simp: open_activation_def modify_fiber_keys fiber_def modify_fiber_def split: option.split simp del: set_map)
  then show "rt_events t = rt_events s" and "akeys (rt_fibers t) = akeys (rt_fibers s)" and "g \<noteq> f \<Longrightarrow> fiber g t = fiber g s"
    using assms by (auto simp: bind_staged_def andthen_def update_def modify_fiber_keys simp del: set_map)
qed

lemma commit_revision_owners:
  assumes "commit_revision_and_publish p new old (s, g) = (Ok (), s', g')"
  shows "sr_by_key s' = sr_by_key s" and "symbol \<in> set (pv_symbols p) \<Longrightarrow> aget (sr_entries s) (pv_from p, symbol) = Some e \<Longrightarrow>
    se_owner e = pv_staged_owner p"
  using assms
  by (auto simp: commit_revision_and_publish_def bump_def list_ex_iff staged_missing_def split: if_splits prod.splits res.splits bool.splits)

lemma cutover_scopes_Ok:
  assumes "cutover_scopes dr sr vr r new old v = Some (Ok (), t)"
  obtains sc sv g where "commit_revision_and_publish vr new old (rt_services v, rt_gates v) = (Ok (), sv, g)"
    "bind_staged (pr_staged sr) (pr_target sr) (v\<lparr>rt_scopes := sc,
       rt_invocations := commit_invocation_revision (fb_invocation_handlers r) (fb_invocation_middleware r) (pr_target sr) (rt_invocations v),
       rt_services := sv, rt_gates := g\<rparr>) = Some (Ok (), t)"
proof -
  obtain c sc where c: "commit_locked sr (rt_scopes v) = (c, sc)" by force
  let ?reg = "commit_invocation_revision (fb_invocation_handlers r) (fb_invocation_middleware r) (pr_target sr) (rt_invocations v)"
  obtain q sv g where q: "commit_revision_and_publish vr new old (rt_services v, rt_gates v) = (q, sv, g)" by (metis prod_cases3)
  have ok: "c = Ok ()"
    using assms c
    by (cases c) (auto simp: cutover_scopes_def settle_def within_def give_def andthen_def split: option.splits prod.splits res.splits)
  have "q = Ok ()"
    using assms c ok q
    by (cases q) (auto simp: cutover_scopes_def settle_def within_def give_def andthen_def move_invocations_def update_def publish_revision_def
        split: option.splits prod.splits res.splits)
  with assms c ok q that [of sv g sc] show ?thesis
    by (simp add: cutover_scopes_def settle_def within_def andthen_def move_invocations_def update_def publish_revision_def)
qed

lemma carried_moved:
  assumes "carried entries bound get u" and "fiber f u = Some r" and "\<And>k. fiber k t = (if k = f then Some r' else fiber k u)"
    and "get r' = get r" and "\<And>i. entries' i = (if i \<in> set (get r) then map_option move (entries i) else entries i)"
    and "\<And>i e. i \<in> set (get r) \<Longrightarrow> entries i = Some e \<Longrightarrow> bound (move e) r'"
  shows "carried entries' bound get t"
  unfolding carried_def
proof (intro allI impI)
  fix i e
  assume e: "entries' i = Some e"
  show "\<exists>f r. fiber f t = Some r \<and> i \<in> set (get r) \<and> bound e r"
  proof (cases "i \<in> set (get r)")
    case True
    with e assms(5) obtain e0 where "entries i = Some e0" "e = move e0" by auto
    with True assms(3,4,6) show ?thesis by auto
  next
    case False
    then have "entries i = Some e" using e assms(5) by simp
    then obtain k rk where k: "fiber k u = Some rk" "i \<in> set (get rk)" "bound e rk" using assms(1) unfolding carried_def by blast
    then have "k \<noteq> f" using False assms(2) by auto
    with k assms(3) show ?thesis by auto
  qed
qed

lemma owned_commit_prepared:
  assumes ready: "reload_ready f r previous staging u" and dist: "distinct (pv_symbols vr)"
    and rev: "revisions_for old f staging target r s dr sr vr"
    and run: "commit_prepared f dr sr vr r (fb_capabilities previous) u = Some (res, t)"
    and u: "owned u" "fb_scope r = staging" "own_invocations r u"
    and keys: "\<And>key symbol. lookup_symbol key s = Some symbol \<Longrightarrow> lookup_symbol key u = Some symbol"
  shows "owned t"
proof (cases "\<exists>e. res = Err e \<and> undone u t")
  case True
  then show ?thesis using owned_undone u(1) by blast
next
  case False
  then have ok: "res = Ok ()" and rep: "replaced dr sr vr r (fb_capabilities r) (fb_capabilities previous) u t"
    using commit_prepared_spec [OF ready dist rev run] by auto
  have fr: "fiber f u = Some r" using ready by (simp add: reload_ready_def)
  have ids: "pr_staged sr = f" "pr_target sr = target" "pv_from vr = staging" "pv_to vr = target" "pv_staged_owner vr = f"
    using rev unfolding revisions_for_def by (metis prepared_scope_revision.select_convs prepared_service_revision.select_convs)+
  have provided: "\<exists>symbol. lookup_symbol key s = Some symbol \<and> symbol \<in> set (pv_symbols vr)" if "key \<in> set (fb_provided r)" for key
  proof -
    have "set (map (\<lambda>key. lookup_symbol key s) (fb_provided r)) = set (map Some (pv_symbols vr))"
      using rev by (simp add: revisions_for_def del: set_map)
    with that have "lookup_symbol key s \<in> Some ` set (pv_symbols vr)" by auto
    then show ?thesis by auto
  qed
  obtain d where "cutover_scopes dr sr vr r (fb_capabilities r) (fb_capabilities previous) (u\<lparr>rt_dependencies := d\<rparr>) = Some (Ok (), t)"
    using run ok fr
    by (auto simp: commit_prepared_def andthen_def get_fiber_def reads_def give_def dependency_commit_def within_def
        split: if_splits prod.splits res.splits)
  then obtain sc sv g where pub: "commit_revision_and_publish vr (fb_capabilities r) (fb_capabilities previous) (rt_services u, rt_gates u) = (Ok (), sv, g)"
    and bind: "bind_staged f target (u\<lparr>rt_dependencies := d, rt_scopes := sc,
       rt_invocations := commit_invocation_revision (fb_invocation_handlers r) (fb_invocation_middleware r) target (rt_invocations u),
       rt_services := sv, rt_gates := g\<rparr>) = Some (Ok (), t)" (is "bind_staged f target ?v = _")
    by (auto elim!: cutover_scopes_Ok simp: ids)
  note moved = bind_staged_spec [OF bind] bind_staged_frame [OF bind]
  define r' where "r' = r\<lparr>fb_scope := target, fb_staged := False, fb_reload_owned := False, fb_activation_sealed := False, fb_activation := None\<rparr>"
  have ft: "fiber k t = (if k = f then Some r' else fiber k u)" for k
    using moved(1) moved(4) [of k] fr by (auto simp: r'_def fiber_def)
  have r': "fb_scope r' = target" "fb_capabilities r' = fb_capabilities r" "fb_handlers r' = fb_handlers r" "fb_provided r' = fb_provided r"
      "fb_invocation_handlers r' = fb_invocation_handlers r" "fb_invocation_middleware r' = fb_invocation_middleware r" "fb_state r' = fb_state r"
    by (simp_all add: r'_def)
  have inv: "rt_invocations t = commit_invocation_revision (fb_invocation_handlers r) (fb_invocation_middleware r) target (rt_invocations u)"
    and sv: "rt_services t = sv" and ev: "rt_events t = rt_events u" and ks: "akeys (rt_fibers t) = akeys (rt_fibers u)"
    using moved by (simp_all del: set_map)
  have c: "carried (aget (eb_handlers (rt_events u))) event_bound fb_handlers u"
    "carried (aget (ir_handlers (rt_invocations u))) handler_bound fb_invocation_handlers u"
    "carried (aget (ir_middleware (rt_invocations u))) middleware_bound fb_invocation_middleware u" "services_carried u"
    "\<And>f r. fiber f u = Some r \<Longrightarrow> resting r \<Longrightarrow> empty_handed r" "distinct (akeys (rt_fibers u))"
    using u(1) by (simp_all add: owned_def)
  have "carried (aget (eb_handlers (rt_events t))) event_bound fb_handlers t"
    unfolding ev by (rule carried_mono [OF c(1)]) (use fr r' in \<open>auto simp: ft event_bound_def\<close>)
  moreover have "carried (aget (ir_handlers (rt_invocations t))) handler_bound fb_invocation_handlers t"
    by (rule carried_moved [OF c(2) fr ft, where move = "\<lambda>e. e\<lparr>ih_scope := target\<rparr>"])
       (use u(3) r' in \<open>auto simp: own_invocations_def handler_bound_def inv commit_invocation_revision_def aget_fold_amod\<close>)
  moreover have "carried (aget (ir_middleware (rt_invocations t))) middleware_bound fb_invocation_middleware t"
    by (rule carried_moved [OF c(3) fr ft, where move = "\<lambda>e. e\<lparr>mw_scope := target\<rparr>"])
       (use u(3) r' in \<open>auto simp: own_invocations_def middleware_bound_def inv commit_invocation_revision_def aget_fold_amod\<close>)
  moreover have "services_carried t"
    unfolding services_carried_iff
  proof (intro allI impI)
    fix scope symbol e
    assume "service_get scope symbol (rt_services t) = Some e"
    then have e: "revised_entry vr (sr_entries (rt_services u)) scope symbol = Some e"
      using rep by (simp add: replaced_def service_get_def)
    have lookup: "lookup_symbol key t = lookup_symbol key u" for key
      using commit_revision_owners(1) [OF pub] by (simp add: lookup_symbol_def service_lookup_def sv)
    show "service_listed t scope symbol e"
    proof (cases "symbol \<in> set (pv_symbols vr) \<and> scope = target")
      case True
      with e obtain e0 where e0: "aget (sr_entries (rt_services u)) (staging, symbol) = Some e0" "e = e0\<lparr>se_scope := target\<rparr>"
        by (auto simp: revised_entry_def ids)
      have own: "se_owner e0 = f" using commit_revision_owners(2) [OF pub _ e0(1) [folded ids(3)]] True ids(5) by simp
      have "service_listed u staging symbol e0"
        using c(4) e0(1) unfolding services_carried_iff service_get_def by blast
      with own fr e0(2) True show ?thesis by (auto simp: service_listed_def ft r' lookup)
    next
      case False
      with e have e0: "aget (sr_entries (rt_services u)) (scope, symbol) = Some e" "\<not> (symbol \<in> set (pv_symbols vr) \<and> scope = staging)"
        by (auto simp: revised_entry_def ids split: if_splits)
      then have l: "service_listed u scope symbol e"
        using c(4) unfolding services_carried_iff service_get_def by blast
      have "se_owner e \<noteq> f"
      proof
        assume "se_owner e = f"
        with l fr u(2) obtain key where key: "key \<in> set (fb_provided r)" "lookup_symbol key u = Some symbol" "scope = staging"
          by (auto simp: service_listed_def)
        obtain symbol' where "lookup_symbol key s = Some symbol'" "symbol' \<in> set (pv_symbols vr)"
          using key(1) provided by blast
        with keys [of key symbol'] key e0(2) show False by simp
      qed
      with l show ?thesis by (auto simp: service_listed_def ft lookup)
    qed
  qed
  ultimately show ?thesis
    using c(5,6) fr r' unfolding owned_def by (auto simp: ft ks resting_def empty_handed_def simp del: set_map)
qed

lemma owned_left [simp]: "owned (left s) = owned s" "owned (entered s) = owned s"
  by (simp_all add: left_def entered_def)

lemma owned_commit_staged:
  assumes run: "commit_staged_revision gap old f staging target s = Some (res, t)" and s: "owned s"
    and r: "fiber f s = Some r" "fb_scope r = staging" and previous: "fiber old s = Some previous"
    and keys: "wf_symbols (rt_services s)" "distinct (fb_provided r)"
    and gap: "env_keeps owned gap" "reload_ready f r previous staging (gap (entered s))" "own_invocations r (gap (entered s))"
      "\<And>key symbol. lookup_symbol key s = Some symbol \<Longrightarrow> lookup_symbol key (gap (entered s)) = Some symbol"
  shows "owned t"
  using run r(1) previous keys
proof (cases rule: commit_staged_cases)
  case (committed dr sr vr cres v)
  have "owned (gap (entered s))" using gap(1) s by (simp add: env_keeps_def)
  from owned_commit_prepared [OF gap(2) committed(2,1,3) this r(2) gap(3,4)] committed(4) show ?thesis by simp
qed (use s in auto)

end
