(* ===== verification/Shutdown.thy ===== *)
theory Shutdown
  imports Scope_Disposal Shutdown_Coordinator
begin

text \<open>
  Shutdown of the Runtime (\<^verbatim>\<open>runtime/shutdown.rs\<close>): admission closes, one attempt disposes the root scope,
  drains the workers and retries what is left until the deadline, and the blockers that remain decide
  the outcome that the coordinator publishes.

  Every await of an attempt is bounded by the same deadline. \<open>sh_expires\<close> says, for the state in which an
  await starts, whether the deadline passes first, and what has happened by then; the awaited disposal
  goes on in its own task.
\<close>

record shutdown_env =
  sh_expires :: "runtime \<Rightarrow> (runtime \<Rightarrow> runtime) option"
  sh_scope :: "scope_id \<Rightarrow> disposal_observation run"  \<comment> \<open>\<open>dispose_scope_for_shutdown\<close>\<close>
  sh_fiber :: "fiber_id \<Rightarrow> unit run"  \<comment> \<open>\<open>dispose_fiber_persistently\<close>\<close>
  sh_now :: nat
  sh_order :: "(u64 \<times> runtime_worker) list \<Rightarrow> (u64 \<times> runtime_worker) list"
  sh_join :: "u64 \<Rightarrow> join_result"
  sh_workers :: "runtime \<Rightarrow> runtime"  \<comment> \<open>what the workers still do while they are drained\<close>
  sh_yield :: "runtime \<Rightarrow> runtime"  \<comment> \<open>other tasks, between two rounds\<close>
  sh_other :: "runtime \<Rightarrow> runtime"  \<comment> \<open>the running attempt, while a later caller waits\<close>

section \<open>Blockers\<close>

definition fiber_blockers :: "runtime \<Rightarrow> fiber_id \<times> fiber_cell \<Rightarrow> shutdown_blocker list" where
  "fiber_blockers s fc = (case fc of (f, c) \<Rightarrow>
     let r = fc_inner c; e = cg_execution (gs_gate (rt_gates s) (fb_capabilities r));
         inflight = snd (execution_snapshot e); handles = ge_service_handles e
     in (if fb_state r \<noteq> Disposed then [BlockFiber f] else []) @
        (if \<exists>p \<in> set (fb_host_processes r). rt_processes s p then [BlockHostedExecution f] else []) @
        (if inflight \<noteq> 0 \<or> handles \<noteq> 0 then [BlockGenerationInflight f (fb_generation r) inflight handles] else []))"

definition staging_fibers :: "runtime \<Rightarrow> nat" where
  "staging_fibers s = length (filter (\<lambda>(f, c). fb_staged (fc_inner c) \<and> fb_state (fc_inner c) \<noteq> Disposed) (rt_fibers s))"

definition staging_scopes :: "runtime \<Rightarrow> nat" where
  "staging_scopes s = length (filter (\<lambda>(i, sc). sc_hidden sc \<and> sc_state sc \<noteq> ScopeDisposedState) (rt_scopes s))"

definition shutdown_blockers :: "runtime \<Rightarrow> shutdown_blocker list" where
  "shutdown_blockers s =
     concat (map (fiber_blockers s) (rt_fibers s)) @
     map (\<lambda>(i, sc). BlockScope i) (filter (\<lambda>(i, sc). i \<noteq> rt_root s \<and> sc_state sc \<noteq> ScopeDisposedState) (rt_scopes s)) @
     (if live_workers (rt_workers s) \<noteq> 0 then [BlockRuntimeWorkers (of_nat (live_workers (rt_workers s)))] else []) @
     (if live_fiber_tasks (rt_tasks s) \<noteq> 0 then [BlockTasks (of_nat (live_fiber_tasks (rt_tasks s)))] else []) @
     (let reloads = rt_active_reloads s + rt_reload_cleanup_pending s
      in if reloads \<noteq> 0 then [BlockReloadTransactions reloads] else []) @
     (if staging_fibers s \<noteq> 0 \<or> staging_scopes s \<noteq> 0
      then [BlockStaging (of_nat (staging_fibers s)) (of_nat (staging_scopes s))] else [])"

section \<open>The attempt\<close>

text \<open>\<open>timeout_at(deadline, m)\<close>: \<open>None\<close> when the deadline passed first.\<close>

definition timed :: "shutdown_env \<Rightarrow> 'a run \<Rightarrow> 'a cres option run" where
  "timed sh m s = (case sh_expires sh s of
      Some partial \<Rightarrow> Some (Ok None, partial s)
    | None \<Rightarrow> (case m s of
          None \<Rightarrow> None
        | Some (Panicked p, t) \<Rightarrow> Some (Panicked p, t)
        | Some (r, t) \<Rightarrow> Some (Ok (Some r), t)))"

text \<open>The residue loops: the issues so far, and whether the deadline is still open.\<close>

fun residue_scopes :: "shutdown_env \<Rightarrow> scope_id list \<Rightarrow> cleanup_issue list \<Rightarrow> (cleanup_issue list \<times> bool) run" where
  "residue_scopes sh [] issues = pass (issues, True)"
| "residue_scopes sh (i # is) issues = andthen (timed sh (sh_scope sh i)) (\<lambda>r. case r of
      None \<Rightarrow> pass (issues, False)
    | Some (Ok obs) \<Rightarrow> residue_scopes sh is (issues @ do_issues obs)
    | Some (Err e) \<Rightarrow> residue_scopes sh is (issues @ [typed_issue ChildScopeCleanup e])
    | Some (Panicked p) \<Rightarrow> give (Panicked p))"

fun residue_fibers :: "shutdown_env \<Rightarrow> fiber_id list \<Rightarrow> bool run" where
  "residue_fibers sh [] = pass True"
| "residue_fibers sh (f # fs) = andthen (timed sh (sh_fiber sh f)) (\<lambda>r. if r = None then pass False else residue_fibers sh fs)"

fun converge_rounds :: "shutdown_env \<Rightarrow> nat \<Rightarrow> cleanup_issue list \<Rightarrow> cleanup_issue list run" where
  "converge_rounds sh 0 issues = pass issues"
| "converge_rounds sh (Suc n) issues =
     andthen (reads (\<lambda>s. map fst (filter (\<lambda>(i, sc). i \<noteq> rt_root s \<and> sc_state sc \<noteq> ScopeDisposedState) (rt_scopes s)))) (\<lambda>scopes.
     andthen (residue_scopes sh scopes issues) (\<lambda>(issues, in_time).
     if \<not> in_time then pass issues
     else andthen (reads (\<lambda>s. map fst (filter (\<lambda>(f, c). fb_state (fc_inner c) \<noteq> Disposed) (rt_fibers s)))) (\<lambda>fibers.
     andthen (residue_fibers sh fibers) (\<lambda>in_time.
     if \<not> in_time \<or> (scopes = [] \<and> fibers = []) then pass issues
     else andthen (update (sh_yield sh)) (\<lambda>_. converge_rounds sh n issues)))))"

definition converge_shutdown_residue :: "shutdown_env \<Rightarrow> cleanup_issue list \<Rightarrow> cleanup_issue list run" where
  "converge_shutdown_residue sh = converge_rounds sh 4"

definition drain_workers :: "shutdown_env \<Rightarrow> unit run" where
  "drain_workers sh = andthen (update (sh_workers sh)) (\<lambda>_.
     andthen (in_workers (shutdown_until (sh_now sh) (sh_order sh) (sh_join sh))) (\<lambda>_. pass ()))"

definition attempt_outcome :: "shutdown_blocker list \<Rightarrow> cleanup_issue list \<Rightarrow> shutdown_outcome" where
  "attempt_outcome blockers issues =
     (if blockers \<noteq> [] then ShutdownOutcomeIncomplete blockers issues
      else if issues = [] then OutcomeComplete else OutcomeCompleteWithIssues issues)"

definition run_shutdown_attempt :: "shutdown_env \<Rightarrow> shutdown_outcome run" where
  "run_shutdown_attempt sh =
     andthen (update (\<lambda>s. s\<lparr>rt_shutdown_deadline := Some (sh_now sh + shutdown_grace (rt_config s))\<rparr>)) (\<lambda>_.
     andthen (andthen (reads rt_root) (\<lambda>root. timed sh (sh_scope sh root))) (\<lambda>root_result.
     andthen (case root_result of
         Some (Ok obs) \<Rightarrow> andthen (drain_workers sh) (\<lambda>_. converge_shutdown_residue sh (do_issues obs))
       | Some (Err e) \<Rightarrow> pass [typed_issue ChildScopeCleanup e]
       | Some (Panicked p) \<Rightarrow> give (Panicked p)
       | None \<Rightarrow> pass []) (\<lambda>issues.
     andthen (update (\<lambda>s. snd (collect_garbage s))) (\<lambda>_.
     andthen (reads shutdown_blockers) (\<lambda>blockers. pass (attempt_outcome blockers issues))))))"

section \<open>The operation\<close>

definition in_coordinator :: "(shutdown_coordinator \<Rightarrow> 'a \<times> shutdown_coordinator) \<Rightarrow> 'a run" where
  "in_coordinator f = within rt_shutdown (\<lambda>p s. s\<lparr>rt_shutdown := p\<rparr>) (\<lambda>c. case f c of (a, c') \<Rightarrow> (Ok a, c'))"

definition finalize_shutdown :: "shutdown_outcome \<Rightarrow> completion_ref \<Rightarrow> unit run" where
  "finalize_shutdown outcome completion = andthen (in_coordinator (shutdown_finish outcome completion)) (\<lambda>_.
     update (\<lambda>s. case outcome of
         ShutdownOutcomeIncomplete _ _ \<Rightarrow> s
       | _ \<Rightarrow> s\<lparr>rt_admission := complete_shutdown (rt_admission s)\<rparr>))"

text \<open>The supervisor: a panic of the attempt becomes an incomplete outcome.\<close>

definition shutdown_supervisor :: "shutdown_env \<Rightarrow> completion_ref \<Rightarrow> unit run" where
  "shutdown_supervisor sh completion = settle (run_shutdown_attempt sh) (\<lambda>r.
     andthen (case r of
         Ok outcome \<Rightarrow> pass outcome
       | Err e \<Rightarrow> give (Err e)
       | Panicked p \<Rightarrow> reads (\<lambda>s. ShutdownOutcomeIncomplete (shutdown_blockers s) [typed_issue Worker (ShutdownWorkerPanicked (Lit p))]))
       (\<lambda>outcome. finalize_shutdown outcome completion))"

text \<open>\<open>begin_shutdown\<close> waits for the readers of the admission gate: \<open>None\<close> while there is one.\<close>

definition close_admission :: "unit run" where
  "close_admission s = (case begin_shutdown (rt_admission s) of
      None \<Rightarrow> None | Some (_, g) \<Rightarrow> Some (Ok (), s\<lparr>rt_admission := g\<rparr>))"

definition wait_for_shutdown_completion :: "completion_ref \<Rightarrow> shutdown_outcome run" where
  "wait_for_shutdown_completion completion s = (case completion_outcome (sc_outcomes (rt_shutdown s) completion) of
      None \<Rightarrow> None | Some outcome \<Rightarrow> Some (Ok outcome, s))"

definition shutdown_detailed :: "shutdown_env \<Rightarrow> completion_ref \<Rightarrow> shutdown_outcome run" where
  "shutdown_detailed sh fresh = andthen (in_coordinator (start_or_observe fresh)) (\<lambda>(completion, started).
     andthen (if started then andthen close_admission (\<lambda>_. shutdown_supervisor sh completion)
              else andthen (reads (\<lambda>s. completion_outcome (sc_outcomes (rt_shutdown s) completion))) (\<lambda>seen.
                if seen = None then update (sh_other sh) else pass ())) (\<lambda>_.
     wait_for_shutdown_completion completion))"

text \<open>\<open>shutdown\<close>: the rendering of the blockers is kept as their number.\<close>

definition shutdown_result :: "shutdown_outcome \<Rightarrow> unit cres" where
  "shutdown_result outcome = (case outcome of
      OutcomeComplete \<Rightarrow> Ok ()
    | OutcomeCompleteWithIssues issues \<Rightarrow> Err (CleanupFailed (joined (map issue_text issues)))
    | ShutdownOutcomeIncomplete blockers _ \<Rightarrow> Err (CleanupFailed (Cat [Lit ''shutdown incomplete: '', NumText (of_nat (length blockers))])))"

definition shutdown :: "shutdown_env \<Rightarrow> completion_ref \<Rightarrow> unit run" where
  "shutdown sh fresh = andthen (shutdown_detailed sh fresh) (\<lambda>outcome. give (shutdown_result outcome))"

end
