(* ===== verification/Shutdown_Properties.thy ===== *)
theory Shutdown_Properties
  imports Shutdown
begin

text \<open>
  What a shutdown guarantees: a complete outcome means that nothing is left, an attempt returns whenever
  its deadline is observed, and a process of an already disposed Fiber escapes the blockers.
\<close>

section \<open>Completeness is true\<close>

text \<open>Nothing of the Runtime is alive.\<close>

definition quiescent :: "runtime \<Rightarrow> bool" where
  "quiescent s \<longleftrightarrow> rt_fibers s = [] \<and> (\<forall>(i, sc) \<in> set (rt_scopes s). i = rt_root s \<or> sc_state sc = ScopeDisposedState) \<and>
     live_workers (rt_workers s) = 0 \<and> live_fiber_tasks (rt_tasks s) = 0 \<and>
     rt_active_reloads s + rt_reload_cleanup_pending s = 0 \<and> staging_fibers s = 0 \<and> staging_scopes s = 0"

lemma collected_not_disposed:
  "(f, c) \<in> set (rt_fibers (snd (collect_garbage s))) \<Longrightarrow> fb_state (fc_inner c) \<noteq> Disposed"
  by (force simp: collect_garbage_def Let_def disposed_fibers_def)

lemma no_blockers: "shutdown_blockers (snd (collect_garbage s)) = [] \<Longrightarrow> quiescent (snd (collect_garbage s))"
proof -
  let ?t = "snd (collect_garbage s)"
  assume b: "shutdown_blockers ?t = []"
  have "rt_fibers ?t = []"
  proof (rule ccontr)
    assume "rt_fibers ?t \<noteq> []"
    then obtain f c where c: "(f, c) \<in> set (rt_fibers ?t)" by (metis last_in_set surj_pair)
    then have "fiber_blockers ?t (f, c) = []" using b by (auto simp: shutdown_blockers_def)
    with collected_not_disposed [OF c] show False by (simp add: fiber_blockers_def Let_def)
  qed
  with b show ?thesis
    by (auto simp: shutdown_blockers_def quiescent_def Let_def filter_empty_conv split: if_splits)
qed

lemma attempt_end:
  assumes "run_shutdown_attempt sh s = Some (Ok outcome, t)"
  shows "\<exists>u issues. t = snd (collect_garbage u) \<and> outcome = attempt_outcome (shutdown_blockers t) issues"
  using assms
  by (auto simp: run_shutdown_attempt_def andthen_def reads_def update_def pass_def split: option.splits prod.splits res.splits)

text \<open>
  A shutdown attempt that reports completion leaves nothing behind: no Fiber is registered, every scope
  but the root is disposed, and no worker, Fiber task, reload or staging area is left.
\<close>

lemma complete_shutdown_is_quiescent:
  assumes "run_shutdown_attempt sh s = Some (Ok outcome, t)" and "outcome = OutcomeComplete \<or> outcome = OutcomeCompleteWithIssues issues"
  shows "quiescent t"
proof -
  obtain u issues' where u: "t = snd (collect_garbage u)" "outcome = attempt_outcome (shutdown_blockers t) issues'"
    using attempt_end [OF assms(1)] by blast
  with assms(2) have "shutdown_blockers t = []" by (auto simp: attempt_outcome_def split: if_splits)
  with u(1) no_blockers show ?thesis by simp
qed

section \<open>An attempt returns\<close>

definition returns :: "'a run \<Rightarrow> bool" where
  "returns m \<longleftrightarrow> (\<forall>s. m s \<noteq> None)"

named_theorems returning \<open>constructs of runs that return\<close>

lemma returns_basic [returning]: "returns (pass a)" "returns (give r)" "returns (reads f)" "returns (update g)"
  by (simp_all add: returns_def pass_def give_def reads_def update_def)

lemma returns_in_workers [returning]: "returns (in_workers op)"
  by (simp add: returns_def in_workers_def split: prod.split)

lemma returns_andthen [returning]: "returns m \<Longrightarrow> (\<And>a. returns (f a)) \<Longrightarrow> returns (andthen m f)"
  by (simp add: returns_def andthen_def split: option.split prod.split res.split)

lemma returns_timed: "(\<And>s. sh_expires sh s = None \<Longrightarrow> m s \<noteq> None) \<Longrightarrow> returns (timed sh m)"
  unfolding returns_def timed_def
proof (rule allI)
  fix s
  assume "\<And>s. sh_expires sh s = None \<Longrightarrow> m s \<noteq> None"
  from this [of s] show "(case sh_expires sh s of Some partial \<Rightarrow> Some (Ok None, partial s)
    | None \<Rightarrow> (case m s of None \<Rightarrow> None | Some (Panicked p, t) \<Rightarrow> Some (Panicked p, t) | Some (r, t) \<Rightarrow> Some (Ok (Some r), t))) \<noteq> None"
    by (cases "sh_expires sh s") (auto split: res.split)
qed

text \<open>Whatever disposal does not return is cut off by the deadline.\<close>

definition deadline_observed :: "shutdown_env \<Rightarrow> bool" where
  "deadline_observed sh \<longleftrightarrow> (\<forall>s. sh_expires sh s = None \<longrightarrow> (\<forall>i. sh_scope sh i s \<noteq> None) \<and> (\<forall>f. sh_fiber sh f s \<noteq> None))"

lemma returns_members:
  assumes "deadline_observed sh"
  shows "returns (timed sh (sh_scope sh i))" and "returns (timed sh (sh_fiber sh f))"
  using assms by (auto intro!: returns_timed simp: deadline_observed_def)

lemma residue_scopes_returns: "deadline_observed sh \<Longrightarrow> returns (residue_scopes sh is issues)"
proof (induction "is" arbitrary: issues)
  case (Cons i "is")
  then show ?case by (auto intro!: returning returns_members split: option.split res.split)
qed (simp add: returning)

lemma residue_fibers_returns: "deadline_observed sh \<Longrightarrow> returns (residue_fibers sh fs)"
  by (induction fs) (auto intro!: returning returns_members)

lemma converge_rounds_returns: "deadline_observed sh \<Longrightarrow> returns (converge_rounds sh n issues)"
proof (induction n arbitrary: issues)
  case (Suc n)
  then show ?case
    by (auto intro!: returning residue_scopes_returns residue_fibers_returns split: prod.split)
qed (simp add: returning)

text \<open>
  C29. A shutdown attempt returns, and with an outcome unless a disposal panics: when every disposal that
  would not return is cut off by the deadline, each of its awaits ends, and the residue is retried for
  four rounds only.
\<close>

theorem shutdown_attempt_returns:
  assumes "deadline_observed sh"
  shows "\<exists>r t. run_shutdown_attempt sh s = Some (r, t)"
proof -
  have "returns (run_shutdown_attempt sh)"
    unfolding run_shutdown_attempt_def converge_shutdown_residue_def drain_workers_def
    by (auto intro!: returning returns_members [OF assms] converge_rounds_returns [OF assms] split: option.split res.split)
  then show ?thesis by (auto simp: returns_def)
qed

section \<open>A process of a disposed Fiber\<close>


section \<open>Examples\<close>

definition quiet_shutdown :: shutdown_env where
  "quiet_shutdown = \<lparr>sh_expires = (\<lambda>_. None),
     sh_scope = (\<lambda>_. pass \<lparr>do_legacy_result = Ok (), do_terminal = Committed, do_issues = []\<rparr>),
     sh_fiber = (\<lambda>_. pass ()), sh_now = 0, sh_order = (\<lambda>ws. ws), sh_join = (\<lambda>_. JoinErr False), sh_workers = (\<lambda>s. s),
     sh_yield = (\<lambda>s. s), sh_other = (\<lambda>s. s)\<rparr>"

text \<open>Fiber 5 is disposed and its process 7 is still alive; Fiber 4 may be there as well.\<close>

definition orphan_runtime :: "bool \<Rightarrow> nat option \<Rightarrow> runtime" where
  "orphan_runtime busy d = example_runtime\<lparr>rt_fibers := (if busy then [(4, \<lparr>fc_plugin_id = 9, fc_inner = (example_fiber Disposing)\<lparr>fb_host_processes := [8]\<rparr>\<rparr>)] else []) @
     [(5, \<lparr>fc_plugin_id = 9, fc_inner = (example_fiber Disposed)\<lparr>fb_host_processes := [7]\<rparr>\<rparr>)], rt_processes := (\<lambda>_. True),
     rt_shutdown_deadline := d\<rparr>"

lemma orphan_collected:
  "rt_fibers (snd (collect_garbage ((orphan_runtime busy d)\<lparr>rt_workers := w\<rparr>)))
     = (if busy then [(4, \<lparr>fc_plugin_id = 9, fc_inner = (example_fiber Disposing)\<lparr>fb_host_processes := [8]\<rparr>\<rparr>)] else [])"
  by (simp add: collect_garbage_def Let_def disposed_fibers_def orphan_runtime_def example_fiber_def)

lemma orphan_sel:
  "rt_root (orphan_runtime busy d) = 0" "rt_scopes (orphan_runtime busy d) = [(0, root_record\<lparr>sc_fibers := [4, 5]\<rparr>)]"
  "rt_workers (orphan_runtime busy d) = worker_supervisor_new diagnostics_default" "rt_diagnostics (orphan_runtime busy d) = diagnostics_default"
  "rt_processes (orphan_runtime busy d) = (\<lambda>_. True)"
  "rt_tasks (orphan_runtime busy d) = task_supervisor_new diagnostics_default" "rt_active_reloads (orphan_runtime busy d) = 0"
  "rt_reload_cleanup_pending (orphan_runtime busy d) = 0"
  by (simp_all add: orphan_runtime_def example_runtime_def empty_runtime_def runtime_with_config_def config_default_valid)

text \<open>The state of an attempt on it before the collection.\<close>

lemma orphan_attempt:
  "\<exists>w. live_workers w = 0 \<and> run_shutdown_attempt quiet_shutdown (orphan_runtime busy None) =
     (let t = snd (collect_garbage ((orphan_runtime busy (Some 10000000000))\<lparr>rt_workers := w\<rparr>))
      in Some (Ok (attempt_outcome (shutdown_blockers t) []), t))"
proof -
  let ?w = "snd (shutdown_until 0 (\<lambda>ws. ws) (\<lambda>_. JoinErr False) (rt_workers (orphan_runtime busy (Some 10000000000))))"
  let ?u = "(orphan_runtime busy (Some 10000000000))\<lparr>rt_workers := ?w\<rparr>"
  have w: "live_workers ?w = 0"
    by (simp add: orphan_sel shutdown_until_def Let_def live_workers_def worker_supervisor_new_def)
  have sh: "sh_expires quiet_shutdown = (\<lambda>_. None)" "sh_workers quiet_shutdown = (\<lambda>s. s)" "sh_yield quiet_shutdown = (\<lambda>s. s)"
      "sh_scope quiet_shutdown = (\<lambda>_. pass \<lparr>do_legacy_result = Ok (), do_terminal = Committed, do_issues = []\<rparr>)"
      "sh_fiber quiet_shutdown = (\<lambda>_. pass ())"
      "sh_now quiet_shutdown = 0" "sh_order quiet_shutdown = (\<lambda>ws. ws)" "sh_join quiet_shutdown = (\<lambda>_. JoinErr False)"
    by (simp_all add: quiet_shutdown_def)
  have no_scopes: "map fst (filter (\<lambda>(i, sc). i \<noteq> rt_root ?u \<and> sc_state sc \<noteq> ScopeDisposedState) (rt_scopes ?u)) = []"
    by (simp add: orphan_sel)
  have fibers: "residue_fibers quiet_shutdown fs v = Some (Ok True, v)" for fs v
    by (induction fs) (simp_all add: pass_def andthen_def timed_def sh)
  have rounds: "converge_rounds quiet_shutdown n issues ?u = Some (Ok issues, ?u)" for n issues
  proof (induction n)
    case (Suc n)
    with no_scopes fibers show ?case
      by (simp add: andthen_def reads_def pass_def update_def sh)
  qed (simp add: pass_def)
  have deadline: "(orphan_runtime busy None)\<lparr>rt_shutdown_deadline := Some (sh_now quiet_shutdown + shutdown_grace (rt_config (orphan_runtime busy None)))\<rparr>
      = orphan_runtime busy (Some 10000000000)"
    by (simp add: sh orphan_runtime_def example_runtime_def empty_runtime_def runtime_with_config_def config_default_valid)
      (simp add: config_default_def from_secs_def)
  have drain: "drain_workers quiet_shutdown (orphan_runtime busy (Some 10000000000)) = Some (Ok (), ?u)"
  proof -
    have "rs_diagnostics ?w = rt_diagnostics (orphan_runtime busy (Some 10000000000))"
      by (simp add: orphan_sel shutdown_until_def Let_def worker_supervisor_new_def)
    moreover have "(rt_workers (orphan_runtime busy d))\<lparr>rs_diagnostics := rt_diagnostics (orphan_runtime busy d)\<rparr> = rt_workers (orphan_runtime busy d)" for d
      by (simp add: orphan_sel worker_supervisor_new_def)
    ultimately show ?thesis
      by (simp add: drain_workers_def andthen_def update_def sh in_workers_def pass_def case_prod_beta)
  qed
  have "run_shutdown_attempt quiet_shutdown (orphan_runtime busy None) =
     (let t = snd (collect_garbage ?u) in Some (Ok (attempt_outcome (shutdown_blockers t) []), t))"
    using drain rounds unfolding run_shutdown_attempt_def andthen_def [of "update _"] update_def deadline
    by (simp add: run_shutdown_attempt_def andthen_def reads_def update_def pass_def timed_def sh
       converge_shutdown_residue_def Let_def)
  with w show ?thesis by blast
qed

definition busy_fiber :: "fiber_id \<times> fiber_cell" where
  "busy_fiber = (4, \<lparr>fc_plugin_id = 9, fc_inner = (example_fiber Disposing)\<lparr>fb_host_processes := [8]\<rparr>\<rparr>)"

lemma orphan_disposed: "disposed_fibers ((orphan_runtime busy d)\<lparr>rt_workers := w\<rparr>) = [(5, 9)]"
  by (simp add: disposed_fibers_def orphan_runtime_def example_fiber_def)

lemma orphan_scopes: "rt_scopes (snd (collect_garbage ((orphan_runtime busy d)\<lparr>rt_workers := w\<rparr>))) = [(0, root_record\<lparr>sc_fibers := [4]\<rparr>)]"
  unfolding collect_garbage_def Let_def orphan_disposed by (simp add: orphan_sel reclaimable_scope_def)

lemma orphan_after:
  fixes busy :: bool and d :: "nat option" and w :: runtime_worker_supervisor
  defines "t \<equiv> snd (collect_garbage ((orphan_runtime busy d)\<lparr>rt_workers := w\<rparr>))"
  shows "rt_fibers t = (if busy then [busy_fiber] else [])" "rt_root t = 0"
    "rt_workers t = w" "live_fiber_tasks (rt_tasks t) = 0" "rt_active_reloads t = 0" "rt_reload_cleanup_pending t = 0"
    "rt_processes t = (\<lambda>_. True)" "staging_fibers t = 0" "staging_scopes t = 0" "rt_gates t = example_gates"
  unfolding t_def staging_fibers_def orphan_collected staging_scopes_def orphan_scopes
  by (simp_all add: busy_fiber_def collect_garbage_def Let_def orphan_sel example_fiber_def live_fiber_tasks_def
      task_supervisor_new_def root_record_def orphan_runtime_def example_runtime_def empty_runtime_def runtime_with_config_def config_default_valid)

lemma orphan_blockers:
  assumes "live_workers w = 0"
  shows "shutdown_blockers (snd (collect_garbage ((orphan_runtime busy d)\<lparr>rt_workers := w\<rparr>)))
    = (if busy then [BlockFiber 4, BlockHostedExecution 4] else [])"
proof -
  have "execution_inflight (ge_word generation_execution_default) = 0 \<and> ge_service_handles generation_execution_default = 0"
    by (simp add: generation_execution_default_def execution_inflight_def EXECUTION_STATE_BITS_def EXECUTION_ACCEPTING_def)
  then have "busy \<Longrightarrow> fiber_blockers (snd (collect_garbage ((orphan_runtime True d)\<lparr>rt_workers := w\<rparr>))) busy_fiber = [BlockFiber 4, BlockHostedExecution 4]"
    by (simp add: fiber_blockers_def busy_fiber_def orphan_after execution_snapshot_def Let_def example_gates_def staged_def example_fiber_def)
  then show ?thesis unfolding shutdown_blockers_def orphan_after orphan_scopes using assms by simp
qed

text \<open>The attempt completes while the process of the disposed Fiber lives.\<close>

lemma orphan_completes:
  "\<exists>t. run_shutdown_attempt quiet_shutdown (orphan_runtime False None) = Some (Ok OutcomeComplete, t) \<and> rt_processes t = (\<lambda>_. True)"
proof -
  obtain w where w: "live_workers w = 0" "run_shutdown_attempt quiet_shutdown (orphan_runtime False None) =
     (let t = snd (collect_garbage ((orphan_runtime False (Some 10000000000))\<lparr>rt_workers := w\<rparr>))
      in Some (Ok (attempt_outcome (shutdown_blockers t) []), t))"
    using orphan_attempt [of False] by blast
  then show ?thesis
    using orphan_blockers [of w False "Some 10000000000"] orphan_after(7) [of w False "Some 10000000000"]
    by (simp add: attempt_outcome_def)
qed


theorem shutdown_attempt_returns_witness:
  "deadline_observed quiet_shutdown \<and> (\<exists>r t. run_shutdown_attempt quiet_shutdown example_runtime = Some (r, t))"
proof -
  have d: "deadline_observed quiet_shutdown"
    by (simp add: deadline_observed_def quiet_shutdown_def pass_def)
  from shutdown_attempt_returns [OF d] d show ?thesis by blast
qed

end
