(* ===== verification/Ownership_Properties.thy ===== *)
theory Ownership_Properties
  imports Ownership_Lifecycle Shutdown_Properties
begin

text \<open>
  What the ownership of registrations gives: no call of a Context and no step of the lifecycle leaves a
  registration without a Fiber that lists it, a disposal leaves nothing that is the Fiber's, a complete
  shutdown leaves empty registries - and the one place where it is lost, a registration whose scope was
  read before a reload committed.
\<close>

section \<open>Every registration has an owner\<close>


lemma owned_empty:
  assumes "eb_handlers (rt_events s) = []" "ir_handlers (rt_invocations s) = []" "ir_middleware (rt_invocations s) = []"
    "sr_entries (rt_services s) = []" "\<And>f r. fiber f s = Some r \<Longrightarrow> empty_handed r" "distinct (akeys (rt_fibers s))"
  shows "owned s"
  using assms by (simp add: owned_def carried_def services_carried_def service_get_def)

lemma example_owned: "owned example_runtime"
proof (rule owned_empty)
  show "empty_handed r" if "fiber f example_runtime = Some r" for f r
    using that by (auto simp: example_runtime_fiber example_fiber_def empty_handed_def split: if_splits)
qed (simp_all add: example_runtime_def empty_runtime_def runtime_with_config_def config_default_valid
      event_bus_default_def invocation_registry_default_def service_registry_new_def)

text \<open>An admitted call: the lease is taken and given back around the body.\<close>

lemma with_context_returns:
  assumes r: "fiber (cx_fiber cx) s = Some r" "fb_generation r = cx_generation cx" "lifecycle_admitted r"
    and g: "wf_gates (rt_gates (env s))" "gate_accepting (rt_gates (env s)) (fb_capabilities r)" "gate_room (rt_gates (env s)) (fb_capabilities r)"
    and body: "\<And>g. \<exists>v. body \<lparr>ca_fiber = r, ca_scope = fb_scope r, ca_gate = fb_capabilities r, ca_cancelled = fb_cancelled r\<rparr>
       ((env s)\<lparr>rt_gates := g\<rparr>) = Some (res, v) \<and> rt_gates v = g"
  shows "\<exists>g v g'. body \<lparr>ca_fiber = r, ca_scope = fb_scope r, ca_gate = fb_capabilities r, ca_cancelled = fb_cancelled r\<rparr>
       ((env s)\<lparr>rt_gates := g\<rparr>) = Some (res, v) \<and> with_context env cx body s = Some (res, v\<lparr>rt_gates := g'\<rparr>)"
proof -
  obtain g1 where g1: "gate_try_acquire (fb_capabilities r) (rt_gates (env s)) = (Ok True, g1)" "wf_gates g1"
      "gate_inflight g1 (fb_capabilities r) \<noteq> 0" "gate_handles g1 (fb_capabilities r) < gate_inflight g1 (fb_capabilities r)"
    using gate_try_acquire_accepting [where svc = False, OF g] handles_le_inflight [OF g(1), of "fb_capabilities r"] by auto
  obtain g2 where g2: "gate_drop_lease (GenerationLease (fb_capabilities r) False) g1 = (Ok (), g2)"
    using gate_drop_lease_spec [OF g1(2,3), where svc = False] g1(4) by auto
  obtain v where v: "body \<lparr>ca_fiber = r, ca_scope = fb_scope r, ca_gate = fb_capabilities r, ca_cancelled = fb_cancelled r\<rparr>
       ((env s)\<lparr>rt_gates := g1\<rparr>) = Some (res, v)" "rt_gates v = g1"
    using body [of g1] by blast
  then have "with_context env cx body s = Some (res, v\<lparr>rt_gates := g2\<rparr>)"
    using r g1(1) g2
    by (auto simp: with_context_def admit_core_def andthen_def get_fiber_def update_def within_def pass_def settle_def give_def)
  with v(1) show ?thesis by blast
qed

lemma with_context_admits:
  assumes "fiber (cx_fiber cx) s = Some r" "fb_generation r = cx_generation cx" "lifecycle_admitted r"
    and "wf_gates (rt_gates (env s))" "gate_accepting (rt_gates (env s)) (fb_capabilities r)" "gate_room (rt_gates (env s)) (fb_capabilities r)"
    and body: "\<And>g. body \<lparr>ca_fiber = r, ca_scope = fb_scope r, ca_gate = fb_capabilities r, ca_cancelled = fb_cancelled r\<rparr>
       ((env s)\<lparr>rt_gates := g\<rparr>) = Some (res, v\<lparr>rt_gates := g\<rparr>)"
  shows "\<exists>g. with_context env cx body s = Some (res, v\<lparr>rt_gates := g\<rparr>)"
  using with_context_returns [where env = env and body = body and res = res, OF assms(1-6)] body by fastforce

lemma example_on_event:
  "\<exists>t. on_event 7 (\<lambda>s. s) 3 \<lparr>cx_scope = 0, cx_fiber = 4, cx_generation = 1\<rparr> ''tick'' 11 example_runtime = Some (Ok 3, t) \<and>
     eb_handlers (rt_events t) = [(3, \<lparr>he_event = ''tick'', he_handler = 11, he_gate = 0\<rparr>)]"
proof -
  let ?s = "entered example_runtime" and ?r = "example_fiber Active" and ?cx = "\<lparr>cx_scope = 0, cx_fiber = 4, cx_generation = 1\<rparr>"
  let ?v = "modify_fiber 4 (\<lambda>r. r\<lparr>fb_handlers := fb_handlers r @ [3]\<rparr>)
    (?s\<lparr>rt_events := snd (register_gated 3 ''tick'' 11 0 (rt_events ?s))\<rparr>)"
  have f: "fiber 4 (?s\<lparr>rt_gates := g\<rparr>) = Some ?r" "rt_config (?s\<lparr>rt_gates := g\<rparr>) = config_default" "fiber 4 ?s = Some ?r" for g
    by (simp_all add: example_runtime_fiber entered_def) (simp_all add: example_runtime_sel)
  have body: "andthen (mutable_fiber 4) (\<lambda>r. andthen (ensure_handler_quota 7 r 4) (\<lambda>_.
      andthen (update (\<lambda>s. modify_fiber 4 (\<lambda>r. r\<lparr>fb_handlers := fb_handlers r @ [3]\<rparr>)
         (s\<lparr>rt_events := snd (register_gated 3 ''tick'' 11 0 (rt_events s))\<rparr>))) (\<lambda>_. pass (3 :: nat)))) (?s\<lparr>rt_gates := g\<rparr>)
     = Some (Ok (3 :: nat), ?v\<lparr>rt_gates := g\<rparr>)" for g
    using f(1) [of g] f(2) [of g]
    by (simp add: mutable_fiber_def andthen_def get_fiber_def give_def pass_def ensure_mutable_def ensure_handler_quota_def reads_def update_def
        example_fiber_def config_default_def modify_fiber_def)
  have "\<exists>g. with_context (\<lambda>s. s) ?cx (\<lambda>adm. andthen (mutable_fiber 4) (\<lambda>r. andthen (ensure_handler_quota 7 r 4) (\<lambda>_.
      andthen (update (\<lambda>s. modify_fiber 4 (\<lambda>r. r\<lparr>fb_handlers := fb_handlers r @ [3]\<rparr>)
         (s\<lparr>rt_events := snd (register_gated 3 ''tick'' 11 (ca_gate adm) (rt_events s))\<rparr>))) (\<lambda>_. pass (3 :: nat))))) ?s
     = Some (Ok (3 :: nat), ?v\<lparr>rt_gates := g\<rparr>)"
    by (rule with_context_admits [where r = ?r])
       (use f(3) body example_gates_wf accepting_example in
         \<open>simp_all add: example_fiber_def lifecycle_admitted_def entered_def example_runtime_sel\<close>)
  then obtain g where run: "with_context (\<lambda>s. s) ?cx (\<lambda>adm. andthen (mutable_fiber 4) (\<lambda>r. andthen (ensure_handler_quota 7 r 4) (\<lambda>_.
      andthen (update (\<lambda>s. modify_fiber 4 (\<lambda>r. r\<lparr>fb_handlers := fb_handlers r @ [3]\<rparr>)
         (s\<lparr>rt_events := snd (register_gated 3 ''tick'' 11 (ca_gate adm) (rt_events s))\<rparr>))) (\<lambda>_. pass (3 :: nat))))) ?s
     = Some (Ok (3 :: nat), ?v\<lparr>rt_gates := g\<rparr>)" ..
  have "on_event 7 (\<lambda>s. s) 3 ?cx ''tick'' 11 example_runtime = Some (Ok 3, left (?v\<lparr>rt_gates := g\<rparr>))"
    unfolding on_event_def registering_def
    by (rule with_admission_runs) (use run in \<open>simp_all add: example_runtime_sel admission_default_def\<close>)
  moreover have "eb_handlers (rt_events (left (?v\<lparr>rt_gates := g\<rparr>))) = [(3, \<lparr>he_event = ''tick'', he_handler = 11, he_gate = 0\<rparr>)]"
    by (simp add: left_def entered_def modify_fiber_def register_spec(2) [OF surjective_pairing])
       (simp add: example_runtime_def empty_runtime_def runtime_with_config_def config_default_valid event_bus_default_def)
  ultimately show ?thesis by blast
qed

lemma quiet_teardown_keeps: "teardown_keeps quiet_teardown"
  by (simp add: teardown_keeps_def quiet_teardown_def kept_pass env_keeps_def)

lemma quiet_activation_keeps: "activation_keeps quiet_activation"
  by (simp add: activation_keeps_def quiet_activation_def kept_pass kept_give env_keeps_def)


section \<open>Nothing is left of a disposed Fiber\<close>

definition left_to_others :: "fiber_id \<Rightarrow> runtime \<Rightarrow> bool" where
  "left_to_others f t \<longleftrightarrow>
     (\<forall>h e. aget (eb_handlers (rt_events t)) h = Some e \<longrightarrow>
       (\<exists>g r. g \<noteq> f \<and> fiber g t = Some r \<and> h \<in> set (fb_handlers r) \<and> he_gate e = fb_capabilities r)) \<and>
     (\<forall>h e. aget (ir_handlers (rt_invocations t)) h = Some e \<longrightarrow>
       (\<exists>g r. g \<noteq> f \<and> fiber g t = Some r \<and> h \<in> set (fb_invocation_handlers r) \<and> ih_gate e = fb_capabilities r \<and> ih_scope e = fb_scope r)) \<and>
     (\<forall>m e. aget (ir_middleware (rt_invocations t)) m = Some e \<longrightarrow>
       (\<exists>g r. g \<noteq> f \<and> fiber g t = Some r \<and> m \<in> set (fb_invocation_middleware r) \<and> mw_gate e = fb_capabilities r \<and> mw_scope e = fb_scope r)) \<and>
     (\<forall>scope symbol e. service_get scope symbol (rt_services t) = Some e \<longrightarrow> se_owner e \<noteq> f)"

lemma left_to_others_empty:
  assumes "owned t" and "\<And>r. fiber f t = Some r \<Longrightarrow> empty_handed r"
  shows "left_to_others f t"
proof -
  have other: "g \<noteq> f" if "fiber g t = Some r" "h \<in> set (fb_handlers r) \<or> h \<in> set (fb_invocation_handlers r) \<or> h \<in> set (fb_invocation_middleware r)"
    for g r h
    using assms(2) that by (auto simp: empty_handed_def)
  have services: "se_owner e \<noteq> f" if e: "service_get scope symbol (rt_services t) = Some e" for scope symbol e
  proof
    assume "se_owner e = f"
    with assms(1) e obtain r where "fiber f t = Some r" "fb_provided r \<noteq> []"
      unfolding owned_def services_carried_def by fastforce
    then show False using assms(2) by (auto simp: empty_handed_def)
  qed
  have events: "\<exists>g r. g \<noteq> f \<and> fiber g t = Some r \<and> h \<in> set (fb_handlers r) \<and> he_gate e = fb_capabilities r"
    if "aget (eb_handlers (rt_events t)) h = Some e" for h e
    using assms(1) that other unfolding owned_def carried_def event_bound_def by blast
  have handlers: "\<exists>g r. g \<noteq> f \<and> fiber g t = Some r \<and> h \<in> set (fb_invocation_handlers r) \<and> ih_gate e = fb_capabilities r \<and> ih_scope e = fb_scope r"
    if "aget (ir_handlers (rt_invocations t)) h = Some e" for h e
    using assms(1) that other unfolding owned_def carried_def handler_bound_def by blast
  have wraps: "\<exists>g r. g \<noteq> f \<and> fiber g t = Some r \<and> m \<in> set (fb_invocation_middleware r) \<and> mw_gate e = fb_capabilities r \<and> mw_scope e = fb_scope r"
    if "aget (ir_middleware (rt_invocations t)) m = Some e" for m e
    using assms(1) that other unfolding owned_def carried_def middleware_bound_def by blast
  show ?thesis unfolding left_to_others_def using events handlers wraps services by blast
qed


text \<open>Fiber 4 with an event handler that is on the bus.\<close>

definition serving_events :: runtime where
  "serving_events = busy_runtime\<lparr>rt_events := snd (register_gated 3 ''tick'' 11 0 (rt_events busy_runtime))\<rparr>"

lemma serving_fiber: "fiber 4 serving_events = Some ((example_fiber Active)\<lparr>fb_handlers := [3], fb_effects := [7]\<rparr>)"
  unfolding serving_events_def fiber_upd by (rule busy_fiber)

lemma serving_bus: "eb_handlers (rt_events serving_events) = [(3, \<lparr>he_event = ''tick'', he_handler = 11, he_gate = 0\<rparr>)]"
  by (simp add: serving_events_def busy_runtime_def modify_fiber_def register_spec(2) [OF surjective_pairing])
     (simp add: example_runtime_def empty_runtime_def runtime_with_config_def config_default_valid event_bus_default_def)

lemma owned_events:
  assumes "owned s" and "carried (aget (eb_handlers b)) event_bound fb_handlers s"
  shows "owned (s\<lparr>rt_events := b\<rparr>)"
  using assms by (simp add: owned_def carried_def services_carried_def lookup_symbol_def)

lemma serving_owned: "owned serving_events"
proof -
  have "owned busy_runtime"
    unfolding busy_runtime_def
    by (rule owned_modify [OF example_owned])
       (auto simp: example_runtime_fiber example_fiber_def empty_handed_def holdings_def resting_def)
  moreover have "carried (aget (eb_handlers (rt_events serving_events))) event_bound fb_handlers busy_runtime"
    unfolding carried_def serving_bus event_bound_def
    by (intro allI impI exI [of _ 4] exI [of _ "(example_fiber Active)\<lparr>fb_handlers := [3], fb_effects := [7]\<rparr>"])
       (auto simp: busy_fiber example_fiber_def split: if_splits)
  ultimately show ?thesis
    using owned_events [of busy_runtime "rt_events serving_events"] by (simp add: serving_events_def)
qed


section \<open>A complete shutdown leaves empty registries\<close>

definition registries_empty :: "runtime \<Rightarrow> bool" where
  "registries_empty t \<longleftrightarrow> eb_handlers (rt_events t) = [] \<and> ir_handlers (rt_invocations t) = [] \<and>
     ir_middleware (rt_invocations t) = [] \<and> sr_entries (rt_services t) = []"

lemma aget_empty:
  assumes "\<And>k v. aget xs k \<noteq> Some v"
  shows "xs = []"
proof (cases xs)
  case (Cons x ys)
  with assms [of "fst x" "snd x"] show ?thesis by simp
qed simp

text \<open>Without a Fiber there is nobody to own a registration.\<close>

lemma no_fibers_no_registrations:
  assumes "owned t" and "rt_fibers t = []"
  shows "registries_empty t"
proof -
  have "fiber f t = None" for f using assms(2) by (simp add: fiber_def)
  then show ?thesis
    using assms(1)
    by (auto simp: registries_empty_def owned_def carried_def services_carried_def service_get_def intro!: aget_empty)
qed

definition shutdown_keeps :: "shutdown_env \<Rightarrow> bool" where
  "shutdown_keeps sh \<longleftrightarrow> (\<forall>i. kept owned (sh_scope sh i)) \<and> (\<forall>f. kept owned (sh_fiber sh f)) \<and>
     env_keeps owned (sh_workers sh) \<and> env_keeps owned (sh_yield sh) \<and>
     (\<forall>s partial. sh_expires sh s = Some partial \<longrightarrow> env_keeps owned partial)"

lemma kept_timed:
  assumes "shutdown_keeps sh" and m: "kept owned m"
  shows "kept owned (timed sh m)"
proof (rule keptI)
  fix s r t
  assume "owned s" and "timed sh m s = Some (r, t)"
  then show "owned t"
    using assms by (auto simp: timed_def shutdown_keeps_def env_keeps_def split: option.splits res.splits dest: keptD)
qed

lemma kept_residue_scopes:
  assumes "shutdown_keeps sh"
  shows "kept owned (residue_scopes sh is issues)"
proof (induction "is" arbitrary: issues)
  case (Cons i "is")
  have "kept owned (timed sh (sh_scope sh i))"
    by (rule kept_timed [OF assms]) (use assms in \<open>simp add: shutdown_keeps_def\<close>)
  then show ?case
    using Cons by (auto intro!: kept_andthen kept_laws split: option.split res.split)
qed (simp add: kept_pass)

lemma kept_residue_fibers:
  assumes "shutdown_keeps sh"
  shows "kept owned (residue_fibers sh fs)"
proof (induction fs)
  case (Cons f fs)
  have "kept owned (timed sh (sh_fiber sh f))"
    by (rule kept_timed [OF assms]) (use assms in \<open>simp add: shutdown_keeps_def\<close>)
  then show ?case
    using Cons by (auto intro!: kept_andthen kept_laws)
qed (simp add: kept_pass)

lemma kept_rounds:
  assumes "shutdown_keeps sh"
  shows "kept owned (converge_rounds sh n issues)"
proof (induction n arbitrary: issues)
  case (Suc n)
  have "kept owned (update (sh_yield sh))"
    by (rule kept_update) (use assms in \<open>simp add: shutdown_keeps_def env_keeps_def\<close>)
  then show ?case
    using Suc kept_residue_scopes [OF assms] kept_residue_fibers [OF assms]
    by (auto intro!: kept_andthen kept_laws split: prod.split)
qed (simp add: kept_pass)

lemma kept_in_workers: "kept owned (in_workers op)"
  by (rule keptI) (auto simp: in_workers_def split: prod.splits)

lemma owned_attempt:
  assumes "shutdown_keeps sh"
  shows "kept owned (run_shutdown_attempt sh)"
proof -
  have root: "kept owned (timed sh (sh_scope sh root))" for root
    by (rule kept_timed [OF assms]) (use assms in \<open>simp add: shutdown_keeps_def\<close>)
  have deadline: "kept owned (update (\<lambda>s. s\<lparr>rt_shutdown_deadline := d s\<rparr>))" for d
    by (rule kept_update, erule owned_other) simp_all
  have drain: "kept owned (drain_workers sh)"
    unfolding drain_workers_def
    by (intro kept_andthen kept_update kept_in_workers kept_pass) (use assms in \<open>auto simp: shutdown_keeps_def env_keeps_def\<close>)
  have collect: "kept owned (update (\<lambda>s. snd (collect_garbage s)))"
    by (rule kept_update) (rule owned_collect)
  have body: "kept owned (case result of
         Some (Ok obs) \<Rightarrow> andthen (drain_workers sh) (\<lambda>_. converge_shutdown_residue sh (do_issues obs))
       | Some (Err e) \<Rightarrow> pass [typed_issue ChildScopeCleanup e]
       | Some (Panicked p) \<Rightarrow> give (Panicked p)
       | None \<Rightarrow> pass [])" for result :: "disposal_observation cres option"
    using drain kept_rounds [OF assms]
    by (cases result)
       (auto intro: kept_andthen kept_pass kept_give simp: converge_shutdown_residue_def split: res.split)
  show ?thesis
    unfolding run_shutdown_attempt_def
    by (intro kept_andthen deadline kept_reads root collect kept_pass body)
qed


lemma quiet_shutdown_keeps: "shutdown_keeps quiet_shutdown"
  by (simp add: shutdown_keeps_def quiet_shutdown_def kept_pass env_keeps_def)

lemma orphan_owned: "owned (orphan_runtime False None)"
proof (rule owned_empty)
  show "empty_handed r" if "fiber f (orphan_runtime False None) = Some r" for f r
    using that by (auto simp: orphan_runtime_def fiber_def example_fiber_def empty_handed_def split: if_splits)
qed (simp_all add: orphan_runtime_def example_runtime_def empty_runtime_def runtime_with_config_def config_default_valid
      event_bus_default_def invocation_registry_default_def service_registry_new_def)


section \<open>A registration across a commit\<close>

text \<open>A service at the staging scope whose owner is a Fiber of the target scope.\<close>

definition stranded :: "fiber_id \<Rightarrow> scope_id \<Rightarrow> scope_id \<Rightarrow> runtime \<Rightarrow> bool" where
  "stranded f staging target s \<longleftrightarrow> map_option fb_scope (fiber f s) = Some target \<and>
     (\<exists>symbol e. service_get staging symbol (rt_services s) = Some e \<and> se_owner e = f)"

lemma stranded_sees: "sees_registrations (stranded f staging target)"
  by (simp add: sees_registrations_def stranded_def service_get_def fiber_def)

lemma stranded_not_owned: "stranded f staging target s \<Longrightarrow> staging \<noteq> target \<Longrightarrow> \<not> owned s"
  by (fastforce simp: stranded_def owned_def services_carried_def)

lemma stranded_stays: "staging \<noteq> target \<Longrightarrow> kept (stranded f staging target) (withdraw_service f target key removed)"
  unfolding withdraw_service_def
  by (intro kept_andthen kept_intern_symbol kept_reads kept_if kept_update kept_pass)
     (auto simp: stranded_def service_remove_def service_get_def Let_def bump_def fiber_def)

text \<open>A commit binds the staged Fiber to the target scope.\<close>

lemma commit_moves_fiber:
  assumes run: "commit_staged_revision gap old f staging target s = Some (Ok hs, t)"
    and r: "fiber f s = Some r" "fiber old s = Some previous" "reload_ready f r previous staging (gap (entered s))"
    and keys: "wf_symbols (rt_services s)" "distinct (fb_provided r)"
  shows "map_option fb_scope (fiber f t) = Some target"
  using run r(1,2) keys
proof (cases rule: commit_staged_cases)
  case (committed dr sr vr cres v)
  then have "cres = Ok ()" by (cases cres) auto
  with commit_prepared_spec [OF r(3) committed(2,1,3)]
  have "replaced dr sr vr r (fb_capabilities r) (fb_capabilities previous) (gap (entered s)) v" by auto
  then show ?thesis using committed(1,4) by (auto simp: replaced_def revisions_for_def left_def)
qed auto

text \<open>The scope of the admission is the one of before; the Fiber is the one of after.\<close>

lemma triple_admit_stale:
  assumes "fiber f s = Some r" and "fb_scope r = staging" and "map_option fb_scope (fiber f (env s)) = Some target" and "cx_fiber cx = f"
  shows "triple (\<lambda>x. x = s) (admit_core env cx)
    (\<lambda>adm x. ca_scope adm = staging \<and> map_option fb_scope (fiber f x) = Some target) (\<lambda>_. True)"
proof -
  let ?P = "\<lambda>x. map_option fb_scope (fiber f x) = Some target"
  have gate: "triple ?P (in_gates op) (\<lambda>_. ?P) (\<lambda>_. True)" for op :: "gate_store \<Rightarrow> bool cres \<times> gate_store"
    by (rule triple_within) (auto split: res.split)
  have drop: "triple ?P (andthen (in_gates op) (\<lambda>_. give (Err e))) Q (\<lambda>_. True)"
    for op :: "gate_store \<Rightarrow> unit cres \<times> gate_store" and e and Q :: "context_admission \<Rightarrow> runtime \<Rightarrow> bool"
    by (rule triple_andthen [where R = "\<lambda>_ _. True"], rule triple_within) (auto split: res.split intro: triple_raise)
  have env: "triple (\<lambda>x. x = s \<and> r' = r) (update env) (\<lambda>_ x. ?P x \<and> r' = r) (\<lambda>_. True)" for r'
    by (rule triple_update) (use assms(3) in simp)
  have leased: "triple (\<lambda>x. ?P x \<and> r' = r) (andthen (in_gates op) (\<lambda>granted. if \<not> granted then give (Err e)
       else if \<not> lifecycle_admitted r' then andthen (in_gates op') (\<lambda>_. give (Err e'))
       else pass \<lparr>ca_fiber = r', ca_scope = fb_scope r', ca_gate = fb_capabilities r', ca_cancelled = fb_cancelled r'\<rparr>))
      (\<lambda>adm x. ca_scope adm = staging \<and> ?P x) (\<lambda>_. True)"
    for r' e e' and op :: "gate_store \<Rightarrow> bool cres \<times> gate_store" and op' :: "gate_store \<Rightarrow> unit cres \<times> gate_store"
  proof (cases "r' = r")
    case True
    show ?thesis
      by (rule triple_weaken [where P' = ?P and E' = "\<lambda>_. True"], rule triple_andthen [OF gate], rule triple_if,
          rule triple_raise, simp, rule triple_if, rule drop, rule triple_pass) (use True assms(2) in auto)
  qed (simp add: triple_def)
  show ?thesis
    unfolding admit_core_def assms(4)
    by (rule triple_andthen [where R = "\<lambda>r' x. x = s \<and> r' = r", OF triple_get_fiber], use assms(1) in simp, simp,
        rule triple_if, rule triple_raise, simp, rule triple_andthen [OF env], rule leased)
qed

lemma triple_entered:
  assumes "triple (\<lambda>x. x = entered s) body (\<lambda>_. S) (\<lambda>_. True)" and "guard_free S"
  shows "triple (\<lambda>x. x = s) (with_admission body) (\<lambda>_. S) (\<lambda>_. True)"
  unfolding triple_def
proof (intro allI impI)
  fix x r t
  assume "x = s" "with_admission body x = Some (r, t)"
  then have "with_admission body s = Some (r, t)" by simp
  from with_admission_cases [OF this] assms show "case r of Ok a \<Rightarrow> S t | _ \<Rightarrow> True"
    by (auto simp: triple_def guard_free_def left_def split: res.split)
qed

lemma triple_stale_context:
  assumes "fiber f s = Some r" "fb_scope r = staging" "map_option fb_scope (fiber f (env s)) = Some target" "cx_fiber cx = f"
    and body: "\<And>adm. ca_scope adm = staging \<Longrightarrow>
      triple (\<lambda>x. map_option fb_scope (fiber f x) = Some target) (body adm) (\<lambda>_. S) (\<lambda>_. True)"
    and "guard_free S"
  shows "triple (\<lambda>x. x = s) (with_context env cx body) (\<lambda>_. S) (\<lambda>_. True)"
proof -
  have after: "triple S (andthen (in_gates op) (\<lambda>_. give r)) (\<lambda>_. S) (\<lambda>_. True)" for op and r :: "'a cres"
    by (rule triple_weaken [OF kept_andthen [OF kept_gates [OF assms(6)] kept_give, unfolded kept_def]]) simp_all
  have refused: "triple (\<lambda>_. True) (andthen (in_gates op) (\<lambda>_. give r)) (\<lambda>_. S) (\<lambda>_. True)" if "\<And>a. r \<noteq> Ok a" for op and r :: "'a cres"
    using that by (auto simp: triple_def andthen_def give_def split: option.splits res.splits)
  have stale: "triple (\<lambda>x. ca_scope adm = staging \<and> map_option fb_scope (fiber f x) = Some target) (body adm) (\<lambda>_. S) (\<lambda>_. True)" for adm
    using body [of adm] by (cases "ca_scope adm = staging") (simp_all add: triple_def)
  show ?thesis
    unfolding with_context_def
    by (rule triple_andthen [OF triple_admit_stale [where env = env, OF assms(1-4)]], rule triple_settle_cases [OF stale after])
       (rule refused, simp)+
qed

lemma provide_strands:
  assumes "fiber f s = Some r" and "fb_scope r = staging" and "map_option fb_scope (fiber f (env (entered s))) = Some target"
    and "cx_fiber cx = f" and run: "provide env cx key v s = Some (Ok (), t)"
  shows "stranded f staging target t"
proof -
  let ?P = "\<lambda>x. map_option fb_scope (fiber f x) = Some target" and ?S = "stranded f staging target"
  have free: "guard_free ?S" by (rule sees_guard_free [OF stranded_sees])
  have r: "fiber f (entered s) = Some r" using assms(1) by (simp add: entered_def)
  have wake: "triple ?S (if b then andthen bump_service_epoch (\<lambda>_. andthen (reads (\<lambda>s. dependents symbol (rt_dependencies s)))
      (each wake_dependent)) else pass ()) (\<lambda>_. ?S) (\<lambda>_. True)" for b symbol
    by (rule triple_weaken [OF sees_wake_dependents [OF stranded_sees, unfolded kept_def]]) simp_all
  have "triple (\<lambda>x. x = s) (provide env cx key v) (\<lambda>_. ?S) (\<lambda>_. True)"
    unfolding provide_def assms(4)
    by (rule triple_entered [OF triple_stale_context [where env = env, OF r assms(2-4) _ free] free], simp only:,
        rule triple_andthen [where R = "\<lambda>_. ?P", OF triple_mutable], simp, simp, rule triple_if, rule triple_raise, simp,
        rule triple_read, rule triple_option, rule triple_raise, simp, rule triple_read, rule triple_if,
        rule triple_raise, simp, rule triple_andthen [OF _ wake], rule triple_update)
       (auto simp: stranded_def service_insert_def service_get_def bump_def option.map_comp comp_def)
  from tripleD_Ok [OF this refl run] show ?thesis .
qed

text \<open>
  C14. A service that is provided while a reload commits is lost. The scope of a Context call is read at its
  admission; when the reload of the Fiber commits between the admission and the owner's write lock,
  the call still succeeds, and the service is entered at the staging scope while its owner is bound
  to the target scope: the ownership of registrations is broken, and since a disposal withdraws at the
  scope of the Fiber, no withdrawal of any key removes the entry.
\<close>

theorem provision_misses_the_commit:
  assumes commit: "commit_staged_revision gap old f staging target (entered s) = Some (Ok hs, env (entered s))"
    and r: "fiber f s = Some r" "fb_scope r = staging" "staging \<noteq> target" and previous: "fiber old s = Some previous"
    and ready: "reload_ready f r previous staging (gap (entered (entered s)))"
    and keys: "wf_symbols (rt_services s)" "distinct (fb_provided r)"
    and run: "provide env cx key v s = Some (Ok (), t)" "cx_fiber cx = f"
  shows "stranded f staging target t \<and> \<not> owned t \<and> kept (stranded f staging target) (withdraw_service f target key' removed)"
proof -
  have e: "fiber g (entered s) = fiber g s" "rt_services (entered s) = rt_services s" for g by (simp_all add: entered_def)
  have "map_option fb_scope (fiber f (env (entered s))) = Some target"
    by (rule commit_moves_fiber [OF commit]) (use r previous ready keys in \<open>simp_all add: e\<close>)
  from provide_strands [OF r(1,2) this run(2,1)] stranded_not_owned [OF _ r(3)] stranded_stays [OF r(3)]
  show ?thesis by blast
qed

text \<open>When a provision succeeds.\<close>

lemma with_context_ends:
  assumes "fiber (cx_fiber cx) s = Some r" "fb_generation r = cx_generation cx" "lifecycle_admitted r"
    and "wf_gates (rt_gates (env s))" "gate_accepting (rt_gates (env s)) (fb_capabilities r)" "gate_room (rt_gates (env s)) (fb_capabilities r)"
    and "\<And>g. \<exists>v. body \<lparr>ca_fiber = r, ca_scope = fb_scope r, ca_gate = fb_capabilities r, ca_cancelled = fb_cancelled r\<rparr>
       ((env s)\<lparr>rt_gates := g\<rparr>) = Some (res, v) \<and> rt_gates v = g"
  shows "\<exists>v. with_context env cx body s = Some (res, v)"
  using with_context_returns [where env = env and body = body and res = res, OF assms] by blast

lemma with_admission_returns:
  "ag_state (rt_admission s) = RUNNING \<Longrightarrow> \<exists>v. body (entered s) = Some (res, v) \<Longrightarrow> \<exists>v. with_admission body s = Some (res, v)"
  using with_admission_runs by blast

lemma provide_runs:
  assumes s: "ag_state (rt_admission s) = RUNNING" "fiber (cx_fiber cx) s = Some r" "fb_generation r = cx_generation cx"
      "lifecycle_admitted r"
    and g: "wf_gates (rt_gates u)" "gate_accepting (rt_gates u) (fb_capabilities r)" "gate_room (rt_gates u) (fb_capabilities r)"
    and u: "fiber (cx_fiber cx) u = Some r'" "fb_state r' = Active" "\<not> fb_activation_sealed r'"
      "key \<in> set (pd_provisions (fb_descriptor r'))" "lookup_symbol key u = Some symbol"
      "\<not> service_contains (fb_scope r) symbol (rt_services u)" "dependents symbol (rt_dependencies u) = []"
  shows "\<exists>t. provide (\<lambda>_. u) cx key v s = Some (Ok (), t)"
proof -
  show ?thesis
    unfolding provide_def
    by (rule with_admission_returns [OF s(1)],
        rule with_context_ends [where env = "\<lambda>_. u" and r = r])
       (use s g u in \<open>simp_all add: entered_def mutable_fiber_def andthen_def get_fiber_def give_def pass_def ensure_mutable_def reads_def
          update_def lookup_symbol_def modify_fiber_def bump_service_epoch_def\<close>)
qed

text \<open>The reload of Fiber 4, whose staged Fiber 5 declares a service that it has not provided yet.\<close>

definition promised :: plugin_descriptor where
  "promised = \<lparr>pd_name = ''demo'', pd_dependencies = [], pd_provisions = [example_key ''a''], pd_dependency_policy = Restart, pd_revision = 2\<rparr>"

definition promising_runtime :: runtime where
  "promising_runtime = reload_runtime\<lparr>rt_fibers := [(4, \<lparr>fc_plugin_id = 9, fc_inner = example_fiber Reloading\<rparr>),
     (5, \<lparr>fc_plugin_id = 9, fc_inner = staged_example\<lparr>fb_descriptor := promised\<rparr>\<rparr>)],
     rt_services := snd (try_intern (example_key ''a'') (service_registry_new 4 4)),
     rt_dependencies := add_provider 1 (from_index 0) 5 graph_default\<rparr>"

lemma promising_sel:
  "fiber 4 promising_runtime = Some (example_fiber Reloading)" "fiber 5 promising_runtime = Some (staged_example\<lparr>fb_descriptor := promised\<rparr>)"
  "rt_gates promising_runtime = example_gates" "rt_scopes promising_runtime = example_reload_scopes"
  "rt_invocations promising_runtime = invocation_registry_default" "rt_admission promising_runtime = admission_default"
  "rt_services promising_runtime = snd (try_intern (example_key ''a'') (service_registry_new 4 4))"
  "rt_dependencies promising_runtime = add_provider 1 (from_index 0) 5 graph_default"
  by (simp_all add: promising_runtime_def fiber_def reload_runtime_sel)

lemma promising_lookup: "service_lookup (example_key ''a'') (rt_services promising_runtime) = Some (from_index 0)"
  by (simp add: promising_sel service_lookup_def try_intern_def service_registry_new_def Let_def)

lemma promising_move:
  obtains dg where "move_providers 1 0 [from_index 0] 5 (add_provider 1 (from_index 0) 5 graph_default) = (Ok (), dg)"
    "dependents symbol dg = []"
proof -
  let ?g = "add_provider 1 (from_index 0) 5 graph_default"
  have d: "distinct (akeys (gr_declared ?g))"
    by (simp add: add_provider_def graph_default_def push_at_def fibers_at_def)
  have "\<not> move_rejected 1 0 5 ?g (from_index 0)"
    unfolding move_rejected_iff [OF d]
    by (auto simp: providers_def graph_default_def add_provider_def fibers_at_def push_at_def split: if_splits)
  moreover have "dependents symbol (move_all 1 0 5 [from_index 0] ?g) = []"
    by (simp add: dependents_def add_provider_def remove_provider_def graph_default_def fibers_at_def)
  ultimately show thesis by (intro that) (simp_all add: move_providers_def)
qed

lemma promising_ready:
  "reload_ready 5 (staged_example\<lparr>fb_descriptor := promised\<rparr>) (example_fiber Reloading) 1 (entered (entered promising_runtime))"
  using example_gates_wf
  by (simp add: reload_ready_def promising_sel registered_at_def entries_at_def invocation_registry_default_def entered_def)
     (simp add: graph_default_def example_reload_scopes_def staged_example_def example_fiber_def add_provider_def push_at_def
        example_gates_def staged_def root_record_def)

lemma example_cutover_open:
  assumes "cutover_from 1 0 example_gates = (Ok True, g)"
  shows "wf_gates g" and "gate_accepting g 1" and "gate_room g 1"
proof -
  show "wf_gates g"
    using cutover_True(6) [OF example_gates_wf assms] by (simp add: example_gates_def staged_def)
  have "gs_gate g 1 = gs_gate example_gates 1"
    using assms by (auto simp: cutover_from_def selector_switch_def sbind_def gate_begin_draining_def Let_def split: prod.splits res.splits if_splits)
  then show "gate_accepting g 1" "gate_room g 1"
    using accepting_example [of 1] by (simp_all add: gate_accepting_def gate_room_def)
qed

lemma promising_committed:
  obtains u r where "commit_staged_revision (\<lambda>s. s) 4 5 1 0 (entered promising_runtime) = Some (Ok [], u)"
    "wf_gates (rt_gates u)" "gate_accepting (rt_gates u) 1" "gate_room (rt_gates u) 1" "fiber 5 u = Some r" "fb_state r = Active"
    "\<not> fb_activation_sealed r" "fb_descriptor r = promised" "lookup_symbol (example_key ''a'') u = Some (from_index 0)"
    "\<not> service_contains 1 (from_index 0) (rt_services u)" "dependents (from_index 0) (rt_dependencies u) = []"
proof -
  let ?s = "entered promising_runtime"
  have e: "fiber f ?s = fiber f promising_runtime" "rt_gates ?s = example_gates" "rt_scopes ?s = example_reload_scopes"
      "rt_services ?s = rt_services promising_runtime" "rt_dependencies ?s = add_provider 1 (from_index 0) 5 graph_default"
      "ag_state (rt_admission ?s) = RUNNING" for f
    by (simp_all add: entered_def promising_sel admission_enter_def admission_default_def)
  obtain dg where dg: "move_providers 1 0 [from_index 0] 5 (add_provider 1 (from_index 0) 5 graph_default) = (Ok (), dg)"
      "dependents (from_index 0) dg = []"
    by (rule promising_move)
  have interned: "intern_symbols (pd_provisions promised) (entered ?s) = Some (Ok [from_index 0], entered ?s)"
    by (simp add: promised_def andthen_def intern_symbol_def intern_def entered_def promising_lookup pass_def)
  obtain v where v: "commit_staged_revision (\<lambda>s. s) 4 5 1 0 ?s = Some (Ok [], left v)"
      "cutover_scopes \<lparr>pd_symbols = [from_index 0], pd_from = 1, pd_to = 0, pd_staged = 5\<rparr>
         \<lparr>pr_staging = 1, pr_target = 0, pr_staged = 5, pr_old = 4, pr_children = [2]\<rparr>
         \<lparr>pv_from = 1, pv_to = 0, pv_symbols = [], pv_old_owner = 4, pv_staged_owner = 5\<rparr>
         (staged_example\<lparr>fb_descriptor := promised\<rparr>) 1 0 ((entered ?s)\<lparr>rt_dependencies := dg\<rparr>) = Some (Ok (), v)"
    using example_commit [of ?s promised "[from_index 0]" dg] interned dg(1) by (auto simp: e promising_sel(1-3))
  show thesis
  proof (rule cutover_scopes_Ok [OF v(2)])
    fix sc sv g
    assume p: "commit_revision_and_publish \<lparr>pv_from = 1, pv_to = 0, pv_symbols = [], pv_old_owner = 4, pv_staged_owner = 5\<rparr> 1 0
        (rt_services ((entered ?s)\<lparr>rt_dependencies := dg\<rparr>), rt_gates ((entered ?s)\<lparr>rt_dependencies := dg\<rparr>)) = (Ok (), sv, g)"
      and b: "bind_staged (pr_staged \<lparr>pr_staging = 1, pr_target = 0, pr_staged = 5, pr_old = 4, pr_children = [2]\<rparr>)
        (pr_target \<lparr>pr_staging = 1, pr_target = 0, pr_staged = 5, pr_old = 4, pr_children = [2]\<rparr>)
        (((entered ?s)\<lparr>rt_dependencies := dg\<rparr>)\<lparr>rt_scopes := sc, rt_invocations := commit_invocation_revision
           (fb_invocation_handlers (staged_example\<lparr>fb_descriptor := promised\<rparr>))
           (fb_invocation_middleware (staged_example\<lparr>fb_descriptor := promised\<rparr>))
           (pr_target \<lparr>pr_staging = 1, pr_target = 0, pr_staged = 5, pr_old = 4, pr_children = [2]\<rparr>)
           (rt_invocations ((entered ?s)\<lparr>rt_dependencies := dg\<rparr>)), rt_services := sv, rt_gates := g\<rparr>) = Some (Ok (), v)"
    have g: "cutover_from 1 0 example_gates = (Ok True, g)" and sv: "sv = bump (rt_services promising_runtime)"
      using p by (auto simp: commit_revision_and_publish_def entered_def promising_sel(3) split: prod.splits res.splits bool.splits)
    have w: "rt_gates v = g" "rt_services v = sv" "rt_dependencies v = dg"
        "fiber 5 v = Some (staged_example\<lparr>fb_descriptor := promised, fb_scope := 0, fb_staged := False, fb_reload_owned := False,
           fb_activation_sealed := False, fb_activation := None\<rparr>)"
      using bind_staged_spec [OF b] by (simp_all add: entered_def promising_sel(2))
    have none: "aget (sr_entries (rt_services promising_runtime)) (1, from_index 0) = None"
      by (simp add: promising_sel try_intern_def service_registry_new_def Let_def)
    show thesis
      by (rule that [OF v(1), where r = "staged_example\<lparr>fb_descriptor := promised, fb_scope := 0, fb_staged := False,
            fb_reload_owned := False, fb_activation_sealed := False, fb_activation := None\<rparr>"])
         (use example_cutover_open [OF g] w sv dg(2) promising_lookup none in
           \<open>simp_all del: One_nat_def add: left_def lookup_symbol_def service_lookup_def bump_def service_contains_def\<close>,
          simp_all add: staged_example_def example_fiber_def)
  qed
qed

theorem provision_misses_the_commit_witness:
  "\<exists>u t. commit_staged_revision (\<lambda>s. s) 4 5 1 0 (entered promising_runtime) = Some (Ok [], u) \<and>
     provide (\<lambda>_. u) \<lparr>cx_scope = 1, cx_fiber = 5, cx_generation = 2\<rparr> (example_key ''a'') (NativeValue 3 8) promising_runtime = Some (Ok (), t) \<and>
     stranded 5 1 0 t \<and> \<not> owned t"
proof -
  let ?cx = "\<lparr>cx_scope = 1, cx_fiber = 5, cx_generation = 2\<rparr>" and ?r = "staged_example\<lparr>fb_descriptor := promised\<rparr>"
  obtain u r where u: "commit_staged_revision (\<lambda>s. s) 4 5 1 0 (entered promising_runtime) = Some (Ok [], u)"
    "wf_gates (rt_gates u)" "gate_accepting (rt_gates u) 1" "gate_room (rt_gates u) 1" "fiber 5 u = Some r" "fb_state r = Active"
    "\<not> fb_activation_sealed r" "fb_descriptor r = promised" "lookup_symbol (example_key ''a'') u = Some (from_index 0)"
    "\<not> service_contains 1 (from_index 0) (rt_services u)" "dependents (from_index 0) (rt_dependencies u) = []"
    by (rule promising_committed)
  have r: "fb_generation ?r = 2" "fb_capabilities ?r = 1" "fb_scope ?r = 1" "fb_state ?r = Active" "fb_provided ?r = []"
    by (simp_all add: staged_example_def example_fiber_def)
  have "\<exists>t. provide (\<lambda>_. u) ?cx (example_key ''a'') (NativeValue 3 8) promising_runtime = Some (Ok (), t)"
    by (rule provide_runs [where r = ?r and r' = r and symbol = "from_index 0"])
       (use u r in \<open>simp_all del: One_nat_def add: promising_sel admission_default_def lifecycle_admitted_def promised_def\<close>)
  then obtain t where t: "provide (\<lambda>_. u) ?cx (example_key ''a'') (NativeValue 3 8) promising_runtime = Some (Ok (), t)" ..
  have "wf_symbols (rt_services promising_runtime)"
    unfolding promising_sel(7) by (rule try_intern_wf [OF wf_symbols_new surjective_pairing])
  then have "stranded 5 1 0 t \<and> \<not> owned t"
    using provision_misses_the_commit [OF u(1) promising_sel(2) r(3) _ promising_sel(1) _ _ _ t] promising_ready r(5) by simp
  with u(1) t show ?thesis by blast
qed

end
