(* ===== verification/Scope_Disposal_Properties.thy ===== *)
theory Scope_Disposal_Properties
  imports Scope_Disposal
begin

text \<open>
  What the disposal of a scope guarantees: it publishes one observation that tells whether the scope
  committed, every later caller sees the same one, and where a collection makes a committed member look
  lost.
\<close>

section \<open>Publication\<close>

lemma published_scope_observed:
  assumes "aget (rt_scopes t) scope = Some sc" and "sc_state sc \<noteq> ScopeActive" and "sd_completion (sc_disposal sc) = Some obs"
  shows "\<exists>t'. dispose_scope_observation sx scope persistent t = Some (Ok obs, t')"
  using assms
  by (simp add: dispose_scope_observation_def begin_scope_disposal_def andthen_def reads_def update_def pass_def
      wait_for_completion_def completion_observation_def)

lemma finalize_scope_spec:
  assumes sc: "aget (rt_scopes v) scope = Some sc" and "sd_completion (sc_disposal sc) = None" and "sc_parent sc \<noteq> Some scope"
  shows "\<exists>obs t sc'. finalize_scope_disposal scope result terminated v = Some (final_scope_result result terminated, t) \<and>
    aget (rt_scopes t) scope = Some sc' \<and> sd_completion (sc_disposal sc') = Some obs \<and>
    sc_state sc' = (if terminated then ScopeTerminated else ScopeDisposedState) \<and>
    do_legacy_result obs = final_scope_result result terminated \<and> do_issues obs = sd_issues (sc_disposal sc) \<and>
    (do_terminal obs = Committed \<longleftrightarrow> \<not> terminated) \<and>
    (\<forall>i. i \<noteq> scope \<longrightarrow> aget (rt_scopes t) i = map_option (\<lambda>r. if sc_parent sc = Some i \<and> \<not> terminated
        then r\<lparr>sc_children := filter (\<lambda>c. c \<noteq> scope) (sc_children r)\<rparr> else r) (aget (rt_scopes v) i))"
proof -
  let ?result = "final_scope_result result terminated"
  let ?obs = "\<lparr>do_legacy_result = ?result,
      do_terminal = (if terminated then Incomplete (case ?result of Err e \<Rightarrow> e
         | _ \<Rightarrow> ScopeDisposalTerminated (Lit ''scope disposal terminated'')) else Committed),
      do_issues = sd_issues (sc_disposal sc)\<rparr>"
  let ?parent = "case sc_parent sc of None \<Rightarrow> (\<lambda>s. s) | Some parent \<Rightarrow>
      modify_scope parent (\<lambda>r. r\<lparr>sc_children := filter (\<lambda>i. i \<noteq> scope) (sc_children r)\<rparr>)"
  let ?w = "modify_scope scope (\<lambda>r. r\<lparr>sc_disposal := (sc_disposal r)\<lparr>sd_completion := Some ?obs\<rparr>\<rparr>)
      ((if terminated then (\<lambda>s. s) else ?parent)
        (modify_scope scope (\<lambda>r. r\<lparr>sc_state := (if terminated then ScopeTerminated else ScopeDisposedState),
           sc_disposal := (sc_disposal r)\<lparr>sd_result := Some ?result, sd_supervisor := False\<rparr>\<rparr>) v))"
  obtain t where t: "request_gc ?w = Some (Ok (), t)" "rt_scopes t = rt_scopes ?w" using request_gc_spec by blast
  have "finalize_scope_disposal scope result terminated v = Some (?result, t)"
    using t(1) sc assms(2)
    by (cases terminated; cases "sc_parent sc") (simp_all add: finalize_scope_disposal_def Let_def andthen_def reads_def completion_publish_def update_def pass_def give_def)
  moreover have "aget (rt_scopes t) scope = Some (sc\<lparr>sc_state := (if terminated then ScopeTerminated else ScopeDisposedState),
           sc_disposal := (sc_disposal sc)\<lparr>sd_result := Some ?result, sd_supervisor := False, sd_completion := Some ?obs\<rparr>\<rparr>)"
    using sc assms(3) t(2) by (cases terminated; cases "sc_parent sc") auto
  moreover have "i \<noteq> scope \<longrightarrow> aget (rt_scopes t) i = map_option (\<lambda>r. if sc_parent sc = Some i \<and> \<not> terminated
        then r\<lparr>sc_children := filter (\<lambda>c. c \<noteq> scope) (sc_children r)\<rparr> else r) (aget (rt_scopes v) i)" for i
    using t(2) by (cases terminated; cases "sc_parent sc"; cases "aget (rt_scopes v) i") auto
  ultimately show ?thesis
    by (intro exI [of _ ?obs] exI [of _ t] exI) (auto simp: )
qed


section \<open>A collected member\<close>

text \<open>
  A child scope that committed with a cleanup issue requests a collection before its waiters run on.
  When the collector has already removed its slot, the parent does not find the record in which the
  commit is written and counts the child as not committed: the parent ends \<open>Terminated\<close>, with an incomplete
  observation, although the child's own observation is \<open>Committed\<close> and its error is not a terminal one.
\<close>

theorem collected_child_terminates_parent:
  assumes "aget (rt_scopes s) scope = Some sc" and "sc_children sc = [child]" and "sc_fibers sc = []"
    and "sx_child sx child (sd_persistent (sc_disposal sc)) s = Some (Ok obs, u)"
    and "do_terminal obs = Committed" and "do_legacy_result obs = Err e" and "\<not> is_terminal_cleanup_error e"
    and "aget (rt_scopes u) child = None"
  shows "\<exists>issue t. dispose_scope_body sx scope s = Some (Ok (Err (CleanupFailed (joined [issue_text issue])), True), t) \<and>
    ci_cause issue = Some e"
  using assms
  by (simp add: dispose_scope_body_def andthen_def reads_def settle_def legacy_def give_def pass_def update_def add_issue_def
      issues_result_def) (rule exI, rule conjI, rule refl, simp)

section \<open>Examples\<close>

text \<open>Scope 1 below the root, with a child 2 whose disposal commits with an issue; the collector is fast or slow.\<close>

definition nested_runtime :: runtime where
  "nested_runtime = example_runtime\<lparr>rt_scopes := [(0, root_record\<lparr>sc_children := [1]\<rparr>),
     (1, root_record\<lparr>sc_parent := Some 0, sc_children := [2]\<rparr>), (2, root_record\<lparr>sc_parent := Some 1\<rparr>)]\<rparr>"

definition issue_scope :: "bool \<Rightarrow> scope_teardown" where
  "issue_scope collected = \<lparr>
     sx_child = (\<lambda>c _ s. Some (Ok \<lparr>do_legacy_result = Err Timeout, do_terminal = Committed, do_issues = []\<rparr>,
       s\<lparr>rt_scopes := (if collected then adel c (rt_scopes s) else amod c (\<lambda>r. r\<lparr>sc_state := ScopeDisposedState\<rparr>) (rt_scopes s))\<rparr>)),
     sx_fiber = (\<lambda>_ _. pass ()), sx_abort = None, sx_other = (\<lambda>s. s)\<rparr>"

theorem collected_child_terminates_parent_witness:
  "\<exists>issue t. dispose_scope_body (issue_scope True) 1 nested_runtime = Some (Ok (Err (CleanupFailed (joined [issue_text issue])), True), t) \<and>
    ci_cause issue = Some Timeout"
  by (rule collected_child_terminates_parent [where sc = "root_record\<lparr>sc_parent := Some 0, sc_children := [2]\<rparr>" and child = 2
        and obs = "\<lparr>do_legacy_result = Err Timeout, do_terminal = Committed, do_issues = []\<rparr>"])
     (auto simp: nested_runtime_def root_record_def issue_scope_def is_terminal_cleanup_error_def)


end
