(* ===== verification/Host_Protocol.thy ===== *)
theory Host_Protocol
  imports Core_Types
begin

text \<open>
  The wire format of the process host (\<^verbatim>\<open>host/protocol.rs\<close>): the messages, the encoder, and the decoder
  that reads a frame under the semantic limits of the session. A \<open>usize\<close> that is the length of a slice
  is a natural number; the fields of \<open>Limits\<close> are kept at their width.
\<close>

section \<open>Constants and messages\<close>

definition ABSOLUTE_HANDSHAKE_FRAME_LIMIT :: usize where
  "ABSOLUTE_HANDSHAKE_FRAME_LIMIT = 64 * 1024"

definition PROTOCOL_MAJOR :: u16 where "PROTOCOL_MAJOR = 1"
definition PROTOCOL_MINOR :: u16 where "PROTOCOL_MINOR = 1"

definition FEATURE_LIFECYCLE :: u64 where "FEATURE_LIFECYCLE = 1"
definition FEATURE_INVOCATION :: u64 where "FEATURE_INVOCATION = push_bit 1 1"
definition FEATURE_CANCEL :: u64 where "FEATURE_CANCEL = push_bit 2 1"
definition FEATURE_DEADLINE :: u64 where "FEATURE_DEADLINE = push_bit 3 1"

definition SUPPORTED_FEATURES :: u64 where
  "SUPPORTED_FEATURES = or (or (or FEATURE_LIFECYCLE FEATURE_INVOCATION) FEATURE_CANCEL) FEATURE_DEADLINE"

definition REQUIRED_FEATURES :: u64 where
  "REQUIRED_FEATURES = FEATURE_LIFECYCLE"

definition MAX_DESCRIPTOR_STRING :: nat where "MAX_DESCRIPTOR_STRING = 4 * 1024"
definition MAX_DESCRIPTOR_ITEMS :: nat where "MAX_DESCRIPTOR_ITEMS = 256"
definition MAX_INVOCATION_DECLARATIONS :: nat where "MAX_INVOCATION_DECLARATIONS = 256"

datatype invocation_declaration = InvocationDeclaration (ivd_route: u64) (ivd_key: invocation_key)

datatype invoke_outcome =
    InvokeSuccess string "u8 list"
  | InvokeRemoteDomain remote_domain_error
  | InvokeHostFailure host_error

record limits =
  lm_frame :: usize
  lm_artifact :: usize
  lm_request :: usize
  lm_response :: usize
  lm_inflight :: usize

datatype wire_failure = WireHost host_error | WireDomain remote_domain_error

datatype wire_message =
    MsgHello u64 u16 u16 u64 u64 limits
  | MsgHelloAck u64 u16 u16 u64 u64 limits
  | MsgLoad u64 string u64 "u8 list"
  | MsgLoaded u64 u64 plugin_descriptor
  | MsgStart u64 u64
  | MsgStarted u64 "invocation_declaration list"
  | MsgInvoke u64 u64 string "u8 list" u64
  | MsgInvokeResult u64 invoke_outcome
  | MsgCancel u64
  | MsgDispose u64 u64
  | MsgDisposed u64
  | MsgShutdown u64
  | MsgShutdownAck u64
  | MsgFailure u64 wire_failure

fun message_id :: "wire_message \<Rightarrow> u64" where
  "message_id (MsgHello i _ _ _ _ _) = i"
| "message_id (MsgHelloAck i _ _ _ _ _) = i"
| "message_id (MsgLoad i _ _ _) = i"
| "message_id (MsgLoaded i _ _) = i"
| "message_id (MsgStart i _) = i"
| "message_id (MsgStarted i _) = i"
| "message_id (MsgInvoke i _ _ _ _) = i"
| "message_id (MsgInvokeResult i _) = i"
| "message_id (MsgCancel i) = i"
| "message_id (MsgDispose i _) = i"
| "message_id (MsgDisposed i) = i"
| "message_id (MsgShutdown i) = i"
| "message_id (MsgShutdownAck i) = i"
| "message_id (MsgFailure i _) = i"

definition is_control :: "wire_message \<Rightarrow> bool" where
  "is_control m = (case m of
      MsgLoad _ _ _ _ \<Rightarrow> False
    | MsgLoaded _ _ _ \<Rightarrow> False
    | MsgInvoke _ _ _ _ _ \<Rightarrow> False
    | MsgInvokeResult _ _ \<Rightarrow> False
    | _ \<Rightarrow> True)"

definition payload_is_control :: "u8 list \<Rightarrow> bool" where
  "payload_is_control payload = (case payload of [] \<Rightarrow> True | tag # _ \<Rightarrow> tag \<notin> {3, 4, 12, 13})"

definition violation :: "string \<Rightarrow> host_error" where
  "violation m = HostError ProtocolViolation m"

section \<open>Bytes\<close>

text \<open>\<open>to_be_bytes\<close> and \<open>from_be_bytes\<close>, for a number of \<open>k\<close> bytes.\<close>

fun be_bytes :: "nat \<Rightarrow> nat \<Rightarrow> u8 list" where
  "be_bytes 0 n = []"
| "be_bytes (Suc k) n = be_bytes k (n div 256) @ [of_nat n]"

definition from_be :: "u8 list \<Rightarrow> nat" where
  "from_be bs = foldl (\<lambda>acc b. acc * 256 + unat b) 0 bs"

text \<open>A string is the list of its UTF-8 bytes.\<close>

definition str_bytes :: "string \<Rightarrow> u8 list" where
  "str_bytes s = map (\<lambda>c. of_nat (of_char c)) s"

definition bytes_str :: "u8 list \<Rightarrow> string" where
  "bytes_str bs = map (\<lambda>b. char_of (unat b)) bs"

text \<open>\<open>std::str::from_utf8\<close>: the well-formed byte sequences of the Unicode standard.\<close>

definition in_range :: "u8 \<Rightarrow> u8 \<Rightarrow> u8 \<Rightarrow> bool" where
  "in_range lo hi b \<longleftrightarrow> lo \<le> b \<and> b \<le> hi"

definition continuation :: "u8 \<Rightarrow> bool" where
  "continuation = in_range 0x80 0xBF"

definition second_of_three :: "u8 \<Rightarrow> u8 \<Rightarrow> bool" where
  "second_of_three a = (if a = 0xE0 then in_range 0xA0 0xBF else if a = 0xED then in_range 0x80 0x9F else continuation)"

definition second_of_four :: "u8 \<Rightarrow> u8 \<Rightarrow> bool" where
  "second_of_four a = (if a = 0xF0 then in_range 0x90 0xBF else if a = 0xF4 then in_range 0x80 0x8F else continuation)"

fun utf8_valid :: "u8 list \<Rightarrow> bool" where
  "utf8_valid [] = True"
| "utf8_valid (a # bs) =
     (if a < 0x80 then utf8_valid bs
      else if in_range 0xC2 0xDF a then
        (case bs of b # cs \<Rightarrow> continuation b \<and> utf8_valid cs | _ \<Rightarrow> False)
      else if in_range 0xE0 0xEF a then
        (case bs of b # c # ds \<Rightarrow> second_of_three a b \<and> continuation c \<and> utf8_valid ds | _ \<Rightarrow> False)
      else if in_range 0xF0 0xF4 a then
        (case bs of b # c # d # es \<Rightarrow> second_of_four a b \<and> continuation c \<and> continuation d \<and> utf8_valid es | _ \<Rightarrow> False)
      else False)"

section \<open>Encoding\<close>

type_synonym encoded = "(host_error, u8 list) res"

text \<open>The pieces an \<open>Encoder\<close> appends one after the other; the first error ends the encoding.\<close>

fun appended :: "encoded list \<Rightarrow> encoded" where
  "appended [] = Ok []"
| "appended (m # ms) = rbind m (\<lambda>xs. rbind (appended ms) (\<lambda>ys. Ok (xs @ ys)))"

definition put_u8 :: "u8 \<Rightarrow> encoded" where
  "put_u8 b = Ok [b]"

definition put_u16 :: "u16 \<Rightarrow> encoded" where
  "put_u16 w = Ok (be_bytes 2 (unat w))"

definition put_u32 :: "nat \<Rightarrow> encoded" where
  "put_u32 n = (if n < 2 ^ 32 then Ok (be_bytes 4 n) else Err (violation ''wire length exceeds u32''))"

definition put_u64 :: "u64 \<Rightarrow> encoded" where
  "put_u64 w = Ok (be_bytes 8 (unat w))"

definition put_bytes :: "u8 list \<Rightarrow> encoded" where
  "put_bytes bs = appended [put_u32 (length bs), Ok bs]"

definition put_string :: "string \<Rightarrow> encoded" where
  "put_string s = put_bytes (str_bytes s)"

definition put_limits :: "limits \<Rightarrow> encoded" where
  "put_limits l = appended [put_u32 (unat (lm_frame l)), put_u32 (unat (lm_artifact l)), put_u32 (unat (lm_request l)),
     put_u32 (unat (lm_response l)), put_u32 (unat (lm_inflight l))]"

definition encode_key :: "service_key \<Rightarrow> encoded" where
  "encode_key key = appended [put_string (sk_namespace key), put_string (sk_name key), put_u32 (unat (sk_version key))]"

definition encode_invocation_key :: "invocation_key \<Rightarrow> encoded" where
  "encode_invocation_key key = appended [put_string (ik_namespace key), put_string (ik_name key), put_u32 (unat (ik_version key))]"

definition encode_declaration :: "invocation_declaration \<Rightarrow> encoded" where
  "encode_declaration d = appended [put_u64 (ivd_route d), encode_invocation_key (ivd_key d)]"

definition policy_code :: "dependency_policy \<Rightarrow> u8" where
  "policy_code p = (case p of Restart \<Rightarrow> 0 | Dispose \<Rightarrow> 1)"

text \<open>A length-prefixed array of items.\<close>

definition put_items :: "('a \<Rightarrow> encoded) \<Rightarrow> 'a list \<Rightarrow> encoded" where
  "put_items put xs = appended (put_u32 (length xs) # map put xs)"

definition encode_descriptor :: "plugin_descriptor \<Rightarrow> encoded" where
  "encode_descriptor d = appended [put_string (pd_name d), put_items encode_key (pd_dependencies d),
     put_items encode_key (pd_provisions d), put_u8 (policy_code (pd_dependency_policy d)), put_u64 (pd_revision d)]"

definition encode_domain_error :: "remote_domain_error \<Rightarrow> encoded" where
  "encode_domain_error e = appended [put_string (rd_code e), put_string (rd_message e),
     (case rd_details e of
        Some (format, payload) \<Rightarrow> appended [put_u8 1, put_string format, put_bytes payload]
      | None \<Rightarrow> put_u8 0)]"

definition host_kind_code :: "host_failure_kind \<Rightarrow> u8" where
  "host_kind_code k = (case k of
      HandshakeIncompatible \<Rightarrow> 0 | TransportClosed \<Rightarrow> 2 | ProcessExited \<Rightarrow> 3 | ProcessKilled \<Rightarrow> 4
    | MessageTooLarge \<Rightarrow> 5 | UnsupportedFormat \<Rightarrow> 6 | UnsupportedCapability \<Rightarrow> 7 | Overloaded \<Rightarrow> 8
    | Unavailable \<Rightarrow> 9 | _ \<Rightarrow> 1)"

definition encode_host_error :: "host_error \<Rightarrow> encoded" where
  "encode_host_error e = appended [put_u8 (host_kind_code (he_kind e)), put_string (he_message e)]"

definition encode_failure :: "wire_failure \<Rightarrow> encoded" where
  "encode_failure failure = (case failure of
      WireHost e \<Rightarrow> appended [put_u8 0, encode_host_error e]
    | WireDomain e \<Rightarrow> appended [put_u8 1, encode_domain_error e])"

definition encode_outcome :: "invoke_outcome \<Rightarrow> encoded" where
  "encode_outcome outcome = (case outcome of
      InvokeSuccess format bytes \<Rightarrow> appended [put_u8 0, put_string format, put_bytes bytes]
    | InvokeRemoteDomain e \<Rightarrow> appended [put_u8 1, encode_domain_error e]
    | InvokeHostFailure e \<Rightarrow> appended [put_u8 2, encode_host_error e])"

fun encode_message :: "wire_message \<Rightarrow> encoded" where
  "encode_message (MsgHello i major minor supported required l) =
     appended [put_u8 1, put_u64 i, put_u16 major, put_u16 minor, put_u64 supported, put_u64 required, put_limits l]"
| "encode_message (MsgHelloAck i major minor supported required l) =
     appended [put_u8 2, put_u64 i, put_u16 major, put_u16 minor, put_u64 supported, put_u64 required, put_limits l]"
| "encode_message (MsgLoad i format revision payload) =
     appended [put_u8 3, put_u64 i, put_string format, put_u64 revision, put_bytes payload]"
| "encode_message (MsgLoaded i route d) = appended [put_u8 4, put_u64 i, put_u64 route, encode_descriptor d]"
| "encode_message (MsgStart i route) = appended [put_u8 5, put_u64 i, put_u64 route]"
| "encode_message (MsgStarted i ds) = appended [put_u8 6, put_u64 i, put_items encode_declaration ds]"
| "encode_message (MsgDispose i route) = appended [put_u8 7, put_u64 i, put_u64 route]"
| "encode_message (MsgDisposed i) = appended [put_u8 8, put_u64 i]"
| "encode_message (MsgShutdown i) = appended [put_u8 9, put_u64 i]"
| "encode_message (MsgShutdownAck i) = appended [put_u8 10, put_u64 i]"
| "encode_message (MsgFailure i failure) = appended [put_u8 11, put_u64 i, encode_failure failure]"
| "encode_message (MsgInvoke i route format bytes remaining) =
     appended [put_u8 12, put_u64 i, put_u64 route, put_string format, put_bytes bytes, put_u64 remaining]"
| "encode_message (MsgInvokeResult i outcome) = appended [put_u8 13, put_u64 i, encode_outcome outcome]"
| "encode_message (MsgCancel i) = appended [put_u8 14, put_u64 i]"

definition wire_encode :: "wire_message \<Rightarrow> usize \<Rightarrow> encoded" where
  "wire_encode m limit = rbind (encode_message m) (\<lambda>bs.
     if length bs > unat limit then Err (HostError MessageTooLarge ''encoded frame exceeds limit'') else Ok bs)"

section \<open>Decoding\<close>

record decoder =
  dc_bytes :: "u8 list"
  dc_at :: nat

type_synonym 'a parser = "(decoder, host_error, 'a) sres"

definition parsed :: "'a \<Rightarrow> 'a parser" where
  "parsed v d = (Ok v, d)"

definition reject :: "host_error \<Rightarrow> 'a parser" where
  "reject e d = (Err e, d)"

definition take_bytes :: "nat \<Rightarrow> u8 list parser" where
  "take_bytes count d =
     (if dc_at d + count \<ge> 2 ^ 64 then (Err (violation ''wire offset overflow''), d)
      else if dc_at d + count > length (dc_bytes d) then (Err (violation ''truncated field''), d)
      else (Ok (take count (drop (dc_at d) (dc_bytes d))), d\<lparr>dc_at := dc_at d + count\<rparr>))"

text \<open>A number of \<open>k\<close> bytes, read as \<open>conv\<close> of its value.\<close>

definition get_be :: "nat \<Rightarrow> (nat \<Rightarrow> 'a) \<Rightarrow> 'a parser" where
  "get_be k conv = sbind (take_bytes k) (\<lambda>bs. parsed (conv (from_be bs)))"

definition get_u8 :: "u8 parser" where "get_u8 = sbind (take_bytes 1) (\<lambda>bs. parsed (hd bs))"
definition get_u16 :: "u16 parser" where "get_u16 = get_be 2 of_nat"
definition get_u32 :: "nat parser" where "get_u32 = get_be 4 (\<lambda>n. n)"
definition get_u64 :: "u64 parser" where "get_u64 = get_be 8 of_nat"

definition get_bytes :: "nat \<Rightarrow> u8 list parser" where
  "get_bytes semantic_limit = sbind get_u32 (\<lambda>len.
     if len > semantic_limit then reject (HostError MessageTooLarge ''nested byte field exceeds limit'')
     else take_bytes len)"

definition get_string :: "nat \<Rightarrow> string parser" where
  "get_string semantic_limit = sbind (get_bytes semantic_limit) (\<lambda>bs.
     if utf8_valid bs then parsed (bytes_str bs) else reject (violation ''invalid UTF-8 string''))"

abbreviation get_name :: "string parser" where
  "get_name \<equiv> get_string MAX_DESCRIPTOR_STRING"

definition get_limits :: "limits parser" where
  "get_limits = sbind get_u32 (\<lambda>frame. sbind get_u32 (\<lambda>artifact. sbind get_u32 (\<lambda>request.
     sbind get_u32 (\<lambda>response. sbind get_u32 (\<lambda>inflight.
       parsed \<lparr>lm_frame = of_nat frame, lm_artifact = of_nat artifact, lm_request = of_nat request,
         lm_response = of_nat response, lm_inflight = of_nat inflight\<rparr>)))))"

definition decoder_finish :: "unit parser" where
  "decoder_finish d = (if dc_at d = length (dc_bytes d) then Ok () else Err (violation ''trailing frame data''), d)"

fun get_many :: "nat \<Rightarrow> 'a parser \<Rightarrow> 'a list parser" where
  "get_many 0 p = parsed []"
| "get_many (Suc n) p = sbind p (\<lambda>x. sbind (get_many n p) (\<lambda>xs. parsed (x # xs)))"

definition get_items :: "nat \<Rightarrow> string \<Rightarrow> 'a parser \<Rightarrow> 'a list parser" where
  "get_items most what p = sbind get_u32 (\<lambda>count.
     if count > most then reject (HostError MessageTooLarge what) else get_many count p)"

text \<open>\<open>u32::try_from(d.u32()?)\<close> cannot fail: the value was read from four bytes.\<close>

definition decode_version :: "string \<Rightarrow> u32 parser" where
  "decode_version what = sbind get_u32 (\<lambda>n. if n < 2 ^ 32 then parsed (of_nat n) else reject (violation what))"

definition decode_key :: "service_key parser" where
  "decode_key = sbind get_name (\<lambda>namespace. sbind get_name (\<lambda>name.
     sbind (decode_version ''service version overflow'') (\<lambda>version. parsed (ServiceKey namespace name version))))"

definition decode_keys :: "service_key list parser" where
  "decode_keys = get_items MAX_DESCRIPTOR_ITEMS ''descriptor array exceeds limit'' decode_key"

definition decode_policy :: "dependency_policy parser" where
  "decode_policy = sbind get_u8 (\<lambda>b. if b = 0 then parsed Restart else if b = 1 then parsed Dispose
     else reject (violation ''unknown dependency policy''))"

definition decode_descriptor :: "plugin_descriptor parser" where
  "decode_descriptor = sbind get_name (\<lambda>name. sbind decode_keys (\<lambda>dependencies. sbind decode_keys (\<lambda>provisions.
     sbind decode_policy (\<lambda>policy. sbind get_u64 (\<lambda>revision.
       parsed \<lparr>pd_name = name, pd_dependencies = dependencies, pd_provisions = provisions,
         pd_dependency_policy = policy, pd_revision = revision\<rparr>)))))"

definition decode_declaration :: "invocation_declaration parser" where
  "decode_declaration = sbind get_u64 (\<lambda>route. sbind get_name (\<lambda>namespace. sbind get_name (\<lambda>name.
     sbind (decode_version ''invocation version overflow'') (\<lambda>version.
       parsed (InvocationDeclaration route (InvocationKey namespace name version))))))"

definition decode_invocation_declarations :: "invocation_declaration list parser" where
  "decode_invocation_declarations =
     get_items MAX_INVOCATION_DECLARATIONS ''invocation declaration array exceeds limit'' decode_declaration"

definition decode_domain_error :: "nat \<Rightarrow> remote_domain_error parser" where
  "decode_domain_error payload_limit = sbind get_name (\<lambda>code. sbind get_name (\<lambda>m. sbind get_u8 (\<lambda>details.
     if details = 1 then sbind get_name (\<lambda>format. sbind (get_bytes payload_limit) (\<lambda>payload.
         parsed (with_details format payload (remote_domain_error_new code m))))
     else parsed (remote_domain_error_new code m))))"

definition decode_host_kind :: "u8 \<Rightarrow> host_failure_kind parser" where
  "decode_host_kind code =
     (if code = 0 then parsed HandshakeIncompatible else if code = 1 then parsed ProtocolViolation
      else if code = 2 then parsed TransportClosed else if code = 3 then parsed ProcessExited
      else if code = 4 then parsed ProcessKilled else if code = 5 then parsed MessageTooLarge
      else if code = 6 then parsed UnsupportedFormat else if code = 7 then parsed UnsupportedCapability
      else if code = 8 then parsed Overloaded else if code = 9 then parsed Unavailable
      else reject (violation ''unknown host failure kind''))"

definition decode_host_error :: "host_error parser" where
  "decode_host_error = sbind get_u8 (\<lambda>code. sbind (decode_host_kind code) (\<lambda>kind. sbind get_name (\<lambda>m. parsed (HostError kind m))))"

definition decode_failure :: "limits \<Rightarrow> wire_failure parser" where
  "decode_failure semantic = sbind get_u8 (\<lambda>kind.
     if kind = 0 then sbind decode_host_error (\<lambda>e. parsed (WireHost e))
     else if kind = 1 then sbind (decode_domain_error (unat (lm_response semantic))) (\<lambda>e. parsed (WireDomain e))
     else reject (violation ''unknown failure category''))"

definition decode_outcome :: "limits \<Rightarrow> invoke_outcome parser" where
  "decode_outcome semantic = sbind get_u8 (\<lambda>kind.
     if kind = 0 then sbind get_name (\<lambda>format. sbind (get_bytes (unat (lm_response semantic))) (\<lambda>bytes. parsed (InvokeSuccess format bytes)))
     else if kind = 1 then sbind (decode_domain_error (unat (lm_response semantic))) (\<lambda>e. parsed (InvokeRemoteDomain e))
     else if kind = 2 then sbind decode_host_error (\<lambda>e. parsed (InvokeHostFailure e))
     else reject (violation ''unknown invocation outcome''))"

definition decode_hello :: "(u16 \<Rightarrow> u16 \<Rightarrow> u64 \<Rightarrow> u64 \<Rightarrow> limits \<Rightarrow> wire_message) \<Rightarrow> wire_message parser" where
  "decode_hello build = sbind get_u16 (\<lambda>major. sbind get_u16 (\<lambda>minor. sbind get_u64 (\<lambda>supported.
     sbind get_u64 (\<lambda>required. sbind get_limits (\<lambda>l. parsed (build major minor supported required l))))))"

definition decode_body :: "limits \<Rightarrow> u8 \<Rightarrow> u64 \<Rightarrow> wire_message parser" where
  "decode_body semantic tag i =
     (if tag = 1 then decode_hello (MsgHello i)
      else if tag = 2 then decode_hello (MsgHelloAck i)
      else if tag = 3 then sbind get_name (\<lambda>format. sbind get_u64 (\<lambda>revision.
        sbind (get_bytes (unat (lm_artifact semantic))) (\<lambda>payload. parsed (MsgLoad i format revision payload))))
      else if tag = 4 then sbind get_u64 (\<lambda>route. sbind decode_descriptor (\<lambda>d. parsed (MsgLoaded i route d)))
      else if tag = 5 then sbind get_u64 (\<lambda>route. parsed (MsgStart i route))
      else if tag = 6 then sbind decode_invocation_declarations (\<lambda>ds. parsed (MsgStarted i ds))
      else if tag = 7 then sbind get_u64 (\<lambda>route. parsed (MsgDispose i route))
      else if tag = 8 then parsed (MsgDisposed i)
      else if tag = 9 then parsed (MsgShutdown i)
      else if tag = 10 then parsed (MsgShutdownAck i)
      else if tag = 11 then sbind (decode_failure semantic) (\<lambda>failure. parsed (MsgFailure i failure))
      else if tag = 12 then sbind get_u64 (\<lambda>route. sbind get_name (\<lambda>format.
        sbind (get_bytes (unat (lm_request semantic))) (\<lambda>bytes. sbind get_u64 (\<lambda>remaining.
          parsed (MsgInvoke i route format bytes remaining)))))
      else if tag = 13 then sbind (decode_outcome semantic) (\<lambda>outcome. parsed (MsgInvokeResult i outcome))
      else if tag = 14 then parsed (MsgCancel i)
      else reject (violation ''unknown message tag''))"

definition decode_frame :: "limits \<Rightarrow> wire_message parser" where
  "decode_frame semantic = sbind get_u8 (\<lambda>tag. sbind get_u64 (\<lambda>i. sbind (decode_body semantic tag i) (\<lambda>m.
     sbind decoder_finish (\<lambda>_. parsed m))))"

definition wire_decode :: "u8 list \<Rightarrow> limits \<Rightarrow> (host_error, wire_message) res" where
  "wire_decode payload semantic = fst (decode_frame semantic \<lparr>dc_bytes = payload, dc_at = 0\<rparr>)"

end
