(* ===== verification/Host_Protocol_Properties.thy ===== *)
theory Host_Protocol_Properties
  imports Host_Protocol
begin

text \<open>
  The codec of the process host: what is encoded is decoded to the same message, whatever is decoded
  respects the semantic limits, and a frame is read to its last byte.

  The locale \<open>wire_codec\<close> is the contract of one field: the parser reads back what the encoder wrote for
  the values it admits, and only returns values it admits. Arrays are handled once inside it.
\<close>

section \<open>Bytes\<close>

lemma length_be_bytes [simp]: "length (be_bytes k n) = k"
  by (induction k n rule: be_bytes.induct) simp_all

lemma from_be_snoc [simp]: "from_be (bs @ [b]) = from_be bs * 256 + unat b"
  by (simp add: from_be_def)

lemma from_be_bytes: "from_be (be_bytes k n) = n mod 256 ^ k"
proof (induction k n rule: be_bytes.induct)
  case (2 k n)
  have "n mod (256 * 256 ^ k) = n div 256 mod 256 ^ k * 256 + n mod 256"
    by (simp add: mod_mult2_eq mult.commute)
  with 2 show ?case by (simp add: unat_of_nat)
qed (simp add: from_be_def)

lemma from_be_less: "from_be bs < 256 ^ length bs"
proof (induction bs rule: rev_induct)
  case (snoc b bs)
  have "unat b < 256" using unsigned_less [where 'a = nat, of b] by simp
  with snoc show ?case by simp
qed (simp add: from_be_def)

lemma str_bytes_inverse [simp]: "bytes_str (str_bytes s) = s"
proof -
  have "char_of (unat (of_nat (of_char c) :: u8)) = c" for c
    by (simp add: unat_of_nat)
  then show ?thesis by (simp add: bytes_str_def str_bytes_def comp_def)
qed

lemma bytes_str_inverse [simp]: "str_bytes (bytes_str bs) = bs"
proof -
  have "of_nat (of_char (char_of (unat b) :: char)) = b" for b :: u8
    using unsigned_less [where 'a = nat, of b] by simp
  then show ?thesis by (simp add: bytes_str_def str_bytes_def comp_def)
qed

lemma length_str_bytes [simp]: "length (str_bytes s) = length s"
  by (simp add: str_bytes_def)

lemma length_bytes_str [simp]: "length (bytes_str bs) = length bs"
  by (simp add: bytes_str_def)

section \<open>Parsers\<close>

text \<open>\<open>reads_as p bs v\<close>: at the start of \<open>bs\<close>, whatever surrounds it, \<open>p\<close> consumes \<open>bs\<close> and returns \<open>v\<close>.\<close>

definition reads_as :: "'a parser \<Rightarrow> u8 list \<Rightarrow> 'a \<Rightarrow> bool" where
  "reads_as p bs v \<longleftrightarrow> (\<forall>pre rest. length (pre @ bs @ rest) < 2 ^ 64 \<longrightarrow>
     p \<lparr>dc_bytes = pre @ bs @ rest, dc_at = length pre\<rparr>
       = (Ok v, \<lparr>dc_bytes = pre @ bs @ rest, dc_at = length pre + length bs\<rparr>))"

text \<open>
  \<open>consumes p\<close>: \<open>p\<close> only moves forward, stays inside the bytes, and does not look at what follows the
  bytes it consumes; its errors are \<open>ProtocolViolation\<close> or \<open>MessageTooLarge\<close>, and it does not panic.
\<close>

definition wire_error :: "host_error \<Rightarrow> bool" where
  "wire_error e \<longleftrightarrow> he_kind e \<in> {ProtocolViolation, MessageTooLarge}"

definition consumes :: "'a parser \<Rightarrow> ('a \<Rightarrow> bool) \<Rightarrow> bool" where
  "consumes p P \<longleftrightarrow> (\<forall>bs at. at \<le> length bs \<longrightarrow> (case p \<lparr>dc_bytes = bs, dc_at = at\<rparr> of
      (Panicked m, d) \<Rightarrow> False
    | (Err e, d) \<Rightarrow> wire_error e
    | (Ok v, d) \<Rightarrow> P v \<and> (\<exists>at'. d = \<lparr>dc_bytes = bs, dc_at = at'\<rparr> \<and> at \<le> at' \<and> at' \<le> length bs \<and>
        (\<forall>xs. p \<lparr>dc_bytes = bs @ xs, dc_at = at\<rparr> = (Ok v, \<lparr>dc_bytes = bs @ xs, dc_at = at'\<rparr>)))))"

named_theorems reading \<open>what a parser reads back\<close>
named_theorems consuming \<open>what a parser returns\<close>

lemma sbind_parsed: "sbind p parsed = p"
  by (auto simp: sbind_def parsed_def fun_eq_iff split: prod.split res.split)

lemma sbind_parsed_left: "sbind (parsed v) f = f v"
  by (simp add: sbind_def parsed_def fun_eq_iff)

lemma reads_as_parsed [reading]: "reads_as (parsed v) [] v"
  by (simp add: reads_as_def parsed_def)

lemma reads_as_sbind:
  assumes "reads_as p bs v" and "reads_as (f v) cs w"
  shows "reads_as (sbind p f) (bs @ cs) w"
  unfolding reads_as_def
proof (intro allI impI)
  fix pre rest :: "u8 list"
  assume len: "length (pre @ (bs @ cs) @ rest) < 2 ^ 64"
  have "p \<lparr>dc_bytes = pre @ bs @ cs @ rest, dc_at = length pre\<rparr>
      = (Ok v, \<lparr>dc_bytes = pre @ bs @ cs @ rest, dc_at = length pre + length bs\<rparr>)"
    using assms(1) len by (simp add: reads_as_def)
  moreover have "f v \<lparr>dc_bytes = (pre @ bs) @ cs @ rest, dc_at = length (pre @ bs)\<rparr>
      = (Ok w, \<lparr>dc_bytes = (pre @ bs) @ cs @ rest, dc_at = length (pre @ bs) + length cs\<rparr>)"
    using assms(2) len unfolding reads_as_def by (metis append.assoc)
  ultimately show "sbind p f \<lparr>dc_bytes = pre @ (bs @ cs) @ rest, dc_at = length pre\<rparr>
      = (Ok w, \<lparr>dc_bytes = pre @ (bs @ cs) @ rest, dc_at = length pre + length (bs @ cs)\<rparr>)"
    by (simp add: add.assoc)
qed

lemma reads_as_final:
  assumes "reads_as p bs v" and "f v = parsed w"
  shows "reads_as (sbind p f) bs w"
  using reads_as_sbind [OF assms(1), of f "[]" w] reads_as_parsed [of w] assms(2) by simp

lemma reads_as_take [reading]: "length bs = n \<Longrightarrow> reads_as (take_bytes n) bs bs"
  by (auto simp: reads_as_def take_bytes_def)

lemma consumes_parsed [consuming]: "P v \<Longrightarrow> consumes (parsed v) P"
  by (simp add: consumes_def parsed_def)

lemma consumes_reject [consuming]: "wire_error e \<Longrightarrow> consumes (reject e) P"
  by (simp add: consumes_def reject_def)

lemma consumes_cases:
  assumes "consumes p P" and "at \<le> length bs"
  obtains e d where "p \<lparr>dc_bytes = bs, dc_at = at\<rparr> = (Err e, d)" "wire_error e"
  | v at' where "p \<lparr>dc_bytes = bs, dc_at = at\<rparr> = (Ok v, \<lparr>dc_bytes = bs, dc_at = at'\<rparr>)" "P v" "at \<le> at'" "at' \<le> length bs"
      "\<And>xs. p \<lparr>dc_bytes = bs @ xs, dc_at = at\<rparr> = (Ok v, \<lparr>dc_bytes = bs @ xs, dc_at = at'\<rparr>)"
proof -
  obtain r d where r: "p \<lparr>dc_bytes = bs, dc_at = at\<rparr> = (r, d)" by fastforce
  from assms have "case p \<lparr>dc_bytes = bs, dc_at = at\<rparr> of (Panicked m, d) \<Rightarrow> False | (Err e, d) \<Rightarrow> wire_error e
    | (Ok v, d) \<Rightarrow> P v \<and> (\<exists>at'. d = \<lparr>dc_bytes = bs, dc_at = at'\<rparr> \<and> at \<le> at' \<and> at' \<le> length bs \<and>
        (\<forall>xs. p \<lparr>dc_bytes = bs @ xs, dc_at = at\<rparr> = (Ok v, \<lparr>dc_bytes = bs @ xs, dc_at = at'\<rparr>)))"
    by (simp only: consumes_def)
  with r that show thesis by (cases r) auto
qed

lemma consumes_sbind:
  assumes p: "consumes p P" and f: "\<And>v. P v \<Longrightarrow> consumes (f v) Q"
  shows "consumes (sbind p f) Q"
  unfolding consumes_def
proof (intro allI impI)
  fix bs :: "u8 list" and at :: nat
  assume at: "at \<le> length bs"
  from p at show "case sbind p f \<lparr>dc_bytes = bs, dc_at = at\<rparr> of (Panicked m, d) \<Rightarrow> False | (Err e, d) \<Rightarrow> wire_error e
    | (Ok v, d) \<Rightarrow> Q v \<and> (\<exists>at'. d = \<lparr>dc_bytes = bs, dc_at = at'\<rparr> \<and> at \<le> at' \<and> at' \<le> length bs \<and>
        (\<forall>xs. sbind p f \<lparr>dc_bytes = bs @ xs, dc_at = at\<rparr> = (Ok v, \<lparr>dc_bytes = bs @ xs, dc_at = at'\<rparr>)))"
  proof (cases rule: consumes_cases)
    case (2 v at1)
    then have run: "sbind p f \<lparr>dc_bytes = bs, dc_at = at\<rparr> = f v \<lparr>dc_bytes = bs, dc_at = at1\<rparr>"
      and run': "sbind p f \<lparr>dc_bytes = bs @ xs, dc_at = at\<rparr> = f v \<lparr>dc_bytes = bs @ xs, dc_at = at1\<rparr>" for xs
      by (simp_all add: sbind_def)
    from f [OF 2(2)] 2(4) show ?thesis
    proof (cases rule: consumes_cases)
      case (2 w at2)
      with \<open>at \<le> at1\<close> show ?thesis unfolding run run' by simp
    qed (simp add: run)
  qed (simp add: sbind_def)
qed

lemma consumes_take: "consumes (take_bytes n) (\<lambda>bs. length bs = n)"
  by (auto simp: consumes_def take_bytes_def wire_error_def violation_def)

lemma consumes_weaken: "consumes p P \<Longrightarrow> (\<And>v. P v \<Longrightarrow> Q v) \<Longrightarrow> consumes p Q"
  using consumes_sbind [of p P parsed Q]
  by (simp add: consumes_parsed sbind_parsed)

lemma consumes_if: "(c \<Longrightarrow> consumes p P) \<Longrightarrow> (\<not> c \<Longrightarrow> consumes q P) \<Longrightarrow> consumes (if c then p else q) P"
  by simp

lemma reads_as_last: "reads_as p bs v \<Longrightarrow> reads_as (f v) [] w \<Longrightarrow> reads_as (sbind p f) bs w"
  using reads_as_sbind [of p bs v f "[]" w] by simp

lemma appended_Ok_iff: "appended (m # ms) = Ok bs \<longleftrightarrow> (\<exists>xs ys. m = Ok xs \<and> appended ms = Ok ys \<and> bs = xs @ ys)"
  by (auto simp: rbind_Ok_iff)

lemma appended_Nil_iff: "appended [] = Ok bs \<longleftrightarrow> bs = []"
  by auto

lemma is_ok_appended: "is_ok (appended ms) \<longleftrightarrow> (\<forall>m \<in> set ms. is_ok m)"
proof (induction ms)
  case (Cons m ms)
  then show ?case by (cases m; cases "appended ms") auto
qed simp

lemmas encoding = appended_Ok_iff appended_Nil_iff
declare appended.simps [simp del]

section \<open>Codecs\<close>

locale wire_codec =
  fixes put :: "'a \<Rightarrow> encoded" and get :: "'a parser" and ok :: "'a \<Rightarrow> bool"
  assumes reads: "ok v \<Longrightarrow> put v = Ok bs \<Longrightarrow> reads_as get bs v"
    and returns: "consumes get (\<lambda>v. ok v \<and> is_ok (put v))"
begin

lemma read_then: "put v = Ok xs \<Longrightarrow> ok v \<Longrightarrow> reads_as (f v) cs w \<Longrightarrow> reads_as (sbind get f) (xs @ cs) w"
  by (rule reads_as_sbind [OF reads])

lemma read_last: "put v = Ok xs \<Longrightarrow> ok v \<Longrightarrow> reads_as (f v) [] w \<Longrightarrow> reads_as (sbind get f) xs w"
  by (rule reads_as_last [OF reads])

lemma many_reads:
  "\<forall>v \<in> set vs. ok v \<Longrightarrow> appended (map put vs) = Ok bs \<Longrightarrow> reads_as (get_many (length vs) get) bs vs"
proof (induction vs arbitrary: bs)
  case (Cons v vs)
  then obtain xs ys where bs: "put v = Ok xs" "appended (map put vs) = Ok ys" "bs = xs @ ys" by (auto simp: encoding)
  with Cons have "reads_as get xs v" "reads_as (get_many (length vs) get) ys vs" by (auto intro: reads)
  then show ?case unfolding bs(3) by (simp add: reads_as_sbind reads_as_last reads_as_parsed)
qed (simp add: encoding reads_as_parsed)

lemma many_returns: "consumes (get_many n get) (\<lambda>vs. length vs = n \<and> (\<forall>v \<in> set vs. ok v) \<and> is_ok (appended (map put vs)))"
proof (induction n)
  case (Suc n)
  show ?case unfolding get_many.simps
    by (rule consumes_sbind [OF returns], rule consumes_sbind [OF Suc], rule consumes_parsed) (auto simp: is_ok_appended)
qed (simp add: consumes_parsed is_ok_appended)

end

section \<open>Numbers\<close>

lemma consumes_get_be: "consumes (get_be k conv) (\<lambda>v. \<exists>n < 256 ^ k. v = conv n)"
  unfolding get_be_def by (rule consumes_sbind [OF consumes_take], rule consumes_parsed) (use from_be_less in blast)

lemma reads_as_get_be: "n < 256 ^ k \<Longrightarrow> reads_as (get_be k conv) (be_bytes k n) (conv n)"
  unfolding get_be_def
  by (rule reads_as_last [OF reads_as_take]) (simp_all add: from_be_bytes reads_as_parsed)

interpretation byte: wire_codec put_u8 get_u8 "\<lambda>_. True"
proof
  show "reads_as get_u8 bs v" if "put_u8 v = Ok bs" for v bs
    using that unfolding get_u8_def by (auto simp: put_u8_def intro!: reads_as_last [OF reads_as_take] reads_as_parsed)
  show "consumes get_u8 (\<lambda>v. True \<and> is_ok (put_u8 v))"
    unfolding get_u8_def by (rule consumes_sbind [OF consumes_take], rule consumes_parsed) (simp add: put_u8_def)
qed

interpretation short: wire_codec put_u16 get_u16 "\<lambda>_. True"
proof
  show "reads_as get_u16 bs v" if "put_u16 v = Ok bs" for v bs
    using that reads_as_get_be [of "unat v" 2 "of_nat :: nat \<Rightarrow> u16"] unsigned_less [where 'a = nat, of v] by (auto simp: put_u16_def get_u16_def)
  show "consumes get_u16 (\<lambda>v. True \<and> is_ok (put_u16 v))"
    unfolding get_u16_def by (rule consumes_weaken [OF consumes_get_be]) (simp add: put_u16_def)
qed

interpretation long: wire_codec put_u64 get_u64 "\<lambda>_. True"
proof
  show "reads_as get_u64 bs v" if "put_u64 v = Ok bs" for v bs
    using that reads_as_get_be [of "unat v" 8 "of_nat :: nat \<Rightarrow> u64"] unsigned_less [where 'a = nat, of v] by (auto simp: put_u64_def get_u64_def)
  show "consumes get_u64 (\<lambda>v. True \<and> is_ok (put_u64 v))"
    unfolding get_u64_def by (rule consumes_weaken [OF consumes_get_be]) (simp add: put_u64_def)
qed

interpretation length: wire_codec put_u32 get_u32 "\<lambda>_. True"
proof
  show "reads_as get_u32 bs v" if "put_u32 v = Ok bs" for v bs
    using that reads_as_get_be [of v 4 "\<lambda>n. n"] by (auto simp: put_u32_def get_u32_def split: if_splits)
  show "consumes get_u32 (\<lambda>v. True \<and> is_ok (put_u32 v))"
    unfolding get_u32_def by (rule consumes_weaken [OF consumes_get_be]) (auto simp: put_u32_def)
qed

lemmas number_reads [reading] = byte.reads [OF TrueI] short.reads [OF TrueI] long.reads [OF TrueI] length.reads [OF TrueI]
lemmas number_returns [consuming] = byte.returns short.returns long.returns length.returns

section \<open>Strings and arrays\<close>

definition bytes_ok :: "nat \<Rightarrow> u8 list \<Rightarrow> bool" where
  "bytes_ok limit bs \<longleftrightarrow> length bs \<le> limit \<and> length bs < 2 ^ 32"

definition name_ok :: "string \<Rightarrow> bool" where
  "name_ok s \<longleftrightarrow> length s \<le> MAX_DESCRIPTOR_STRING \<and> utf8_valid (str_bytes s)"

lemma bytes_codec: "wire_codec put_bytes (get_bytes limit) (bytes_ok limit)"
proof
  show "reads_as (get_bytes limit) bs v" if ok: "bytes_ok limit v" and put: "put_bytes v = Ok bs" for v bs
  proof -
    obtain xs where xs: "put_u32 (length v) = Ok xs" "bs = xs @ v"
      using put by (auto simp: put_bytes_def encoding)
    with ok show ?thesis unfolding get_bytes_def xs(2)
      by (intro reads_as_sbind [OF number_reads(4)]) (auto simp: bytes_ok_def reads_as_take)
  qed
  show "consumes (get_bytes limit) (\<lambda>v. bytes_ok limit v \<and> is_ok (put_bytes v))"
    unfolding get_bytes_def
    by (rule consumes_sbind [OF number_returns(4)], rule consumes_if, rule consumes_reject)
      (auto simp: wire_error_def bytes_ok_def put_bytes_def put_u32_def is_ok_appended
        split: if_splits intro!: consumes_weaken [OF consumes_take])
qed

interpretation blob: wire_codec put_bytes "get_bytes limit" "bytes_ok limit" for limit
  by (rule bytes_codec)

interpretation name: wire_codec put_string get_name name_ok
proof
  show "reads_as get_name bs v" if "name_ok v" "put_string v = Ok bs" for v bs
  proof -
    have "bytes_ok MAX_DESCRIPTOR_STRING (str_bytes v)"
      using that(1) by (simp add: name_ok_def bytes_ok_def MAX_DESCRIPTOR_STRING_def)
    with that show ?thesis unfolding get_string_def put_string_def
      by (intro reads_as_last [OF blob.reads]) (auto simp: name_ok_def reads_as_parsed)
  qed
  show "consumes get_name (\<lambda>v. name_ok v \<and> is_ok (put_string v))"
    unfolding get_string_def
    by (rule consumes_sbind [OF blob.returns], rule consumes_if)
      (auto simp: wire_error_def violation_def name_ok_def bytes_ok_def put_string_def intro!: consumes_parsed consumes_reject)
qed

context wire_codec
begin

lemma items_codec:
  assumes "most < 2 ^ 32"
  shows "wire_codec (put_items put) (get_items most what get) (\<lambda>vs. length vs \<le> most \<and> (\<forall>v \<in> set vs. ok v))"
proof
  show "reads_as (get_items most what get) bs vs"
    if v: "length vs \<le> most \<and> (\<forall>v \<in> set vs. ok v)" and put: "put_items put vs = Ok bs" for vs bs
  proof -
    obtain xs ys where xs: "put_u32 (length vs) = Ok xs" "appended (map put vs) = Ok ys" "bs = xs @ ys"
      using put by (auto simp: put_items_def encoding)
    with v show ?thesis unfolding get_items_def xs(3)
      by (intro reads_as_sbind [OF number_reads(4)]) (auto simp: many_reads)
  qed
  show "consumes (get_items most what get) (\<lambda>vs. (length vs \<le> most \<and> (\<forall>v \<in> set vs. ok v)) \<and> is_ok (put_items put vs))"
    unfolding get_items_def
    by (rule consumes_sbind [OF number_returns(4)], rule consumes_if)
      (auto simp: wire_error_def put_items_def is_ok_appended put_u32_def assms
        intro!: consumes_reject consumes_weaken [OF many_returns] split: if_splits)
qed

end

section \<open>Records\<close>

definition key_ok :: "service_key \<Rightarrow> bool" where
  "key_ok k \<longleftrightarrow> name_ok (sk_namespace k) \<and> name_ok (sk_name k)"

definition declaration_ok :: "invocation_declaration \<Rightarrow> bool" where
  "declaration_ok d \<longleftrightarrow> name_ok (ik_namespace (ivd_key d)) \<and> name_ok (ik_name (ivd_key d))"

definition descriptor_ok :: "plugin_descriptor \<Rightarrow> bool" where
  "descriptor_ok d \<longleftrightarrow> name_ok (pd_name d) \<and>
     (length (pd_dependencies d) \<le> MAX_DESCRIPTOR_ITEMS \<and> (\<forall>k \<in> set (pd_dependencies d). key_ok k)) \<and>
     (length (pd_provisions d) \<le> MAX_DESCRIPTOR_ITEMS \<and> (\<forall>k \<in> set (pd_provisions d). key_ok k))"

definition domain_error_ok :: "nat \<Rightarrow> remote_domain_error \<Rightarrow> bool" where
  "domain_error_ok limit e \<longleftrightarrow> name_ok (rd_code e) \<and> name_ok (rd_message e) \<and>
     (case rd_details e of None \<Rightarrow> True | Some (format, payload) \<Rightarrow> name_ok format \<and> bytes_ok limit payload)"

lemma version_reads [reading]: "put_u32 (unat v) = Ok bs \<Longrightarrow> reads_as (decode_version what) bs v"
  unfolding decode_version_def
  by (rule length.read_last, assumption, rule TrueI) (simp add: put_u32_def reads_as_parsed split: if_splits)

lemma version_returns: "consumes (decode_version what) (\<lambda>v. is_ok (put_u32 (unat v)))"
  unfolding decode_version_def
  by (rule consumes_sbind [OF number_returns(4)], rule consumes_if)
    (auto simp: put_u32_def wire_error_def violation_def unat_of_nat intro!: consumes_parsed consumes_reject split: if_splits)

interpretation service: wire_codec encode_key decode_key key_ok
proof
  show "reads_as decode_key bs v" if "key_ok v" "encode_key v = Ok bs" for v bs
    using that unfolding decode_key_def
    by (cases v) (clarsimp simp: encode_key_def encoding key_ok_def,
      rule name.read_then, assumption, assumption, rule name.read_then, assumption, assumption,
      rule reads_as_last [OF version_reads], assumption, rule reads_as_parsed)
  show "consumes decode_key (\<lambda>v. key_ok v \<and> is_ok (encode_key v))"
    unfolding decode_key_def
    by (rule consumes_sbind [OF name.returns], rule consumes_sbind [OF name.returns],
        rule consumes_sbind [OF version_returns], rule consumes_parsed)
      (simp add: key_ok_def encode_key_def is_ok_appended)
qed

interpretation declared: wire_codec encode_declaration decode_declaration declaration_ok
proof
  show "reads_as decode_declaration bs v" if "declaration_ok v" "encode_declaration v = Ok bs" for v bs
    using that unfolding decode_declaration_def
    by (cases v; cases "ivd_key v") (clarsimp simp: encode_declaration_def encode_invocation_key_def encoding declaration_ok_def,
      rule long.read_then, assumption, rule TrueI,
      rule name.read_then, assumption, assumption, rule name.read_then, assumption, assumption,
      rule reads_as_last [OF version_reads], assumption, rule reads_as_parsed)
  show "consumes decode_declaration (\<lambda>v. declaration_ok v \<and> is_ok (encode_declaration v))"
    unfolding decode_declaration_def
    by (rule consumes_sbind [OF number_returns(3)], rule consumes_sbind [OF name.returns], rule consumes_sbind [OF name.returns],
        rule consumes_sbind [OF version_returns], rule consumes_parsed)
      (simp add: declaration_ok_def encode_declaration_def encode_invocation_key_def is_ok_appended)
qed

interpretation service_array: wire_codec "put_items encode_key" decode_keys
    "\<lambda>ks. length ks \<le> MAX_DESCRIPTOR_ITEMS \<and> (\<forall>k \<in> set ks. key_ok k)"
  unfolding decode_keys_def by (rule service.items_codec) (simp add: MAX_DESCRIPTOR_ITEMS_def)

interpretation declaration_array: wire_codec "put_items encode_declaration" decode_invocation_declarations
    "\<lambda>ds. length ds \<le> MAX_INVOCATION_DECLARATIONS \<and> (\<forall>d \<in> set ds. declaration_ok d)"
  unfolding decode_invocation_declarations_def
  by (rule declared.items_codec) (simp add: MAX_INVOCATION_DECLARATIONS_def)

interpretation policy: wire_codec "\<lambda>p. put_u8 (policy_code p)" decode_policy "\<lambda>_. True"
proof
  show "reads_as decode_policy bs v" if "put_u8 (policy_code v) = Ok bs" for v bs
    using that unfolding decode_policy_def
    by (intro reads_as_last [OF number_reads(1)]) (auto simp: policy_code_def reads_as_parsed split: dependency_policy.splits)
  show "consumes decode_policy (\<lambda>v. True \<and> is_ok (put_u8 (policy_code v)))"
    unfolding decode_policy_def
    by (rule consumes_sbind [OF number_returns(1)])
      (auto simp: put_u8_def wire_error_def violation_def intro!: consumes_if consumes_parsed consumes_reject)
qed

interpretation descriptor: wire_codec encode_descriptor decode_descriptor descriptor_ok
proof
  show "reads_as decode_descriptor bs v" if "descriptor_ok v" "encode_descriptor v = Ok bs" for v bs
    using that unfolding decode_descriptor_def
    by (clarsimp simp: encode_descriptor_def encoding descriptor_ok_def)
      (rule name.read_then, assumption, assumption, rule service_array.read_then, assumption, simp,
       rule service_array.read_then, assumption, simp, rule policy.read_then, assumption, rule TrueI,
       rule long.read_last, assumption, rule TrueI, cases v, simp add: reads_as_parsed)
  show "consumes decode_descriptor (\<lambda>v. descriptor_ok v \<and> is_ok (encode_descriptor v))"
    unfolding decode_descriptor_def
    by (rule consumes_sbind [OF name.returns], rule consumes_sbind [OF service_array.returns],
        rule consumes_sbind [OF service_array.returns], rule consumes_sbind [OF policy.returns],
        rule consumes_sbind [OF number_returns(3)], rule consumes_parsed)
      (simp add: descriptor_ok_def encode_descriptor_def is_ok_appended)
qed

lemma domain_error_codec: "wire_codec encode_domain_error (decode_domain_error limit) (domain_error_ok limit)"
proof
  show "reads_as (decode_domain_error limit) bs v" if ok: "domain_error_ok limit v" and put: "encode_domain_error v = Ok bs" for v bs
  proof (cases "rd_details v")
    case None
    with ok put show ?thesis unfolding decode_domain_error_def
      by (cases v) (clarsimp simp: encode_domain_error_def encoding domain_error_ok_def,
        rule name.read_then, assumption, assumption, rule name.read_then, assumption, assumption,
        rule byte.read_last, assumption, rule TrueI, simp add: reads_as_parsed remote_domain_error_new_def)
  next
    case (Some d)
    with ok put show ?thesis unfolding decode_domain_error_def
      by (cases v; cases d) (clarsimp simp: encode_domain_error_def encoding domain_error_ok_def,
        rule name.read_then, assumption, assumption, rule name.read_then, assumption, assumption,
        rule byte.read_then, assumption, rule TrueI, simp,
        rule name.read_then, assumption, assumption, rule blob.read_last, assumption, assumption,
        simp add: reads_as_parsed remote_domain_error_new_def with_details_def)
  qed
  show "consumes (decode_domain_error limit) (\<lambda>v. domain_error_ok limit v \<and> is_ok (encode_domain_error v))"
    unfolding decode_domain_error_def
    by (rule consumes_sbind [OF name.returns], rule consumes_sbind [OF name.returns], rule consumes_sbind [OF number_returns(1)],
        rule consumes_if, rule consumes_sbind [OF name.returns], rule consumes_sbind [OF blob.returns])
      (auto intro!: consumes_parsed simp: domain_error_ok_def encode_domain_error_def is_ok_appended
        remote_domain_error_new_def with_details_def put_u8_def)
qed

interpretation domain_error: wire_codec encode_domain_error "decode_domain_error limit" "domain_error_ok limit" for limit
  by (rule domain_error_codec)

lemma host_kind_codec: "decode_host_kind (host_kind_code k) = parsed k"
  by (cases k) (simp_all add: decode_host_kind_def host_kind_code_def)

interpretation host_error: wire_codec encode_host_error decode_host_error "\<lambda>e. name_ok (he_message e)"
proof
  show "reads_as decode_host_error bs v" if "name_ok (he_message v)" "encode_host_error v = Ok bs" for v bs
    using that unfolding decode_host_error_def
    by (cases v) (clarsimp simp: encode_host_error_def encoding,
      rule byte.read_then, assumption, rule TrueI, simp add: host_kind_codec sbind_parsed_left,
      rule name.read_last, assumption, assumption, simp add: reads_as_parsed)
  show "consumes decode_host_error (\<lambda>v. name_ok (he_message v) \<and> is_ok (encode_host_error v))"
    unfolding decode_host_error_def decode_host_kind_def
    by (rule consumes_sbind [OF number_returns(1)], rule consumes_sbind [where P = "\<lambda>_. True"],
        (intro consumes_if consumes_parsed consumes_reject; simp add: wire_error_def violation_def)[1],
        rule consumes_sbind [OF name.returns], rule consumes_parsed)
      (simp add: encode_host_error_def is_ok_appended put_u8_def)
qed

interpretation limits: wire_codec put_limits get_limits "\<lambda>_. True"
proof
  show "reads_as get_limits bs v" if "put_limits v = Ok bs" for v bs
    using that unfolding get_limits_def
    by (clarsimp simp: put_limits_def encoding)
      (rule length.read_then, assumption, rule TrueI, rule length.read_then, assumption, rule TrueI,
      rule length.read_then, assumption, rule TrueI, rule length.read_then, assumption, rule TrueI,
      rule length.read_last, assumption, rule TrueI, cases v, simp add: reads_as_parsed)
  show "consumes get_limits (\<lambda>v. True \<and> is_ok (put_limits v))"
    unfolding get_limits_def
    by (rule consumes_sbind [OF number_returns(4)], rule consumes_sbind [OF number_returns(4)],
        rule consumes_sbind [OF number_returns(4)], rule consumes_sbind [OF number_returns(4)],
        rule consumes_sbind [OF number_returns(4)], rule consumes_parsed)
      (auto simp: put_limits_def is_ok_appended put_u32_def unat_of_nat split: if_splits)
qed

section \<open>Messages\<close>

fun failure_ok :: "limits \<Rightarrow> wire_failure \<Rightarrow> bool" where
  "failure_ok semantic (WireHost e) = name_ok (he_message e)"
| "failure_ok semantic (WireDomain e) = domain_error_ok (unat (lm_response semantic)) e"

fun outcome_ok :: "limits \<Rightarrow> invoke_outcome \<Rightarrow> bool" where
  "outcome_ok semantic (InvokeSuccess format bytes) \<longleftrightarrow> name_ok format \<and> bytes_ok (unat (lm_response semantic)) bytes"
| "outcome_ok semantic (InvokeRemoteDomain e) = domain_error_ok (unat (lm_response semantic)) e"
| "outcome_ok semantic (InvokeHostFailure e) = name_ok (he_message e)"

text \<open>What a peer may send under the limits of the session.\<close>

fun message_ok :: "limits \<Rightarrow> wire_message \<Rightarrow> bool" where
  "message_ok semantic (MsgLoad i format revision payload) \<longleftrightarrow> name_ok format \<and> bytes_ok (unat (lm_artifact semantic)) payload"
| "message_ok semantic (MsgLoaded i route d) = descriptor_ok d"
| "message_ok semantic (MsgStarted i ds) \<longleftrightarrow>
     length ds \<le> MAX_INVOCATION_DECLARATIONS \<and> (\<forall>d \<in> set ds. declaration_ok d)"
| "message_ok semantic (MsgInvoke i route format bytes remaining) \<longleftrightarrow>
     name_ok format \<and> bytes_ok (unat (lm_request semantic)) bytes"
| "message_ok semantic (MsgInvokeResult i outcome) = outcome_ok semantic outcome"
| "message_ok semantic (MsgFailure i failure) = failure_ok semantic failure"
| "message_ok semantic _ = True"

interpretation failure: wire_codec encode_failure "decode_failure semantic" "failure_ok semantic" for semantic
proof
  show "reads_as (decode_failure semantic) bs v" if ok: "failure_ok semantic v" and put: "encode_failure v = Ok bs" for v bs
  proof (cases v)
    case (WireHost e)
    with ok put show ?thesis unfolding decode_failure_def
      by (clarsimp simp: encode_failure_def encoding)
        (rule byte.read_then, assumption, rule TrueI, simp, rule host_error.read_last, assumption, assumption,
          rule reads_as_parsed)
  next
    case (WireDomain e)
    with ok put show ?thesis unfolding decode_failure_def
      by (clarsimp simp: encode_failure_def encoding)
        (rule byte.read_then, assumption, rule TrueI, simp, rule domain_error.read_last, assumption, assumption,
          rule reads_as_parsed)
  qed
  show "consumes (decode_failure semantic) (\<lambda>v. failure_ok semantic v \<and> is_ok (encode_failure v))"
    unfolding decode_failure_def
    by (rule consumes_sbind [OF byte.returns], intro consumes_if,
        rule consumes_sbind [OF host_error.returns], rule consumes_parsed, simp add: encode_failure_def is_ok_appended put_u8_def,
        rule consumes_sbind [OF domain_error.returns], rule consumes_parsed, simp add: encode_failure_def is_ok_appended put_u8_def,
        rule consumes_reject) (simp add: wire_error_def violation_def)
qed

interpretation outcome: wire_codec encode_outcome "decode_outcome semantic" "outcome_ok semantic" for semantic
proof
  show "reads_as (decode_outcome semantic) bs v" if ok: "outcome_ok semantic v" and put: "encode_outcome v = Ok bs" for v bs
  proof (cases v)
    case (InvokeSuccess format bytes)
    with ok put show ?thesis unfolding decode_outcome_def
      by (clarsimp simp: encode_outcome_def encoding)
        (rule byte.read_then, assumption, rule TrueI, simp, rule name.read_then, assumption, assumption,
          rule blob.read_last, assumption, assumption, rule reads_as_parsed)
  next
    case (InvokeRemoteDomain e)
    with ok put show ?thesis unfolding decode_outcome_def
      by (clarsimp simp: encode_outcome_def encoding)
        (rule byte.read_then, assumption, rule TrueI, simp, rule domain_error.read_last, assumption, assumption,
          rule reads_as_parsed)
  next
    case (InvokeHostFailure e)
    with ok put show ?thesis unfolding decode_outcome_def
      by (clarsimp simp: encode_outcome_def encoding)
        (rule byte.read_then, assumption, rule TrueI, simp, rule host_error.read_last, assumption, assumption,
          rule reads_as_parsed)
  qed
  show "consumes (decode_outcome semantic) (\<lambda>v. outcome_ok semantic v \<and> is_ok (encode_outcome v))"
    unfolding decode_outcome_def
    by (rule consumes_sbind [OF byte.returns], intro consumes_if,
        rule consumes_sbind [OF name.returns], rule consumes_sbind [OF blob.returns], rule consumes_parsed,
        simp add: encode_outcome_def is_ok_appended put_u8_def,
        rule consumes_sbind [OF domain_error.returns], rule consumes_parsed, simp add: encode_outcome_def is_ok_appended put_u8_def,
        rule consumes_sbind [OF host_error.returns], rule consumes_parsed, simp add: encode_outcome_def is_ok_appended put_u8_def,
        rule consumes_reject) (simp add: wire_error_def violation_def)
qed

definition get_message :: "limits \<Rightarrow> wire_message parser" where
  "get_message semantic = sbind get_u8 (\<lambda>tag. sbind get_u64 (decode_body semantic tag))"

lemma decode_body_tag:
  "decode_body semantic 1 = (\<lambda>i. decode_hello (MsgHello i))"
  "decode_body semantic 2 = (\<lambda>i. decode_hello (MsgHelloAck i))"
  "decode_body semantic 3 = (\<lambda>i. sbind get_name (\<lambda>format. sbind get_u64 (\<lambda>revision.
     sbind (get_bytes (unat (lm_artifact semantic))) (\<lambda>payload. parsed (MsgLoad i format revision payload)))))"
  "decode_body semantic 4 = (\<lambda>i. sbind get_u64 (\<lambda>route. sbind decode_descriptor (\<lambda>d. parsed (MsgLoaded i route d))))"
  "decode_body semantic 5 = (\<lambda>i. sbind get_u64 (\<lambda>route. parsed (MsgStart i route)))"
  "decode_body semantic 6 = (\<lambda>i. sbind decode_invocation_declarations (\<lambda>ds. parsed (MsgStarted i ds)))"
  "decode_body semantic 7 = (\<lambda>i. sbind get_u64 (\<lambda>route. parsed (MsgDispose i route)))"
  "decode_body semantic 8 = (\<lambda>i. parsed (MsgDisposed i))" "decode_body semantic 9 = (\<lambda>i. parsed (MsgShutdown i))"
  "decode_body semantic 10 = (\<lambda>i. parsed (MsgShutdownAck i))"
  "decode_body semantic 11 = (\<lambda>i. sbind (decode_failure semantic) (\<lambda>failure. parsed (MsgFailure i failure)))"
  "decode_body semantic 12 = (\<lambda>i. sbind get_u64 (\<lambda>route. sbind get_name (\<lambda>format.
     sbind (get_bytes (unat (lm_request semantic))) (\<lambda>bytes. sbind get_u64 (\<lambda>remaining.
       parsed (MsgInvoke i route format bytes remaining))))))"
  "decode_body semantic 13 = (\<lambda>i. sbind (decode_outcome semantic) (\<lambda>outcome. parsed (MsgInvokeResult i outcome)))"
  "decode_body semantic 14 = (\<lambda>i. parsed (MsgCancel i))"
  by (simp_all add: decode_body_def fun_eq_iff)

lemmas read_then = byte.read_then short.read_then long.read_then name.read_then blob.read_then descriptor.read_then
lemmas read_last = long.read_last blob.read_last descriptor.read_last limits.read_last declaration_array.read_last
  failure.read_last outcome.read_last

lemma message_reads:
  assumes "message_ok semantic m" and "encode_message m = Ok bs"
  shows "reads_as (get_message semantic) bs m"
  using assms unfolding get_message_def
  by (cases m; clarsimp simp: encoding)
    ((rule read_then read_last, assumption, (rule TrueI | assumption | rule conjI, assumption, assumption),
      (simp only: decode_body_tag decode_hello_def)?)+, rule reads_as_parsed)+

lemma message_returns: "consumes (get_message semantic) (\<lambda>m. message_ok semantic m \<and> is_ok (encode_message m))"
proof -
  have "consumes (decode_body semantic tag i) (\<lambda>m. message_ok semantic m \<and> is_ok (encode_message m))" for tag i
    unfolding decode_body_def decode_hello_def
    by (intro consumes_if consumes_reject consumes_sbind [OF short.returns] consumes_sbind [OF long.returns]
        consumes_sbind [OF name.returns] consumes_sbind [OF blob.returns] consumes_sbind [OF descriptor.returns]
        consumes_sbind [OF limits.returns] consumes_sbind [OF declaration_array.returns]
        consumes_sbind [OF failure.returns] consumes_sbind [OF outcome.returns] consumes_parsed)
      (simp_all add: is_ok_appended put_u8_def put_u64_def wire_error_def violation_def)
  then show ?thesis unfolding get_message_def
    by (intro consumes_sbind [OF byte.returns] consumes_sbind [OF long.returns])
qed

lemma decode_frame_alt: "decode_frame semantic = sbind (get_message semantic) (\<lambda>m. sbind decoder_finish (\<lambda>_. parsed m))"
  by (auto simp: decode_frame_def get_message_def sbind_def fun_eq_iff split: prod.split res.split)

section \<open>Frames\<close>

lemma decode_encoded:
  assumes "message_ok semantic m" and "wire_encode m limit = Ok bs"
  shows "wire_decode bs semantic = Ok m"
proof -
  have bs: "encode_message m = Ok bs" "length bs \<le> unat limit"
    using assms(2) by (auto simp: wire_encode_def rbind_Ok_iff split: if_splits)
  then have "length bs < 2 ^ 64" using unsigned_less [where 'a = nat, of limit] by simp
  with message_reads [OF assms(1) bs(1)] have "get_message semantic \<lparr>dc_bytes = [] @ bs @ [], dc_at = length ([] :: u8 list)\<rparr>
      = (Ok m, \<lparr>dc_bytes = [] @ bs @ [], dc_at = length ([] :: u8 list) + length bs\<rparr>)"
    unfolding reads_as_def by (metis append_Nil append_Nil2)
  then show ?thesis
    by (simp add: wire_decode_def decode_frame_alt sbind_def decoder_finish_def parsed_def)
qed

text \<open>
  C31. Encoding a message and decoding the frame gives the message back: for every message that respects the
  semantic limits of the reader and every frame limit the encoder accepts it under.
\<close>

theorem wire_roundtrip:
  assumes "message_ok semantic m" and "wire_encode m limit = Ok bs"
  shows "wire_decode bs semantic = Ok m"
  using assms by (rule decode_encoded)

lemma wire_decode_cases:
  obtains e where "wire_decode bs semantic = Err e" "wire_error e"
  | m where "wire_decode bs semantic = Ok m" "message_ok semantic m" "is_ok (encode_message m)"
      "\<And>xs. get_message semantic \<lparr>dc_bytes = bs @ xs, dc_at = 0\<rparr> = (Ok m, \<lparr>dc_bytes = bs @ xs, dc_at = length bs\<rparr>)"
proof -
  have "0 \<le> length bs" by simp
  with message_returns [of semantic] show thesis
  proof (cases rule: consumes_cases)
    case (1 e d)
    with that(1) show thesis by (simp add: wire_decode_def decode_frame_alt sbind_def)
  next
    case (2 m at')
    show thesis
    proof (cases "at' = length bs")
      case True
      with 2 have "wire_decode bs semantic = Ok m"
        by (simp add: wire_decode_def decode_frame_alt sbind_def decoder_finish_def parsed_def)
      with 2 True that(2) show thesis by blast
    next
      case False
      with 2 that(1) show thesis
        by (simp add: wire_decode_def decode_frame_alt sbind_def decoder_finish_def wire_error_def violation_def)
    qed
  qed
qed

text \<open>
  C32. The decoder is total and typed: on every byte sequence it returns a message that respects the limits
  of the session and can be encoded, or an error that is a protocol violation or an exceeded limit. It
  never panics, and it never allocates more than the limits allow.
\<close>

theorem wire_decode_typed:
  "case wire_decode bs semantic of
      Panicked _ \<Rightarrow> False
    | Err e \<Rightarrow> he_kind e \<in> {ProtocolViolation, MessageTooLarge}
    | Ok m \<Rightarrow> message_ok semantic m \<and> is_ok (encode_message m)"
  by (rule wire_decode_cases [of bs semantic]) (simp_all add: wire_error_def)

text \<open>
  A frame is exact: a byte sequence that decodes does not decode with anything behind it, so no valid
  frame is a proper prefix of another.
\<close>

theorem wire_frame_exact:
  assumes "wire_decode bs semantic = Ok m" and "xs \<noteq> []"
  shows "wire_decode (bs @ xs) semantic = Err (violation ''trailing frame data'')"
proof (rule wire_decode_cases [of bs semantic])
  fix m'
  assume "\<And>xs. get_message semantic \<lparr>dc_bytes = bs @ xs, dc_at = 0\<rparr> = (Ok m', \<lparr>dc_bytes = bs @ xs, dc_at = length bs\<rparr>)"
  with assms(2) show ?thesis by (simp add: wire_decode_def decode_frame_alt sbind_def decoder_finish_def)
qed (use assms(1) in simp)

section \<open>Examples\<close>

definition example_limits :: limits where
  "example_limits = \<lparr>lm_frame = 1024, lm_artifact = 128, lm_request = 128, lm_response = 128, lm_inflight = 4\<rparr>"

definition example_invoke :: wire_message where
  "example_invoke = MsgInvoke 7 2 ''json'' [1, 2, 255] 1000"

definition example_frame :: "u8 list" where
  "example_frame = [12, 0, 0, 0, 0, 0, 0, 0, 7, 0, 0, 0, 0, 0, 0, 0, 2, 0, 0, 0, 4, 106, 115, 111, 110,
     0, 0, 0, 3, 1, 2, 255, 0, 0, 0, 0, 0, 0, 3, 232]"

lemma be_bytes_numeral:
  "be_bytes (numeral k) n = be_bytes (pred_numeral k) (n div 256) @ [of_nat n]"
  by (simp only: numeral_eq_Suc [of k] be_bytes.simps)

lemma example_encodes: "wire_encode example_invoke 1024 = Ok example_frame"
  by (simp add: be_bytes_numeral wire_encode_def example_invoke_def example_frame_def appended.simps put_u8_def put_u64_def put_u32_def
    put_string_def put_bytes_def str_bytes_def)

lemma example_message_ok: "message_ok example_limits example_invoke"
  by (simp add: example_limits_def example_invoke_def name_ok_def bytes_ok_def MAX_DESCRIPTOR_STRING_def str_bytes_def)

theorem wire_roundtrip_witness:
  "wire_decode example_frame example_limits = Ok (MsgInvoke 7 2 ''json'' [1, 2, 255] 1000)"
  using wire_roundtrip [OF example_message_ok example_encodes] by (simp add: example_invoke_def)

theorem wire_frame_exact_witness:
  "wire_decode (example_frame @ [0]) example_limits = Err (violation ''trailing frame data'')"
proof (rule wire_frame_exact)
  have "reads_as (get_message example_limits) example_frame example_invoke"
    by (rule message_reads [OF example_message_ok])
      (use example_encodes in \<open>auto simp: wire_encode_def rbind_Ok_iff split: if_splits\<close>)
  then have "get_message example_limits \<lparr>dc_bytes = example_frame, dc_at = 0\<rparr>
      = (Ok example_invoke, \<lparr>dc_bytes = example_frame, dc_at = length example_frame\<rparr>)"
    unfolding reads_as_def by (drule_tac spec [of _ "[]"], drule_tac spec [of _ "[]"]) (simp add: example_frame_def)
  then show "wire_decode example_frame example_limits = Ok example_invoke"
    by (simp add: wire_decode_def decode_frame_alt sbind_def decoder_finish_def parsed_def)
qed simp

end
