(* ===== verification/Process_Session.thy ===== *)
theory Process_Session
  imports Host_Protocol Run_Triples
begin

text \<open>
  The session of a process host (\<^verbatim>\<open>host/process.rs\<close>): its limits, its state, the transitions, the request
  table, and one turn of each of its three actors (writer, reader, supervisor).

  A request parks a one-shot sender in the table and waits for its value; \<open>ss_answers\<close> holds the values
  that were sent. The child process, its pipes and the executor are outside: the bytes that arrive, the
  results of writes and the exit of the child are arguments of the turns.
\<close>

section \<open>Configuration\<close>

record process_host_config =
  ph_handshake_timeout :: duration
  ph_max_frame_bytes :: usize
  ph_max_artifact_bytes :: usize
  ph_max_request_bytes :: usize
  ph_max_response_bytes :: usize
  ph_max_control_bytes :: usize
  ph_max_inflight_requests :: usize
  ph_outbound_queue_capacity :: usize

definition process_config_default :: process_host_config where
  "process_config_default = \<lparr>ph_handshake_timeout = from_secs 5, ph_max_frame_bytes = 1024 * 1024,
     ph_max_artifact_bytes = 512 * 1024, ph_max_request_bytes = 256 * 1024, ph_max_response_bytes = 256 * 1024,
     ph_max_control_bytes = 64 * 1024, ph_max_inflight_requests = 256, ph_outbound_queue_capacity = 256\<rparr>"

definition process_config_validate :: "process_host_config \<Rightarrow> unit cres" where
  "process_config_validate c =
     (if ph_handshake_timeout c = 0
       \<or> ph_max_frame_bytes c = 0 \<or> ph_max_frame_bytes c > U32_MAX
       \<or> ph_max_artifact_bytes c = 0 \<or> ph_max_artifact_bytes c > ph_max_frame_bytes c
       \<or> ph_max_request_bytes c = 0 \<or> ph_max_request_bytes c > ph_max_frame_bytes c
       \<or> ph_max_response_bytes c = 0 \<or> ph_max_response_bytes c > ph_max_frame_bytes c
       \<or> ph_max_control_bytes c = 0 \<or> ph_max_control_bytes c > ph_max_frame_bytes c
       \<or> ph_max_inflight_requests c = 0 \<or> ph_max_inflight_requests c > U32_MAX
       \<or> ph_outbound_queue_capacity c = 0
      then Err (InvalidRuntimeConfig (Lit ''invalid ProcessHost limits'')) else Ok ())"

definition config_limits :: "process_host_config \<Rightarrow> limits" where
  "config_limits c = \<lparr>lm_frame = ph_max_frame_bytes c, lm_artifact = ph_max_artifact_bytes c,
     lm_request = ph_max_request_bytes c, lm_response = ph_max_response_bytes c,
     lm_inflight = ph_max_inflight_requests c\<rparr>"

section \<open>State\<close>

datatype session_state =
    SessionCreated | SessionHandshaking | SessionReady | SessionDraining | SessionClosed | SessionFailed

abbreviation terminal :: "session_state \<Rightarrow> bool" where
  "terminal st \<equiv> st \<in> {SessionClosed, SessionFailed}"

datatype expected_response =
    ExpectHelloAck | ExpectLoaded | ExpectStarted | ExpectDisposed | ExpectShutdownAck | ExpectInvokeResult

definition accepts :: "expected_response \<Rightarrow> wire_message \<Rightarrow> bool" where
  "accepts expected m \<longleftrightarrow>
     (case m of
        MsgFailure _ _ \<Rightarrow> expected \<noteq> ExpectInvokeResult
      | MsgHelloAck _ _ _ _ _ _ \<Rightarrow> expected = ExpectHelloAck
      | MsgLoaded _ _ _ \<Rightarrow> expected = ExpectLoaded
      | MsgStarted _ _ \<Rightarrow> expected = ExpectStarted
      | MsgDisposed _ \<Rightarrow> expected = ExpectDisposed
      | MsgShutdownAck _ \<Rightarrow> expected = ExpectShutdownAck
      | MsgInvokeResult _ _ \<Rightarrow> expected = ExpectInvokeResult
      | _ \<Rightarrow> False)"

record outbound =
  ob_message :: wire_message
  ob_deadline :: "nat option"

record session =
  ss_state :: session_state
  ss_limits :: limits
  ss_features :: u64
  ss_outbound :: "outbound list"
  ss_capacity :: usize
  ss_writer :: bool  \<comment> \<open>the receiving end of the queue exists\<close>
  ss_pending :: "(u64, expected_response) amap"
  ss_answers :: "(u64, wire_message cres) amap"
  ss_permits :: usize
  ss_next_id :: u64
  ss_highest_issued :: u64
  ss_force :: bool
  ss_actor_stop :: bool
  ss_shutdown_acked :: bool
  ss_max_control_bytes :: usize
  ss_terminal_error :: "host_error option"
  ss_actors_done :: bool
  ss_live :: bool
  ss_stdin :: "u8 list"  \<comment> \<open>everything written to the child\<close>

type_synonym 'a exchange = "(session, 'a) run_over"

definition session_new :: "process_host_config \<Rightarrow> session" where
  "session_new c = \<lparr>ss_state = SessionCreated, ss_limits = config_limits c, ss_features = 0, ss_outbound = [],
     ss_capacity = ph_outbound_queue_capacity c, ss_writer = True, ss_pending = [], ss_answers = [],
     ss_permits = ph_max_inflight_requests c, ss_next_id = 1, ss_highest_issued = 0, ss_force = False,
     ss_actor_stop = False, ss_shutdown_acked = False, ss_max_control_bytes = ph_max_control_bytes c,
     ss_terminal_error = None, ss_actors_done = False, ss_live = True, ss_stdin = []\<rparr>"

abbreviation host_failure :: "host_failure_kind \<Rightarrow> string \<Rightarrow> cordis_error" where
  "host_failure kind m \<equiv> Host (HostError kind m)"

section \<open>Transitions\<close>

definition terminal_cordis_error :: "string \<Rightarrow> session \<Rightarrow> cordis_error" where
  "terminal_cordis_error fallback s = Host (case ss_terminal_error s of
      Some e \<Rightarrow> e | None \<Rightarrow> HostError Unavailable fallback)"

definition session_transition :: "session_state \<Rightarrow> session_state \<Rightarrow> unit exchange" where
  "session_transition expected next s =
     (if ss_state s = expected then Some (Ok (), s\<lparr>ss_state := next\<rparr>)
      else Some (Err (terminal_cordis_error ''invalid process host session transition'' s), s))"

definition resolve_pending :: "host_error \<Rightarrow> session \<Rightarrow> session" where
  "resolve_pending e s = s\<lparr>ss_pending := [],
     ss_answers := ss_answers s @ map (\<lambda>(i, _). (i, Err (Host e))) (ss_pending s)\<rparr>"

definition transition_to_failed :: "host_error \<Rightarrow> session \<Rightarrow> bool \<times> session" where
  "transition_to_failed e s =
     (if terminal (ss_state s) then (False, s)
      else (True, (resolve_pending e (s\<lparr>ss_state := SessionFailed, ss_terminal_error := Some e\<rparr>))
             \<lparr>ss_actor_stop := True, ss_force := True\<rparr>))"

definition transition_to_closed :: "session \<Rightarrow> bool \<times> session" where
  "transition_to_closed s =
     (if terminal (ss_state s) then (False, s)
      else (True, (resolve_pending (HostError Unavailable ''process host closed with a pending request'')
               (s\<lparr>ss_state := SessionClosed\<rparr>))\<lparr>ss_actor_stop := True\<rparr>))"

definition publish_issued_id :: "u64 \<Rightarrow> session \<Rightarrow> session" where
  "publish_issued_id i s = s\<lparr>ss_highest_issued := max (ss_highest_issued s) i\<rparr>"

definition allocate_request_id :: "u64 exchange" where
  "allocate_request_id s =
     (let i = ss_next_id s
      in if i = 0 \<or> i = - 1
         then Some (Err (host_failure Unavailable ''process host request ID space exhausted''), s)
         else Some (Ok i, publish_issued_id i (s\<lparr>ss_next_id := i + 1\<rparr>)))"

section \<open>Requests\<close>

text \<open>What the other tasks do while a request waits; \<open>None\<close> when the wait does not end.\<close>

record peers =
  pe_permit :: "session \<Rightarrow> session option"
  pe_gap :: "session \<Rightarrow> session"
  pe_queue :: "session \<Rightarrow> session option"
  pe_answer :: "u64 \<Rightarrow> session \<Rightarrow> session option"
  pe_finish :: "session \<Rightarrow> (string option \<times> session) option"  \<comment> \<open>the end of the supervisor; a panic or cancellation message\<close>

definition acting :: "(session \<Rightarrow> session option) \<Rightarrow> unit exchange" where
  "acting env s = map_option (\<lambda>t. (Ok (), t)) (env s)"

definition require_state :: "session_state \<Rightarrow> string \<Rightarrow> unit exchange" where
  "require_state required m s =
     (if ss_state s = required then Some (Ok (), s) else Some (Err (terminal_cordis_error m s), s))"

text \<open>The semaphore is never closed, so the wait for a permit ends with one or not at all.\<close>

definition acquire_permit :: "peers \<Rightarrow> unit exchange" where
  "acquire_permit pe = andthen (acting (pe_permit pe)) (\<lambda>_ s.
     if ss_permits s = 0 then None else Some (Ok (), s\<lparr>ss_permits := ss_permits s - 1\<rparr>))"

definition release_permit :: "session \<Rightarrow> session" where
  "release_permit s = s\<lparr>ss_permits := ss_permits s + 1\<rparr>"

definition register_pending :: "u64 \<Rightarrow> expected_response \<Rightarrow> session \<Rightarrow> session" where
  "register_pending i expected s = s\<lparr>ss_pending := aput i expected (ss_pending s)\<rparr>"

text \<open>\<open>PendingRegistration::drop\<close> of an armed registration.\<close>

definition drop_registration :: "u64 \<Rightarrow> session \<Rightarrow> session" where
  "drop_registration i s = s\<lparr>ss_pending := adel i (ss_pending s)\<rparr>"

definition send_outbound :: "peers \<Rightarrow> outbound \<Rightarrow> unit exchange" where
  "send_outbound pe ob = andthen (acting (pe_queue pe)) (\<lambda>_ s.
     if \<not> ss_writer s then Some (Err (host_failure TransportClosed ''process host writer stopped''), s)
     else if length (ss_outbound s) \<ge> unat (ss_capacity s) then None
     else Some (Ok (), s\<lparr>ss_outbound := ss_outbound s @ [ob]\<rparr>))"

text \<open>\<open>try_send\<close>: \<open>Inl\<close> whether the queue is full (or else closed).\<close>

definition try_send :: "outbound \<Rightarrow> session \<Rightarrow> (bool + unit) \<times> session" where
  "try_send ob s =
     (if \<not> ss_writer s then (Inl False, s)
      else if length (ss_outbound s) \<ge> unat (ss_capacity s) then (Inl True, s)
      else (Inr (), s\<lparr>ss_outbound := ss_outbound s @ [ob]\<rparr>))"

text \<open>\<open>receiver.await\<close>: the value that was sent, or \<open>closed\<close> when the sender was dropped without one.\<close>

definition await_answer :: "peers \<Rightarrow> u64 \<Rightarrow> (session \<Rightarrow> cordis_error) \<Rightarrow> wire_message cres exchange" where
  "await_answer pe i closed = andthen (acting (pe_answer pe i)) (\<lambda>_ s.
     case aget (ss_answers s) i of
       Some r \<Rightarrow> Some (Ok r, s)
     | None \<Rightarrow> if i \<in> set (akeys (ss_pending s)) then None else Some (Err (closed s), s))"

definition registered_request :: "peers \<Rightarrow> session_state \<Rightarrow> u64 \<Rightarrow> wire_message \<Rightarrow> wire_message exchange" where
  "registered_request pe required i m =
     settle (andthen (update (pe_gap pe)) (\<lambda>_.
        andthen (require_state required ''session state changed after request registration'') (\<lambda>_.
        andthen (send_outbound pe \<lparr>ob_message = m, ob_deadline = None\<rparr>) (\<lambda>_.
        await_answer pe i (\<lambda>_. host_failure TransportClosed ''process host response channel closed'')))))
     (\<lambda>r. case r of
        Ok result \<Rightarrow> give result
      | Err e \<Rightarrow> andthen (update (drop_registration i)) (\<lambda>_. give (Err e))
      | Panicked p \<Rightarrow> andthen (update (drop_registration i)) (\<lambda>_. give (Panicked p)))"

definition admitted_request ::
  "peers \<Rightarrow> session_state \<Rightarrow> expected_response \<Rightarrow> (u64 \<Rightarrow> wire_message) \<Rightarrow> wire_message exchange" where
  "admitted_request pe required expected build =
     andthen (require_state required ''session state changed before request admission'') (\<lambda>_.
     andthen allocate_request_id (\<lambda>i.
     andthen (update (register_pending i expected)) (\<lambda>_.
     registered_request pe required i (build i))))"

definition request ::
  "peers \<Rightarrow> session_state \<Rightarrow> expected_response \<Rightarrow> (u64 \<Rightarrow> wire_message) \<Rightarrow> wire_message exchange" where
  "request pe required expected build =
     andthen (require_state required ''request is not allowed in the current session state'') (\<lambda>_.
     andthen (acquire_permit pe) (\<lambda>_.
     settle (admitted_request pe required expected build) (\<lambda>r.
       andthen (update release_permit) (\<lambda>_. give r))))"

section \<open>The reader\<close>

definition remote_failure_is_session_terminal :: "host_failure_kind \<Rightarrow> bool" where
  "remote_failure_is_session_terminal k \<longleftrightarrow>
     k \<in> {ProtocolViolation, HandshakeIncompatible, TransportClosed, ProcessExited, ProcessKilled}"

definition answer :: "u64 \<Rightarrow> wire_message cres \<Rightarrow> session \<Rightarrow> session" where
  "answer i r s = s\<lparr>ss_answers := ss_answers s @ [(i, r)]\<rparr>"

definition terminal_remote :: "wire_message \<Rightarrow> host_error option" where
  "terminal_remote m = (case m of
      MsgFailure _ (WireHost e) \<Rightarrow> if remote_failure_is_session_terminal (he_kind e) then Some e else None
    | MsgInvokeResult _ (InvokeHostFailure e) \<Rightarrow> if remote_failure_is_session_terminal (he_kind e) then Some e else None
    | _ \<Rightarrow> None)"

definition dispatch_response :: "wire_message \<Rightarrow> session \<Rightarrow> bool \<times> session" where
  "dispatch_response m s =
     (let i = message_id m
      in if i > ss_highest_issued s
         then (False, snd (transition_to_failed (violation ''response used a future request id'') s))
         else case aget (ss_pending s) i of
           None \<Rightarrow> (True, s)
         | Some expected \<Rightarrow>
             (let s1 = s\<lparr>ss_pending := adel i (ss_pending s)\<rparr>
              in if \<not> accepts expected m
                 then (let e = violation ''response kind did not match the live request''
                       in (False, answer i (Err (Host e)) (snd (transition_to_failed e s1))))
                 else case terminal_remote m of
                   Some e \<Rightarrow> (False, answer i (Err (Host e)) (snd (transition_to_failed e s1)))
                 | None \<Rightarrow> (True, answer i (Ok m)
                     (if expected = ExpectShutdownAck then s1\<lparr>ss_shutdown_acked := True\<rparr> else s1))))"

text \<open>
  \<open>read_frame\<close> on the bytes the child sends before it closes its end; \<open>eof\<close> is the text of the error the
  runtime reports for a short read.
\<close>

definition read_frame :: "string \<Rightarrow> u8 list \<Rightarrow> usize \<Rightarrow> (host_error, u8 list \<times> u8 list) res" where
  "read_frame eof stream limit =
     (if length stream < 4 then Err (HostError TransportClosed (''process host frame header failed: '' @ eof))
      else let n = from_be (take 4 stream); rest = drop 4 stream
      in if n > unat limit then Err (HostError MessageTooLarge ''frame length exceeds current hard limit'')
         else if length rest < n then Err (HostError ProtocolViolation (''truncated process host frame: '' @ eof))
         else Ok (take n rest, drop n rest))"

definition handshake_limit :: "session \<Rightarrow> usize" where
  "handshake_limit s = min ABSOLUTE_HANDSHAKE_FRAME_LIMIT (ss_max_control_bytes s)"

definition reader_limit :: "session \<Rightarrow> usize" where
  "reader_limit s = (if ss_state s \<in> {SessionCreated, SessionHandshaking} then handshake_limit s else lm_frame (ss_limits s))"

text \<open>What the reader does with a frame; the result says whether it goes on.\<close>

definition reader_accept :: "u8 list \<Rightarrow> session \<Rightarrow> bool \<times> session" where
  "reader_accept payload s =
     (if payload_is_control payload \<and> length payload > unat (ss_max_control_bytes s)
      then (False, snd (transition_to_failed (HostError MessageTooLarge ''control frame exceeds max_control_bytes'') s))
      else case wire_decode payload (ss_limits s) of
        Ok m \<Rightarrow> dispatch_response m s
      | Err e \<Rightarrow> (False, snd (transition_to_failed e s))
      | Panicked _ \<Rightarrow> (False, s))"

definition reader_turn :: "string \<Rightarrow> usize \<Rightarrow> u8 list \<Rightarrow> session \<Rightarrow> (u8 list \<times> bool) \<times> session" where
  "reader_turn eof limit stream s = (case read_frame eof stream limit of
      Err e \<Rightarrow> (([], False), if ss_state s \<noteq> SessionClosed \<and> \<not> ss_shutdown_acked s then snd (transition_to_failed e s) else s)
    | Panicked _ \<Rightarrow> (([], False), s)
    | Ok (payload, rest) \<Rightarrow> (case reader_accept payload s of (go_on, t) \<Rightarrow> ((rest, go_on), t)))"

text \<open>
  The task: the limit of a frame is read before the wait for it. \<open>gap\<close> is what the other tasks do during that
  wait, and whether the \<open>select\<close> takes a raised stop signal. Every frame takes at least its header from
  the stream.
\<close>

lemma read_frame_shorter: "read_frame eof stream limit = Ok (payload, rest) \<Longrightarrow> length rest < length stream"
  by (auto simp: read_frame_def Let_def split: if_splits)

function reader_task :: "string \<Rightarrow> (session \<Rightarrow> bool \<times> session) \<Rightarrow> u8 list \<Rightarrow> session \<Rightarrow> session" where
  "reader_task eof gap stream s = (case gap s of (stopped, s1) \<Rightarrow>
     if stopped \<and> ss_actor_stop s1 then s1
     else case reader_turn eof (reader_limit s) stream s1 of
         ((rest, True), t) \<Rightarrow> reader_task eof gap rest t
       | ((rest, False), t) \<Rightarrow> t)"
  by pat_completeness auto

termination
  by (relation "measure (\<lambda>(eof, gap, stream, s). length stream)")
    (auto simp: reader_turn_def split: res.splits prod.splits dest: read_frame_shorter)

section \<open>The writer\<close>

definition wire_budget_nanos :: "nat \<Rightarrow> nat \<Rightarrow> u64" where
  "wire_budget_nanos deadline now = (if deadline - now < 2 ^ 64 then of_nat (deadline - now) else - 1)"

definition with_budget :: "nat \<Rightarrow> outbound \<Rightarrow> wire_message" where
  "with_budget now ob = (case (ob_message ob, ob_deadline ob) of
      (MsgInvoke i route format bytes _, Some deadline) \<Rightarrow> MsgInvoke i route format bytes (wire_budget_nanos deadline now)
    | (m, _) \<Rightarrow> m)"

definition writer_limit :: "wire_message \<Rightarrow> session \<Rightarrow> usize" where
  "writer_limit m s =
     (if ss_state s \<in> {SessionCreated, SessionHandshaking} then handshake_limit s
      else if is_control m then min (lm_frame (ss_limits s)) (ss_max_control_bytes s)
      else lm_frame (ss_limits s))"

text \<open>
  One message of the writer; \<open>io\<close> is the error of the write or of the flush, if any, with the text
  before it. The result says whether the writer goes on; a writer that ends drops the queue.
\<close>

definition write_message :: "nat \<Rightarrow> (u8 list \<Rightarrow> string option) \<Rightarrow> outbound \<Rightarrow> session \<Rightarrow> bool \<times> session" where
  "write_message now io ob s =
     (let m = with_budget now ob
      in case wire_encode m (writer_limit m s) of
           Err e \<Rightarrow> (False, snd (transition_to_failed e s))
         | Panicked _ \<Rightarrow> (False, s)
         | Ok payload \<Rightarrow>
             if length payload \<ge> 2 ^ 32
             then (False, snd (transition_to_failed (HostError MessageTooLarge ''frame exceeds u32'') s))
             else case io payload of
                 Some e \<Rightarrow> (False, snd (transition_to_failed (HostError TransportClosed e) s))
               | None \<Rightarrow> (True, s\<lparr>ss_stdin := ss_stdin s @ be_bytes 4 (length payload) @ payload\<rparr>))"

definition writer_stops :: "session \<Rightarrow> session" where
  "writer_stops s = s\<lparr>ss_writer := False, ss_outbound := []\<rparr>"

definition writer_turn :: "nat \<Rightarrow> (u8 list \<Rightarrow> string option) \<Rightarrow> session \<Rightarrow> bool \<times> session" where
  "writer_turn now io s = (case ss_outbound s of
      [] \<Rightarrow> (True, s)
    | ob # obs \<Rightarrow> (case write_message now io ob (s\<lparr>ss_outbound := obs\<rparr>) of
          (True, t) \<Rightarrow> (True, t)
        | (False, t) \<Rightarrow> (False, writer_stops t)))"

text \<open>A number of turns of the task, with what the other tasks do before each.\<close>

fun writer_turns :: "nat \<Rightarrow> (session \<Rightarrow> session) \<Rightarrow> (nat \<Rightarrow> nat) \<Rightarrow> (u8 list \<Rightarrow> string option) \<Rightarrow> session \<Rightarrow> session" where
  "writer_turns 0 gap now io s = s"
| "writer_turns (Suc n) gap now io s = (case writer_turn (now n) io (gap s) of
      (True, t) \<Rightarrow> writer_turns n gap now io t
    | (False, t) \<Rightarrow> t)"

section \<open>The supervisor\<close>

datatype child_end =
    ChildExited bool string  \<comment> \<open>success, and the exit status as text\<close>
  | ChildWaitFailed string
  | ChildForced "string option"  \<comment> \<open>killed on request; the error of the reaping wait, if any\<close>

definition supervise :: "child_end \<Rightarrow> session \<Rightarrow> session" where
  "supervise ev s = (case ev of
      ChildExited success status \<Rightarrow>
        if success \<and> ss_shutdown_acked s then snd (transition_to_closed s)
        else snd (transition_to_failed (HostError ProcessExited
               (''process host exited without a complete graceful shutdown: '' @ status)) s)
    | ChildWaitFailed e \<Rightarrow> snd (transition_to_failed (HostError ProcessExited (''process host wait failed: '' @ e)) s)
    | ChildForced None \<Rightarrow>
        if ss_state s = SessionFailed then s\<lparr>ss_actor_stop := True\<rparr>
        else snd (transition_to_failed (HostError ProcessKilled ''process host was force terminated'') s)
    | ChildForced (Some e) \<Rightarrow> snd (transition_to_failed (HostError ProcessKilled (''process host reap failed: '' @ e)) s))"

definition publish_actors_done :: "session \<Rightarrow> session" where
  "publish_actors_done s = s\<lparr>ss_actors_done := True\<rparr>"

text \<open>The whole task: the end of the child, then the join of the reader and the writer.\<close>

definition supervisor_task :: "child_end \<Rightarrow> (session \<Rightarrow> session) \<Rightarrow> session \<Rightarrow> session" where
  "supervisor_task ev actors s =
     (publish_actors_done (writer_stops (actors ((supervise ev s)\<lparr>ss_actor_stop := True\<rparr>))))\<lparr>ss_live := False\<rparr>"

end
