(* ===== verification/Process_Session_Properties.thy ===== *)
theory Process_Session_Properties
  imports Process_Session Host_Protocol_Properties
begin

text \<open>
  What a session guarantees: its end is final, a response reaches exactly the request it answers, a
  request leaves nothing behind, no request waits for ever on a session that has ended, and the bytes
  the writer sends are read back as the messages of its queue.
\<close>

section \<open>The end of a session\<close>

definition same_end :: "session \<Rightarrow> session \<Rightarrow> bool" where
  "same_end s t \<longleftrightarrow> ss_state t = ss_state s \<and> ss_terminal_error t = ss_terminal_error s"

lemma transition_to_failed_terminal [simp]: "terminal (ss_state s) \<Longrightarrow> transition_to_failed e s = (False, s)"
  by (simp add: transition_to_failed_def)

lemma transition_to_closed_terminal [simp]: "terminal (ss_state s) \<Longrightarrow> transition_to_closed s = (False, s)"
  by (simp add: transition_to_closed_def)

lemma answer_sel [simp]:
  "ss_state (answer i r s) = ss_state s" "ss_terminal_error (answer i r s) = ss_terminal_error s"
  "ss_pending (answer i r s) = ss_pending s" "ss_answers (answer i r s) = ss_answers s @ [(i, r)]"
  by (simp_all add: answer_def)

lemma resolve_pending_sel [simp]:
  "ss_state (resolve_pending e s) = ss_state s" "ss_terminal_error (resolve_pending e s) = ss_terminal_error s"
  "ss_pending (resolve_pending e s) = []"
  "ss_answers (resolve_pending e s) = ss_answers s @ map (\<lambda>(i, _). (i, Err (Host e))) (ss_pending s)"
  by (simp_all add: resolve_pending_def)

lemma dispatch_same_end: "terminal (ss_state s) \<Longrightarrow> same_end s (snd (dispatch_response m s))"
  by (auto simp: same_end_def dispatch_response_def Let_def split: option.split)

lemma reader_accept_same_end: "terminal (ss_state s) \<Longrightarrow> same_end s (snd (reader_accept payload s))"
  using dispatch_same_end [of s]
  by (auto simp: reader_accept_def same_end_def split: res.split)

lemma reader_turn_same_end: "terminal (ss_state s) \<Longrightarrow> same_end s (snd (reader_turn eof limit stream s))"
  using reader_accept_same_end [of s]
  by (auto simp: reader_turn_def same_end_def case_prod_beta split: res.split)

lemma write_message_same_end: "terminal (ss_state s) \<Longrightarrow> same_end s (snd (write_message now io ob s))"
  by (auto simp: write_message_def same_end_def Let_def split: res.split option.split)

lemma writer_turn_same_end: "terminal (ss_state s) \<Longrightarrow> same_end s (snd (writer_turn now io s))"
proof (cases "ss_outbound s")
  case (Cons ob obs)
  assume "terminal (ss_state s)"
  with write_message_same_end [of "s\<lparr>ss_outbound := obs\<rparr>" now io ob] Cons show ?thesis
    by (cases "write_message now io ob (s\<lparr>ss_outbound := obs\<rparr>)")
      (auto simp: writer_turn_def same_end_def writer_stops_def split: bool.split)
qed (simp add: writer_turn_def same_end_def)

lemma supervise_same_end: "terminal (ss_state s) \<Longrightarrow> same_end s (supervise ev s)"
  by (auto simp: supervise_def same_end_def split: child_end.split option.split)

lemma transition_same_end:
  "terminal (ss_state s) \<Longrightarrow> \<not> terminal a \<Longrightarrow> session_transition a b s = Some (r, t) \<Longrightarrow> r = Err (terminal_cordis_error ''invalid process host session transition'' s) \<and> t = s"
  by (auto simp: session_transition_def split: if_splits)

text \<open>
  The end of a session is final. Once it is closed or failed, no turn of an actor and no transition
  changes its state or the error it ended with, and every request is refused with that error and
  without an effect.
\<close>

theorem ended_session_is_final:
  assumes "terminal (ss_state s)"
  shows "same_end s (snd (reader_turn eof limit stream s)) \<and> same_end s (snd (writer_turn now io s)) \<and>
    same_end s (supervise ev s) \<and> transition_to_failed e s = (False, s) \<and> transition_to_closed s = (False, s) \<and>
    (\<forall>required. \<not> terminal required \<longrightarrow>
      request pe required expected build s
        = Some (Err (terminal_cordis_error ''request is not allowed in the current session state'' s), s) \<and>
      session_transition required next s
        = Some (Err (terminal_cordis_error ''invalid process host session transition'' s), s))"
proof -
  have "request pe required expected build s
      = Some (Err (terminal_cordis_error ''request is not allowed in the current session state'' s), s)"
    if "\<not> terminal required" for required
    using that assms by (auto simp: request_def require_state_def andthen_def)
  moreover have "session_transition required next s
      = Some (Err (terminal_cordis_error ''invalid process host session transition'' s), s)"
    if "\<not> terminal required" for required
    using that assms by (auto simp: session_transition_def)
  ultimately show ?thesis
    using assms reader_turn_same_end writer_turn_same_end supervise_same_end by simp
qed

section \<open>Responses\<close>

text \<open>The request table: no key twice, no request both pending and answered.\<close>

definition requests_ok :: "session \<Rightarrow> bool" where
  "requests_ok s \<longleftrightarrow> distinct (akeys (ss_pending s)) \<and> set (akeys (ss_pending s)) \<inter> set (akeys (ss_answers s)) = {}"

definition live_request :: "session \<Rightarrow> u64 \<Rightarrow> expected_response option" where
  "live_request s i = aget (ss_pending s) i"

definition answered :: "session \<Rightarrow> u64 \<Rightarrow> wire_message cres option" where
  "answered s i = aget (ss_answers s) i"

lemma map_of_const: "map_of (map (\<lambda>(i, _). (i, c)) xs) i = (if i \<in> fst ` set xs then Some c else None)"
  by (induction xs) auto

lemma live_not_answered: "requests_ok s \<Longrightarrow> live_request s i \<noteq> None \<Longrightarrow> answered s i = None"
  unfolding requests_ok_def live_request_def answered_def by (metis aget_None_iff disjoint_iff)

lemma resolve_pending_answered:
  assumes "requests_ok s"
  shows "answered (resolve_pending e s) i = (if live_request s i = None then answered s i else Some (Err (Host e)))"
proof (cases "live_request s i")
  case None
  then have "i \<notin> fst ` set (ss_pending s)" by (simp add: live_request_def map_of_eq_None_iff)
  with None show ?thesis by (simp add: answered_def map_add_def map_of_const split: option.split)
next
  case (Some expected)
  then have "i \<in> fst ` set (ss_pending s)" by (auto simp: live_request_def dest: map_of_SomeD intro: image_eqI [rotated])
  with Some live_not_answered [OF assms, of i] show ?thesis by (simp add: answered_def map_add_def map_of_const)
qed

lemma failed_answers:
  assumes "requests_ok s" and "\<not> terminal (ss_state s)"
  shows "ss_state (snd (transition_to_failed e s)) = SessionFailed \<and> ss_terminal_error (snd (transition_to_failed e s)) = Some e \<and>
    ss_pending (snd (transition_to_failed e s)) = [] \<and>
    (\<forall>i. answered (snd (transition_to_failed e s)) i = (if live_request s i = None then answered s i else Some (Err (Host e))))"
proof -
  let ?s = "s\<lparr>ss_state := SessionFailed, ss_terminal_error := Some e\<rparr>"
  have "requests_ok ?s" "\<And>i. live_request ?s i = live_request s i" "\<And>i. answered ?s i = answered s i"
    using assms(1) by (simp_all add: requests_ok_def live_request_def answered_def)
  with resolve_pending_answered [of ?s e] assms(2) show ?thesis
    by (simp add: transition_to_failed_def answered_def)
qed

definition rejected_response :: "session \<Rightarrow> wire_message \<Rightarrow> host_error option" where
  "rejected_response s m =
     (if message_id m > ss_highest_issued s then Some (violation ''response used a future request id'')
      else case live_request s (message_id m) of
          None \<Rightarrow> None
        | Some expected \<Rightarrow>
            if \<not> accepts expected m then Some (violation ''response kind did not match the live request'')
            else terminal_remote m)"

text \<open>
  C35. A response reaches exactly its request. A response that uses an identifier not yet issued, has the
  wrong kind or carries a session-terminal failure fails the session, and every pending request is
  answered with that error; any other response is delivered to the live request with its identifier
  and to no other, and is ignored when there is none.
\<close>

theorem response_reaches_its_request:
  assumes "requests_ok s" and "\<not> terminal (ss_state s)"
  shows "case rejected_response s m of
      Some e \<Rightarrow> \<not> fst (dispatch_response m s) \<and> ss_state (snd (dispatch_response m s)) = SessionFailed \<and>
        ss_terminal_error (snd (dispatch_response m s)) = Some e \<and> ss_pending (snd (dispatch_response m s)) = [] \<and>
        (\<forall>i. answered (snd (dispatch_response m s)) i = (if live_request s i = None then answered s i else Some (Err (Host e))))
    | None \<Rightarrow> fst (dispatch_response m s) \<and> ss_state (snd (dispatch_response m s)) = ss_state s \<and>
        (\<forall>i. answered (snd (dispatch_response m s)) i
           = (if i = message_id m \<and> live_request s i \<noteq> None then Some (Ok m) else answered s i)) \<and>
        (\<forall>i. live_request (snd (dispatch_response m s)) i = (if i = message_id m then None else live_request s i))"
proof -
  let ?i = "message_id m" and ?s = "s\<lparr>ss_pending := adel (message_id m) (ss_pending s)\<rparr>"
  have ok: "requests_ok ?s" using assms(1) by (auto simp del: set_map simp: requests_ok_def)
  have nt: "\<not> terminal (ss_state ?s)" using assms(2) by simp
  have new: "answered s ?i = None" if "live_request s ?i \<noteq> None"
    using that live_not_answered assms(1) by blast
  have fails: "ss_state t = SessionFailed \<and> ss_terminal_error t = Some e \<and> ss_pending t = [] \<and>
      (\<forall>i. answered t i = (if live_request s i = None then answered s i else Some (Err (Host e))))"
    if "live_request s ?i \<noteq> None" and t: "t = answer ?i (Err (Host e)) (snd (transition_to_failed e ?s))" for e t
    using failed_answers [OF ok nt, of e] new that
    by (auto simp: answered_def live_request_def map_add_def split: option.split if_splits)
  show ?thesis
  proof (cases "?i > ss_highest_issued s")
    case True
    with failed_answers [OF assms, of "violation ''response used a future request id''"] show ?thesis
      by (simp add: rejected_response_def dispatch_response_def)
  next
    case False
    show ?thesis
    proof (cases "live_request s ?i")
      case None
      with False show ?thesis by (auto simp: rejected_response_def dispatch_response_def live_request_def)
    next
      case (Some expected)
      show ?thesis
      proof (cases "if \<not> accepts expected m then Some (violation ''response kind did not match the live request'') else terminal_remote m")
        case (Some e)
        then have "dispatch_response m s = (False, answer ?i (Err (Host e)) (snd (transition_to_failed e ?s)))"
          using False \<open>live_request s ?i = Some expected\<close>
          by (auto simp: dispatch_response_def live_request_def Let_def split: if_splits)
        with fails [OF _ refl] Some False \<open>live_request s ?i = Some expected\<close> show ?thesis
          by (simp add: rejected_response_def)
      next
        case None
        with False Some new show ?thesis
          by (auto simp: rejected_response_def dispatch_response_def live_request_def answered_def Let_def
              map_add_def split: if_splits option.split)
      qed
    qed
  qed
qed

section \<open>The bytes of the pipe\<close>

lemma from_be_length: "n < 2 ^ 32 \<Longrightarrow> from_be (be_bytes 4 n) = n"
  by (simp add: from_be_bytes)

lemma read_frame_framed:
  assumes "length payload < 2 ^ 32" and "length payload \<le> unat limit"
  shows "read_frame eof (be_bytes 4 (length payload) @ payload @ rest) limit = Ok (payload, rest)"
  using assms from_be_length [of "length payload"] by (simp add: read_frame_def Let_def)

text \<open>Reading frames one after the other, as the other end of the pipe does.\<close>

fun read_messages :: "nat \<Rightarrow> usize \<Rightarrow> limits \<Rightarrow> u8 list \<Rightarrow> (host_error, wire_message list) res" where
  "read_messages 0 limit semantic stream = Ok []"
| "read_messages (Suc n) limit semantic stream =
     rbind (read_frame ''eof'' stream limit) (\<lambda>(payload, rest).
     rbind (wire_decode payload semantic) (\<lambda>m. rbind (read_messages n limit semantic rest) (\<lambda>ms. Ok (m # ms))))"

text \<open>What the writer sends for a queue; \<open>now\<close> is the clock of each turn.\<close>

fun sent_messages :: "(nat \<Rightarrow> nat) \<Rightarrow> outbound list \<Rightarrow> wire_message list" where
  "sent_messages now [] = []"
| "sent_messages now (ob # obs) = with_budget (now (length obs)) ob # sent_messages now obs"

lemma write_message_frame:
  assumes "write_message now io ob s = (True, t)"
  shows "\<exists>payload. wire_encode (with_budget now ob) (writer_limit (with_budget now ob) s) = Ok payload \<and> length payload < 2 ^ 32 \<and>
    t = s\<lparr>ss_stdin := ss_stdin s @ be_bytes 4 (length payload) @ payload\<rparr>"
  using assms by (auto simp: write_message_def Let_def split: res.splits option.splits if_splits)

lemma writer_limit_frame: "\<not> (ss_state s \<in> {SessionCreated, SessionHandshaking}) \<Longrightarrow> writer_limit m s \<le> lm_frame (ss_limits s)"
  by (simp add: writer_limit_def)

lemma encoded_length: "wire_encode m limit = Ok payload \<Longrightarrow> length payload \<le> unat limit"
  by (auto simp: wire_encode_def rbind_Ok_iff split: if_splits)

text \<open>
  C36. The pipe is transparent. When the writer of a session that is past its handshake has sent the messages
  of its queue, the bytes it wrote are read back, under any frame limit that is not smaller, as exactly
  these messages in their order (an invocation with the budget it left with), and nothing is left over.
\<close>

theorem writer_queue_is_read_back:
  assumes "writer_turns (length (ss_outbound s)) (\<lambda>s. s) now io s = t" and "ss_writer t"
    and "ss_state s \<notin> {SessionCreated, SessionHandshaking}" and "lm_frame (ss_limits s) \<le> limit"
    and "\<forall>m \<in> set (sent_messages now (ss_outbound s)). message_ok semantic m"
  shows "\<exists>bytes. ss_stdin t = ss_stdin s @ bytes \<and>
    read_messages (length (ss_outbound s)) limit semantic bytes = Ok (sent_messages now (ss_outbound s))"
  using assms
proof (induction "ss_outbound s" arbitrary: s)
  case Nil
  then show ?case by auto
next
  case (Cons ob obs)
  let ?s = "s\<lparr>ss_outbound := obs\<rparr>" and ?now = "now (length obs)"
  have q: "ss_outbound s = ob # obs" using Cons.hyps(2) by simp
  obtain ok u where u: "write_message ?now io ob ?s = (ok, u)" by fastforce
  have ok
  proof (rule ccontr)
    assume "\<not> ok"
    then have "t = writer_stops u" using Cons.prems(1) u q by (simp add: writer_turn_def)
    then show False using Cons.prems(2) by (simp add: writer_stops_def)
  qed
  with u obtain payload where p: "wire_encode (with_budget ?now ob) (writer_limit (with_budget ?now ob) ?s) = Ok payload"
      "length payload < 2 ^ 32" "u = ?s\<lparr>ss_stdin := ss_stdin s @ be_bytes 4 (length payload) @ payload\<rparr>"
    using write_message_frame [of ?now io ob ?s u] by auto
  have sent: "sent_messages now (ss_outbound s) = with_budget ?now ob # sent_messages now obs"
    by (simp add: q)
  have turns: "writer_turns (length obs) (\<lambda>s. s) now io u = t"
    using Cons.prems(1) u \<open>ok\<close> q by (simp add: writer_turn_def)
  have u_sel: "ss_outbound u = obs" "ss_state u = ss_state s" "ss_limits u = ss_limits s"
      "ss_stdin u = ss_stdin s @ be_bytes 4 (length payload) @ payload" using p(3) by simp_all
  obtain bytes where bytes: "ss_stdin t = ss_stdin u @ bytes"
      "read_messages (length obs) limit semantic bytes = Ok (sent_messages now obs)"
    using Cons.hyps(1) [of u] turns u_sel Cons.prems(2-5) sent by auto
  have "length payload \<le> unat limit"
  proof -
    have "writer_limit (with_budget ?now ob) ?s \<le> limit"
      using writer_limit_frame [of ?s] Cons.prems(3,4) order.trans by fastforce
    with encoded_length [OF p(1)] show ?thesis by (simp add: word_le_nat_alt)
  qed
  moreover have "wire_decode payload semantic = Ok (with_budget ?now ob)"
    using decode_encoded [OF _ p(1)] Cons.prems(5) sent by simp
  ultimately have "read_messages (length (ss_outbound s)) limit semantic (be_bytes 4 (length payload) @ payload @ bytes)
      = Ok (sent_messages now (ss_outbound s))"
    using bytes(2) sent by (simp add: q read_frame_framed [OF p(2)])
  with bytes(1) u_sel(4) show ?case by auto
qed

section \<open>The limit of a frame\<close>

text \<open>
  C37. The reader takes the limit of a frame before it waits for it. When the session becomes ready during
  that wait, the first frame afterwards is still measured by the handshake limit: one above it fails
  the whole session, although the limit of the ready session admits it.
\<close>

theorem stale_read_limit_fails_session:
  assumes "ss_state s = SessionHandshaking" and "gap s = (stopped, s1)" and "\<not> (stopped \<and> ss_actor_stop s1)"
    and "ss_state s1 = SessionReady" and "\<not> ss_shutdown_acked s1"
    and "unat (handshake_limit s) < length payload" and "length payload \<le> unat (reader_limit s1)" and "length payload < 2 ^ 32"
  shows "reader_task eof gap (be_bytes 4 (length payload) @ payload @ rest) s
      = snd (transition_to_failed (HostError MessageTooLarge ''frame length exceeds current hard limit'') s1) \<and>
    read_frame eof (be_bytes 4 (length payload) @ payload @ rest) (reader_limit s1) = Ok (payload, rest)"
proof -
  let ?stream = "be_bytes 4 (length payload) @ payload @ rest"
  have "from_be (take 4 ?stream) = length payload" "drop 4 ?stream = payload @ rest" "4 \<le> length ?stream"
    using assms(8) from_be_length [of "length payload"] by simp_all
  then have "read_frame eof ?stream (reader_limit s1) = Ok (payload, rest)"
    "read_frame eof ?stream (reader_limit s) = Err (HostError MessageTooLarge ''frame length exceeds current hard limit'')"
    using assms by (simp_all add: read_frame_def Let_def reader_limit_def)
  with assms show ?thesis by (subst reader_task.simps) (auto simp: reader_turn_def)
qed

section \<open>Examples\<close>

definition example_session :: "session_state \<Rightarrow> session" where
  "example_session st = (session_new (process_config_default\<lparr>ph_max_frame_bytes := 1024\<rparr>))
     \<lparr>ss_state := st, ss_next_id := 8, ss_highest_issued := 7\<rparr>"

lemma example_session_sel [simp]:
  "ss_state (example_session st) = st" "ss_pending (example_session st) = []" "ss_answers (example_session st) = []"
  "ss_highest_issued (example_session st) = 7" "ss_writer (example_session st)" "ss_outbound (example_session st) = []"
  "lm_frame (ss_limits (example_session st)) = 1024" "ss_terminal_error (example_session st) = None"
  "ss_stdin (example_session st) = []"
  by (simp_all add: example_session_def session_new_def config_limits_def)

definition failed_session :: session where
  "failed_session = (example_session SessionFailed)\<lparr>ss_terminal_error := Some (HostError ProcessExited ''gone'')\<rparr>"

definition no_peers :: peers where
  "no_peers = \<lparr>pe_permit = Some, pe_gap = (\<lambda>s. s), pe_queue = Some, pe_answer = (\<lambda>_. Some), pe_finish = (\<lambda>s. Some (None, s))\<rparr>"

theorem ended_session_is_final_witness:
  "request no_peers SessionReady ExpectDisposed (\<lambda>i. MsgDispose i 2) failed_session
     = Some (Err (Host (HostError ProcessExited ''gone'')), failed_session) \<and>
   same_end failed_session (supervise (ChildExited True ''0'') failed_session)"
proof -
  have "terminal (ss_state failed_session)" by (simp add: failed_session_def)
  from ended_session_is_final [OF this]
  have "same_end failed_session (supervise (ChildExited True ''0'') failed_session)"
    and "request no_peers SessionReady ExpectDisposed (\<lambda>i. MsgDispose i 2) failed_session
      = Some (Err (terminal_cordis_error ''request is not allowed in the current session state'' failed_session), failed_session)"
    by blast+
  then show ?thesis by (simp add: terminal_cordis_error_def failed_session_def)
qed

definition awaiting_session :: session where
  "awaiting_session = (example_session SessionReady)\<lparr>ss_pending := [(6, ExpectStarted), (7, ExpectInvokeResult)]\<rparr>"

theorem response_reaches_its_request_witness:
  "answered (snd (dispatch_response (MsgInvokeResult 7 (InvokeSuccess ''json'' [1])) awaiting_session)) 7
     = Some (Ok (MsgInvokeResult 7 (InvokeSuccess ''json'' [1]))) \<and>
   live_request (snd (dispatch_response (MsgInvokeResult 7 (InvokeSuccess ''json'' [1])) awaiting_session)) 6 = Some ExpectStarted \<and>
   answered (snd (dispatch_response (MsgInvokeResult 6 (InvokeSuccess ''json'' [1])) awaiting_session)) 7
     = Some (Err (Host (violation ''response kind did not match the live request'')))"
proof -
  have s: "requests_ok awaiting_session" "\<not> terminal (ss_state awaiting_session)"
    by (simp_all add: awaiting_session_def requests_ok_def)
  have "rejected_response awaiting_session (MsgInvokeResult 7 (InvokeSuccess ''json'' [1])) = None"
    and "rejected_response awaiting_session (MsgInvokeResult 6 (InvokeSuccess ''json'' [1]))
      = Some (violation ''response kind did not match the live request'')"
    by (simp_all add: rejected_response_def awaiting_session_def live_request_def accepts_def terminal_remote_def)
  moreover have "live_request awaiting_session 7 = Some ExpectInvokeResult" "live_request awaiting_session 6 = Some ExpectStarted"
    by (simp_all add: awaiting_session_def live_request_def)
  ultimately show ?thesis
    using response_reaches_its_request [OF s, of "MsgInvokeResult 7 (InvokeSuccess ''json'' [1])"]
      response_reaches_its_request [OF s, of "MsgInvokeResult 6 (InvokeSuccess ''json'' [1])"] by simp
qed

text \<open>One invocation with 1000 nanoseconds left.\<close>

definition sending_session :: session where
  "sending_session = (example_session SessionReady)
     \<lparr>ss_outbound := [\<lparr>ob_message = MsgInvoke 7 2 ''json'' [1, 2, 255] 0, ob_deadline = Some 5000\<rparr>]\<rparr>"

theorem writer_queue_is_read_back_witness:
  "read_messages 1 1024 example_limits (be_bytes 4 40 @ example_frame) = Ok [MsgInvoke 7 2 ''json'' [1, 2, 255] 1000]"
proof -
  let ?ob = "\<lparr>ob_message = MsgInvoke 7 2 ''json'' [1, 2, 255] 0, ob_deadline = Some 5000\<rparr>"
  let ?t = "(example_session SessionReady)\<lparr>ss_outbound := [], ss_stdin := be_bytes 4 40 @ example_frame\<rparr>"
  have budget: "with_budget 4000 ?ob = example_invoke"
    by (simp add: with_budget_def wire_budget_nanos_def example_invoke_def)
  have limit: "writer_limit example_invoke (sending_session\<lparr>ss_outbound := []\<rparr>) = 1024"
    by (simp add: writer_limit_def sending_session_def is_control_def example_invoke_def)
  have len: "length example_frame = 40" by (simp add: example_frame_def)
  have "write_message 4000 (\<lambda>_. None) ?ob (sending_session\<lparr>ss_outbound := []\<rparr>) = (True, ?t)"
    unfolding write_message_def Let_def budget limit example_encodes res.case len by (simp add: sending_session_def)
  then have "writer_turns (length (ss_outbound sending_session)) (\<lambda>s. s) (\<lambda>_. 4000) (\<lambda>_. None) sending_session = ?t"
    by (simp add: sending_session_def writer_turn_def)
  moreover have "\<forall>m \<in> set (sent_messages (\<lambda>_. 4000) (ss_outbound sending_session)). message_ok example_limits m"
    using example_message_ok budget by (simp add: sending_session_def)
  ultimately have "\<exists>bytes. ss_stdin ?t = ss_stdin sending_session @ bytes \<and>
      read_messages (length (ss_outbound sending_session)) 1024 example_limits bytes = Ok (sent_messages (\<lambda>_. 4000) (ss_outbound sending_session))"
    by (intro writer_queue_is_read_back) (simp_all add: sending_session_def)
  then show ?thesis using budget by (simp add: sending_session_def example_invoke_def)
qed

definition wide_session :: "session_state \<Rightarrow> session" where
  "wide_session st = (session_new (process_config_default\<lparr>ph_max_control_bytes := 128 * 1024\<rparr>))\<lparr>ss_state := st\<rparr>"

theorem stale_read_limit_fails_session_witness:
  "ss_state (reader_task ''eof'' (\<lambda>s. (False, s\<lparr>ss_state := SessionReady\<rparr>)) (be_bytes 4 70000 @ replicate 70000 0)
      (wide_session SessionHandshaking)) = SessionFailed"
proof -
  have "ss_state (reader_task ''eof'' (\<lambda>s. (False, s\<lparr>ss_state := SessionReady\<rparr>)) (be_bytes 4 70000 @ payload)
      (wide_session SessionHandshaking)) = SessionFailed" if "length payload = 70000" for payload
  proof -
    have "reader_task ''eof'' (\<lambda>s. (False, s\<lparr>ss_state := SessionReady\<rparr>)) (be_bytes 4 (length payload) @ payload @ [])
        (wide_session SessionHandshaking)
      = snd (transition_to_failed (HostError MessageTooLarge ''frame length exceeds current hard limit'')
          ((wide_session SessionHandshaking)\<lparr>ss_state := SessionReady\<rparr>))"
      by (rule stale_read_limit_fails_session [where stopped = False, THEN conjunct1])
        (simp_all add: wide_session_def session_new_def handshake_limit_def ABSOLUTE_HANDSHAKE_FRAME_LIMIT_def reader_limit_def
          config_limits_def process_config_default_def that)
    then show ?thesis using that by (simp add: transition_to_failed_def wide_session_def del: reader_task.simps)
  qed
  from this [OF length_replicate] show ?thesis .
qed

end
