(* ===== verification/Process_Concurrency.thy ===== *)
theory Process_Concurrency
  imports Process_Session "HOL-Library.Multiset"
begin

text \<open>
  Requests against the end of their session (\<^verbatim>\<open>host/process.rs\<close>), lock region by lock region: any number of
  requesting tasks, the reader that takes an entry from the table before it sends the value, and the
  task that ends the session, which first swaps the state and drains the table later.
\<close>

section \<open>Steps\<close>

datatype request_pc =
    RqIdle | RqAdmitted | RqAllocated u64 | RqRegistered u64 | RqChecked u64 | RqWaiting u64 | RqOver

record request_system =
  rq_session :: session
  rq_pc :: "nat \<Rightarrow> request_pc"
  rq_ending :: "host_error option"  \<comment> \<open>the state is swapped, the table not yet drained\<close>
  rq_delivering :: "(u64 \<times> wire_message cres) option"  \<comment> \<open>taken by the reader, not yet sent\<close>

definition request_init :: "process_host_config \<Rightarrow> request_system" where
  "request_init config = \<lparr>rq_session = session_new config, rq_pc = \<lambda>_. RqIdle, rq_ending = None, rq_delivering = None\<rparr>"

definition rq_goto :: "nat \<Rightarrow> request_pc \<Rightarrow> session \<Rightarrow> request_system \<Rightarrow> request_system" where
  "rq_goto t pc s q = q\<lparr>rq_session := s, rq_pc := (rq_pc q)(t := pc)\<rparr>"

text \<open>The first critical section of \<open>transition_to_failed\<close> and \<open>transition_to_closed\<close>.\<close>

definition begin_end :: "host_error option \<Rightarrow> session \<Rightarrow> session" where
  "begin_end failure s = (case failure of
      Some e \<Rightarrow> s\<lparr>ss_state := SessionFailed, ss_terminal_error := Some e\<rparr>
    | None \<Rightarrow> s\<lparr>ss_state := SessionClosed\<rparr>)"

text \<open>The identifier of a request whose registration exists.\<close>

fun registered_id :: "request_pc \<Rightarrow> u64 option" where
  "registered_id (RqRegistered i) = Some i"
| "registered_id (RqChecked i) = Some i"
| "registered_id (RqWaiting i) = Some i"
| "registered_id _ = None"

inductive request_step :: "(nat \<Rightarrow> session_state) \<Rightarrow> (nat \<Rightarrow> expected_response) \<Rightarrow> request_system \<Rightarrow> request_system \<Rightarrow> bool"
  for required expected where
  admit: "rq_pc q t = RqIdle \<Longrightarrow> ss_state (rq_session q) = required t \<Longrightarrow>
    request_step required expected q (rq_goto t RqAdmitted (rq_session q) q)"
| allocate: "rq_pc q t = RqAdmitted \<Longrightarrow> allocate_request_id (rq_session q) = Some (Ok i, s) \<Longrightarrow>
    request_step required expected q (rq_goto t (RqAllocated i) s q)"
| register: "rq_pc q t = RqAllocated i \<Longrightarrow>
    request_step required expected q (rq_goto t (RqRegistered i) (register_pending i (expected t) (rq_session q)) q)"
| check: "rq_pc q t = RqRegistered i \<Longrightarrow> ss_state (rq_session q) = required t \<Longrightarrow>
    request_step required expected q (rq_goto t (RqChecked i) (rq_session q) q)"
| refuse: "rq_pc q t = RqRegistered i \<Longrightarrow> ss_state (rq_session q) \<noteq> required t \<Longrightarrow>
    request_step required expected q (rq_goto t RqOver (drop_registration i (rq_session q)) q)"
| send: "rq_pc q t = RqChecked i \<Longrightarrow> ss_writer (rq_session q) \<Longrightarrow>
    request_step required expected q (rq_goto t (RqWaiting i) ((rq_session q)\<lparr>ss_outbound := obs\<rparr>) q)"
| send_fails: "rq_pc q t = RqChecked i \<Longrightarrow> \<not> ss_writer (rq_session q) \<Longrightarrow>
    request_step required expected q (rq_goto t RqOver (drop_registration i (rq_session q)) q)"
| receive: "rq_pc q t = RqWaiting i \<Longrightarrow> aget (ss_answers (rq_session q)) i = Some r \<Longrightarrow>
    request_step required expected q (rq_goto t RqOver (rq_session q) q)"
| cancel: "registered_id (rq_pc q t) = Some i \<Longrightarrow>
    request_step required expected q (rq_goto t RqOver (drop_registration i (rq_session q)) q)"
| take: "rq_delivering q = None \<Longrightarrow> i \<in> set (akeys (ss_pending (rq_session q))) \<Longrightarrow>
    request_step required expected q (q\<lparr>rq_session := drop_registration i (rq_session q), rq_delivering := Some (i, r)\<rparr>)"
| deliver: "rq_delivering q = Some (i, r) \<Longrightarrow>
    request_step required expected q (q\<lparr>rq_session := answer i r (rq_session q), rq_delivering := None\<rparr>)"
| move: "session_transition a b (rq_session q) = Some (Ok (), s) \<Longrightarrow> \<not> terminal a \<Longrightarrow> \<not> terminal b \<Longrightarrow>
    request_step required expected q (q\<lparr>rq_session := s\<rparr>)"
| finish: "\<not> terminal (ss_state (rq_session q)) \<Longrightarrow>
    request_step required expected q (q\<lparr>rq_session := begin_end failure (rq_session q), rq_ending := Some e\<rparr>)"
| drain: "rq_ending q = Some e \<Longrightarrow>
    request_step required expected q (q\<lparr>rq_session := resolve_pending e (rq_session q), rq_ending := None\<rparr>)"
| writer: "request_step required expected q (q\<lparr>rq_session := writer_stops (rq_session q)\<rparr>)"

text \<open>The two critical sections make up the operation.\<close>

lemma transition_to_failed_sections:
  "\<not> terminal (ss_state s) \<Longrightarrow> snd (transition_to_failed e s)
     = (resolve_pending e (begin_end (Some e) s))\<lparr>ss_actor_stop := True, ss_force := True\<rparr>"
  by (simp add: transition_to_failed_def begin_end_def)

lemma transition_to_closed_sections:
  "\<not> terminal (ss_state s) \<Longrightarrow> snd (transition_to_closed s)
     = (resolve_pending (HostError Unavailable ''process host closed with a pending request'') (begin_end None s))\<lparr>ss_actor_stop := True\<rparr>"
  by (simp add: transition_to_closed_def begin_end_def)

section \<open>The invariant\<close>

text \<open>Where the sender of an identifier is: in the table, in the hands of the reader, or used.\<close>

definition senders :: "request_system \<Rightarrow> u64 list" where
  "senders q = akeys (ss_pending (rq_session q)) @ akeys (ss_answers (rq_session q)) @
     (case rq_delivering q of Some (i, _) \<Rightarrow> [i] | None \<Rightarrow> [])"

fun owned_id :: "request_pc \<Rightarrow> u64 option" where
  "owned_id (RqAllocated i) = Some i"
| "owned_id pc = registered_id pc"

definition past_check :: "request_pc \<Rightarrow> u64 option" where
  "past_check pc = (case pc of RqChecked i \<Rightarrow> Some i | RqWaiting i \<Rightarrow> Some i | _ \<Rightarrow> None)"

definition request_inv :: "request_system \<Rightarrow> bool" where
  "request_inv q \<longleftrightarrow>
     distinct (senders q) \<and> (\<forall>i \<in> set (senders q). i < ss_next_id (rq_session q)) \<and>
     (\<forall>t i. owned_id (rq_pc q t) = Some i \<longrightarrow> i < ss_next_id (rq_session q)) \<and>
     (\<forall>t u i. owned_id (rq_pc q t) = Some i \<longrightarrow> owned_id (rq_pc q u) = Some i \<longrightarrow> t = u) \<and>
     (\<forall>t i. rq_pc q t = RqAllocated i \<longrightarrow> i \<notin> set (senders q)) \<and>
     (\<forall>t i. registered_id (rq_pc q t) = Some i \<longrightarrow> i \<in> set (senders q)) \<and>
     (rq_ending q \<noteq> None \<longrightarrow> terminal (ss_state (rq_session q))) \<and>
     (terminal (ss_state (rq_session q)) \<and> rq_ending q = None \<longrightarrow>
       (\<forall>t i. past_check (rq_pc q t) = Some i \<longrightarrow> i \<notin> set (akeys (ss_pending (rq_session q)))))"

lemma request_invD:
  assumes "request_inv q"
  shows "distinct (senders q)" and "i \<in> set (senders q) \<Longrightarrow> i < ss_next_id (rq_session q)"
    and "owned_id (rq_pc q t) = Some i \<Longrightarrow> i < ss_next_id (rq_session q)"
    and "owned_id (rq_pc q t) = Some i \<Longrightarrow> owned_id (rq_pc q u) = Some i \<Longrightarrow> t = u"
    and "rq_pc q t = RqAllocated i \<Longrightarrow> i \<notin> set (senders q)"
    and "registered_id (rq_pc q t) = Some i \<Longrightarrow> i \<in> set (senders q)"
    and "rq_ending q \<noteq> None \<Longrightarrow> terminal (ss_state (rq_session q))"
    and "terminal (ss_state (rq_session q)) \<Longrightarrow> rq_ending q = None \<Longrightarrow> past_check (rq_pc q t) = Some i \<Longrightarrow>
      i \<notin> set (akeys (ss_pending (rq_session q)))"
  using assms unfolding request_inv_def by blast+

lemma request_inv_init: "request_inv (request_init config)"
  by (simp add: request_inv_def request_init_def session_new_def senders_def past_check_def)

lemma past_registered: "past_check pc = Some i \<Longrightarrow> registered_id pc = Some i"
  by (cases pc) (simp_all add: past_check_def)

lemma registered_owned: "registered_id pc = Some i \<Longrightarrow> owned_id pc = Some i"
  by (cases pc) simp_all

lemma goto_sel [simp]:
  "rq_session (rq_goto t pc s q) = s" "rq_pc (rq_goto t pc s q) = (rq_pc q)(t := pc)"
  "rq_ending (rq_goto t pc s q) = rq_ending q" "rq_delivering (rq_goto t pc s q) = rq_delivering q"
  by (simp_all add: rq_goto_def)

lemma drop_sel [simp]:
  "ss_answers (drop_registration i s) = ss_answers s" "ss_next_id (drop_registration i s) = ss_next_id s"
  "ss_state (drop_registration i s) = ss_state s" "ss_pending (drop_registration i s) = adel i (ss_pending s)"
  by (simp_all add: drop_registration_def)

lemma senders_drop:
  "distinct (senders q) \<Longrightarrow> distinct (senders (rq_goto t pc (drop_registration i (rq_session q)) q))"
  "j \<noteq> i \<Longrightarrow> j \<in> set (senders (rq_goto t pc (drop_registration i (rq_session q)) q)) \<longleftrightarrow> j \<in> set (senders q)"
  "j \<in> set (senders (rq_goto t pc (drop_registration i (rq_session q)) q)) \<Longrightarrow> j \<in> set (senders q)"
  by (auto simp del: set_map simp: senders_def split: option.splits)

lemma request_inv_drop:
  assumes q: "request_inv q" and i: "registered_id (rq_pc q t) = Some i"
  shows "request_inv (rq_goto t RqOver (drop_registration i (rq_session q)) q)"
proof -
  have own: "owned_id (rq_pc q t) = Some i" using i by (rule registered_owned)
  have other: "j \<noteq> i" if "u \<noteq> t" "owned_id (rq_pc q u) = Some j" for u j
    using that request_invD(4) [OF q own] by blast
  show ?thesis
    using q other registered_owned past_registered unfolding request_inv_def
    by (auto simp del: set_map simp: senders_drop past_check_def)
qed

text \<open>A step of one task that leaves the table and the state alone.\<close>

lemma request_inv_pc:
  assumes q: "request_inv q"
    and s: "ss_pending s = ss_pending (rq_session q)" "ss_answers s = ss_answers (rq_session q)"
      "ss_next_id s = ss_next_id (rq_session q)" "ss_state s = ss_state (rq_session q)"
    and pc: "\<And>i. owned_id pc = Some i \<Longrightarrow> registered_id pc = Some i \<and> registered_id (rq_pc q t) = Some i"
      "\<And>i. past_check pc = Some i \<Longrightarrow> past_check (rq_pc q t) = Some i \<or> \<not> terminal (ss_state s)"
  shows "request_inv (rq_goto t pc s q)"
proof -
  have eq: "senders (rq_goto t pc s q) = senders q" using s by (simp add: senders_def)
  have "i \<notin> set (senders q)" if "rq_pc q u = RqAllocated i" for u i using request_invD(5) [OF q] that .
  moreover have "pc \<noteq> RqAllocated i" for i using pc(1) [of i] by auto
  moreover have own: "owned_id (rq_pc q t) = Some i" if "owned_id pc = Some i" for i
    using pc(1) that registered_owned by blast
  moreover have "i \<in> set (senders q)" if "registered_id pc = Some i" for i
    using pc(1) registered_owned request_invD(6) [OF q] that by blast
  moreover have "i \<notin> set (akeys (ss_pending (rq_session q)))"
    if "terminal (ss_state s)" "rq_ending q = None" "past_check pc = Some i" for i
    using pc(2) [OF that(3)] that(1,2) request_invD(8) [OF q _ that(2), of t i] s(4) by (auto simp del: set_map)
  ultimately show ?thesis
    using q s own unfolding request_inv_def eq goto_sel
    by (simp del: set_map) (metis request_invD(3,4) [OF q])
qed

lemma allocate_Ok:
  assumes "allocate_request_id s = Some (Ok i, s')"
  shows "i = ss_next_id s" "ss_next_id s' = i + 1" "i < i + 1" "ss_pending s' = ss_pending s"
    "ss_answers s' = ss_answers s" "ss_state s' = ss_state s"
proof -
  have "ss_next_id s \<noteq> - 1" "i = ss_next_id s" "s' = publish_issued_id i (s\<lparr>ss_next_id := i + 1\<rparr>)"
    using assms by (auto simp: allocate_request_id_def Let_def split: if_splits)
  moreover from this have "unat (i + 1) = Suc (unat i)" by (simp add: unat_add_one)
  ultimately show "i = ss_next_id s" "ss_next_id s' = i + 1" "i < i + 1" "ss_pending s' = ss_pending s"
      "ss_answers s' = ss_answers s" "ss_state s' = ss_state s"
    by (simp_all add: publish_issued_id_def word_less_nat_alt)
qed

lemma request_inv_step:
  assumes "request_step required expected q q'" and "\<And>t. \<not> terminal (required t)" and "request_inv q"
  shows "request_inv q'"
  using assms(1)
proof cases
  case (admit t)
  show ?thesis unfolding admit(1) by (rule request_inv_pc [OF assms(3)]) (use admit in \<open>auto simp: past_check_def\<close>)
next
  case (allocate t i s)
  note s = allocate_Ok [OF allocate(3)]
  have "j < ss_next_id s" if "j < i" for j using that s(2,3) by (metis order.strict_trans)
  moreover have "owned_id (rq_pc q u) \<noteq> Some i" for u using request_invD(3) [OF assms(3)] s(1) by blast
  moreover have "i \<notin> set (senders q)" using request_invD(2) [OF assms(3)] s(1) by blast
  moreover have "senders q' = senders q" using allocate s by (simp add: senders_def)
  ultimately show ?thesis using assms(3) s allocate(1,2) unfolding request_inv_def
    by (auto simp del: set_map simp: past_check_def)
next
  case (register t i)
  have own: "owned_id (rq_pc q t) = Some i" using register(2) by simp
  then have i: "i \<notin> set (senders q)" "i < ss_next_id (rq_session q)" "owned_id (rq_pc q t) = Some i"
    using request_invD(3,5) [OF assms(3)] register(2) by blast+
  then have "aput i (expected t) (ss_pending (rq_session q)) = ss_pending (rq_session q) @ [(i, expected t)]"
    by (intro aput_fresh) (simp add: senders_def)
  then have "set (senders q') = insert i (set (senders q))" "distinct (senders q')"
      "set (akeys (ss_pending (rq_session q'))) = insert i (set (akeys (ss_pending (rq_session q))))"
    using assms(3) i(1) register(1) by (auto simp: senders_def register_pending_def request_inv_def split: option.splits)
  moreover have "owned_id (rq_pc q u) \<noteq> Some i" if "u \<noteq> t" for u
    using request_invD(4) [OF assms(3) own] that by blast
  moreover from this have "past_check (rq_pc q u) \<noteq> Some i" if "u \<noteq> t" for u
    using that past_registered registered_owned by blast
  ultimately show ?thesis using assms(3) i(2,3) register(1) registered_owned unfolding request_inv_def
    by (auto simp del: set_map simp: register_pending_def past_check_def split: if_splits)
next
  case (check t i)
  with assms(2) [of t] show ?thesis unfolding check(1)
    by (intro request_inv_pc [OF assms(3)]) auto
next
  case (refuse t i)
  with request_inv_drop [OF assms(3), of t i] show ?thesis by simp
next
  case (send t i obs)
  show ?thesis unfolding send(1) by (rule request_inv_pc [OF assms(3)]) (use send in \<open>auto simp: past_check_def\<close>)
next
  case (send_fails t i)
  with request_inv_drop [OF assms(3), of t i] show ?thesis by simp
next
  case (receive t i r)
  show ?thesis unfolding receive(1) by (rule request_inv_pc [OF assms(3)]) (use receive in \<open>auto simp: past_check_def\<close>)
next
  case (cancel t i)
  with request_inv_drop [OF assms(3), of t i] show ?thesis by simp
next
  case (take i r)
  have "set (senders q') = set (senders q)" "distinct (senders q')"
    using take request_invD(1) [OF assms(3)] by (auto simp del: set_map simp: senders_def)
  moreover have "set (akeys (ss_pending (rq_session q'))) \<subseteq> set (akeys (ss_pending (rq_session q)))"
    using take(1) by (auto simp del: set_map)
  ultimately show ?thesis using assms(3) take(1) unfolding request_inv_def
    by (auto simp del: set_map)
next
  case (deliver i r)
  then have "mset (senders q') = mset (senders q)" by (simp add: senders_def answer_def)
  then have "set (senders q') = set (senders q)" "distinct (senders q') = distinct (senders q)"
    by (rule mset_eq_setD, rule mset_eq_imp_distinct_iff)
  with assms(3) deliver show ?thesis by (simp add: request_inv_def answer_def)
next
  case (move a b s)
  then have eq: "senders q' = senders q" "ss_next_id (rq_session q') = ss_next_id (rq_session q)" "rq_pc q' = rq_pc q"
      "rq_ending q' = rq_ending q" "ss_state (rq_session q') = b" "ss_state (rq_session q) = a"
    by (auto simp: senders_def session_transition_def split: if_splits)
  with assms(3) move(3,4) show ?thesis unfolding request_inv_def eq by (simp only: simp_thms) blast
next
  case (finish e failure)
  then have eq: "senders q' = senders q" "ss_next_id (rq_session q') = ss_next_id (rq_session q)" "rq_pc q' = rq_pc q"
      "rq_ending q' \<noteq> None" "terminal (ss_state (rq_session q'))"
    by (auto simp: senders_def begin_end_def split: option.splits)
  with assms(3) show ?thesis unfolding request_inv_def eq(1-3) by blast
next
  case (drain e)
  have "mset (senders q') = mset (senders q)" using drain
    by (simp add: senders_def resolve_pending_def comp_def case_prod_beta)
  then have "set (senders q') = set (senders q)" "distinct (senders q') = distinct (senders q)"
    by (rule mset_eq_setD, rule mset_eq_imp_distinct_iff)
  with assms(3) drain show ?thesis by (simp add: request_inv_def resolve_pending_def)
next
  case writer
  with assms(3) show ?thesis by (simp add: request_inv_def senders_def writer_stops_def)
qed

section \<open>No request waits for ever\<close>

interpretation request_run: transition_system "\<lambda>q. q = request_init config" "request_step required expected"
  for config required expected .

abbreviation request_reachable ::
  "process_host_config \<Rightarrow> (nat \<Rightarrow> session_state) \<Rightarrow> (nat \<Rightarrow> expected_response) \<Rightarrow> request_system \<Rightarrow> bool" where
  "request_reachable config required expected \<equiv> transition_system.reachable (\<lambda>q. q = request_init config) (request_step required expected)"

lemma request_reachable_inv:
  assumes "request_reachable config required expected q" and "\<And>t. \<not> terminal (required t)"
  shows "request_inv q"
  using assms(1) by (rule request_run.invariant) (use request_inv_init request_inv_step assms(2) in auto)

text \<open>
  C34. No request waits for ever on a session that has ended. Whatever the interleaving of the requests, the
  reader and the end of the session: once the table is drained and the reader is not between taking an
  entry and sending its value, every waiting request has been sent a value; and no request is sent two.
\<close>

theorem ended_session_answers_every_request:
  assumes "request_reachable config required expected q" and "\<And>t. \<not> terminal (required t)"
  shows "distinct (akeys (ss_answers (rq_session q))) \<and>
    (terminal (ss_state (rq_session q)) \<longrightarrow> rq_ending q = None \<longrightarrow> rq_delivering q = None \<longrightarrow>
      (\<forall>t i. rq_pc q t = RqWaiting i \<longrightarrow> (\<exists>r. aget (ss_answers (rq_session q)) i = Some r)))"
proof (intro conjI impI allI)
  have q: "request_inv q" using request_reachable_inv [OF assms] .
  show "distinct (akeys (ss_answers (rq_session q)))"
    using request_invD(1) [OF q] by (simp add: senders_def)
  fix t i
  assume over: "terminal (ss_state (rq_session q))" "rq_ending q = None" "rq_delivering q = None" and t: "rq_pc q t = RqWaiting i"
  have "i \<in> set (senders q)" using request_invD(6) [OF q, of t i] t by simp
  moreover have "i \<notin> set (akeys (ss_pending (rq_session q)))"
    using request_invD(8) [OF q over(1,2), of t i] t by (simp add: past_check_def del: set_map)
  ultimately have "i \<in> set (akeys (ss_answers (rq_session q)))" using over(3) by (auto simp add: senders_def simp del: set_map)
  then show "\<exists>r. aget (ss_answers (rq_session q)) i = Some r" by (metis aget_None_iff not_None_eq)
qed

text \<open>A request that waits while its session fails.\<close>

definition created_request :: "nat \<Rightarrow> session_state" where
  "created_request _ = SessionCreated"

lemma waiting_then_failed:
  "\<exists>q. request_reachable process_config_default created_request (\<lambda>_. ExpectHelloAck) q \<and>
    ss_state (rq_session q) = SessionFailed \<and> rq_ending q = None \<and> rq_delivering q = None \<and> rq_pc q 0 = RqWaiting 1"
proof -
  let ?s0 = "session_new process_config_default" and ?R = "request_reachable process_config_default created_request (\<lambda>_. ExpectHelloAck)"
  let ?q0 = "request_init process_config_default" and ?e = "HostError TransportClosed ''eof''"
  have s0: "rq_session ?q0 = ?s0" "rq_pc ?q0 0 = RqIdle" "ss_state ?s0 = SessionCreated" "rq_ending ?q0 = None" "rq_delivering ?q0 = None"
    by (simp_all add: request_init_def session_new_def)
  let ?s1 = "publish_issued_id 1 (?s0\<lparr>ss_next_id := 2\<rparr>)"
  have s1: "allocate_request_id ?s0 = Some (Ok 1, ?s1)"
    by (simp add: allocate_request_id_def session_new_def)
  let ?s2 = "register_pending 1 ExpectHelloAck ?s1"
  have s2: "ss_state ?s2 = SessionCreated" "ss_writer ?s2"
    by (simp_all add: register_pending_def publish_issued_id_def session_new_def)
  let ?q1 = "rq_goto 0 RqAdmitted ?s0 ?q0" and ?q2 = "\<lambda>q. rq_goto 0 (RqAllocated 1) ?s1 q"
  have 0: "?R ?q0" by (rule request_run.start) simp
  have 1: "?R ?q1" by (rule request_run.step [OF 0]) (use request_step.admit [of ?q0 0] s0 in \<open>simp add: created_request_def\<close>)
  have 2: "?R (?q2 ?q1)" by (rule request_run.step [OF 1]) (rule request_step.allocate, simp_all add: s1)
  let ?q3 = "rq_goto 0 (RqRegistered 1) ?s2 (?q2 ?q1)"
  have 3: "?R ?q3" by (rule request_run.step [OF 2]) (use request_step.register [of "?q2 ?q1" 0 1] in simp)
  let ?q4 = "rq_goto 0 (RqChecked 1) ?s2 ?q3"
  have 4: "?R ?q4" by (rule request_run.step [OF 3]) (use request_step.check [of ?q3 0 1] s2 in \<open>simp add: created_request_def\<close>)
  let ?q5 = "rq_goto 0 (RqWaiting 1) (?s2\<lparr>ss_outbound := []\<rparr>) ?q4"
  have 5: "?R ?q5" by (rule request_run.step [OF 4]) (use request_step.send [of ?q4 0 1] s2 in simp)
  let ?q6 = "?q5\<lparr>rq_session := begin_end (Some ?e) (rq_session ?q5), rq_ending := Some ?e\<rparr>"
  have 6: "?R ?q6" by (rule request_run.step [OF 5], rule request_step.finish) (simp add: s2)
  let ?q7 = "?q6\<lparr>rq_session := resolve_pending ?e (rq_session ?q6), rq_ending := None\<rparr>"
  have 7: "?R ?q7" by (rule request_run.step [OF 6], rule request_step.drain) simp
  have "ss_state (rq_session ?q7) = SessionFailed" by (simp add: resolve_pending_def begin_end_def)
  moreover have "rq_ending ?q7 = None" "rq_delivering ?q7 = None" "rq_pc ?q7 0 = RqWaiting 1" using s0 by simp_all
  ultimately show ?thesis using 7 by blast
qed

theorem ended_session_answers_every_request_witness:
  "\<exists>q r. request_reachable process_config_default created_request (\<lambda>_. ExpectHelloAck) q \<and>
    rq_pc q 0 = RqWaiting 1 \<and> ss_state (rq_session q) = SessionFailed \<and> aget (ss_answers (rq_session q)) 1 = Some r"
proof -
  obtain q where q: "request_reachable process_config_default created_request (\<lambda>_. ExpectHelloAck) q"
      "ss_state (rq_session q) = SessionFailed" "rq_ending q = None" "rq_delivering q = None" "rq_pc q 0 = RqWaiting 1"
    using waiting_then_failed by blast
  have "\<not> terminal (created_request t)" for t by (simp add: created_request_def)
  from ended_session_answers_every_request [OF q(1) this] q show ?thesis by blast
qed

end
