(* ===== verification/Process_Host.thy ===== *)
theory Process_Host
  imports Process_Session Fiber_Disposal
begin

text \<open>
  The process host (\<^verbatim>\<open>host.rs\<close>, \<^verbatim>\<open>host/process.rs\<close>): the protocol operations of a session's client, the
  cleanup by its owner, \<open>ProcessHost::load\<close>, and the proxy plugin with its handlers; and the convergence of
  a Fiber whose process failed (\<^verbatim>\<open>runtime/lifecycle.rs\<close>).

  A proxy runs over the Runtime and its session together; an operation of one leaves the other alone.
\<close>

section \<open>The client\<close>

record plugin_artifact =
  pa_format :: string
  pa_revision :: u64
  pa_payload :: "u8 list"

definition plugin_artifact_new :: "string \<Rightarrow> u64 \<Rightarrow> u8 list \<Rightarrow> plugin_artifact" where
  "plugin_artifact_new format revision payload = \<lparr>pa_format = format, pa_revision = revision, pa_payload = payload\<rparr>"

record negotiated_session =
  ng_limits :: limits
  ng_features :: u64

definition protocol_error :: "string \<Rightarrow> cordis_error" where
  "protocol_error m = host_failure ProtocolViolation m"

definition wire_failure_error :: "wire_failure \<Rightarrow> cordis_error" where
  "wire_failure_error f = (case f of WireHost e \<Rightarrow> Host e | WireDomain e \<Rightarrow> RemoteDomain e)"

definition min_limits :: "limits \<Rightarrow> limits \<Rightarrow> limits" where
  "min_limits a b = \<lparr>lm_frame = min (lm_frame a) (lm_frame b), lm_artifact = min (lm_artifact a) (lm_artifact b),
     lm_request = min (lm_request a) (lm_request b), lm_response = min (lm_response a) (lm_response b),
     lm_inflight = min (lm_inflight a) (lm_inflight b)\<rparr>"

definition handshake :: "peers \<Rightarrow> negotiated_session exchange" where
  "handshake pe =
     andthen (session_transition SessionCreated SessionHandshaking) (\<lambda>_.
     andthen (reads ss_limits) (\<lambda>local.
     andthen (request pe SessionHandshaking ExpectHelloAck
       (\<lambda>i. MsgHello i PROTOCOL_MAJOR PROTOCOL_MINOR SUPPORTED_FEATURES REQUIRED_FEATURES local)) (\<lambda>m. case m of
         MsgHelloAck _ major minor supported required l \<Rightarrow>
           if major = PROTOCOL_MAJOR \<and> minor = PROTOCOL_MINOR \<and> and REQUIRED_FEATURES (not supported) = 0
             \<and> and required (not SUPPORTED_FEATURES) = 0
           then pass \<lparr>ng_limits = min_limits local l, ng_features = and SUPPORTED_FEATURES supported\<rparr>
           else give (Err (host_failure HandshakeIncompatible
             ''incompatible process host protocol or missing Lifecycle feature''))
       | MsgFailure _ failure \<Rightarrow> give (Err (wire_failure_error failure))
       | _ \<Rightarrow> give (Err (protocol_error ''expected HelloAck during handshake'')))))"

text \<open>\<open>forget_permits\<close> takes what is available, at most \<open>shrink\<close>.\<close>

definition apply_negotiated :: "negotiated_session \<Rightarrow> unit exchange" where
  "apply_negotiated n s =
     (let l = ng_limits n; local_inflight = lm_inflight (ss_limits s)
      in if lm_frame l = 0 \<or> lm_artifact l = 0 \<or> lm_inflight l = 0
         then Some (Err (host_failure HandshakeIncompatible ''peer negotiated a zero session limit''), s)
         else if lm_inflight l > local_inflight
         then Some (Err (host_failure HandshakeIncompatible ''peer attempted to expand local inflight policy''), s)
         else (let shrink = local_inflight - lm_inflight l; forgotten = min shrink (ss_permits s);
                   s1 = s\<lparr>ss_permits := ss_permits s - forgotten\<rparr>
               in if forgotten \<noteq> shrink
                  then Some (Err (protocol_error ''inflight permits were active during negotiation''), s1)
                  else session_transition SessionHandshaking SessionReady (s1\<lparr>ss_limits := l, ss_features := ng_features n\<rparr>)))"

definition client_load :: "peers \<Rightarrow> plugin_artifact \<Rightarrow> (u64 \<times> plugin_descriptor) exchange" where
  "client_load pe artifact = andthen (reads ss_limits) (\<lambda>l.
     if length (pa_payload artifact) > unat (lm_artifact l)
     then give (Err (host_failure MessageTooLarge ''artifact exceeds negotiated process host limit''))
     else andthen (request pe SessionReady ExpectLoaded
       (\<lambda>i. MsgLoad i (pa_format artifact) (pa_revision artifact) (pa_payload artifact))) (\<lambda>m. case m of
         MsgLoaded _ route descriptor \<Rightarrow> pass (route, descriptor)
       | MsgFailure _ failure \<Rightarrow> give (Err (wire_failure_error failure))
       | _ \<Rightarrow> give (Err (protocol_error ''expected Loaded response''))))"

definition invocation_features :: u64 where
  "invocation_features = or (or FEATURE_INVOCATION FEATURE_CANCEL) FEATURE_DEADLINE"

definition client_start :: "peers \<Rightarrow> u64 \<Rightarrow> invocation_declaration list exchange" where
  "client_start pe route = andthen (request pe SessionReady ExpectStarted (\<lambda>i. MsgStart i route)) (\<lambda>m. case m of
       MsgStarted _ invocations \<Rightarrow> andthen (reads ss_features) (\<lambda>features.
         if invocations \<noteq> [] \<and> and features invocation_features \<noteq> invocation_features
         then give (Err (host_failure UnsupportedCapability
           ''remote invocation declarations require Invocation, Cancel, and Deadline''))
         else pass invocations)
     | MsgFailure _ failure \<Rightarrow> give (Err (wire_failure_error failure))
     | _ \<Rightarrow> give (Err (protocol_error ''expected Started response'')))"

definition client_dispose :: "peers \<Rightarrow> u64 \<Rightarrow> unit exchange" where
  "client_dispose pe route = andthen (request pe SessionReady ExpectDisposed (\<lambda>i. MsgDispose i route)) (\<lambda>m. case m of
       MsgDisposed _ \<Rightarrow> pass ()
     | MsgFailure _ failure \<Rightarrow> give (Err (wire_failure_error failure))
     | _ \<Rightarrow> give (Err (protocol_error ''expected Disposed response'')))"

definition client_shutdown :: "peers \<Rightarrow> unit exchange" where
  "client_shutdown pe = andthen (session_transition SessionReady SessionDraining) (\<lambda>_.
     andthen (request pe SessionDraining ExpectShutdownAck MsgShutdown) (\<lambda>m. case m of
       MsgShutdownAck _ \<Rightarrow> update (\<lambda>s. s\<lparr>ss_shutdown_acked := True\<rparr>)
     | MsgFailure _ failure \<Rightarrow> give (Err (wire_failure_error failure))
     | _ \<Rightarrow> give (Err (protocol_error ''expected ShutdownAck response''))))"

section \<open>Invocations\<close>

text \<open>\<open>RemoteInvokeGuard::drop\<close> of an armed guard: the entry is dropped, and a cancellation is queued if there is room.\<close>

definition drop_invoke_guard :: "u64 \<Rightarrow> session \<Rightarrow> session" where
  "drop_invoke_guard i s =
     (let s1 = drop_registration i s
      in if ss_state s1 \<in> {SessionReady, SessionDraining}
         then snd (try_send \<lparr>ob_message = MsgCancel i, ob_deadline = None\<rparr> s1) else s1)"

text \<open>The invocation whose future is dropped while it waits for the response.\<close>

definition cancel_invocation :: "u64 \<Rightarrow> session \<Rightarrow> session" where
  "cancel_invocation i s = release_permit (drop_invoke_guard i s)"

definition invoke_answer :: "wire_message cres \<Rightarrow> invocation_value exchange" where
  "invoke_answer r = (case r of
      Ok (MsgInvokeResult _ (InvokeSuccess format bytes)) \<Rightarrow> pass (InvocationExternal format bytes)
    | Ok (MsgInvokeResult _ (InvokeRemoteDomain e)) \<Rightarrow> give (Err (RemoteDomain e))
    | Ok (MsgInvokeResult _ (InvokeHostFailure e)) \<Rightarrow> give (Err (Host e))
    | Ok _ \<Rightarrow> give (Err (protocol_error ''expected InvokeResult response''))
    | Err e \<Rightarrow> give (Err e)
    | Panicked p \<Rightarrow> give (Panicked p))"

definition enqueue_invocation :: "u64 \<Rightarrow> outbound \<Rightarrow> unit exchange" where
  "enqueue_invocation i ob s = (case try_send ob s of
      (Inr _, t) \<Rightarrow> Some (Ok (), t)
    | (Inl True, t) \<Rightarrow> Some (Err (host_failure Overloaded ''process host outbound queue is full''), drop_registration i t)
    | (Inl False, t) \<Rightarrow> Some (Err (terminal_cordis_error ''process host writer stopped before invocation'' t), drop_registration i t))"

definition admitted_invocation ::
  "peers \<Rightarrow> u64 \<Rightarrow> string \<Rightarrow> u8 list \<Rightarrow> nat \<Rightarrow> invocation_value exchange" where
  "admitted_invocation pe route format bytes deadline =
     andthen allocate_request_id (\<lambda>i.
     andthen (update (\<lambda>s. pe_gap pe (register_pending i ExpectInvokeResult s))) (\<lambda>_.
     andthen (\<lambda>s. if ss_state s = SessionReady then Some (Ok (), s)
       else Some (Err (terminal_cordis_error ''session changed before invocation enqueue'' s), drop_registration i s)) (\<lambda>_.
     andthen (enqueue_invocation i \<lparr>ob_message = MsgInvoke i route format bytes 0, ob_deadline = Some deadline\<rparr>) (\<lambda>_.
     settle (await_answer pe i (terminal_cordis_error ''process host invocation response channel closed'')) (\<lambda>r. case r of
         Ok result \<Rightarrow> invoke_answer result
       | Err e \<Rightarrow> andthen (update (drop_invoke_guard i)) (\<lambda>_. give (Err e))
       | Panicked p \<Rightarrow> andthen (update (drop_invoke_guard i)) (\<lambda>_. give (Panicked p)))))))"

definition client_invoke :: "peers \<Rightarrow> u64 \<Rightarrow> string \<Rightarrow> u8 list \<Rightarrow> nat \<Rightarrow> invocation_value exchange" where
  "client_invoke pe route format bytes deadline = andthen (reads ss_limits) (\<lambda>l.
     if length bytes > unat (lm_request l)
     then give (Err (host_failure MessageTooLarge ''invocation request exceeds negotiated process host limit''))
     else andthen (require_state SessionReady ''invocation is not allowed outside Ready'') (\<lambda>_ s.
       if ss_permits s = 0
       then Some (Err (host_failure Overloaded ''process host inflight capacity exhausted''), s)
       else settle (admitted_invocation pe route format bytes deadline) (\<lambda>r.
         andthen (update release_permit) (\<lambda>_. give r)) (s\<lparr>ss_permits := ss_permits s - 1\<rparr>)))"

text \<open>\<open>RemoteInvocationHandler::call\<close>.\<close>

definition remote_invocation_call ::
  "peers \<Rightarrow> invocation_key \<Rightarrow> u64 \<Rightarrow> nat \<Rightarrow> invocation_value \<Rightarrow> invocation_value exchange" where
  "remote_invocation_call pe key route deadline input = (case input of
      InvocationExternal format bytes \<Rightarrow> client_invoke pe route format bytes deadline
    | _ \<Rightarrow> give (Err (InvocationTypeMismatch key)))"

section \<open>The owner\<close>

text \<open>Go on after a value or an error; a panic unwinds.\<close>

definition tried :: "('s, 'a) run_over \<Rightarrow> ('a cres \<Rightarrow> ('s, 'b) run_over) \<Rightarrow> ('s, 'b) run_over" where
  "tried m f = settle m (\<lambda>r. case r of Panicked p \<Rightarrow> give (Panicked p) | _ \<Rightarrow> f r)"

fun res_and :: "('e, 'a) res \<Rightarrow> ('e, 'a) res \<Rightarrow> ('e, 'a) res" where
  "res_and (Ok _) r = r"
| "res_and r _ = r"

definition wait_completion :: "peers \<Rightarrow> unit exchange" where
  "wait_completion pe s = (case pe_finish pe s of
      None \<Rightarrow> None
    | Some (Some m, t) \<Rightarrow> Some (Err (protocol_error m), t)
    | Some (None, t) \<Rightarrow> Some (if ss_state t = SessionClosed then Ok ()
        else if ss_state t = SessionFailed then Err (terminal_cordis_error ''process host failed'' t)
        else Err (protocol_error ''session actors ended before terminal state''), t))"

definition owner_cleanup :: "peers \<Rightarrow> u64 \<Rightarrow> unit exchange" where
  "owner_cleanup pe route = tried (client_dispose pe route) (\<lambda>dispose. tried (client_shutdown pe) (\<lambda>shutdown.
     tried (wait_completion pe) (\<lambda>completion. give (res_and (res_and dispose shutdown) completion))))"

text \<open>\<open>SessionOwner::drop\<close> while it is armed.\<close>

definition drop_owner :: "session \<Rightarrow> session" where
  "drop_owner s = s\<lparr>ss_force := True\<rparr>"

text \<open>
  A wait under a deadline: \<open>expires\<close> says whether the deadline passes first and what has happened by then.
  When the cleanup is cut off, its owner is dropped with it.
\<close>

definition cleanup_until :: "peers \<Rightarrow> (session \<Rightarrow> (session \<Rightarrow> session) option) \<Rightarrow> u64 \<Rightarrow> nat option \<Rightarrow> unit exchange" where
  "cleanup_until pe expires route deadline = (case deadline of
      None \<Rightarrow> owner_cleanup pe route
    | Some _ \<Rightarrow> (\<lambda>s. case expires s of
          None \<Rightarrow> owner_cleanup pe route s
        | Some partial \<Rightarrow> Some (Err (host_failure ProcessKilled ''process host exceeded the Runtime shutdown deadline''),
            drop_owner (partial s))))"

section \<open>The host\<close>

text \<open>\<open>OsStr\<close> values are strings here.\<close>

record process_host =
  hs_program :: string
  hs_args :: "string list"
  hs_config :: process_host_config

definition host_with_config :: "string \<Rightarrow> process_host_config \<Rightarrow> process_host" where
  "host_with_config program config = \<lparr>hs_program = program, hs_args = [], hs_config = config\<rparr>"

definition host_new :: "string \<Rightarrow> process_host" where
  "host_new program = host_with_config program process_config_default"

definition host_arg :: "string \<Rightarrow> process_host \<Rightarrow> process_host" where
  "host_arg arg host = host\<lparr>hs_args := hs_args host @ [arg]\<rparr>"

definition host_args :: "string list \<Rightarrow> process_host \<Rightarrow> process_host" where
  "host_args args host = host\<lparr>hs_args := hs_args host @ args\<rparr>"

section \<open>Loading\<close>

record remote_plugin =
  rp_descriptor :: plugin_descriptor
  rp_route :: u64

definition timed_handshake :: "peers \<Rightarrow> (session \<Rightarrow> (session \<Rightarrow> session) option) \<Rightarrow> negotiated_session exchange" where
  "timed_handshake pe expires s = (case expires s of
      None \<Rightarrow> handshake pe s
    | Some partial \<Rightarrow> Some (Err (terminal_cordis_error ''process host handshake timed out'' (partial s)), partial s))"

text \<open>The owner is dropped on every early return after the spawn.\<close>

definition owning :: "'a exchange \<Rightarrow> 'a exchange" where
  "owning m = settle m (\<lambda>r. case r of Ok a \<Rightarrow> pass a | _ \<Rightarrow> andthen (update drop_owner) (\<lambda>_. give r))"

text \<open>
  The errors of \<open>SessionOwner::spawn\<close>; the operating system decides: \<open>os\<close> is the error of the spawn, or which
  of the two pipes exist. A child without its pipes is killed by the \<open>SpawnGuard\<close>.
\<close>

definition owner_spawn :: "string + bool \<times> bool \<Rightarrow> unit cres" where
  "owner_spawn os = (case os of
      Inl error \<Rightarrow> Err (host_failure Unavailable (''failed to spawn process host: '' @ error))
    | Inr (stdin, stdout) \<Rightarrow>
        if \<not> stdin then Err (protocol_error ''child stdin unavailable'')
        else if \<not> stdout then Err (protocol_error ''child stdout unavailable'')
        else Ok ())"

definition process_load ::
  "peers \<Rightarrow> (session \<Rightarrow> (session \<Rightarrow> session) option) \<Rightarrow> string + bool \<times> bool \<Rightarrow> process_host \<Rightarrow> plugin_artifact
    \<Rightarrow> remote_plugin exchange" where
  "process_load pe expires os host artifact =
     andthen (give (process_config_validate (hs_config host))) (\<lambda>_.
     if length (pa_payload artifact) > unat (ph_max_artifact_bytes (hs_config host))
     then give (Err (host_failure MessageTooLarge ''artifact exceeds local ProcessHost limit''))
     else andthen (give (owner_spawn os)) (\<lambda>_.
       owning (andthen (update (\<lambda>_. session_new (hs_config host))) (\<lambda>_.
       andthen (timed_handshake pe expires) (\<lambda>negotiated.
       andthen (apply_negotiated negotiated) (\<lambda>_.
       andthen (client_load pe artifact) (\<lambda>(route, descriptor).
       if pd_dependencies descriptor \<noteq> [] \<or> pd_provisions descriptor \<noteq> []
       then give (Err (host_failure UnsupportedCapability ''remote Service dependencies and provisions are not supported''))
       else pass \<lparr>rp_descriptor = descriptor, rp_route = route\<rparr>)))))))"

section \<open>The proxy\<close>

definition runtime_shutdown_deadline :: "runtime \<Rightarrow> nat option" where
  "runtime_shutdown_deadline s = rt_shutdown_deadline s"

definition register_host_process :: "(runtime \<Rightarrow> runtime) \<Rightarrow> context_handle \<Rightarrow> process_ref \<Rightarrow> unit run" where
  "register_host_process env cx process = with_admission (with_context env cx (\<lambda>_.
     andthen (mutable_fiber (cx_fiber cx)) (\<lambda>_.
       update (modify_fiber (cx_fiber cx) (\<lambda>r. r\<lparr>fb_host_processes := fb_host_processes r @ [process]\<rparr>)))))"

record hosted =
  hd_runtime :: runtime
  hd_session :: session
  hd_owner :: bool  \<comment> \<open>the proxy still owns the session\<close>

definition on_part :: "('s \<Rightarrow> 'p) \<Rightarrow> ('p \<Rightarrow> 's \<Rightarrow> 's) \<Rightarrow> ('p, 'a) run_over \<Rightarrow> ('s, 'a) run_over" where
  "on_part sel upd m s = (case m (sel s) of None \<Rightarrow> None | Some (r, p) \<Rightarrow> Some (r, upd p s))"

abbreviation on_runtime :: "'a run \<Rightarrow> (hosted, 'a) run_over" where
  "on_runtime \<equiv> on_part hd_runtime (\<lambda>p s. s\<lparr>hd_runtime := p\<rparr>)"

abbreviation on_session :: "'a exchange \<Rightarrow> (hosted, 'a) run_over" where
  "on_session \<equiv> on_part hd_session (\<lambda>p s. s\<lparr>hd_session := p\<rparr>)"

text \<open>The arguments of the calls into the Runtime, one environment for each call.\<close>

record proxy_env =
  px_now :: nat
  px_env :: "nat \<Rightarrow> runtime \<Rightarrow> runtime"
  px_effect :: effect_ref
  px_process :: process_ref
  px_task :: task_id
  px_handler :: "nat \<Rightarrow> invocation_handler_id"
  px_remote :: "invocation_declaration \<Rightarrow> nat"  \<comment> \<open>the handler object of a declaration\<close>

text \<open>The cleanup effect: its deadline is the one the Runtime's shutdown has set when the effect runs.\<close>

definition proxy_effect :: "peers \<Rightarrow> (session \<Rightarrow> (session \<Rightarrow> session) option) \<Rightarrow> u64 \<Rightarrow> (hosted, unit) run_over" where
  "proxy_effect pe expires route s =
     on_session (cleanup_until pe expires route (runtime_shutdown_deadline (hd_runtime s))) s"

text \<open>\<open>let owner = self.owner.lock().take().ok_or(...)?\<close>\<close>

definition take_owner :: "(hosted, unit) run_over" where
  "take_owner s = (if hd_owner s then Some (Ok (), s\<lparr>hd_owner := False\<rparr>)
     else Some (Err (host_failure Unavailable ''remote process ownership already transferred''), s))"

text \<open>A rejected \<open>effect\<close> drops its closure, and with it the owner.\<close>

definition register_cleanup :: "proxy_env \<Rightarrow> context_handle \<Rightarrow> (hosted, unit) run_over" where
  "register_cleanup px cx = settle (on_runtime (add_effect (px_now px) (px_env px 0) cx (px_effect px))) (\<lambda>r. case r of
      Ok _ \<Rightarrow> pass ()
    | _ \<Rightarrow> andthen (on_session (update drop_owner)) (\<lambda>_. give r))"

fun register_declarations :: "proxy_env \<Rightarrow> context_handle \<Rightarrow> nat \<Rightarrow> invocation_declaration list \<Rightarrow> (hosted, unit) run_over" where
  "register_declarations px cx n [] = pass ()"
| "register_declarations px cx n (d # ds) =
     andthen (on_runtime (handle_invocation (px_now px) (px_env px (n + 3)) (px_handler px n) cx (ivd_key d) (px_remote px d)))
       (\<lambda>_. register_declarations px cx (Suc n) ds)"

definition proxy_start :: "peers \<Rightarrow> proxy_env \<Rightarrow> remote_plugin \<Rightarrow> context_handle \<Rightarrow> (hosted, unit) run_over" where
  "proxy_start pe px plugin cx =
     andthen take_owner (\<lambda>_.
     andthen (register_cleanup px cx) (\<lambda>_.
     andthen (on_session (client_start pe (rp_route plugin))) (\<lambda>declarations.
     andthen (on_runtime (register_host_process (px_env px 1) cx (px_process px))) (\<lambda>_.
     andthen (on_runtime (context_spawn (px_now px) (px_env px 2) (px_task px) cx)) (\<lambda>_.
     register_declarations px cx 0 declarations)))))"

section \<open>Failure of a process\<close>

definition wait_for_failure :: "session \<Rightarrow> host_error option option" where
  "wait_for_failure s = (if ss_state s = SessionFailed then Some (ss_terminal_error s)
     else if ss_state s = SessionClosed then Some None else None)"

definition submit_host_failure :: "unit run" where
  "submit_host_failure = andthen (spawn_worker HostFailureConvergenceWorker True) (\<lambda>_. pass ())"

text \<open>
  \<open>converge_host_failure\<close>, the body of that worker; \<open>wait\<close> is what happens until the lifecycle lock is
  granted, \<open>dispose\<close> is \<open>dispose_fiber(fiber, false)\<close>. A cell that left the registry meanwhile was disposed.
\<close>

definition converge_host_failure ::
  "(runtime \<Rightarrow> runtime) \<Rightarrow> (fiber_id \<Rightarrow> unit run) \<Rightarrow> fiber_id \<Rightarrow> generation_id \<Rightarrow> unit run" where
  "converge_host_failure wait dispose f generation = andthen (reads (fiber f)) (\<lambda>cell. if cell = None then pass ()
     else andthen (update wait) (\<lambda>_. andthen (reads (fiber f)) (\<lambda>r. case r of None \<Rightarrow> pass () | Some r \<Rightarrow>
       if fb_generation r \<noteq> generation \<or> fb_staged r \<or> fb_state r \<notin> {Active, Reloading} then pass ()
       else andthen (update (modify_fiber f (\<lambda>r. r\<lparr>fb_state := Failed\<rparr>))) (\<lambda>_.
         settle (dispose f) (\<lambda>r. case r of
            Err FiberNotFound \<Rightarrow> pass ()
          | Err (FiberLifecycleOwned _) \<Rightarrow> pass ()
          | _ \<Rightarrow> give r)))))"

end
