(* ===== verification/Process_Host_Properties.thy ===== *)
theory Process_Host_Properties
  imports Process_Host Process_Session_Properties Context_Properties
begin

text \<open>
  What the process host guarantees: a load negotiates limits downwards or terminates the child, an
  invocation leaves no permit and no entry behind, and a started proxy has handed the ownership of its
  process to the Fiber before it talks to the child.
\<close>

section \<open>Invariants of exchanges\<close>

text \<open>Everything the other tasks of a session do while a request waits keeps \<open>I\<close>.\<close>

definition peers_keep :: "(session \<Rightarrow> bool) \<Rightarrow> peers \<Rightarrow> bool" where
  "peers_keep I pe \<longleftrightarrow> (\<forall>s. I s \<longrightarrow> (\<forall>t. pe_permit pe s = Some t \<longrightarrow> I t) \<and> I (pe_gap pe s) \<and>
     (\<forall>t. pe_queue pe s = Some t \<longrightarrow> I t) \<and> (\<forall>i t. pe_answer pe i s = Some t \<longrightarrow> I t))"

lemma peers_keepD:
  assumes "peers_keep I pe" and "I s"
  shows "pe_permit pe s = Some t \<Longrightarrow> I t" and "I (pe_gap pe s)"
    and "pe_queue pe s = Some t \<Longrightarrow> I t" and "pe_answer pe i s = Some t \<Longrightarrow> I t"
  using assms unfolding peers_keep_def by blast+

text \<open>An invariant that does not look at the table, the identifiers, the queue and the permits.\<close>

definition traffic_free :: "(session \<Rightarrow> bool) \<Rightarrow> bool" where
  "traffic_free I \<longleftrightarrow> (\<forall>s. I s \<longrightarrow> (\<forall>p. I (s\<lparr>ss_pending := p\<rparr>)) \<and> (\<forall>q. I (s\<lparr>ss_outbound := q\<rparr>)) \<and>
     (\<forall>n h. I (s\<lparr>ss_next_id := n, ss_highest_issued := h\<rparr>)) \<and> (\<forall>p. I (s\<lparr>ss_permits := p\<rparr>)))"

lemma traffic_freeD:
  assumes "traffic_free I" and "I s"
  shows "I (s\<lparr>ss_pending := p\<rparr>)" and "I (s\<lparr>ss_outbound := q\<rparr>)"
    and "I (s\<lparr>ss_next_id := n, ss_highest_issued := h\<rparr>)" and "I (s\<lparr>ss_permits := k\<rparr>)"
  using assms unfolding traffic_free_def by blast+

lemma kept_acting: "(\<And>s t. I s \<Longrightarrow> env s = Some t \<Longrightarrow> I t) \<Longrightarrow> kept I (acting env)"
  by (rule keptI) (clarsimp simp: acting_def)

lemma kept_require: "kept I (require_state required m)"
  by (rule keptI) (auto simp: require_state_def split: if_splits)

lemma kept_transition: "(\<And>s. I s \<Longrightarrow> I (s\<lparr>ss_state := b\<rparr>)) \<Longrightarrow> kept I (session_transition a b)"
  by (rule keptI) (auto simp: session_transition_def split: if_splits)

lemma kept_allocate: "traffic_free I \<Longrightarrow> kept I allocate_request_id"
proof (rule keptI)
  fix s r t
  assume a: "traffic_free I" "I s" "allocate_request_id s = Some (r, t)"
  then have "t = s \<or> t = s\<lparr>ss_next_id := ss_next_id s + 1, ss_highest_issued := max (ss_highest_issued s) (ss_next_id s)\<rparr>"
    by (auto simp: allocate_request_id_def publish_issued_id_def Let_def split: if_splits)
  with traffic_freeD(3) [OF a(1,2)] a(2) show "I t" by auto
qed

lemma kept_await:
  assumes "peers_keep I pe"
  shows "kept I (await_answer pe i closed)"
proof -
  have "kept I (acting (pe_answer pe i))" by (rule kept_acting) (rule peers_keepD(4) [OF assms])
  moreover have "kept I (\<lambda>s. case aget (ss_answers s) i of Some r \<Rightarrow> Some (Ok r, s)
     | None \<Rightarrow> if i \<in> set (akeys (ss_pending s)) then None else Some (Err (closed s), s))"
    by (rule keptI) (auto split: option.splits if_splits)
  ultimately show ?thesis unfolding await_answer_def by (rule kept_andthen)
qed

lemma kept_send:
  assumes "peers_keep I pe" and "traffic_free I"
  shows "kept I (send_outbound pe ob)"
proof -
  have "kept I (acting (pe_queue pe))" by (rule kept_acting) (rule peers_keepD(3) [OF assms(1)])
  moreover have "kept I (\<lambda>s. if \<not> ss_writer s then Some (Err (host_failure TransportClosed ''process host writer stopped''), s)
     else if length (ss_outbound s) \<ge> unat (ss_capacity s) then None
     else Some (Ok (), s\<lparr>ss_outbound := ss_outbound s @ [ob]\<rparr>))"
    by (rule keptI) (auto split: if_splits intro: traffic_freeD(2) [OF assms(2)])
  ultimately show ?thesis unfolding send_outbound_def by (rule kept_andthen)
qed

lemma kept_registered:
  assumes "peers_keep I pe" and "traffic_free I"
  shows "kept I (registered_request pe required i m)"
proof -
  have gap: "kept I (update (pe_gap pe))" by (rule kept_update) (rule peers_keepD(2) [OF assms(1)])
  have drop: "kept I (update (drop_registration i))"
    by (rule kept_update) (simp add: drop_registration_def traffic_freeD(1) [OF assms(2)])
  have "kept I (case r of Ok result \<Rightarrow> give result | Err e \<Rightarrow> andthen (update (drop_registration i)) (\<lambda>_. give (Err e))
      | Panicked p \<Rightarrow> andthen (update (drop_registration i)) (\<lambda>_. give (Panicked p)))" for r
    by (cases r) (simp_all add: kept_give kept_andthen drop)
  then show ?thesis unfolding registered_request_def
    by (intro kept_settle kept_andthen gap kept_require kept_send [OF assms] kept_await [OF assms(1)])
qed

lemma kept_request:
  assumes "peers_keep I pe" and "traffic_free I"
  shows "kept I (request pe required expected build)"
proof -
  have register: "kept I (update (register_pending i expected))" for i
    by (rule kept_update) (simp add: register_pending_def traffic_freeD(1) [OF assms(2)])
  have permit: "kept I (acting (pe_permit pe))" by (rule kept_acting) (rule peers_keepD(1) [OF assms(1)])
  have take: "kept I (\<lambda>s. if ss_permits s = 0 then None else Some (Ok (), s\<lparr>ss_permits := ss_permits s - 1\<rparr>))"
    by (rule keptI) (auto split: if_splits intro: traffic_freeD(4) [OF assms(2)])
  have acquire: "kept I (acquire_permit pe)" unfolding acquire_permit_def by (rule kept_andthen [OF permit take])
  have release: "kept I (update release_permit)"
    by (rule kept_update) (simp add: release_permit_def traffic_freeD(4) [OF assms(2)])
  have admitted: "kept I (admitted_request pe required expected build)" unfolding admitted_request_def
    by (intro kept_andthen kept_require kept_allocate [OF assms(2)] register kept_registered [OF assms])
  show ?thesis unfolding request_def
    by (intro kept_andthen kept_settle kept_require acquire admitted release kept_give)
qed

section \<open>Loading\<close>

definition limits_within :: "limits \<Rightarrow> limits \<Rightarrow> bool" where
  "limits_within a b \<longleftrightarrow> lm_frame a \<le> lm_frame b \<and> lm_artifact a \<le> lm_artifact b \<and> lm_request a \<le> lm_request b \<and>
     lm_response a \<le> lm_response b \<and> lm_inflight a \<le> lm_inflight b"

lemma min_limits_within: "limits_within (min_limits a b) a"
  by (simp add: limits_within_def min_limits_def)

text \<open>The other tasks of a session do not write its limits and features: only the negotiation does.\<close>

definition limits_untouched :: "peers \<Rightarrow> bool" where
  "limits_untouched pe \<longleftrightarrow> (\<forall>l f. peers_keep (\<lambda>s. ss_limits s = l \<and> ss_features s = f) pe)"

lemma limits_untouchedD: "limits_untouched pe \<Longrightarrow> peers_keep (\<lambda>s. P (ss_limits s) (ss_features s)) pe"
  unfolding limits_untouched_def peers_keep_def by simp

lemma triple_of_kept: "kept I m \<Longrightarrow> (\<And>s. P s \<Longrightarrow> I s) \<Longrightarrow> (\<And>a s. I s \<Longrightarrow> Q a s) \<Longrightarrow> triple P m Q (\<lambda>_. True)"
  unfolding kept_def by (erule triple_weaken) auto

lemma triple_request_limits:
  assumes "limits_untouched pe" and "\<And>s. P s \<Longrightarrow> I (ss_limits s) (ss_features s)"
    and "\<And>a s. I (ss_limits s) (ss_features s) \<Longrightarrow> Q a s"
  shows "triple P (request pe required expected build) Q (\<lambda>_. True)"
proof -
  have "kept (\<lambda>s. I (ss_limits s) (ss_features s)) (request pe required expected build)"
    by (rule kept_request [OF limits_untouchedD [OF assms(1)]]) (simp add: traffic_free_def)
  then show ?thesis by (rule triple_of_kept) (use assms(2,3) in auto)
qed

lemma triple_handshake:
  assumes "limits_untouched pe"
  shows "triple (\<lambda>s. ss_limits s = l) (handshake pe)
    (\<lambda>n s. ss_limits s = l \<and> limits_within (ng_limits n) l \<and> and (ng_features n) (not SUPPORTED_FEATURES) = 0) (\<lambda>_. True)"
    (is "triple ?P _ ?Q _")
proof -
  have transition: "triple ?P (session_transition SessionCreated SessionHandshaking) (\<lambda>_. ?P) (\<lambda>_. True)"
    by (rule triple_of_kept [OF kept_transition]) simp_all
  have ask: "triple (\<lambda>s. ?P s \<and> local = l) (request pe SessionHandshaking ExpectHelloAck build)
      (\<lambda>_ s. ?P s \<and> local = l) (\<lambda>_. True)" for local build
    by (rule triple_request_limits [OF assms, where I = "\<lambda>k _. k = l \<and> local = l"]) auto
  show ?thesis unfolding handshake_def
  proof (rule triple_andthen [OF transition triple_andthen [OF triple_reads triple_andthen [OF ask]]])
    fix a local m
    show "triple (\<lambda>s. ?P s \<and> local = l) (case m of MsgHelloAck _ major minor supported required peer \<Rightarrow>
           if major = PROTOCOL_MAJOR \<and> minor = PROTOCOL_MINOR \<and> and REQUIRED_FEATURES (not supported) = 0
             \<and> and required (not SUPPORTED_FEATURES) = 0
           then pass \<lparr>ng_limits = min_limits local peer, ng_features = and SUPPORTED_FEATURES supported\<rparr>
           else give (Err (host_failure HandshakeIncompatible
             ''incompatible process host protocol or missing Lifecycle feature''))
       | MsgFailure _ failure \<Rightarrow> give (Err (wire_failure_error failure))
       | _ \<Rightarrow> give (Err (protocol_error ''expected HelloAck during handshake''))) ?Q (\<lambda>_. True)"
      by (cases m) (auto intro!: triple_pass triple_give simp: min_limits_within bit_eq_iff bit_simps)
  qed simp
qed

definition negotiated :: "limits \<Rightarrow> limits \<Rightarrow> u64 \<Rightarrow> bool" where
  "negotiated l agreed features \<longleftrightarrow> limits_within agreed l \<and> lm_frame agreed \<noteq> 0 \<and> lm_artifact agreed \<noteq> 0 \<and>
     lm_inflight agreed \<noteq> 0 \<and> and features (not SUPPORTED_FEATURES) = 0"

lemma triple_apply:
  "triple (\<lambda>s. ss_limits s = l \<and> limits_within (ng_limits n) l \<and> and (ng_features n) (not SUPPORTED_FEATURES) = 0)
     (apply_negotiated n) (\<lambda>_ s. negotiated l (ss_limits s) (ss_features s)) (\<lambda>_. True)"
  by (auto simp: triple_def apply_negotiated_def negotiated_def session_transition_def Let_def split: if_splits)

lemma triple_client_load:
  assumes "limits_untouched pe"
  shows "triple (\<lambda>s. negotiated l (ss_limits s) (ss_features s)) (client_load pe artifact)
    (\<lambda>_ s. negotiated l (ss_limits s) (ss_features s) \<and> length (pa_payload artifact) \<le> unat (lm_artifact (ss_limits s)))
    (\<lambda>_. True)" (is "triple ?P _ ?Q _")
proof -
  have reply: "triple (?Q undefined) (case m of MsgLoaded _ route descriptor \<Rightarrow> pass (route, descriptor)
       | MsgFailure _ failure \<Rightarrow> give (Err (wire_failure_error failure))
       | _ \<Rightarrow> give (Err (protocol_error ''expected Loaded response''))) ?Q (\<lambda>_. True)" for m
    by (cases m) (auto intro!: triple_pass triple_give)
  show ?thesis unfolding client_load_def
  proof (rule triple_andthen [OF triple_reads [where Q = "\<lambda>k s. ?P s \<and> k = ss_limits s"]])
    fix k
    let ?I = "\<lambda>m f. negotiated l m f \<and> length (pa_payload artifact) \<le> unat (lm_artifact m)"
    show "triple (\<lambda>s. ?P s \<and> k = ss_limits s) (if length (pa_payload artifact) > unat (lm_artifact k)
       then give (Err (host_failure MessageTooLarge ''artifact exceeds negotiated process host limit''))
       else andthen (request pe SessionReady ExpectLoaded
         (\<lambda>i. MsgLoad i (pa_format artifact) (pa_revision artifact) (pa_payload artifact))) (\<lambda>m. case m of
         MsgLoaded _ route descriptor \<Rightarrow> pass (route, descriptor)
       | MsgFailure _ failure \<Rightarrow> give (Err (wire_failure_error failure))
       | _ \<Rightarrow> give (Err (protocol_error ''expected Loaded response'')))) ?Q (\<lambda>_. True)"
      by (intro triple_if triple_give triple_andthen [OF triple_request_limits [OF assms, where I = ?I] reply]) auto
  qed simp
qed

lemma triple_timed_handshake:
  assumes "limits_untouched pe"
  shows "triple (\<lambda>s. ss_limits s = l) (timed_handshake pe expires)
    (\<lambda>n s. ss_limits s = l \<and> limits_within (ng_limits n) l \<and> and (ng_features n) (not SUPPORTED_FEATURES) = 0) (\<lambda>_. True)"
  using triple_handshake [OF assms, of l] by (auto simp: triple_def timed_handshake_def split: option.splits)

lemma triple_owned:
  assumes "triple P m Q (\<lambda>_. True)"
  shows "triple P (owning m) Q ss_force"
proof -
  have drop: "triple (\<lambda>_. True) (andthen (update drop_owner) (\<lambda>_. give (r :: 'a cres))) Q ss_force" if "\<And>a. r \<noteq> Ok a" for r
    by (rule triple_andthen [where R = "\<lambda>_. ss_force"]) (use that in \<open>auto intro!: triple_update triple_give simp: drop_owner_def\<close>)
  show ?thesis unfolding owning_def
    by (rule triple_settle_cases [OF assms]) (simp_all add: triple_pass drop)
qed

definition load_result :: "process_host_config \<Rightarrow> plugin_artifact \<Rightarrow> remote_plugin \<Rightarrow> session \<Rightarrow> bool" where
  "load_result config artifact plugin t \<longleftrightarrow> negotiated (config_limits config) (ss_limits t) (ss_features t) \<and>
     length (pa_payload artifact) \<le> unat (lm_artifact (ss_limits t)) \<and>
     pd_dependencies (rp_descriptor plugin) = [] \<and> pd_provisions (rp_descriptor plugin) = []"

lemma triple_spawned_load:
  assumes "limits_untouched pe"
  shows "triple (\<lambda>_. True) (owning (andthen (update (\<lambda>_. session_new config)) (\<lambda>_.
       andthen (timed_handshake pe expires) (\<lambda>negotiated.
       andthen (apply_negotiated negotiated) (\<lambda>_.
       andthen (client_load pe artifact) (\<lambda>(route, descriptor).
       if pd_dependencies descriptor \<noteq> [] \<or> pd_provisions descriptor \<noteq> []
       then give (Err (host_failure UnsupportedCapability ''remote Service dependencies and provisions are not supported''))
       else pass \<lparr>rp_descriptor = descriptor, rp_route = route\<rparr>))))))
     (load_result config artifact) ss_force"
proof (rule triple_owned, rule triple_andthen [OF triple_update triple_andthen [OF triple_timed_handshake [OF assms]
      triple_andthen [OF triple_apply triple_andthen [OF triple_client_load [OF assms]]]]])
  show "ss_limits (session_new config) = config_limits config" by (simp add: session_new_def)
next
  fix a :: "u64 \<times> plugin_descriptor"
  show "triple (\<lambda>s. negotiated (config_limits config) (ss_limits s) (ss_features s) \<and>
        length (pa_payload artifact) \<le> unat (lm_artifact (ss_limits s)))
     (case a of (route, descriptor) \<Rightarrow> if pd_dependencies descriptor \<noteq> [] \<or> pd_provisions descriptor \<noteq> []
       then give (Err (host_failure UnsupportedCapability ''remote Service dependencies and provisions are not supported''))
       else pass \<lparr>rp_descriptor = descriptor, rp_route = route\<rparr>) (load_result config artifact) (\<lambda>_. True)"
    by (cases a) (auto intro!: triple_if triple_give triple_pass simp: load_result_def)
qed

text \<open>
  A load negotiates downwards or ends the child. When \<open>ProcessHost::load\<close> returns a plugin, the session
  runs under limits that are non-zero where they must be and nowhere above the configured ones, with
  features this side supports only, the artifact fits, and the plugin declares no service. When it
  fails, no child was started or its termination has been requested.
\<close>

theorem load_negotiates_downwards:
  assumes "limits_untouched pe" and "process_load pe expires os host artifact s = Some (r, t)"
  shows "case r of Ok plugin \<Rightarrow> load_result (hs_config host) artifact plugin t | _ \<Rightarrow> t = s \<or> ss_force t"
proof -
  have "triple (\<lambda>u. u = s) (process_load pe expires os host artifact) (load_result (hs_config host) artifact) (\<lambda>t. t = s \<or> ss_force t)"
    unfolding process_load_def
    by (rule triple_andthen [where R = "\<lambda>_ u. u = s", OF triple_give triple_if [OF triple_give
          triple_andthen [where R = "\<lambda>_ u. u = s", OF triple_give triple_weaken [OF triple_spawned_load [OF assms(1)]]]]]) auto
  then show ?thesis using assms(2) unfolding triple_def by blast
qed

definition example_plugin :: remote_plugin where
  "example_plugin = \<lparr>rp_descriptor = \<lparr>pd_name = ''p'', pd_dependencies = [], pd_provisions = [],
     pd_dependency_policy = Restart, pd_revision = 1\<rparr>, rp_route = 7\<rparr>"

definition example_artifact :: plugin_artifact where
  "example_artifact = plugin_artifact_new ''wasm'' 1 [0, 1]"

definition example_config :: process_host_config where
  "example_config = \<lparr>ph_handshake_timeout = 5, ph_max_frame_bytes = 1024, ph_max_artifact_bytes = 256, ph_max_request_bytes = 128,
     ph_max_response_bytes = 128, ph_max_control_bytes = 256, ph_max_inflight_requests = 16, ph_outbound_queue_capacity = 16\<rparr>"

definition example_host :: process_host where
  "example_host = host_arg ''--stdio'' (host_with_config ''fixture'' example_config)"

definition peer_limits :: limits where
  "peer_limits = \<lparr>lm_frame = 512, lm_artifact = 128, lm_request = 64, lm_response = 64, lm_inflight = 8\<rparr>"

definition loading_peers :: peers where
  "loading_peers = \<lparr>pe_permit = Some, pe_gap = (\<lambda>s. s), pe_queue = Some,
     pe_answer = (\<lambda>i s. Some (answer i (Ok (if i = 1
       then MsgHelloAck 1 PROTOCOL_MAJOR PROTOCOL_MINOR (or SUPPORTED_FEATURES 256) 0 peer_limits
       else MsgLoaded i 7 (rp_descriptor example_plugin))) (drop_registration i s))),
     pe_finish = (\<lambda>s. Some (None, s))\<rparr>"

lemmas exchange_defs = andthen_def settle_def update_def reads_def pass_def give_def acting_def Let_def
  session_transition_def request_def require_state_def acquire_permit_def admitted_request_def allocate_request_id_def
  publish_issued_id_def register_pending_def registered_request_def send_outbound_def await_answer_def answer_def
  drop_registration_def release_permit_def session_new_def config_limits_def

lemma load_negotiates_downwards_witness:
  "\<exists>t. process_load loading_peers (\<lambda>_. None) (Inr (True, True)) example_host example_artifact (session_new example_config)
      = Some (Ok example_plugin, t) \<and>
    ss_limits t = peer_limits \<and>
    load_result (hs_config example_host) example_artifact
      example_plugin t"
proof -
  have untouched: "limits_untouched loading_peers"
    by (simp add: limits_untouched_def peers_keep_def loading_peers_def answer_def drop_registration_def)
  have "map_option (\<lambda>(r, t). (r, ss_limits t)) (process_load loading_peers (\<lambda>_. None) (Inr (True, True)) example_host
      example_artifact (session_new example_config)) = Some (Ok example_plugin, peer_limits)"
    by (simp add: exchange_defs process_load_def owner_spawn_def example_host_def host_arg_def host_with_config_def process_config_validate_def example_config_def example_artifact_def
      plugin_artifact_new_def U32_MAX_def owning_def timed_handshake_def handshake_def loading_peers_def
      PROTOCOL_MAJOR_def PROTOCOL_MINOR_def FEATURE_LIFECYCLE_def SUPPORTED_FEATURES_def REQUIRED_FEATURES_def
      FEATURE_INVOCATION_def FEATURE_CANCEL_def FEATURE_DEADLINE_def peer_limits_def min_limits_def
      apply_negotiated_def client_load_def example_plugin_def)
  then obtain t where t: "process_load loading_peers (\<lambda>_. None) (Inr (True, True)) example_host example_artifact (session_new example_config)
      = Some (Ok example_plugin, t)"
    "ss_limits t = peer_limits" by auto
  from load_negotiates_downwards [OF untouched t(1)] t show ?thesis by auto
qed

section \<open>Invoking\<close>

text \<open>The request table of a live session: identifiers below the next one, and no answer for a pending request.\<close>

definition table_ok :: "session \<Rightarrow> bool" where
  "table_ok s \<longleftrightarrow> requests_ok s \<and> (\<forall>j\<in>set (akeys (ss_pending s)) \<union> set (akeys (ss_answers s)). j < ss_next_id s)"

definition in_account :: "u64 \<Rightarrow> session \<Rightarrow> bool" where
  "in_account k s \<longleftrightarrow> table_ok s \<and> ss_permits s = k"

definition released :: "u64 \<Rightarrow> u64 \<Rightarrow> session \<Rightarrow> bool" where
  "released i k s \<longleftrightarrow> live_request s i = None \<and> ss_permits s = k"

definition balanced_peers :: "peers \<Rightarrow> bool" where
  "balanced_peers pe \<longleftrightarrow> (\<forall>k. peers_keep (in_account k) pe)"

lemma in_account_free: "in_account k s \<Longrightarrow> released (ss_next_id s) k s"
  by (auto simp: in_account_def table_ok_def released_def live_request_def aget_None_iff simp del: set_map)

lemma in_account_answered: "in_account k s \<Longrightarrow> answered s i \<noteq> None \<Longrightarrow> released i k s"
  using live_not_answered [of s i] by (auto simp: in_account_def table_ok_def released_def)

lemma drop_registration_released: "in_account k s \<Longrightarrow> released i k (drop_registration i s)"
  by (simp add: in_account_def released_def live_request_def drop_registration_def)

lemma drop_invoke_guard_released: "in_account k s \<Longrightarrow> released i k (drop_invoke_guard i s)"
  using drop_registration_released [of k s i]
  by (auto simp: drop_invoke_guard_def released_def live_request_def try_send_def Let_def drop_registration_def)

lemma allocate_in_account:
  "triple (\<lambda>s. in_account k s \<and> ss_next_id s = i) allocate_request_id
     (\<lambda>j s. j = i \<and> in_account k (register_pending i ExpectInvokeResult s)) (released i k)"
proof -
  have "in_account k (register_pending (ss_next_id s) ExpectInvokeResult
      (publish_issued_id (ss_next_id s) (s\<lparr>ss_next_id := ss_next_id s + 1\<rparr>)))" if "in_account k s" "ss_next_id s \<noteq> - 1" for s
  proof -
    have "j < ss_next_id s \<Longrightarrow> j < ss_next_id s + 1" "ss_next_id s < ss_next_id s + 1" for j
      using unat_add_one [OF that(2)] by (simp_all add: word_less_nat_alt)
    with that show ?thesis
      by (fastforce simp: in_account_def table_ok_def requests_ok_def register_pending_def publish_issued_id_def simp del: set_map)
  qed
  moreover have "released j k s" if "in_account k s" "ss_next_id s = j" for s j
    using in_account_free [OF that(1)] that(2) by simp
  ultimately show ?thesis by (auto simp: triple_def allocate_request_id_def Let_def)
qed

lemma await_in_account:
  assumes "balanced_peers pe"
  shows "triple (in_account k) (await_answer pe i closed) (\<lambda>_. released i k) (in_account k)"
proof -
  have act: "triple (in_account k) (acting (pe_answer pe i)) (\<lambda>_. in_account k) (in_account k)"
    using assms peers_keepD(4) [of "in_account k" pe] by (auto simp: triple_def acting_def balanced_peers_def)
  show ?thesis unfolding await_answer_def
    by (rule triple_andthen [OF act]) (use in_account_answered in \<open>auto simp: triple_def answered_def split: option.splits if_splits\<close>)
qed

lemma enqueue_in_account:
  "triple (in_account k) (enqueue_invocation i ob) (\<lambda>_. in_account k) (released i k)"
  using drop_registration_released [of k]
  by (auto simp: triple_def enqueue_invocation_def try_send_def in_account_def table_ok_def requests_ok_def
      split: if_splits simp del: set_map)

lemma admitted_invocation_in_account:
  assumes "balanced_peers pe"
  shows "triple (\<lambda>s. in_account k s \<and> ss_next_id s = i) (admitted_invocation pe route format bytes deadline)
    (\<lambda>_. released i k) (released i k)"
proof -
  have gap: "triple (\<lambda>s. j = i \<and> in_account k (register_pending i ExpectInvokeResult s))
      (update (\<lambda>s. pe_gap pe (register_pending j ExpectInvokeResult s))) (\<lambda>_ s. j = i \<and> in_account k s) (released i k)" for j
    using assms peers_keepD(2) [of "in_account k" pe] by (auto intro!: triple_update simp: balanced_peers_def)
  have test: "triple (\<lambda>s. j = i \<and> in_account k s) (\<lambda>s. if ss_state s = SessionReady then Some (Ok (), s)
       else Some (Err (terminal_cordis_error ''session changed before invocation enqueue'' s), drop_registration j s))
      (\<lambda>_ s. j = i \<and> in_account k s) (released i k)" for j
    using drop_registration_released by (auto simp: triple_def)
  have give: "triple (released i k) (invoke_answer x) (\<lambda>_. released i k) (released i k)" for x
    by (auto simp: triple_def invoke_answer_def pass_def give_def split: res.splits wire_message.splits invoke_outcome.splits)
  have lost: "triple (in_account k) (andthen (update (drop_invoke_guard i)) (\<lambda>_. give y)) (\<lambda>_. released i k) (released i k)" for y :: "invocation_value cres"
    by (rule triple_andthen [OF triple_update triple_give]) (simp_all add: drop_invoke_guard_released)
  have wait: "triple (in_account k) (settle (await_answer pe i closed) (\<lambda>r. case r of
         Ok result \<Rightarrow> invoke_answer result
       | Err e \<Rightarrow> andthen (update (drop_invoke_guard i)) (\<lambda>_. give (Err e))
       | Panicked p \<Rightarrow> andthen (update (drop_invoke_guard i)) (\<lambda>_. give (Panicked p)))) (\<lambda>_. released i k) (released i k)" for closed
    by (rule triple_settle_cases [OF await_in_account [OF assms]]) (simp_all add: give lost)
  show ?thesis unfolding admitted_invocation_def
  proof (rule triple_andthen [OF allocate_in_account triple_andthen [OF gap triple_andthen [OF test]]])
    fix j
    show "triple (\<lambda>s. j = i \<and> in_account k s) (andthen (enqueue_invocation j \<lparr>ob_message = MsgInvoke j route format bytes 0, ob_deadline = Some deadline\<rparr>) (\<lambda>_.
       settle (await_answer pe j (terminal_cordis_error ''process host invocation response channel closed'')) (\<lambda>r. case r of
         Ok result \<Rightarrow> invoke_answer result
       | Err e \<Rightarrow> andthen (update (drop_invoke_guard j)) (\<lambda>_. give (Err e))
       | Panicked p \<Rightarrow> andthen (update (drop_invoke_guard j)) (\<lambda>_. give (Panicked p))))) (\<lambda>_. released i k) (released i k)"
      using triple_andthen [OF enqueue_in_account wait] by (cases "j = i") (simp_all add: triple_def)
  qed
qed

text \<open>
  C38. An invocation leaves nothing behind. While the other tasks keep the account of the permits and of the
  request table, an invocation that returns, with a value or with an error, has given its permit back
  and its identifier is not in the table; one whose future is dropped gives back one permit and removes
  its entry, whatever the session has become.
\<close>

theorem invocation_leaves_nothing:
  assumes "table_ok s" and "balanced_peers pe"
  shows "(\<forall>r t. client_invoke pe route format bytes deadline s = Some (r, t) \<longrightarrow>
      ss_permits t = ss_permits s \<and> live_request t (ss_next_id s) = None) \<and>
    ss_permits (cancel_invocation i u) = ss_permits u + 1 \<and>
    live_request (cancel_invocation i u) j = (if j = i then None else live_request u j)"
proof (intro conjI allI impI)
  fix r t
  assume run: "client_invoke pe route format bytes deadline s = Some (r, t)"
  let ?s = "s\<lparr>ss_permits := ss_permits s - 1\<rparr>"
  have "released (ss_next_id s) (ss_permits s) s"
    by (rule in_account_free) (simp add: in_account_def assms(1))
  moreover have "in_account (ss_permits s - 1) ?s"
    using assms(1) by (simp add: in_account_def table_ok_def requests_ok_def)
  then have "released (ss_next_id s) (ss_permits s - 1) v"
    if "admitted_invocation pe route format bytes deadline ?s = Some (x, v)" for x v
    using admitted_invocation_in_account [OF assms(2), unfolded triple_def] that by (cases x) fastforce+
  then have "released (ss_next_id s) (ss_permits s) (release_permit v)"
    if "admitted_invocation pe route format bytes deadline ?s = Some (x, v)" for x v
    using that by (fastforce simp: released_def release_permit_def live_request_def)
  ultimately have "released (ss_next_id s) (ss_permits s) t"
    using run by (auto simp: client_invoke_def andthen_def reads_def require_state_def settle_def update_def give_def
        split: if_splits option.splits)
  then show "ss_permits t = ss_permits s" "live_request t (ss_next_id s) = None" by (simp_all add: released_def)
qed (auto simp: cancel_invocation_def release_permit_def drop_invoke_guard_def drop_registration_def try_send_def
      live_request_def Let_def)

definition invoking_session :: session where
  "invoking_session = (session_new example_config)\<lparr>ss_state := SessionReady, ss_next_id := 3, ss_highest_issued := 2\<rparr>"

definition invoking_peers :: peers where
  "invoking_peers = loading_peers\<lparr>pe_answer := (\<lambda>i s. if i \<in> set (akeys (ss_pending s))
     then Some (answer i (Ok (MsgInvokeResult i (InvokeSuccess ''json'' [1]))) (drop_registration i s)) else Some s)\<rparr>"

lemma invocation_leaves_nothing_witness:
  "\<exists>t. client_invoke invoking_peers 7 ''json'' [0] 100 invoking_session
      = Some (Ok (InvocationExternal ''json'' [1]), t) \<and> ss_permits t = 16 \<and> live_request t 3 = None"
proof -
  have "in_account k (answer i r (drop_registration i s))" if "in_account k s" "i \<in> set (akeys (ss_pending s))" for k s i r
    using that by (auto simp: in_account_def table_ok_def requests_ok_def answer_def drop_registration_def simp del: set_map)
  then have balanced: "balanced_peers invoking_peers"
    by (auto simp: balanced_peers_def peers_keep_def invoking_peers_def loading_peers_def simp del: set_map)
  have table: "table_ok invoking_session"
    by (simp add: table_ok_def requests_ok_def invoking_session_def session_new_def)
  have "map_option fst (client_invoke invoking_peers 7 ''json'' [0] 100 invoking_session)
      = Some (Ok (InvocationExternal ''json'' [1]))"
    by (simp add: exchange_defs client_invoke_def admitted_invocation_def enqueue_invocation_def try_send_def
        invoke_answer_def invoking_session_def invoking_peers_def loading_peers_def example_config_def)
  then obtain t where t: "client_invoke invoking_peers 7 ''json'' [0] 100 invoking_session
      = Some (Ok (InvocationExternal ''json'' [1]), t)" by auto
  have "ss_permits invoking_session = 16" "ss_next_id invoking_session = 3"
    by (simp_all add: invoking_session_def session_new_def example_config_def)
  with invocation_leaves_nothing [OF table balanced, of 7 "''json''" "[0]" 100 0 invoking_session 0] t show ?thesis by simp
qed

section \<open>Starting\<close>

text \<open>The cleanup effect is in the hands of the Fiber.\<close>

definition holds_effect :: "fiber_id \<Rightarrow> effect_ref \<Rightarrow> runtime \<Rightarrow> bool" where
  "holds_effect f x s \<longleftrightarrow> (\<exists>r. fiber f s = Some r \<and> x \<in> set (fb_effects r))"

definition process_owned :: "fiber_id \<Rightarrow> effect_ref \<Rightarrow> hosted \<Rightarrow> bool" where
  "process_owned f x s \<longleftrightarrow> ss_force (hd_session s) \<or> holds_effect f x (hd_runtime s)"

lemma holds_effect_free: "guard_free (holds_effect f x)"
  by (simp add: guard_free_def holds_effect_def)

lemma holds_effect_upd [simp]:
  "holds_effect f x (s\<lparr>rt_diagnostics := d\<rparr>) = holds_effect f x s" "holds_effect f x (s\<lparr>rt_tasks := t\<rparr>) = holds_effect f x s"
  "holds_effect f x (s\<lparr>rt_invocations := i\<rparr>) = holds_effect f x s"
  by (simp_all add: holds_effect_def)

lemma holds_effect_modify: "holds_effect f x s \<Longrightarrow> (\<And>r. fb_effects (h r) = fb_effects r) \<Longrightarrow> holds_effect f x (modify_fiber g h s)"
  by (auto simp: holds_effect_def)

lemma kept_quota_effect: "kept (holds_effect f x) (quota_error now resource limit sc g)"
  unfolding quota_error_def by (intro kept_andthen kept_update kept_give) simp

lemmas kept_effect_laws = kept_admission [OF holds_effect_free] kept_with_context [OF holds_effect_free]
  kept_andthen kept_mutable kept_get_fiber kept_reads kept_give kept_pass kept_if kept_quota_effect kept_update

lemma kept_effect_calls:
  assumes "env_keeps (holds_effect f x) env"
  shows "kept (holds_effect f x) (register_host_process env cx process)"
    and "kept (holds_effect f x) (context_spawn now env task cx)"
    and "kept (holds_effect f x) (handle_invocation now env fresh cx key handler)"
proof -
  show "kept (holds_effect f x) (register_host_process env cx process)" unfolding register_host_process_def
    by (intro kept_effect_laws assms holds_effect_modify) simp_all
  show "kept (holds_effect f x) (context_spawn now env task cx)" unfolding context_spawn_def
    by (intro kept_effect_laws assms holds_effect_modify) simp_all
  have "kept (holds_effect f x) (in_invocations g)" for g :: "(nat, nat) invocation_registry \<Rightarrow> invocation_handler_id cres \<times> (nat, nat) invocation_registry"
    unfolding kept_def by (rule triple_within) (simp split: res.split)
  then show "kept (holds_effect f x) (handle_invocation now env fresh cx key handler)"
    unfolding handle_invocation_def registering_def ensure_handler_quota_def
    by (intro kept_effect_laws assms holds_effect_modify) simp_all
qed

lemma triple_guarded:
  assumes "guard_free I" and "\<And>adm. triple (\<lambda>_. True) (body adm) (\<lambda>_. I) (\<lambda>_. True)"
  shows "triple (\<lambda>_. True) (with_admission (with_context env cx body)) (\<lambda>_. I) (\<lambda>_. True)"
proof -
  have give: "triple I (andthen n (\<lambda>_. give r)) (\<lambda>_. I) (\<lambda>_. True)" if "kept I n" for n :: "unit run" and r :: "'a cres"
    by (rule triple_andthen [OF triple_of_kept [OF that] triple_give]) simp_all
  have lost: "triple P (andthen n (\<lambda>_. give r)) (\<lambda>_. I) (\<lambda>_. True)" if "\<And>a. r \<noteq> Ok a" for P and n :: "unit run" and r :: "'a cres"
    by (rule triple_andthen [OF triple_True triple_give]) (simp_all add: that)
  have guard: "triple (\<lambda>_. True) (settle m (\<lambda>r. andthen n (\<lambda>_. give r))) (\<lambda>_. I) (\<lambda>_. True)"
    if "triple (\<lambda>_. True) m (\<lambda>_. I) (\<lambda>_. True)" "kept I n" for m :: "'a run" and n :: "unit run"
    by (rule triple_settle_cases [OF that(1)]) (simp_all add: give [OF that(2)] lost)
  have "triple (\<lambda>_. True) (with_context env cx body) (\<lambda>_. I) (\<lambda>_. True)" unfolding with_context_def
    by (rule triple_andthen [OF triple_True]) (rule guard [OF assms(2) kept_gates [OF assms(1)]])
  then show ?thesis unfolding with_admission_def
    by (intro triple_andthen [OF triple_True] guard kept_update) (use assms(1) in \<open>simp_all add: guard_free_def\<close>)
qed

lemma triple_add_effect:
  "triple (\<lambda>_. True) (add_effect now env cx x) (\<lambda>_. holds_effect (cx_fiber cx) x) (\<lambda>_. True)"
  unfolding add_effect_def quota_error_def
proof (rule triple_guarded [OF holds_effect_free])
  fix adm
  let ?f = "cx_fiber cx"
  have config: "triple (\<lambda>s. fiber ?f s \<noteq> None) (reads rt_config) (\<lambda>_ s. fiber ?f s \<noteq> None) (\<lambda>_. True)"
    by (rule triple_reads)
  have push: "triple (\<lambda>s. fiber ?f s \<noteq> None) (update (modify_fiber ?f (\<lambda>r. r\<lparr>fb_effects := fb_effects r @ [x]\<rparr>)))
      (\<lambda>_. holds_effect ?f x) (\<lambda>_. True)"
    by (rule triple_update) (auto simp: holds_effect_def)
  have mutable: "triple (\<lambda>_. True) (mutable_fiber ?f) (\<lambda>_ s. fiber ?f s \<noteq> None) (\<lambda>_. True)"
    by (rule triple_mutable) auto
  show "triple (\<lambda>_. True) (andthen (mutable_fiber ?f) (\<lambda>r. andthen (reads rt_config) (\<lambda>config.
       if length (fb_effects r) \<ge> unat (max_effects_per_fiber config)
       then andthen (update (\<lambda>s. s\<lparr>rt_diagnostics := push_issue \<lparr>hi_at = now, hi_kind = QuotaRejectedIssue,
           hi_scope = Some (ca_scope adm), hi_fiber = Some ?f, hi_invocation = None\<rparr>
           ((rt_diagnostics s)\<lparr>dg_quota_rejections := dg_quota_rejections (rt_diagnostics s) + 1\<rparr>)\<rparr>)) (\<lambda>_.
         give (Err (ResourceLimitExceeded EffectsPerFiber (max_effects_per_fiber config))))
       else update (modify_fiber ?f (\<lambda>r. r\<lparr>fb_effects := fb_effects r @ [x]\<rparr>)))))
      (\<lambda>_. holds_effect ?f x) (\<lambda>_. True)"
    by (intro triple_andthen [OF mutable triple_andthen [OF config]] triple_if push triple_andthen [OF triple_True triple_give]) auto
qed

lemma kept_on_runtime: "kept (holds_effect f x) m \<Longrightarrow> kept (process_owned f x) (on_runtime m)"
  by (rule keptI) (auto simp: on_part_def process_owned_def split: option.splits dest: keptD)

lemma kept_on_session: "kept ss_force m \<Longrightarrow> kept (process_owned f x) (on_session m)"
  by (rule keptI) (auto simp: on_part_def process_owned_def split: option.splits dest: keptD)

lemma kept_client_start:
  assumes "peers_keep ss_force pe"
  shows "kept ss_force (client_start pe route)"
proof -
  have "kept ss_force (request pe required expected build)" for required expected build
    by (rule kept_request [OF assms]) (simp add: traffic_free_def)
  moreover have "kept ss_force (case m of
       MsgStarted _ invocations \<Rightarrow> andthen (reads ss_features) (\<lambda>features.
         if invocations \<noteq> [] \<and> and features invocation_features \<noteq> invocation_features
         then give (Err (host_failure UnsupportedCapability
           ''remote invocation declarations require Invocation, Cancel, and Deadline''))
         else pass invocations)
     | MsgFailure _ failure \<Rightarrow> give (Err (wire_failure_error failure))
     | _ \<Rightarrow> give (Err (protocol_error ''expected Started response'')))" for m
    by (cases m) (auto intro!: kept_andthen kept_reads kept_if kept_give kept_pass)
  ultimately show ?thesis unfolding client_start_def by (rule kept_andthen)
qed

lemma register_cleanup_owned:
  assumes "register_cleanup px cx s = Some (r, t)"
  shows "process_owned (cx_fiber cx) (px_effect px) t"
proof (cases "add_effect (px_now px) (px_env px 0) cx (px_effect px) (hd_runtime s)")
  case (Some p)
  with assms tripleD_Ok [OF triple_add_effect TrueI] show ?thesis
    by (cases p; cases "fst p") (fastforce simp: register_cleanup_def settle_def on_part_def pass_def andthen_def update_def
        give_def drop_owner_def process_owned_def)+
qed (use assms in \<open>simp add: register_cleanup_def settle_def on_part_def\<close>)

lemma kept_register_declarations:
  "(\<And>n. env_keeps (holds_effect f x) (px_env px n)) \<Longrightarrow> kept (process_owned f x) (register_declarations px cx n ds)"
  by (induction ds arbitrary: n) (auto intro!: kept_pass kept_andthen kept_on_runtime kept_effect_calls)

text \<open>
  C39. A started process always has an owner. When the proxy's \<open>start\<close> returns after it took the owner of
  the session, with success or with an error at any later point, the Fiber holds the effect that
  disposes of the process, or the process has been told to end; a second \<open>start\<close> changes nothing.
\<close>

theorem started_process_is_owned:
  assumes "\<And>n. env_keeps (holds_effect (cx_fiber cx) (px_effect px)) (px_env px n)" and "peers_keep ss_force pe"
    and "proxy_start pe px plugin cx s = Some (r, t)"
  shows "if hd_owner s then process_owned (cx_fiber cx) (px_effect px) t
    else r = Err (host_failure Unavailable ''remote process ownership already transferred'') \<and> t = s"
proof (cases "hd_owner s")
  case True
  let ?I = "process_owned (cx_fiber cx) (px_effect px)"
  have register: "triple P (register_cleanup px cx) (\<lambda>_. ?I) ?I" for P
    using register_cleanup_owned by (fastforce simp: triple_def split: res.split)
  have rest: "kept ?I (andthen (on_session (client_start pe (rp_route plugin))) (\<lambda>declarations.
     andthen (on_runtime (register_host_process (px_env px 1) cx (px_process px))) (\<lambda>_.
     andthen (on_runtime (context_spawn (px_now px) (px_env px 2) (px_task px) cx)) (\<lambda>_.
     register_declarations px cx 0 declarations))))"
    by (intro kept_andthen kept_on_session kept_client_start kept_on_runtime kept_effect_calls kept_register_declarations assms)
  have "triple (\<lambda>_. True) (andthen (register_cleanup px cx) (\<lambda>_. andthen (on_session (client_start pe (rp_route plugin))) (\<lambda>declarations.
     andthen (on_runtime (register_host_process (px_env px 1) cx (px_process px))) (\<lambda>_.
     andthen (on_runtime (context_spawn (px_now px) (px_env px 2) (px_task px) cx)) (\<lambda>_.
     register_declarations px cx 0 declarations))))) (\<lambda>_. ?I) ?I"
    by (rule triple_andthen [OF register]) (rule rest [unfolded kept_def])
  moreover have "andthen (register_cleanup px cx) (\<lambda>_. andthen (on_session (client_start pe (rp_route plugin))) (\<lambda>declarations.
     andthen (on_runtime (register_host_process (px_env px 1) cx (px_process px))) (\<lambda>_.
     andthen (on_runtime (context_spawn (px_now px) (px_env px 2) (px_task px) cx)) (\<lambda>_.
     register_declarations px cx 0 declarations)))) (s\<lparr>hd_owner := False\<rparr>) = Some (r, t)"
    using assms(3) True by (simp add: proxy_start_def take_owner_def andthen_def)
  ultimately have "?I t" unfolding triple_def by (cases r) fastforce+
  with True show ?thesis by simp
next
  case False
  with assms(3) show ?thesis by (simp add: proxy_start_def take_owner_def andthen_def)
qed

definition starting_env :: proxy_env where
  "starting_env = \<lparr>px_now = 7, px_env = (\<lambda>_ s. s), px_effect = 5, px_process = 1, px_task = 1, px_handler = (\<lambda>n. 0), px_remote = (\<lambda>_. 0)\<rparr>"

text \<open>A proxy whose child has closed before the start.\<close>

lemma started_process_is_owned_witness:
  "\<exists>t. proxy_start loading_peers starting_env example_plugin \<lparr>cx_scope = 0, cx_fiber = 4, cx_generation = 1\<rparr>
      \<lparr>hd_runtime = example_runtime, hd_session = invoking_session\<lparr>ss_state := SessionClosed\<rparr>, hd_owner = True\<rparr>
      = Some (Err (host_failure Unavailable ''request is not allowed in the current session state''), t) \<and>
    process_owned 4 5 t"
proof -
  have env: "env_keeps (holds_effect (cx_fiber \<lparr>cx_scope = 0, cx_fiber = 4, cx_generation = 1\<rparr>) (px_effect starting_env))
      (px_env starting_env n)" for n by (simp add: env_keeps_def starting_env_def)
  have pe: "peers_keep ss_force loading_peers"
    by (simp add: peers_keep_def loading_peers_def answer_def drop_registration_def)
  obtain g1 where g1: "gate_try_acquire 0 example_gates = (Ok True, g1)" "wf_gates g1"
      "gate_inflight g1 0 \<noteq> 0" "gate_handles g1 0 < gate_inflight g1 0"
    using gate_try_acquire_accepting [where svc = False and g = 0, OF example_gates_wf accepting_example]
      handles_le_inflight [OF example_gates_wf, of 0] by auto
  obtain g2 where g2: "gate_drop_lease (GenerationLease 0 False) g1 = (Ok (), g2)"
    using gate_drop_lease_spec [where svc = False and g = 0, OF g1(2)] g1(3,4) by auto
  obtain t where t: "proxy_start loading_peers starting_env example_plugin \<lparr>cx_scope = 0, cx_fiber = 4, cx_generation = 1\<rparr>
      \<lparr>hd_runtime = example_runtime, hd_session = invoking_session\<lparr>ss_state := SessionClosed\<rparr>, hd_owner = True\<rparr>
      = Some (Err (host_failure Unavailable ''request is not allowed in the current session state''), t)"
    using g1(1) g2
    by (simp add: proxy_start_def take_owner_def register_cleanup_def on_part_def add_effect_def with_admission_def within_def
        with_context_def admit_core_def mutable_fiber_def ensure_mutable_def get_fiber_def example_runtime_fiber example_runtime_sel
        example_fiber_def lifecycle_admitted_def admission_enter_def admission_default_def admission_leave_def starting_env_def
        config_default_def client_start_def terminal_cordis_error_def invoking_session_def exchange_defs)
  from started_process_is_owned [OF env pe t] t show ?thesis by (simp add: starting_env_def)
qed

end
