(* ===== verification/Introspection.thy ===== *)
theory Introspection
  imports Runtime_State
begin

text \<open>
  What a Runtime tells about itself (\<^verbatim>\<open>health.rs\<close>, \<^verbatim>\<open>runtime/snapshot.rs\<close>): the health report and the
  introspection snapshot, two independent walks over the same state.

  Counts of elements are natural numbers. The rendering of a disposal's error is the text \<open>ErrText\<close> of it.
  Tasks, workers and the Runtime share one queue of recent issues; the copy the reports read is the one of
  the Runtime, which \<open>in_tasks\<close> and \<open>in_workers\<close> hand to the supervisors and take back.
\<close>

section \<open>Reports\<close>

record scope_snapshot =
  sn_scope_id :: scope_id
  sn_scope_name :: string
  sn_parent :: "scope_id option"
  sn_disposed :: bool
  sn_scope_state :: scope_state
  sn_scope_error :: "message option"
  sn_scope_unfinished :: bool
  sn_child_count :: nat
  sn_fiber_count :: nat
  sn_hidden :: bool

record fiber_snapshot =
  sn_fiber_id :: fiber_id
  sn_plugin_id :: plugin_id
  sn_plugin :: string
  sn_fiber_scope :: scope_id
  sn_fiber_state :: fiber_state
  sn_dependencies :: "service_key list"
  sn_declared :: "service_key list"
  sn_provided :: "service_key list"
  sn_task_ids :: "task_id list"
  sn_handler_ids :: "handler_id list"
  sn_task_count :: nat
  sn_effect_count :: nat
  sn_phase :: disposal_phase
  sn_fiber_error :: "message option"
  sn_fiber_unfinished :: bool

record service_snapshot =
  sn_service_scope :: scope_id
  sn_symbol :: service_symbol
  sn_owner :: fiber_id

text \<open>The counters both reports carry.\<close>

record supervision_counts =
  sv_tasks :: nat
  sv_reaped_tasks :: u64
  sv_completed_tasks :: u64
  sv_cancelled_tasks :: u64
  sv_task_panics :: u64
  sv_aborted_tasks :: u64
  sv_workers :: nat
  sv_reaped_workers :: u64
  sv_worker_panics :: u64
  sv_worker_errors :: u64
  sv_cancelled_workers :: u64
  sv_aborted_workers :: u64
  sv_active_reloads :: usize
  sv_cleanup_pending :: usize

record health_report =
  hr_status :: runtime_health
  hr_active_scopes :: nat
  hr_active_fibers :: nat
  hr_waiting_fibers :: nat
  hr_disposing_fibers :: nat
  hr_terminated_fibers :: nat
  hr_terminated_scopes :: nat
  hr_counts :: supervision_counts
  hr_active_invocations :: usize
  hr_active_executions :: nat
  hr_draining :: nat
  hr_provider_inflight :: nat
  hr_handle_inflight :: nat
  hr_staging_fibers :: nat
  hr_staging_scopes :: nat
  hr_shutdown_state :: runtime_shutdown_state
  hr_successes :: u64
  hr_errors :: u64
  hr_timeouts :: u64
  hr_cancellations :: u64
  hr_panics :: u64
  hr_quota_rejections :: u64
  hr_recent_errors :: "health_issue list"

record runtime_snapshot =
  sn_scopes :: "scope_snapshot list"
  sn_fibers :: "fiber_snapshot list"
  sn_service_count :: nat
  sn_services :: "service_snapshot list"
  sn_handler_count :: nat
  sn_counts :: supervision_counts
  sn_active_executions :: nat
  sn_draining :: nat
  sn_provider_inflight :: nat
  sn_handle_inflight :: nat
  sn_staging_fibers :: nat
  sn_staging_scopes :: nat
  sn_shutting_down :: bool
  sn_shutdown_state :: runtime_shutdown_state
  sn_shutdown_error :: "message option"
  sn_shutdown_in_progress :: bool
  sn_terminated_scopes :: nat
  sn_terminated_fibers :: nat

section \<open>Walks\<close>

definition count_of :: "('a \<Rightarrow> bool) \<Rightarrow> 'a list \<Rightarrow> nat" where
  "count_of p xs = length (filter p xs)"

definition records :: "runtime \<Rightarrow> fiber_record list" where
  "records s = map (\<lambda>(_, cell). fc_inner cell) (rt_fibers s)"

definition scope_records :: "runtime \<Rightarrow> scope_record list" where
  "scope_records s = map snd (rt_scopes s)"

definition fiber_execution :: "runtime \<Rightarrow> fiber_record \<Rightarrow> generation_execution" where
  "fiber_execution s r = cg_execution (gs_gate (rt_gates s) (fb_capabilities r))"

definition supervision :: "runtime \<Rightarrow> supervision_counts" where
  "supervision s = (let c = tp_counters (rt_tasks s); w = rt_workers s in
     \<lparr>sv_tasks = live_fiber_tasks (rt_tasks s), sv_reaped_tasks = tc_reaped c, sv_completed_tasks = tc_completed c,
      sv_cancelled_tasks = tc_cancelled c, sv_task_panics = tc_panicked c, sv_aborted_tasks = tc_aborted c,
      sv_workers = live_workers w, sv_reaped_workers = rs_reaped w, sv_worker_panics = rs_panicked w,
      sv_worker_errors = rs_errors w, sv_cancelled_workers = rs_cancelled w, sv_aborted_workers = rs_aborted w,
      sv_active_reloads = rt_active_reloads s, sv_cleanup_pending = rt_reload_cleanup_pending s\<rparr>)"

definition health_status :: "runtime_shutdown_state \<Rightarrow> nat \<Rightarrow> nat \<Rightarrow> nat \<Rightarrow> runtime_health" where
  "health_status shutdown terminated_scopes terminated_fibers waiting =
     (if shutdown = ShutdownInProgress then HealthShuttingDown
      else if shutdown = ShutdownIncomplete then HealthFailed
      else if terminated_scopes \<noteq> 0 \<or> terminated_fibers \<noteq> 0 then HealthFailed
      else if shutdown = ShutdownRunning \<and> waiting \<noteq> 0 then Degraded
      else Healthy)"

definition health :: "runtime \<Rightarrow> health_report" where
  "health s =
     (let shutdown = sc_lifecycle (rt_shutdown s); scopes = scope_records s; fibers = records s;
          terminated_scopes = count_of (\<lambda>r. sc_state r = ScopeTerminated) scopes;
          terminated_fibers = count_of (\<lambda>r. fd_phase (fb_disposal r) = TerminatedPhase) fibers;
          waiting = count_of (\<lambda>r. fb_state r = WaitingDependencies) fibers;
          executions = map (\<lambda>r. execution_snapshot (fiber_execution s r)) fibers; d = rt_diagnostics s
      in \<lparr>hr_status = health_status shutdown terminated_scopes terminated_fibers waiting,
          hr_active_scopes = count_of (\<lambda>r. sc_state r = ScopeActive) scopes,
          hr_active_fibers = count_of (\<lambda>r. fb_state r = Active) fibers, hr_waiting_fibers = waiting,
          hr_disposing_fibers = count_of (\<lambda>r. fb_state r = Disposing) fibers,
          hr_terminated_fibers = terminated_fibers, hr_terminated_scopes = terminated_scopes,
          hr_counts = supervision s,
          hr_active_invocations = max_concurrent_invocations (rt_config s) - rt_permits s,
          hr_active_executions = count_of (\<lambda>(st, _). st = Some Accepting) executions,
          hr_draining = count_of (\<lambda>(st, _). st = Some Draining) executions,
          hr_provider_inflight = sum_list (map (\<lambda>(_, n). unat n) executions),
          hr_handle_inflight = sum_list (map (\<lambda>r. unat (ge_service_handles (fiber_execution s r))) fibers),
          hr_staging_fibers = count_of (\<lambda>r. fb_staged r \<and> fb_state r \<noteq> Disposed) fibers,
          hr_staging_scopes = count_of (\<lambda>r. sc_hidden r \<and> sc_state r \<noteq> ScopeDisposedState) scopes,
          hr_shutdown_state = shutdown, hr_successes = dg_successes d, hr_errors = dg_errors d,
          hr_timeouts = dg_timeouts d, hr_cancellations = dg_cancellations d, hr_panics = dg_panics d,
          hr_quota_rejections = dg_quota_rejections d, hr_recent_errors = recent_issues d\<rparr>)"

definition error_of :: "unit cres option \<Rightarrow> message option" where
  "error_of r = (case r of Some (Err e) \<Rightarrow> Some (ErrText e) | _ \<Rightarrow> None)"

definition snapshot_scope :: "scope_id \<times> scope_record \<Rightarrow> scope_snapshot" where
  "snapshot_scope = (\<lambda>(i, r). \<lparr>sn_scope_id = i, sn_scope_name = sc_name r, sn_parent = sc_parent r,
     sn_disposed = (sc_state r \<noteq> ScopeActive), sn_scope_state = sc_state r,
     sn_scope_error = error_of (sd_result (sc_disposal r)),
     sn_scope_unfinished = (sc_state r \<in> {ScopeDisposing, ScopeTerminated}),
     sn_child_count = length (sc_children r), sn_fiber_count = length (sc_fibers r), sn_hidden = sc_hidden r\<rparr>)"

definition snapshot_fiber :: "fiber_id \<times> fiber_cell \<Rightarrow> fiber_snapshot" where
  "snapshot_fiber = (\<lambda>(i, cell). let r = fc_inner cell; d = fb_descriptor r in
     \<lparr>sn_fiber_id = i, sn_plugin_id = fc_plugin_id cell, sn_plugin = pd_name d, sn_fiber_scope = fb_scope r,
      sn_fiber_state = fb_state r, sn_dependencies = pd_dependencies d, sn_declared = pd_provisions d,
      sn_provided = fb_provided r, sn_task_ids = fb_tasks r, sn_handler_ids = fb_handlers r,
      sn_task_count = length (fb_tasks r), sn_effect_count = length (fb_effects r),
      sn_phase = fd_phase (fb_disposal r), sn_fiber_error = error_of (fd_result (fb_disposal r)),
      sn_fiber_unfinished = (fd_phase (fb_disposal r) \<notin> {Idle, Complete})\<rparr>)"

definition service_snapshots :: "service_registry \<Rightarrow> service_snapshot list" where
  "service_snapshots services = map (\<lambda>((scope, symbol), e).
     \<lparr>sn_service_scope = scope, sn_symbol = symbol, sn_owner = se_owner e\<rparr>) (sr_entries services)"

definition shutdown_error :: "shutdown_outcome option \<Rightarrow> message option" where
  "shutdown_error result = (case result of
      None \<Rightarrow> None
    | Some OutcomeComplete \<Rightarrow> None
    | Some (OutcomeCompleteWithIssues issues) \<Rightarrow>
        Some (Cat [Lit ''shutdown completed with '', NumText (of_nat (length issues)), Lit '' cleanup issue(s)''])
    | Some (ShutdownOutcomeIncomplete blockers _) \<Rightarrow>
        Some (Cat [Lit ''shutdown incomplete with '', NumText (of_nat (length blockers)), Lit '' blocker(s)'']))"

definition snapshot :: "runtime \<Rightarrow> runtime_snapshot" where
  "snapshot s = (case coordinator_snapshot (rt_shutdown s) of (shutdown, result, in_progress) \<Rightarrow>
     let fibers = records s; scopes = scope_records s in
     \<lparr>sn_scopes = map snapshot_scope (rt_scopes s), sn_fibers = map snapshot_fiber (rt_fibers s),
      sn_service_count = length (sr_entries (rt_services s)), sn_services = service_snapshots (rt_services s),
      sn_handler_count = sum_list (map (\<lambda>r. length (fb_handlers r)) fibers), sn_counts = supervision s,
      sn_active_executions = count_of (\<lambda>r. fst (execution_snapshot (fiber_execution s r)) = Some Accepting) fibers,
      sn_draining = count_of (\<lambda>r. fst (execution_snapshot (fiber_execution s r)) = Some Draining) fibers,
      sn_provider_inflight = sum_list (map (\<lambda>r. unat (snd (execution_snapshot (fiber_execution s r)))) fibers),
      sn_handle_inflight = sum_list (map (\<lambda>r. unat (ge_service_handles (fiber_execution s r))) fibers),
      sn_staging_fibers = count_of (\<lambda>r. fb_staged r \<and> fb_state r \<noteq> Disposed) fibers,
      sn_staging_scopes = count_of (\<lambda>r. sc_hidden r \<and> sc_state r \<noteq> ScopeDisposedState) scopes,
      sn_shutting_down = (shutdown \<noteq> ShutdownRunning), sn_shutdown_state = shutdown,
      sn_shutdown_error = shutdown_error result, sn_shutdown_in_progress = in_progress,
      sn_terminated_scopes = count_of (\<lambda>r. sc_state r = ScopeTerminated) scopes,
      sn_terminated_fibers = count_of (\<lambda>r. fd_phase (fb_disposal r) = TerminatedPhase) fibers\<rparr>)"

section \<open>Agreement\<close>

lemma count_of_map: "count_of p (map f xs) = count_of (\<lambda>x. p (f x)) xs"
  by (simp add: count_of_def filter_map comp_def)

lemma records_snapshots:
  "map sn_fiber_state (map snapshot_fiber (rt_fibers s)) = map fb_state (records s)"
  "map sn_phase (map snapshot_fiber (rt_fibers s)) = map (\<lambda>r. fd_phase (fb_disposal r)) (records s)"
  "map sn_handler_ids (map snapshot_fiber (rt_fibers s)) = map fb_handlers (records s)"
  by (simp_all add: records_def snapshot_fiber_def case_prod_beta Let_def)

lemma scope_records_snapshots:
  "map sn_scope_state (map snapshot_scope (rt_scopes s)) = map sc_state (scope_records s)"
  "map (\<lambda>r. (sn_hidden r, sn_scope_state r)) (map snapshot_scope (rt_scopes s)) = map (\<lambda>r. (sc_hidden r, sc_state r)) (scope_records s)"
  by (simp_all add: scope_records_def snapshot_scope_def case_prod_beta)

text \<open>
  The health report and the snapshot agree, with each other and with the lists of the snapshot: on one
  state, every count of the report is the number of listed Fibers or scopes in that condition, the
  shared counters are equal, and the status is read off these counts.
\<close>

theorem health_agrees_with_snapshot:
  fixes s :: runtime
  defines "n \<equiv> snapshot s" and "h \<equiv> health s"
  shows "hr_active_fibers h = count_of (\<lambda>f. sn_fiber_state f = Active) (sn_fibers n) \<and>
    hr_waiting_fibers h = count_of (\<lambda>f. sn_fiber_state f = WaitingDependencies) (sn_fibers n) \<and>
    hr_disposing_fibers h = count_of (\<lambda>f. sn_fiber_state f = Disposing) (sn_fibers n) \<and>
    hr_terminated_fibers h = count_of (\<lambda>f. sn_phase f = TerminatedPhase) (sn_fibers n) \<and>
    hr_active_scopes h = count_of (\<lambda>c. \<not> sn_disposed c) (sn_scopes n) \<and>
    hr_terminated_scopes h = count_of (\<lambda>c. sn_scope_state c = ScopeTerminated) (sn_scopes n) \<and>
    hr_staging_scopes h = count_of (\<lambda>c. sn_hidden c \<and> sn_scope_state c \<noteq> ScopeDisposedState) (sn_scopes n) \<and>
    hr_terminated_fibers h = sn_terminated_fibers n \<and> hr_terminated_scopes h = sn_terminated_scopes n \<and>
    hr_staging_fibers h = sn_staging_fibers n \<and> hr_staging_scopes h = sn_staging_scopes n \<and>
    hr_active_executions h = sn_active_executions n \<and> hr_draining h = sn_draining n \<and>
    hr_provider_inflight h = sn_provider_inflight n \<and> hr_handle_inflight h = sn_handle_inflight n \<and>
    hr_counts h = sn_counts n \<and> hr_shutdown_state h = sn_shutdown_state n \<and>
    sn_handler_count n = length (concat (map sn_handler_ids (sn_fibers n))) \<and>
    hr_status h = health_status (sn_shutdown_state n) (sn_terminated_scopes n) (sn_terminated_fibers n)
      (count_of (\<lambda>f. sn_fiber_state f = WaitingDependencies) (sn_fibers n))"
  unfolding n_def h_def
  by (simp add: health_def snapshot_def coordinator_snapshot_def Let_def count_of_map case_prod_beta records_def scope_records_def
      snapshot_fiber_def snapshot_scope_def length_concat comp_def)

text \<open>
  A healthy report says nothing about failed Fibers: the status does not depend on them, and a running
  Runtime whose only Fiber has failed is reported healthy.
\<close>

definition failed_runtime :: "fiber_record \<Rightarrow> runtime \<Rightarrow> runtime" where
  "failed_runtime r s = s\<lparr>rt_fibers := [(4, \<lparr>fc_plugin_id = 1, fc_inner = r\<lparr>fb_state := Failed\<rparr>\<rparr>)]\<rparr>"

lemma failed_fiber_is_healthy:
  assumes "sc_lifecycle (rt_shutdown s) = ShutdownRunning" and "\<And>r. r \<in> set (scope_records s) \<Longrightarrow> sc_state r \<noteq> ScopeTerminated"
    and "fd_phase (fb_disposal r) = Complete"
  shows "hr_status (health (failed_runtime r s)) = Healthy"
  using assms by (auto simp: health_def health_status_def failed_runtime_def records_def scope_records_def count_of_def Let_def)

text \<open>
  What a rejected quota leaves in the report: its counter goes up by one and the issue is the newest of
  the recent ones, of which there are never more than 64.
\<close>

lemma quota_rejection_reported:
  assumes "quota_error now resource limit scope f s = Some (r, t)"
  shows "hr_quota_rejections (health t) = hr_quota_rejections (health s) + 1 \<and>
    last (hr_recent_errors (health t)) = \<lparr>hi_at = now, hi_kind = QuotaRejectedIssue, hi_scope = scope, hi_fiber = f, hi_invocation = None\<rparr> \<and>
    (length (hr_recent_errors (health s)) \<le> 64 \<longrightarrow> length (hr_recent_errors (health t)) \<le> 64)"
  using assms
  by (auto simp: quota_error_def andthen_def update_def give_def health_def Let_def recent_issues_def push_issue_def)

end
