(* ===== verification/Lifecycle.thy ===== *)
theory Lifecycle
  imports Reload_Properties Shutdown Process_Host
begin

text \<open>
  The operations of the Runtime tied together. Disposal of scopes and of Fibers, activation and
  reconciliation call each other; here each takes the others as the code composes them, with a bound on
  the depth of the calls. A result does not depend on the bound: a larger one gives the same result.

  What remains a parameter (\<open>lifecycle\<close>) is user code and the executor: the starts of plugins, the
  effects, the joins, and what other threads do at each await of a call.
\<close>

section \<open>The recursion\<close>

record lifecycle =
  lf_teardown :: "fiber_id \<Rightarrow> teardown"
  lf_scope :: "scope_id \<Rightarrow> scope_teardown"
  lf_activation :: "fiber_id \<Rightarrow> activation"
  lf_order :: "fiber_id list \<Rightarrow> fiber_id list"  \<comment> \<open>the iteration order of the candidates\<close>

definition tie_teardown ::
  "(scope_id \<Rightarrow> bool \<Rightarrow> disposal_observation run) \<Rightarrow> (service_symbol list \<Rightarrow> unit run) \<Rightarrow> teardown \<Rightarrow> teardown" where
  "tie_teardown scopes reconcile td = td\<lparr>td_child := (\<lambda>c. legacy (scopes c False)), td_reconcile := reconcile\<rparr>"

definition tie_scope ::
  "(scope_id \<Rightarrow> bool \<Rightarrow> disposal_observation run) \<Rightarrow> (fiber_id \<Rightarrow> bool \<Rightarrow> bool \<Rightarrow> bool \<Rightarrow> disposal_observation run)
    \<Rightarrow> scope_teardown \<Rightarrow> scope_teardown" where
  "tie_scope scopes fibers sx = sx\<lparr>sx_child := scopes, sx_fiber := (\<lambda>f persistent. legacy (fibers f False persistent True))\<rparr>"

definition tie_activation ::
  "(fiber_id \<Rightarrow> bool \<Rightarrow> bool \<Rightarrow> bool \<Rightarrow> disposal_observation run) \<Rightarrow> (service_symbol list \<Rightarrow> unit run) \<Rightarrow> activation \<Rightarrow> activation" where
  "tie_activation fibers reconcile ac = ac\<lparr>ac_dispose := (\<lambda>f. fibers f False False True), ac_reconcile := reconcile\<rparr>"

fun scope_disposal_at :: "lifecycle \<Rightarrow> nat \<Rightarrow> scope_id \<Rightarrow> bool \<Rightarrow> disposal_observation run"
  and fiber_disposal_at :: "lifecycle \<Rightarrow> nat \<Rightarrow> fiber_id \<Rightarrow> bool \<Rightarrow> bool \<Rightarrow> bool \<Rightarrow> disposal_observation run"
  and activation_at :: "lifecycle \<Rightarrow> nat \<Rightarrow> fiber_id \<Rightarrow> unit run"
  and reconcile_at :: "lifecycle \<Rightarrow> nat \<Rightarrow> service_symbol list \<Rightarrow> unit run" where
  "scope_disposal_at lf 0 scope persistent = (\<lambda>_. None)"
| "scope_disposal_at lf (Suc n) scope persistent =
     dispose_scope_observation (tie_scope (scope_disposal_at lf n) (fiber_disposal_at lf n) (lf_scope lf scope)) scope persistent"
| "fiber_disposal_at lf 0 f wait persistent allow = (\<lambda>_. None)"
| "fiber_disposal_at lf (Suc n) f wait persistent allow =
     dispose_fiber_observation (tie_teardown (scope_disposal_at lf n) (reconcile_at lf n) (lf_teardown lf f)) f wait persistent allow"
| "activation_at lf 0 f = (\<lambda>_. None)"
| "activation_at lf (Suc n) f = activate (tie_activation (fiber_disposal_at lf n) (reconcile_at lf n) (lf_activation lf f)) f"
| "reconcile_at lf 0 symbols = (\<lambda>_. None)"
| "reconcile_at lf (Suc n) symbols =
     reconcile_symbols (\<lambda>f wait. legacy (fiber_disposal_at lf n f wait False False)) (activation_at lf n) (lf_order lf) symbols"

section \<open>Entry points\<close>

definition dispose_fiber_in :: "lifecycle \<Rightarrow> nat \<Rightarrow> fiber_id \<Rightarrow> unit run" where
  "dispose_fiber_in lf n f = legacy (fiber_disposal_at lf n f False False False)"

definition dispose_scope_in :: "lifecycle \<Rightarrow> nat \<Rightarrow> scope_id \<Rightarrow> unit run" where
  "dispose_scope_in lf n scope = legacy (scope_disposal_at lf n scope False)"

definition install_in :: "lifecycle \<Rightarrow> nat \<Rightarrow> nat \<Rightarrow> installation \<Rightarrow> scope_id \<Rightarrow> fiber_id run" where
  "install_in lf n now i scope =
     install_owned now (tie_activation (fiber_disposal_at lf n) (reconcile_at lf n) (lf_activation lf (in_fiber i))) i scope"

definition reload_in :: "lifecycle \<Rightarrow> nat \<Rightarrow> reload \<Rightarrow> fiber_id \<Rightarrow> reload_outcome run" where
  "reload_in lf n rl old = reload_owned (rl\<lparr>
     rl_activation := tie_activation (fiber_disposal_at lf n) (reconcile_at lf n) (rl_activation rl),
     rl_dispose_old := (\<lambda>f. legacy (fiber_disposal_at lf n f False True False)),
     rl_dispose_staged := (\<lambda>f. legacy (fiber_disposal_at lf n f False False True)),
     rl_dispose_scope := (\<lambda>scope. legacy (scope_disposal_at lf n scope False))\<rparr>) old"

definition shutdown_in :: "lifecycle \<Rightarrow> nat \<Rightarrow> shutdown_env \<Rightarrow> completion_ref \<Rightarrow> unit run" where
  "shutdown_in lf n sh = shutdown (sh\<lparr>sh_scope := (\<lambda>scope. scope_disposal_at lf n scope True),
     sh_fiber := (\<lambda>f. legacy (fiber_disposal_at lf n f False True False))\<rparr>)"

definition host_failure_in :: "lifecycle \<Rightarrow> nat \<Rightarrow> (runtime \<Rightarrow> runtime) \<Rightarrow> fiber_id \<Rightarrow> generation_id \<Rightarrow> unit run" where
  "host_failure_in lf n wait f generation = converge_host_failure wait (dispose_fiber_in lf n) f generation"

text \<open>A hosted plugin: the process is loaded before the Runtime is asked to install or to reload it.\<close>

definition install_hosted ::
  "lifecycle \<Rightarrow> nat \<Rightarrow> peers \<Rightarrow> (session \<Rightarrow> (session \<Rightarrow> session) option) \<Rightarrow> string + bool \<times> bool \<Rightarrow> process_host
    \<Rightarrow> plugin_artifact \<Rightarrow> nat \<Rightarrow> installation \<Rightarrow> scope_id \<Rightarrow> (hosted, fiber_id) run_over" where
  "install_hosted lf n pe expires os host artifact now i scope =
     andthen (on_session (process_load pe expires os host artifact)) (\<lambda>plugin.
       on_runtime (install_in lf n now (i\<lparr>in_descriptor := rp_descriptor plugin\<rparr>) scope))"

definition reload_hosted_detailed ::
  "lifecycle \<Rightarrow> nat \<Rightarrow> peers \<Rightarrow> (session \<Rightarrow> (session \<Rightarrow> session) option) \<Rightarrow> string + bool \<times> bool \<Rightarrow> process_host
    \<Rightarrow> plugin_artifact \<Rightarrow> reload \<Rightarrow> fiber_id \<Rightarrow> (hosted, reload_outcome) run_over" where
  "reload_hosted_detailed lf n pe expires os host artifact rl old =
     andthen (on_session (process_load pe expires os host artifact)) (\<lambda>plugin.
       on_runtime (reload_in lf n (rl\<lparr>rl_installation := (rl_installation rl)\<lparr>in_descriptor := rp_descriptor plugin\<rparr>\<rparr>) old))"

definition reload_hosted ::
  "lifecycle \<Rightarrow> nat \<Rightarrow> peers \<Rightarrow> (session \<Rightarrow> (session \<Rightarrow> session) option) \<Rightarrow> string + bool \<times> bool \<Rightarrow> process_host
    \<Rightarrow> plugin_artifact \<Rightarrow> reload \<Rightarrow> fiber_id \<Rightarrow> (hosted, fiber_id) run_over" where
  "reload_hosted lf n pe expires os host artifact rl old =
     andthen (reload_hosted_detailed lf n pe expires os host artifact rl old) (\<lambda>out. give (legacy_reload_result out))"

section \<open>More fuel, the same result\<close>

text \<open>One run extends another: it returns the same wherever the other returns.\<close>

definition run_le :: "('s, 'a) run_over \<Rightarrow> ('s, 'a) run_over \<Rightarrow> bool" where
  "run_le m n \<longleftrightarrow> (\<forall>s r. m s = Some r \<longrightarrow> n s = Some r)"

named_theorems run_mono \<open>constructs that respect the extension of runs\<close>

lemma run_leD: "run_le m n \<Longrightarrow> m s = Some r \<Longrightarrow> n s = Some r"
  unfolding run_le_def by blast

lemma run_le_refl [run_mono]: "run_le m m"
  by (simp add: run_le_def)

lemma run_le_bot [run_mono]: "run_le (\<lambda>_. None) m"
  by (simp add: run_le_def)

lemma run_le_andthen [run_mono]: "run_le m n \<Longrightarrow> (\<And>a. run_le (f a) (g a)) \<Longrightarrow> run_le (andthen m f) (andthen n g)"
  unfolding run_le_def andthen_def by (auto split: option.splits res.splits)

lemma run_le_settle [run_mono]: "run_le m n \<Longrightarrow> (\<And>r. run_le (f r) (g r)) \<Longrightarrow> run_le (settle m f) (settle n g)"
  unfolding run_le_def settle_def by (fastforce split: option.splits)

lemma run_le_if [run_mono]: "run_le m m' \<Longrightarrow> run_le n n' \<Longrightarrow> run_le (if b then m else n) (if b then m' else n')"
  by simp

lemma run_le_option [run_mono]:
  "run_le m m' \<Longrightarrow> (\<And>a. run_le (f a) (f' a)) \<Longrightarrow> run_le (case x of None \<Rightarrow> m | Some a \<Rightarrow> f a) (case x of None \<Rightarrow> m' | Some a \<Rightarrow> f' a)"
  by (simp split: option.split)

lemma run_le_res [run_mono]:
  "(\<And>a. run_le (f a) (f' a)) \<Longrightarrow> (\<And>e. run_le (g e) (g' e)) \<Longrightarrow> (\<And>p. run_le (h p) (h' p)) \<Longrightarrow>
   run_le (case r of Ok a \<Rightarrow> f a | Err e \<Rightarrow> g e | Panicked p \<Rightarrow> h p) (case r of Ok a \<Rightarrow> f' a | Err e \<Rightarrow> g' e | Panicked p \<Rightarrow> h' p)"
  by (simp split: res.split)

lemma run_le_pair [run_mono]:
  "(\<And>a b. run_le (f a b) (f' a b)) \<Longrightarrow> run_le (case x of (a, b) \<Rightarrow> f a b) (case x of (a, b) \<Rightarrow> f' a b)"
  by (simp split: prod.split)

lemma run_le_legacy [run_mono]: "run_le m n \<Longrightarrow> run_le (legacy m) (legacy n)"
  unfolding legacy_def by (intro run_mono)

lemma run_le_recording [run_mono]: "run_le m n \<Longrightarrow> run_le (recording f phase m) (recording f phase n)"
  unfolding recording_def by (intro run_mono)

lemma run_le_admission [run_mono]: "run_le m n \<Longrightarrow> run_le (with_admission m) (with_admission n)"
  unfolding with_admission_def by (intro run_mono)

subsection \<open>Scopes\<close>

lemma run_le_child_scopes:
  assumes "\<And>c p. run_le (sx_child sx c p) (sx_child sx' c p)"
  shows "run_le (dispose_child_scopes sx persistent cs acc) (dispose_child_scopes sx' persistent cs acc)"
proof (induction cs arbitrary: acc)
  case (Cons c cs)
  show ?case unfolding dispose_child_scopes.simps by (intro run_mono assms Cons.IH)
qed (simp add: run_le_refl)

lemma run_le_scope_fibers:
  assumes "\<And>f p. run_le (sx_fiber sx f p) (sx_fiber sx' f p)"
  shows "run_le (dispose_scope_fibers sx persistent fs acc) (dispose_scope_fibers sx' persistent fs acc)"
proof (induction fs arbitrary: acc)
  case (Cons f fs)
  show ?case unfolding dispose_scope_fibers.simps by (intro run_mono assms Cons.IH)
qed (simp add: run_le_refl)

lemma run_le_scope_disposal:
  assumes "\<And>c p. run_le (scopes c p) (scopes' c p)" and "\<And>f w p a. run_le (fibers f w p a) (fibers' f w p a)"
  shows "run_le (dispose_scope_observation (tie_scope scopes fibers sx) scope persistent)
    (dispose_scope_observation (tie_scope scopes' fibers' sx) scope persistent)"
proof -
  let ?sx = "tie_scope scopes fibers sx" and ?sx' = "tie_scope scopes' fibers' sx"
  have "run_le (dispose_scope_body ?sx scope) (dispose_scope_body ?sx' scope)" unfolding dispose_scope_body_def
    by (intro run_mono run_le_child_scopes run_le_scope_fibers) (simp_all add: tie_scope_def assms run_mono)
  then have "run_le (scope_outcome_of ?sx scope) (scope_outcome_of ?sx' scope)" unfolding scope_outcome_of_def
    by (cases "sx_abort sx") (auto simp: tie_scope_def intro!: run_mono)
  then show ?thesis unfolding dispose_scope_observation_def by (auto simp: tie_scope_def intro!: run_mono)
qed

subsection \<open>Fibers\<close>

lemma children_extended:
  "dispose_children child f s = Some y \<Longrightarrow> (\<And>c. run_le (child c) (child' c)) \<Longrightarrow> dispose_children child' f s = Some y"
proof (induction rule: dispose_children.raw_induct [rotated, consumes 1, case_names 1])
  case (1 loop child f s y)
  show ?case
  proof (cases "fiber f s")
    case (Some r)
    show ?thesis
    proof (cases "fb_child_scopes r = []")
      case False
      let ?c = "last (fb_child_scopes r)"
      obtain r0 t where rt: "recording f ChildScopeCleanup (child ?c) s = Some (r0, t)"
        using 1(2) Some False by (auto simp: Let_def split: option.splits)
      have step: "recording f ChildScopeCleanup (child' ?c) s = Some (r0, t)"
        by (rule run_leD [OF run_le_recording [OF 1(3)] rt])
      show ?thesis
      proof (cases r0)
        case (Ok u)
        then have "loop child f (modify_fiber f (\<lambda>r. r\<lparr>fb_child_scopes := filter (\<lambda>i. i \<noteq> ?c) (fb_child_scopes r)\<rparr>) t) = Some y"
          using 1(2) Some False rt by (simp add: Let_def)
        from 1(1) [OF this 1(3)] Ok Some False step show ?thesis by (subst dispose_children.simps) (simp add: Let_def)
      next
        case (Err e)
        then have "y = (Err e, t)" using 1(2) Some False rt by (simp add: Let_def)
        with Err Some False step show ?thesis by (subst dispose_children.simps) (simp add: Let_def)
      next
        case (Panicked p)
        then have "y = (Panicked p, t)" using 1(2) Some False rt by (simp add: Let_def)
        with Panicked Some False step show ?thesis by (subst dispose_children.simps) (simp add: Let_def)
      qed
    qed (use 1(2) Some in \<open>subst dispose_children.simps, simp\<close>)
  qed (use 1(2) in \<open>subst dispose_children.simps, simp\<close>)
qed

lemma run_le_children: "(\<And>c. run_le (child c) (child' c)) \<Longrightarrow> run_le (dispose_children child f) (dispose_children child' f)"
  unfolding run_le_def [of "dispose_children child f"] by (blast intro: children_extended)

lemma tie_teardown_sel [simp]:
  "td_child (tie_teardown scopes reconcile td) = (\<lambda>c. legacy (scopes c False))" "td_reconcile (tie_teardown scopes reconcile td) = reconcile"
  "td_now (tie_teardown scopes reconcile td) = td_now td" "td_order (tie_teardown scopes reconcile td) = td_order td"
  "td_join (tie_teardown scopes reconcile td) = td_join td" "td_drains (tie_teardown scopes reconcile td) = td_drains td"
  "td_effect (tie_teardown scopes reconcile td) = td_effect td" "td_abort (tie_teardown scopes reconcile td) = td_abort td"
  "td_lock (tie_teardown scopes reconcile td) = td_lock td" "td_other (tie_teardown scopes reconcile td) = td_other td"
  by (simp_all add: tie_teardown_def)

lemma dispose_effect_tied [simp]: "dispose_effect (tie_teardown scopes reconcile td) = dispose_effect td"
  by (simp add: dispose_effect_def fun_eq_iff)

lemma run_le_fiber_disposal:
  assumes "\<And>c p. run_le (scopes c p) (scopes' c p)" and "\<And>symbols. run_le (reconcile symbols) (reconcile' symbols)"
  shows "run_le (dispose_fiber_observation (tie_teardown scopes reconcile td) f wait persistent allow)
    (dispose_fiber_observation (tie_teardown scopes' reconcile' td) f wait persistent allow)"
proof -
  let ?td = "tie_teardown scopes reconcile td" and ?td' = "tie_teardown scopes' reconcile' td"
  have withdraw: "run_le (withdraw_registrations ?td f) (withdraw_registrations ?td' f)"
    unfolding withdraw_registrations_def dispose_effect_tied tie_teardown_sel by (intro run_mono assms)
  have "run_le (teardown_phase ?td f) (teardown_phase ?td' f)" unfolding teardown_phase_def tie_teardown_sel
    by (intro run_mono run_le_children assms withdraw)
  moreover have "run_le (case x of DrainedOutcome \<Rightarrow> m | TimedOut n \<Rightarrow> g n) (case x of DrainedOutcome \<Rightarrow> m' | TimedOut n \<Rightarrow> g n)"
    if "run_le m m'" for x g and m m' :: "worker_end run" using that by (simp add: run_le_refl split: drain_outcome.split)
  ultimately have "run_le (stop_and_teardown ?td f r) (stop_and_teardown ?td' f r)" for r
    unfolding stop_and_teardown_def tie_teardown_sel by (intro run_mono)
  then have "run_le (run_fiber_disposal_body ?td f) (run_fiber_disposal_body ?td' f)"
    unfolding run_fiber_disposal_body_def tie_teardown_sel by (intro run_mono)
  then have "run_le (worker_outcome ?td f) (worker_outcome ?td' f)"
    unfolding worker_outcome_def tie_teardown_sel by (intro run_mono)
  then have "run_le (disposal_worker ?td f) (disposal_worker ?td' f)" unfolding disposal_worker_def by (intro run_mono)
  then show ?thesis unfolding dispose_fiber_observation_def tie_teardown_sel by (intro run_mono)
qed

subsection \<open>Activation\<close>

lemma tie_activation_sel [simp]:
  "ac_dispose (tie_activation fibers reconcile ac) = (\<lambda>f. fibers f False False True)"
  "ac_reconcile (tie_activation fibers reconcile ac) = reconcile" "ac_start (tie_activation fibers reconcile ac) = ac_start ac"
  "ac_lock (tie_activation fibers reconcile ac) = ac_lock ac" "ac_interrupt (tie_activation fibers reconcile ac) = ac_interrupt ac"
  "ac_gap (tie_activation fibers reconcile ac) = ac_gap ac" "ac_gate (tie_activation fibers reconcile ac) = ac_gate ac"
  "ac_barrier (tie_activation fibers reconcile ac) = ac_barrier ac"
  by (simp_all add: tie_activation_def)

lemma tied_parts:
  "commit_activation (tie_activation fibers reconcile ac) = commit_activation ac"
  "start_plugin (tie_activation fibers reconcile ac) = start_plugin ac"
  "begin_activation (tie_activation fibers reconcile ac) = begin_activation ac"
  by (intro ext, simp only: commit_activation_def start_plugin_def begin_activation_def renew_generation_def tie_activation_sel)+

lemma run_le_activation:
  assumes "\<And>f w p a. run_le (fibers f w p a) (fibers' f w p a)" and "\<And>symbols. run_le (reconcile symbols) (reconcile' symbols)"
  shows "run_le (activate (tie_activation fibers reconcile ac) f) (activate (tie_activation fibers' reconcile' ac) f)"
proof -
  let ?ac = "tie_activation fibers reconcile ac" and ?ac' = "tie_activation fibers' reconcile' ac"
  have converge: "run_le (converge_failed_activation ?ac f e) (converge_failed_activation ?ac' f e)" for e
    unfolding converge_failed_activation_def tie_activation_sel by (intro run_mono assms)
  have "run_le (finish_activation ?ac f) (finish_activation ?ac' f)"
    unfolding finish_activation_def tie_activation_sel tied_parts by (intro run_mono assms converge)
  then have "run_le (after_start ?ac f r) (after_start ?ac' f r)" for r
    unfolding after_start_def tie_activation_sel by (intro run_mono converge)
  then have "run_le (activate_body ?ac f) (activate_body ?ac' f)"
    unfolding activate_body_def tie_activation_sel tied_parts by (intro run_mono)
  then show ?thesis unfolding activate_def by (intro run_mono converge)
qed

lemma run_le_reconcile:
  assumes "\<And>f w. run_le (dispose f w) (dispose' f w)" and "\<And>f. run_le (act f) (act' f)"
  shows "run_le (reconcile_symbols dispose act order symbols) (reconcile_symbols dispose' act' order symbols)"
proof -
  have "run_le (reconcile_each dispose act fs) (reconcile_each dispose' act' fs)" for fs
  proof (induction fs)
    case (Cons f fs)
    show ?case unfolding reconcile_each.simps by (intro run_mono assms Cons.IH)
  qed (simp add: run_le_refl)
  then show ?thesis unfolding reconcile_symbols_def by (intro run_mono)
qed

subsection \<open>The recursion\<close>

lemma run_le_Suc:
  "run_le (scope_disposal_at lf n scope persistent) (scope_disposal_at lf (Suc n) scope persistent) \<and>
   run_le (fiber_disposal_at lf n f wait persistent allow) (fiber_disposal_at lf (Suc n) f wait persistent allow) \<and>
   run_le (activation_at lf n f) (activation_at lf (Suc n) f) \<and> run_le (reconcile_at lf n symbols) (reconcile_at lf (Suc n) symbols)"
proof (induction n arbitrary: scope persistent f wait allow symbols)
  case (Suc n)
  have IH: "run_le (scope_disposal_at lf n c p) (scope_disposal_at lf (Suc n) c p)"
    "run_le (fiber_disposal_at lf n f w p a) (fiber_disposal_at lf (Suc n) f w p a)"
    "run_le (activation_at lf n f) (activation_at lf (Suc n) f)" "run_le (reconcile_at lf n ks) (reconcile_at lf (Suc n) ks)"
    for c p f w a ks using Suc.IH by blast+
  have "run_le (dispose_scope_observation (tie_scope (scope_disposal_at lf n) (fiber_disposal_at lf n) (lf_scope lf scope)) scope persistent)
      (dispose_scope_observation (tie_scope (scope_disposal_at lf (Suc n)) (fiber_disposal_at lf (Suc n)) (lf_scope lf scope)) scope persistent)"
    by (intro run_le_scope_disposal IH)
  moreover have "run_le (dispose_fiber_observation (tie_teardown (scope_disposal_at lf n) (reconcile_at lf n) (lf_teardown lf f)) f wait persistent allow)
      (dispose_fiber_observation (tie_teardown (scope_disposal_at lf (Suc n)) (reconcile_at lf (Suc n)) (lf_teardown lf f)) f wait persistent allow)"
    by (intro run_le_fiber_disposal IH)
  moreover have "run_le (activate (tie_activation (fiber_disposal_at lf n) (reconcile_at lf n) (lf_activation lf f)) f)
      (activate (tie_activation (fiber_disposal_at lf (Suc n)) (reconcile_at lf (Suc n)) (lf_activation lf f)) f)"
    by (intro run_le_activation IH)
  moreover have "run_le (reconcile_symbols (\<lambda>f wait. legacy (fiber_disposal_at lf n f wait False False)) (activation_at lf n) (lf_order lf) symbols)
      (reconcile_symbols (\<lambda>f wait. legacy (fiber_disposal_at lf (Suc n) f wait False False)) (activation_at lf (Suc n)) (lf_order lf) symbols)"
    by (intro run_le_reconcile run_le_legacy IH)
  ultimately show ?case
    by (simp only: scope_disposal_at.simps(2) fiber_disposal_at.simps(2) activation_at.simps(2) reconcile_at.simps(2) simp_thms)
qed (simp add: run_le_bot)

lemma run_le_fuel:
  assumes "n \<le> m"
  shows "run_le (scope_disposal_at lf n scope persistent) (scope_disposal_at lf m scope persistent)"
    and "run_le (fiber_disposal_at lf n f wait persistent allow) (fiber_disposal_at lf m f wait persistent allow)"
    and "run_le (activation_at lf n f) (activation_at lf m f)" and "run_le (reconcile_at lf n symbols) (reconcile_at lf m symbols)"
proof -
  have trans: "run_le a c" if "run_le a b" "run_le b c" for a b c :: "'x run" using that unfolding run_le_def by blast
  show "run_le (scope_disposal_at lf n scope persistent) (scope_disposal_at lf m scope persistent)"
    using assms by (induction rule: dec_induct) (use run_le_refl run_le_Suc trans in blast)+
  show "run_le (fiber_disposal_at lf n f wait persistent allow) (fiber_disposal_at lf m f wait persistent allow)"
    using assms by (induction rule: dec_induct) (use run_le_refl run_le_Suc trans in blast)+
  show "run_le (activation_at lf n f) (activation_at lf m f)"
    using assms by (induction rule: dec_induct) (use run_le_refl run_le_Suc trans in blast)+
  show "run_le (reconcile_at lf n symbols) (reconcile_at lf m symbols)"
    using assms by (induction rule: dec_induct) (use run_le_refl run_le_Suc trans in blast)+
qed

end
