(* ===== verification/Activation_Scheduling.thy ===== *)
theory Activation_Scheduling
  imports Lifecycle Gate_Concurrency
begin

text \<open>
  Scheduled activations (\<open>schedule_activation\<close> in \<^verbatim>\<open>runtime/lifecycle.rs\<close>): a service that appears wakes the
  Fibers that wait for it. Requests for one Fiber coalesce into one worker, which activates it again
  when a request arrived during its activation. The theory shows that no request is lost and that no
  Fiber has two workers, under every interleaving of requests, workers and other threads. A worker that a
  shutdown aborts is outside: admission is closed then. Panics of a start are caught by \<open>activate\<close>.
\<close>

section \<open>The worker\<close>

text \<open>The critical section after an activation: whether the worker goes on.\<close>

definition rerun_activation :: "fiber_id \<Rightarrow> runtime \<Rightarrow> bool \<times> runtime" where
  "rerun_activation f s =
     (if aget (rt_pending_activations s) f = Some True
      then (True, s\<lparr>rt_pending_activations := aput f False (rt_pending_activations s)\<rparr>)
      else (False, s\<lparr>rt_pending_activations := adel f (rt_pending_activations s)\<rparr>))"

text \<open>The whole task; a panic of the activation unwinds it.\<close>

partial_function (option) activation_worker ::
  "(fiber_id \<Rightarrow> unit run) \<Rightarrow> fiber_id \<Rightarrow> runtime \<Rightarrow> (unit cres \<times> runtime) option" where
  "activation_worker act f s = (case act f s of
      None \<Rightarrow> None
    | Some (Panicked p, t) \<Rightarrow> Some (Panicked p, t)
    | Some (r, t) \<Rightarrow> (case rerun_activation f t of
          (again, u) \<Rightarrow> if again then activation_worker act f u else Some (r, u)))"

definition scheduled_worker :: "lifecycle \<Rightarrow> nat \<Rightarrow> fiber_id \<Rightarrow> unit run" where
  "scheduled_worker lf n = activation_worker (activation_at lf n)"

section \<open>Requests and workers of one Fiber\<close>

text \<open>
  The workers of the Fiber, in no particular phase (\<open>False\<close>) or in the middle of an activation (\<open>True\<close>), and
  the number of requests since an activation last began.
\<close>

record scheduling =
  sg_runtime :: runtime
  sg_workers :: "bool list"
  sg_unserved :: nat

definition spawned :: "runtime \<Rightarrow> runtime \<Rightarrow> bool" where
  "spawned s t \<longleftrightarrow> rs_next (rt_workers t) \<noteq> rs_next (rt_workers s)"

inductive scheduling_step :: "fiber_id \<Rightarrow> scheduling \<Rightarrow> scheduling \<Rightarrow> bool" for f where
  request: "ag_state (rt_admission (sg_runtime q)) = RUNNING \<Longrightarrow> schedule_activation f (sg_runtime q) = Some (Ok (), t) \<Longrightarrow>
    scheduling_step f q (q\<lparr>sg_runtime := t,
      sg_workers := sg_workers q @ (if spawned (sg_runtime q) t then [False] else []), sg_unserved := Suc (sg_unserved q)\<rparr>)"
| start: "sg_workers q = ws @ False # ws' \<Longrightarrow>
    scheduling_step f q (q\<lparr>sg_workers := ws @ True # ws', sg_unserved := 0\<rparr>)"
| finish: "sg_workers q = ws @ True # ws' \<Longrightarrow> rerun_activation f (sg_runtime q) = (again, t) \<Longrightarrow>
    scheduling_step f q (q\<lparr>sg_runtime := t, sg_workers := ws @ (if again then [False] else []) @ ws'\<rparr>)"
| other: "aget (rt_pending_activations t) f = aget (rt_pending_activations (sg_runtime q)) f \<Longrightarrow>
    scheduling_step f q (q\<lparr>sg_runtime := t\<rparr>)"

definition scheduling_init :: "fiber_id \<Rightarrow> scheduling \<Rightarrow> bool" where
  "scheduling_init f q \<longleftrightarrow> aget (rt_pending_activations (sg_runtime q)) f = None \<and> sg_workers q = [] \<and> sg_unserved q = 0"

interpretation scheduling: transition_system "scheduling_init f" "scheduling_step f" for f .

abbreviation scheduling_reachable :: "fiber_id \<Rightarrow> scheduling \<Rightarrow> bool" where
  "scheduling_reachable f \<equiv> transition_system.reachable (scheduling_init f) (scheduling_step f)"

section \<open>No request is lost\<close>

lemma schedule_activation_admitted:
  assumes "ag_state (rt_admission s) = RUNNING" and "schedule_activation f s = Some (Ok (), t)"
  shows "aget (rt_pending_activations t) f = Some (aget (rt_pending_activations s) f \<noteq> None) \<and>
    (spawned s t \<longleftrightarrow> aget (rt_pending_activations s) f = None)"
  using assms by (auto simp: schedule_activation_def with_admission_def within_def admission_enter_def andthen_def settle_def
      update_def give_def pass_def spawn_worker_def worker_spawn_def spawned_def split: option.splits)

definition scheduling_inv :: "fiber_id \<Rightarrow> scheduling \<Rightarrow> bool" where
  "scheduling_inv f q \<longleftrightarrow> length (sg_workers q) \<le> 1 \<and>
     (aget (rt_pending_activations (sg_runtime q)) f = None \<longleftrightarrow> sg_workers q = []) \<and>
     (sg_unserved q > 0 \<longrightarrow> sg_workers q = [False] \<or> aget (rt_pending_activations (sg_runtime q)) f = Some True)"

lemma scheduling_inv_step: "scheduling_step f q q' \<Longrightarrow> scheduling_inv f q \<Longrightarrow> scheduling_inv f q'"
proof (induction rule: scheduling_step.induct)
  case (request q t)
  from schedule_activation_admitted [OF this(1,2)] request(3) show ?case
    by (auto simp: scheduling_inv_def)
next
  case (finish q ws ws' again t)
  then show ?case
    by (auto simp: scheduling_inv_def rerun_activation_def split: if_splits)
qed (auto simp: scheduling_inv_def)

lemma scheduling_reachable_inv: "scheduling_reachable f q \<Longrightarrow> scheduling_inv f q"
  by (erule scheduling.invariant) (auto simp: scheduling_init_def scheduling_inv_def dest: scheduling_inv_step)

text \<open>
  C40. No scheduled activation is lost. At every moment the Fiber has at most one worker, and after a
  request either that worker has not begun its activation yet, or the request is on record and the
  worker, which is in an activation that began before it, will go round again when it ends.
\<close>

theorem scheduled_activation_is_not_lost:
  assumes "scheduling_reachable f q"
  shows "length (sg_workers q) \<le> 1 \<and>
    (sg_unserved q > 0 \<longrightarrow> sg_workers q = [False] \<or> sg_workers q = [True] \<and> fst (rerun_activation f (sg_runtime q)))"
proof -
  have "scheduling_inv f q" by (rule scheduling_reachable_inv [OF assms])
  moreover have "ws = [] \<or> ws = [False] \<or> ws = [True]" if "length ws \<le> 1" for ws :: "bool list"
    using that by (cases ws) auto
  ultimately show ?thesis by (fastforce simp: scheduling_inv_def rerun_activation_def)
qed

lemma schedule_activation_returns:
  assumes "ag_state (rt_admission s) = RUNNING"
  shows "\<exists>t. schedule_activation f s = Some (Ok (), t) \<and> ag_state (rt_admission t) = RUNNING"
  using assms by (cases "aget (rt_pending_activations s) f")
    (simp_all add: schedule_activation_def with_admission_def within_def admission_enter_def admission_leave_def andthen_def
      settle_def update_def give_def pass_def spawn_worker_def worker_spawn_def)

text \<open>A second request arrives during the activation of the first.\<close>

theorem scheduled_activation_is_not_lost_witness:
  "\<exists>q. scheduling_reachable 4 q \<and> sg_workers q = [True] \<and> sg_unserved q = 1 \<and> fst (rerun_activation 4 (sg_runtime q))"
proof -
  have s: "ag_state (rt_admission example_runtime) = RUNNING" "rt_pending_activations example_runtime = []"
    by (simp_all add: example_runtime_sel admission_default_def)
      (simp add: example_runtime_def empty_runtime_def runtime_with_config_def config_default_valid)
  obtain t where t: "schedule_activation 4 example_runtime = Some (Ok (), t)" "ag_state (rt_admission t) = RUNNING"
    using schedule_activation_returns [OF s(1)] by blast
  obtain u where u: "schedule_activation 4 t = Some (Ok (), u)" using schedule_activation_returns [OF t(2)] by blast
  have new: "spawned example_runtime t" "aget (rt_pending_activations t) 4 = Some False"
    using schedule_activation_admitted [OF s(1) t(1)] s(2) by auto
  then have old: "\<not> spawned t u" using schedule_activation_admitted [OF t(2) u] by simp
  let ?q0 = "\<lparr>sg_runtime = example_runtime, sg_workers = [], sg_unserved = 0\<rparr>"
  let ?q1 = "\<lparr>sg_runtime = t, sg_workers = [False], sg_unserved = 1\<rparr>"
  let ?q2 = "\<lparr>sg_runtime = t, sg_workers = [True], sg_unserved = 0\<rparr>"
  let ?q3 = "\<lparr>sg_runtime = u, sg_workers = [True], sg_unserved = 1\<rparr>"
  have "scheduling_step 4 ?q0 ?q1" using scheduling_step.request [of ?q0 4 t] s t new by simp
  moreover have "scheduling_step 4 ?q1 ?q2" using scheduling_step.start [of ?q1 "[]" "[]" 4] by simp
  moreover have "scheduling_step 4 ?q2 ?q3" using scheduling_step.request [of ?q2 4 u] t u old by simp
  moreover have "scheduling_reachable 4 ?q0"
    by (rule scheduling.start) (simp add: scheduling_init_def s)
  ultimately have q: "scheduling_reachable 4 ?q3" by (blast intro: scheduling.step)
  from scheduled_activation_is_not_lost [OF q] q show ?thesis by auto
qed

end
