(* ===== verification/Spec2Isabelle.thy ===== *)
theory Spec2Isabelle
  imports Gate_Concurrency Installation Ownership_Properties Scope_Disposal_Properties Host_Protocol_Properties
    Process_Session_Properties Process_Concurrency Process_Host_Properties Introspection Activation_Scheduling
begin

text \<open>
  A verification development for the Cordis plugin kernel, the Rust crates \<^verbatim>\<open>cordis-core\<close> and
  \<^verbatim>\<open>cordis-runtime\<close>. File names below are relative to \<^verbatim>\<open>src/cordis-runtime/src\<close>.

  \<^bold>\<open>The program.\<close> A Runtime owns a tree of scopes. Plugins are installed into scopes; each installation is a
  Fiber with a generation, and a Fiber acts through a Context. Through it a plugin provides and looks up
  services, registers event and invocation handlers, spawns tasks, creates scopes and registers effects.
  Every generation has a capability gate, a packed word of state and in-flight leases; one selector per
  logical plugin decides which generation is visible. Disposal revokes a generation, drains its leases and
  withdraws what the Fiber registered. A reload stages a second generation and switches over in one
  commit, or undoes it. Shutdown closes admission and disposes the tree under a deadline. A hosted plugin
  is a proxy whose process speaks a framed protocol over pipes.

  \<^bold>\<open>Form of the model.\<close> Structs are records, enums datatypes, machine integers words, arenas and hash
  maps association lists in iteration order (\<open>amap\<close>, theory \<open>Prelude\<close>). An arena key that the code allocates
  is an argument. A result is \<open>Ok\<close>, \<open>Err\<close> or \<open>Panicked\<close> (\<open>res\<close>). An operation is a run (\<open>Runs\<close>): from a state it
  gives a result and the next state, or \<open>None\<close> when it does not return. A region that holds locks is one
  step; at an await, and between two critical sections, a function parameter says what other threads do.
  Plugins, effects, handlers and middleware are function parameters. Protocols whose correctness is
  a matter of interleavings are step relations with invariants over their reachable states. \<open>Run_Triples\<close>
  has one law for each construct of runs, and the preservation proofs are chains of these laws.

  \<^bold>\<open>Theories.\<close>
  \<^item> \<open>Core_Types\<close>: the contracts of \<^verbatim>\<open>cordis-core\<close>, with the Fiber state machine and the error taxonomy.
  \<^item> \<open>Interfaces\<close>: the locales between components, leases (interpreted by the capability gate) and one-shot
    slots (interpreted by the two kinds of completion). \<open>Prelude\<close> has the transition systems, interpreted
    by every step relation.
  \<^item> \<open>Gate\<close>, \<open>Gate_Concurrency\<close> (\<^verbatim>\<open>gate.rs\<close>): admission gate, selectors, capability gates, the compare-and-swap
    loops of the execution word under interleaving, and their refinement to a counter that closes once.
  \<^item> \<open>Runtime_Config\<close> (\<^verbatim>\<open>config.rs\<close>), \<open>Plugin_Registry\<close>, \<open>Service_Registry\<close>, \<open>Dependency_Graph\<close>, \<open>Scope_Registry\<close>,
    \<open>Disposal\<close>, \<open>Event_Bus\<close>, \<open>Invocation\<close>, \<open>Health\<close>, \<open>Shutdown_Coordinator\<close>, \<open>Tasks\<close>: the files of the same names.
  \<^item> \<open>Runtime_State\<close> (\<^verbatim>\<open>runtime/mod.rs\<close>, \<^verbatim>\<open>fiber_registry.rs\<close>): the state all of these make up, and access to it.
  \<^item> \<open>Garbage\<close>, \<open>Introspection\<close> (\<^verbatim>\<open>runtime/snapshot.rs\<close>, \<^verbatim>\<open>health.rs\<close>): collection, health report, snapshot.
  \<^item> \<open>Context_Ops\<close>, \<open>Context_Calls\<close>, \<open>Context_Properties\<close> (\<^verbatim>\<open>context.rs\<close>, \<^verbatim>\<open>service_handle.rs\<close>).
  \<^item> \<open>Fiber_Disposal\<close>, \<open>Disposal_Properties\<close> (\<^verbatim>\<open>runtime/disposal.rs\<close>); \<open>Scope_Disposal\<close> and its properties
    (\<^verbatim>\<open>runtime/scope.rs\<close>); \<open>Activation\<close>, \<open>Activation_Properties\<close>, \<open>Installation\<close> (\<^verbatim>\<open>runtime/fiber.rs\<close>,
    \<^verbatim>\<open>runtime/dependency.rs\<close>); \<open>Reload\<close> and its properties (\<^verbatim>\<open>runtime/fiber.rs\<close>); \<open>Shutdown\<close> and its properties
    (\<^verbatim>\<open>runtime/shutdown.rs\<close>). Each takes the operations of the others as parameters.
  \<^item> \<open>Lifecycle\<close> ties these parameters to the operations they stand for and adds hosted installation and
    reload; \<open>Activation_Scheduling\<close> is the worker of scheduled activations (\<^verbatim>\<open>runtime/lifecycle.rs\<close>).
  \<^item> \<open>Ownership\<close>, \<open>Ownership_Lifecycle\<close>, \<open>Ownership_Properties\<close> add no code to the model. They hold the invariant
    that joins the registries to the Fibers - every registration is listed by a Fiber, at its scope and
    under its generation - with one lemma \<open>owned_...\<close> for each operation of a Context and of the lifecycle
    that keeps it: registration, activation, installation, disposal, reload commit, collection, shutdown.
  \<^item> \<open>Host_Protocol\<close>, \<open>Host_Protocol_Properties\<close> (\<^verbatim>\<open>host/protocol.rs\<close>): messages, encoder, decoder. The locale
    \<open>wire_codec\<close> is the contract of one field, interpreted for every kind of field.
  \<^item> \<open>Process_Session\<close> with its properties, \<open>Process_Concurrency\<close>, \<open>Process_Host\<close> with its properties
    (\<^verbatim>\<open>host.rs\<close>, \<^verbatim>\<open>host/process.rs\<close>): the session with its request table and its three actors, the races
    between requests and the end of the session, the client, the owner and the proxy plugin.

  \<^bold>\<open>What is shown.\<close> Each property carries a claim number in front of its statement. Gates: leases are counted
  exactly under every interleaving, a cutover is atomic, a closed admission gate stays empty. Registries:
  resolution with a cache equals resolution without, the scope tree stays a tree, cycle detection decides
  cyclicity. Dispatch: one generation per dispatch, every lease returned, at most one visible
  handler for a scope and key. Lifecycle: a revoked Context is inert, quotas hold, commits of activations and reloads
  are all or nothing, rejected installations leave no trace, disposals withdraw everything and publish
  once, scheduled activations are not lost. Composition: every registration has an owner, so a disposal
  leaves nothing that is the Fiber's, and a complete shutdown leaves no Fiber and empty registries. Host: the codec round-trips and
  rejects what is malformed, no request waits on an ended session, a response reaches its request,
  negotiation only lowers limits, invocations give everything back, a started process has an owner.
  Some theorems state what the code does where it does not do what it means to: a forbidden final state that
  is written, a staged activation over a disposal, a live process that a shutdown report misses, a
  frame limit that is read too early, and a service that is provided across the commit of a reload and is
  entered at the scope the Fiber has left.

  \<^bold>\<open>Bounds.\<close> Loops that end by their data are total functions; loops that may not end are
  \<open>partial_function (option)\<close>, and \<open>None\<close> is a call that never returns. The mutual recursion of \<open>Lifecycle\<close> has a
  depth bound, and a result under one bound is the result under every larger one (\<open>run_le_fuel\<close>).
  A shutdown has the four residue rounds of the code. Drains and waits take the list of their wake-ups.
  Lengths and counts are natural numbers where the code has a \<^verbatim>\<open>usize\<close> that counts the elements of a
  collection in memory.

  \<^bold>\<open>Not modelled.\<close> The executor, timers, operating-system processes and pipes are parameters. Renderings
  (\<^verbatim>\<open>Display\<close>) are kept as structured texts and never as characters. UTF-8 validity of wire strings is the
  standard library's. Test hooks, the fixture binary, examples and benches have no behaviour of
  their own to specify. The sleep and timeout helpers of a Context only select on timers.
\<close>

end
